(* ===== verification/Go_Prelude.thy ===== *)
theory Go_Prelude
  imports Main "HOL-Library.Word" "HOL-Library.Sublist"
begin

text \<open>
  What every component of the model shares: Go strings and the functions of the package
  \<open>strings\<close> the program calls, results that carry an error, and the collections of
  simplification rules the component theories extend.

  A Go string is a sequence of bytes, so it is modelled as a \<open>char list\<close> (a HOL
  \<open>char\<close> is one byte); \<open>length\<close> is Go's \<open>len\<close>. A Unicode code point beyond
  ASCII is several bytes, exactly as in the program. An index into a string that a loop
  advances is modelled by the suffix of the string that starts there.

  \<open>trim_space\<close> is \<open>strings.TrimSpace\<close> with all the code points \<open>unicode.IsSpace\<close> accepts,
  written as their UTF-8 bytes. \<open>to_lower\<close> is \<open>strings.ToLower\<close> on ASCII, and on the two
  code points whose lower case is an ASCII letter (U+212A and U+0130); other letters beyond
  ASCII are kept, which is exact wherever the program compares the result with an ASCII
  literal. \<open>equal_fold\<close> is \<open>strings.EqualFold\<close> against a literal of ASCII letters other
  than k and s (the program's only use here is the literal \<open>all\<close>).
\<close>

named_theorems go_simps \<open>equations of the string library and of the small helpers\<close>
named_theorems inv_intros \<open>introduction rules for the invariants of the components\<close>

type_synonym u64 = "64 word"

subsection \<open>Results with errors\<close>

type_synonym ('e, 'a) result = "'e + 'a"

definition is_ok :: "('e, 'a) result \<Rightarrow> bool" where
  "is_ok r = (case r of Inl _ \<Rightarrow> False | Inr _ \<Rightarrow> True)"

lemma is_ok_simps [simp]: "is_ok (Inr a)" "\<not> is_ok (Inl e)"
  by (simp_all add: is_ok_def)

lemma is_okE: "is_ok r \<Longrightarrow> (\<And>a. r = Inr a \<Longrightarrow> P) \<Longrightarrow> P"
  by (cases r) (auto simp: is_ok_def)

subsection \<open>Prefixes, suffixes, search\<close>

definition has_prefix :: "string \<Rightarrow> string \<Rightarrow> bool" where
  "has_prefix s p = (take (length p) s = p)"

definition has_suffix :: "string \<Rightarrow> string \<Rightarrow> bool" where
  "has_suffix s p = (length p \<le> length s \<and> drop (length s - length p) s = p)"

definition trim_prefix :: "string \<Rightarrow> string \<Rightarrow> string" where
  "trim_prefix s p = (if has_prefix s p then drop (length p) s else s)"

fun contains :: "string \<Rightarrow> string \<Rightarrow> bool" where
  "contains [] p = (p = [])"
| "contains (c # s) p = (has_prefix (c # s) p \<or> contains s p)"

definition contains_any :: "string \<Rightarrow> string \<Rightarrow> bool" where
  "contains_any s cs = list_ex (\<lambda>c. c \<in> set cs) s"

lemma has_prefix_iff: "has_prefix s p \<longleftrightarrow> (\<exists>r. s = p @ r)"
  unfolding has_prefix_def by (metis append_eq_conv_conj append_take_drop_id)

lemma has_prefix_Nil [simp]: "has_prefix s []"
  by (simp add: has_prefix_def)

lemma has_prefix_self_append [simp]: "has_prefix (p @ r) p"
  by (simp add: has_prefix_def)

lemma has_prefix_refl [simp]: "has_prefix p p"
  by (simp add: has_prefix_def)

lemma has_suffix_iff: "has_suffix s p \<longleftrightarrow> (\<exists>r. s = r @ p)"
proof
  assume h: "has_suffix s p"
  then have "s = take (length s - length p) s @ p"
    unfolding has_suffix_def by (metis append_take_drop_id)
  then show "\<exists>r. s = r @ p" by blast
next
  assume "\<exists>r. s = r @ p"
  then show "has_suffix s p" by (auto simp: has_suffix_def)
qed

lemma contains_iff: "contains s p \<longleftrightarrow> (\<exists>a b. s = a @ p @ b)"
proof (induction s)
  case Nil
  then show ?case by auto
next
  case (Cons c s)
  have "(\<exists>a b. c # s = a @ p @ b) \<longleftrightarrow> (\<exists>b. c # s = p @ b) \<or> (\<exists>a b. s = a @ p @ b)"
    (is "?L \<longleftrightarrow> ?A \<or> ?B")
  proof
    assume ?L
    then obtain a b where ab: "c # s = a @ p @ b" by blast
    show "?A \<or> ?B"
    proof (cases a)
      case Nil
      with ab show ?thesis by auto
    next
      case (Cons d a')
      with ab have "s = a' @ p @ b" by simp
      then show ?thesis by blast
    qed
  next
    assume "?A \<or> ?B"
    then show ?L
    proof
      assume ?A then show ?L by (metis append_Nil)
    next
      assume ?B then show ?L by (metis append_Cons)
    qed
  qed
  with Cons.IH show ?case by (simp add: has_prefix_iff)
qed

lemma contains_any_iff: "contains_any s cs \<longleftrightarrow> (\<exists>c \<in> set s. c \<in> set cs)"
  by (auto simp: contains_any_def list_ex_iff)

subsection \<open>White space\<close>

definition ascii_space :: "char \<Rightarrow> bool" where
  "ascii_space c = (c \<in> {CHR 0x09, CHR 0x0A, CHR 0x0B, CHR 0x0C, CHR 0x0D, CHR 0x20})"

text \<open>\<open>unicode.IsSpace(rune(b))\<close> for one byte \<open>b\<close>: the Latin-1 white space.\<close>

definition byte_space :: "char \<Rightarrow> bool" where
  "byte_space c = (ascii_space c \<or> c = CHR 0x85 \<or> c = CHR 0xA0)"

text \<open>The white space code points beyond Latin-1, as three bytes of UTF-8.\<close>

definition space3 :: "char \<Rightarrow> char \<Rightarrow> char \<Rightarrow> bool" where
  "space3 c d e =
     ((c = CHR 0xE1 \<and> d = CHR 0x9A \<and> e = CHR 0x80) \<or>
      (c = CHR 0xE2 \<and> d = CHR 0x80 \<and>
         e \<in> {CHR 0x80, CHR 0x81, CHR 0x82, CHR 0x83, CHR 0x84, CHR 0x85, CHR 0x86, CHR 0x87,
              CHR 0x88, CHR 0x89, CHR 0x8A, CHR 0xA8, CHR 0xA9, CHR 0xAF}) \<or>
      (c = CHR 0xE2 \<and> d = CHR 0x81 \<and> e = CHR 0x9F) \<or>
      (c = CHR 0xE3 \<and> d = CHR 0x80 \<and> e = CHR 0x80))"

definition space2 :: "char \<Rightarrow> char \<Rightarrow> bool" where
  "space2 c d = (c = CHR 0xC2 \<and> (d = CHR 0x85 \<or> d = CHR 0xA0))"

text \<open>The bytes of the white space code point at the front (at the back) of a string.\<close>

fun space_len :: "string \<Rightarrow> nat" where
  "space_len [] = 0"
| "space_len (c # r) =
     (if ascii_space c then 1
      else case r of [] \<Rightarrow> 0
        | d # r2 \<Rightarrow> if space2 c d then 2
            else case r2 of [] \<Rightarrow> 0 | e # _ \<Rightarrow> if space3 c d e then 3 else 0)"

fun space_len_rev :: "string \<Rightarrow> nat" where
  "space_len_rev [] = 0"
| "space_len_rev (c # r) =
     (if ascii_space c then 1
      else case r of [] \<Rightarrow> 0
        | d # r2 \<Rightarrow> if space2 d c then 2
            else case r2 of [] \<Rightarrow> 0 | e # _ \<Rightarrow> if space3 e d c then 3 else 0)"

function trim_front :: "(string \<Rightarrow> nat) \<Rightarrow> string \<Rightarrow> string" where
  "trim_front f s = (if f s = 0 \<or> s = [] then s else trim_front f (drop (f s) s))"
  by pat_completeness auto
termination
  by (relation "measure (\<lambda>(f, s). length s)") auto

declare trim_front.simps [simp del]

definition trim_space :: "string \<Rightarrow> string" where
  "trim_space s = rev (trim_front space_len_rev (rev (trim_front space_len s)))"

lemma trim_front_stop: "f s = 0 \<Longrightarrow> trim_front f s = s"
  by (subst trim_front.simps) simp

lemma trim_front_done: "f (trim_front f s) = 0 \<or> trim_front f s = []"
proof (induction f s rule: trim_front.induct)
  case (1 f s)
  show ?case
  proof (cases "f s = 0 \<or> s = []")
    case True
    then show ?thesis by (subst (1 2) trim_front.simps) auto
  next
    case False
    with 1 show ?thesis by (subst (1 2) trim_front.simps) auto
  qed
qed

lemma trim_front_suffix: "\<exists>r. s = r @ trim_front f s"
proof (induction f s rule: trim_front.induct)
  case (1 f s)
  show ?case
  proof (cases "f s = 0 \<or> s = []")
    case True
    then show ?thesis by (subst trim_front.simps) auto
  next
    case False
    then obtain r where "drop (f s) s = r @ trim_front f (drop (f s) s)" using 1 by blast
    then have "s = (take (f s) s @ r) @ trim_front f (drop (f s) s)"
      by (metis append.assoc append_take_drop_id)
    with False show ?thesis by (metis trim_front.simps)
  qed
qed

lemma length_trim_front: "length (trim_front f s) \<le> length s"
  using trim_front_suffix [of s f] by (metis length_append le_add2)

lemma space_len_Nil_iff [simp]: "space_len [] = 0" "space_len_rev [] = 0"
  by simp_all

lemma space_len_prefix: "space_len (p @ r) = 0 \<Longrightarrow> space_len p = 0"
  by (cases p rule: space_len.cases) (auto split: list.splits if_splits)

lemma trim_space_prefix: "\<exists>r. trim_front space_len s = trim_space s @ r"
proof -
  let ?t = "trim_front space_len s"
  obtain r where "rev ?t = r @ trim_front space_len_rev (rev ?t)"
    using trim_front_suffix by blast
  then have "?t = rev (trim_front space_len_rev (rev ?t)) @ rev r"
    by (metis rev_append rev_rev_ident)
  then show ?thesis unfolding trim_space_def by blast
qed

lemma trim_space_ends:
  "space_len (trim_space s) = 0" "space_len_rev (rev (trim_space s)) = 0"
proof -
  have "space_len (trim_front space_len s) = 0"
    using trim_front_done [of space_len s] by auto
  then show "space_len (trim_space s) = 0"
    using trim_space_prefix [of s] space_len_prefix by metis
  show "space_len_rev (rev (trim_space s)) = 0"
    using trim_front_done [of space_len_rev] unfolding trim_space_def by force
qed

lemma trim_space_id: "space_len s = 0 \<Longrightarrow> space_len_rev (rev s) = 0 \<Longrightarrow> trim_space s = s"
  by (simp add: trim_space_def trim_front_stop)

lemma trim_space_idem [simp]: "trim_space (trim_space s) = trim_space s"
  by (rule trim_space_id) (rule trim_space_ends)+

lemma trim_space_Nil [simp]: "trim_space [] = []"
  by (simp add: trim_space_id)

lemma trim_space_sublist: "\<exists>a b. s = a @ trim_space s @ b"
  using trim_front_suffix [of s space_len] trim_space_prefix [of s] by metis

lemma length_trim_space: "length (trim_space s) \<le> length s"
  using trim_space_sublist [of s] by (metis length_append le_add1 le_add2 le_trans)

lemma set_trim_space: "set (trim_space s) \<subseteq> set s"
  using trim_space_sublist [of s] by (metis set_append Un_upper1 Un_upper2 subset_trans)

subsection \<open>Letter case\<close>

definition ascii_upper :: "char \<Rightarrow> bool" where
  "ascii_upper c = (65 \<le> (of_char c :: nat) \<and> (of_char c :: nat) \<le> 90)"

definition lower_char :: "char \<Rightarrow> char" where
  "lower_char c = (if ascii_upper c then char_of ((of_char c :: nat) + 32) else c)"

fun to_lower :: "string \<Rightarrow> string" where
  "to_lower [] = []"
| "to_lower (a # b # c # s) =
     (if a = CHR 0xE2 \<and> b = CHR 0x84 \<and> c = CHR 0xAA then CHR ''k'' # to_lower s
      else if a = CHR 0xC4 \<and> b = CHR 0xB0 then CHR ''i'' # to_lower (c # s)
      else lower_char a # to_lower (b # c # s))"
| "to_lower (a # b # s) =
     (if a = CHR 0xC4 \<and> b = CHR 0xB0 then CHR ''i'' # to_lower s
      else lower_char a # to_lower (b # s))"
| "to_lower (a # s) = lower_char a # to_lower s"

definition equal_fold :: "string \<Rightarrow> string \<Rightarrow> bool" where
  "equal_fold s t = (map lower_char s = map lower_char t)"

definition is_ascii :: "string \<Rightarrow> bool" where
  "is_ascii s = list_all (\<lambda>c. (of_char c :: nat) < 128) s"

subsection \<open>Decimal digits\<close>

definition digit_char :: "char \<Rightarrow> bool" where
  "digit_char c = (48 \<le> (of_char c :: nat) \<and> (of_char c :: nat) \<le> 57)"

definition letter_char :: "char \<Rightarrow> bool" where
  "letter_char c = ((97 \<le> (of_char c :: nat) \<and> (of_char c :: nat) \<le> 122) \<or> ascii_upper c)"

subsection \<open>Splitting and joining\<close>

text \<open>\<open>strings.Split(s, sep)\<close> for a separator of one byte, and \<open>strings.Join\<close>.\<close>

fun split_char :: "char \<Rightarrow> string \<Rightarrow> string list" where
  "split_char x [] = [[]]"
| "split_char x (c # s) =
     (if c = x then [] # split_char x s
      else case split_char x s of [] \<Rightarrow> [[c]] | w # ws \<Rightarrow> (c # w) # ws)"

fun join :: "string \<Rightarrow> string list \<Rightarrow> string" where
  "join sep [] = []"
| "join sep [w] = w"
| "join sep (w # ws) = w @ sep @ join sep ws"

lemma split_char_not_Nil [simp]: "split_char x s \<noteq> []"
  by (induction s) (auto split: list.splits)

lemma join_Cons_char: "join sep ((c # w) # ws) = c # join sep (w # ws)"
  by (cases ws) simp_all

lemma join_Cons_Nil: "ws \<noteq> [] \<Longrightarrow> join sep ([] # ws) = sep @ join sep ws"
  by (cases ws) simp_all

lemma join_split_char: "join [x] (split_char x s) = s"
proof (induction s)
  case Nil
  then show ?case by simp
next
  case (Cons c s)
  then show ?case
    by (cases "split_char x s") (auto simp: join_Cons_char join_Cons_Nil)
qed

lemma split_char_append:
  "x \<notin> set w \<Longrightarrow> split_char x (w @ x # s) = w # split_char x s"
  by (induction w) auto

lemma split_char_none: "x \<notin> set w \<Longrightarrow> split_char x w = [w]"
  by (induction w) auto

lemma split_char_join:
  "cs \<noteq> [] \<Longrightarrow> \<forall>c \<in> set cs. x \<notin> set c \<Longrightarrow> split_char x (join [x] cs) = cs"
proof (induction cs)
  case Nil
  then show ?case by simp
next
  case (Cons c cs)
  then show ?case
    by (cases cs) (simp_all add: split_char_none split_char_append del: split_char.simps)
qed

subsection \<open>Lists without repetition, in order of first occurrence\<close>

definition append_new :: "'a list \<Rightarrow> 'a \<Rightarrow> 'a list" where
  "append_new xs x = (if x \<in> set xs then xs else xs @ [x])"

lemma set_append_new [simp]: "set (append_new xs x) = insert x (set xs)"
  by (auto simp: append_new_def)

lemma distinct_append_new [simp]: "distinct xs \<Longrightarrow> distinct (append_new xs x)"
  by (auto simp: append_new_def)

subsection \<open>Decimal numbers\<close>

text \<open>\<open>%d\<close> of a number that is not negative.\<close>

fun digits_of :: "nat \<Rightarrow> string" where
  "digits_of n = (if n < 10 then [char_of (48 + n)] else digits_of (n div 10) @ [char_of (48 + n mod 10)])"

declare digits_of.simps [simp del]

lemma digits_of_small: "n < 10 \<Longrightarrow> digits_of n = [char_of (48 + n)]"
  by (subst digits_of.simps) simp

lemma digits_of_step: "\<not> n < 10 \<Longrightarrow> digits_of n = digits_of (n div 10) @ [char_of (48 + n mod 10)]"
  by (subst digits_of.simps) simp

text \<open>\<open>strconv.ParseUint(s, 10, 64)\<close>.\<close>

definition parse_uint64 :: "string \<Rightarrow> nat option" where
  "parse_uint64 s =
     (if s = [] \<or> \<not> list_all digit_char s then None
      else let n = foldl (\<lambda>a c. 10 * a + (of_char c - 48)) 0 s in
        if n < 2 ^ 64 then Some n else None)"

lemma of_char_digit: "k < 10 \<Longrightarrow> (of_char (char_of (48 + k :: nat)) :: nat) = 48 + k"
  by (simp add: of_char_of)

lemma digit_char_of: "k < 10 \<Longrightarrow> digit_char (char_of (48 + k :: nat))"
  by (simp add: digit_char_def of_char_digit)

lemma digits_of_digits: "list_all digit_char (digits_of n) \<and> digits_of n \<noteq> []"
proof (induction n rule: digits_of.induct)
  case (1 n)
  show ?case
  proof (cases "n < 10")
    case True
    then show ?thesis by (simp add: digits_of_small digit_char_of)
  next
    case False
    with 1 have "list_all digit_char (digits_of (n div 10))" by blast
    with False show ?thesis by (simp add: digits_of_step digit_char_of)
  qed
qed

lemma foldl_digits_of: "foldl (\<lambda>a c. 10 * a + (of_char c - 48)) 0 (digits_of n) = n"
proof (induction n rule: digits_of.induct)
  case (1 n)
  show ?case
  proof (cases "n < 10")
    case True
    then show ?thesis by (simp add: digits_of_small of_char_digit)
  next
    case False
    with 1 have "foldl (\<lambda>a c. 10 * a + (of_char c - 48)) 0 (digits_of (n div 10)) = n div 10" by blast
    with False show ?thesis by (simp add: digits_of_step of_char_digit)
  qed
qed

lemma parse_uint64_digits: "n < 2 ^ 64 \<Longrightarrow> parse_uint64 (digits_of n) = Some n"
  using digits_of_digits [of n] by (simp add: parse_uint64_def foldl_digits_of Let_def)

end
