(* ===== verification/Str_Util.thy ===== *)
theory Str_Util
  imports Go_Prelude
begin

text \<open>
  The package \<open>internal/base/strutil\<close>: truncation of strings by bytes and by code points,
  and removal of control characters, over a model of Go's UTF-8 decoder
  (\<open>utf8.DecodeRuneInString\<close>, \<open>range\<close> over a string, \<open>utf8.ValidString\<close>). A byte that
  does not start a well-formed sequence decodes to U+FFFD of width one, as in Go. Sizes are
  \<open>int\<close>, since the callers may pass a negative limit.
\<close>

subsection \<open>Decoding UTF-8\<close>

abbreviation byte :: "char \<Rightarrow> nat" where
  "byte c \<equiv> of_char c"

definition rune_error :: nat where
  "rune_error = 65533"

definition cont_byte :: "nat \<Rightarrow> bool" where
  "cont_byte b = (128 \<le> b \<and> b \<le> 191)"

definition second_ok :: "nat \<Rightarrow> nat \<Rightarrow> bool" where
  "second_ok b0 b1 =
     (if b0 = 224 then 160 \<le> b1 \<and> b1 \<le> 191
      else if b0 = 237 then 128 \<le> b1 \<and> b1 \<le> 159
      else if b0 = 240 then 144 \<le> b1 \<and> b1 \<le> 191
      else if b0 = 244 then 128 \<le> b1 \<and> b1 \<le> 143
      else cont_byte b1)"

text \<open>The code point at the front of a non-empty string and the bytes it takes.\<close>

definition next_rune :: "string \<Rightarrow> nat \<times> nat" where
  "next_rune s = (case map byte s of
       [] \<Rightarrow> (rune_error, 0)
     | b0 # r0 \<Rightarrow>
         if b0 < 128 then (b0, 1)
         else if b0 < 194 \<or> 244 < b0 then (rune_error, 1)
         else (case r0 of
             [] \<Rightarrow> (rune_error, 1)
           | b1 # r1 \<Rightarrow>
               if \<not> second_ok b0 b1 then (rune_error, 1)
               else if b0 < 224 then ((b0 - 192) * 64 + (b1 - 128), 2)
               else (case r1 of
                   [] \<Rightarrow> (rune_error, 1)
                 | b2 # r2 \<Rightarrow>
                     if \<not> cont_byte b2 then (rune_error, 1)
                     else if b0 < 240
                       then ((b0 - 224) * 4096 + (b1 - 128) * 64 + (b2 - 128), 3)
                     else (case r2 of
                         [] \<Rightarrow> (rune_error, 1)
                       | b3 # _ \<Rightarrow>
                           if \<not> cont_byte b3 then (rune_error, 1)
                           else ((b0 - 240) * 262144 + (b1 - 128) * 4096
                                   + (b2 - 128) * 64 + (b3 - 128), 4)))))"

lemma next_rune_size: "snd (next_rune (c # s)) \<in> {1, 2, 3, 4}"
  by (auto simp: next_rune_def split: list.splits)

lemma next_rune_ascii: "byte c < 128 \<Longrightarrow> next_rune (c # s) = (byte c, 1)"
  by (simp add: next_rune_def)

text \<open>The code points of a string, each with the bytes it was read from.\<close>

fun rune_chunks :: "string \<Rightarrow> (nat \<times> string) list" where
  "rune_chunks [] = []"
| "rune_chunks (c # s) =
     (let (r, n) = next_rune (c # s) in (r, take n (c # s)) # rune_chunks (drop (n - 1) s))"

definition runes :: "string \<Rightarrow> nat list" where
  "runes s = map fst (rune_chunks s)"

definition bad_chunk :: "nat \<times> string \<Rightarrow> bool" where
  "bad_chunk p = (fst p = rune_error \<and> length (snd p) = 1)"

definition valid_utf8 :: "string \<Rightarrow> bool" where
  "valid_utf8 s = list_all (\<lambda>p. \<not> bad_chunk p) (rune_chunks s)"

lemma rune_chunks_concat: "concat (map snd (rune_chunks s)) = s"
proof (induction s rule: rune_chunks.induct)
  case 1
  then show ?case by simp
next
  case (2 c s)
  obtain r n where rn: "next_rune (c # s) = (r, n)" by (cases "next_rune (c # s)")
  with next_rune_size [of c s] have "n \<noteq> 0" by auto
  then have "take n (c # s) @ drop (n - 1) s = c # s"
    by (cases n) simp_all
  with 2 rn show ?case by simp
qed

lemma valid_utf8_Nil [simp]: "valid_utf8 []"
  by (simp add: valid_utf8_def)

lemma rune_chunks_ascii:
  "is_ascii s \<Longrightarrow> rune_chunks s = map (\<lambda>c. (byte c, [c])) s"
proof (induction s)
  case Nil
  then show ?case by simp
next
  case (Cons c s)
  then have "byte c < 128" "is_ascii s" by (simp_all add: is_ascii_def)
  then show ?case using Cons.IH by (simp add: next_rune_ascii)
qed

lemma ascii_valid_utf8: "is_ascii s \<Longrightarrow> valid_utf8 s"
  by (auto simp: valid_utf8_def rune_chunks_ascii bad_chunk_def list_all_iff is_ascii_def
        rune_error_def)

lemma runes_ascii: "is_ascii s \<Longrightarrow> runes s = map byte s"
  by (simp add: runes_def rune_chunks_ascii)

subsection \<open>Truncation by bytes\<close>

text \<open>The loop that drops the last byte until the rest is valid.\<close>

function drop_invalid_tail :: "string \<Rightarrow> string" where
  "drop_invalid_tail v = (if v = [] \<or> valid_utf8 v then v else drop_invalid_tail (butlast v))"
  by pat_completeness auto
termination
  by (relation "measure length") auto

declare drop_invalid_tail.simps [simp del]

definition truncate_bytes :: "string \<Rightarrow> int \<Rightarrow> string" where
  "truncate_bytes v maxb =
     (if maxb \<le> 0 then []
      else if int (length v) \<le> maxb then v
      else drop_invalid_tail (take (nat maxb) v))"

definition to_valid_utf8 :: "string \<Rightarrow> string" where
  "to_valid_utf8 s = concat (map snd (filter (\<lambda>p. \<not> bad_chunk p) (rune_chunks s)))"

definition trim_right_char :: "char \<Rightarrow> string \<Rightarrow> string" where
  "trim_right_char c s = rev (dropWhile (\<lambda>d. d = c) (rev s))"

definition newline :: char where
  "newline = CHR 0x0A"

definition truncate_bytes_with_marker :: "string \<Rightarrow> int \<Rightarrow> string \<Rightarrow> string" where
  "truncate_bytes_with_marker value maxb marker =
     (let v = to_valid_utf8 value in
      if maxb \<le> 0 then []
      else if int (length v) \<le> maxb then v
      else if maxb \<le> int (length marker) then take (nat maxb) marker
      else let lim = maxb - int (length marker) - 1 in
        if lim \<le> 0 then marker
        else let v' = (if lim < int (length v) then drop_invalid_tail (take (nat lim) v) else v)
             in trim_right_char newline v' @ [newline] @ marker)"

subsection \<open>Truncation by code points\<close>

definition truncate_runes :: "string \<Rightarrow> int \<Rightarrow> string" where
  "truncate_runes v maxr =
     (if maxr \<le> 0 then [] else concat (map snd (take (nat maxr) (rune_chunks v))))"

definition ellipsis :: string where
  "ellipsis = [CHR 0xE2, CHR 0x80, CHR 0xA6]"

definition truncate_runes_with_ellipsis :: "string \<Rightarrow> int \<Rightarrow> string" where
  "truncate_runes_with_ellipsis v maxr =
     (if maxr \<le> 0 then []
      else if int (length (runes v)) \<le> maxr then v
      else if maxr = 1 then ellipsis
      else truncate_runes v (maxr - 1) @ ellipsis)"

subsection \<open>Removal of control characters\<close>

text \<open>\<open>WriteRune\<close> writes an undecodable byte as the three bytes of U+FFFD.\<close>

definition write_rune :: "nat \<times> string \<Rightarrow> string" where
  "write_rune p = (if bad_chunk p then [CHR 0xEF, CHR 0xBF, CHR 0xBD] else snd p)"

definition printable_rune :: "nat \<Rightarrow> bool" where
  "printable_rune r = (r = 10 \<or> r = 9 \<or> r = 13 \<or> (32 \<le> r \<and> r \<noteq> 127))"

definition sanitize_text :: "string \<Rightarrow> string" where
  "sanitize_text s = concat (map write_rune (filter (\<lambda>p. printable_rune (fst p)) (rune_chunks s)))"

subsection \<open>Lemmas\<close>

lemma drop_invalid_tail_spec:
  "valid_utf8 (drop_invalid_tail v) \<and> (\<exists>r. v = drop_invalid_tail v @ r) \<and>
   (\<forall>p r. v = p @ r \<longrightarrow> valid_utf8 p \<longrightarrow> length p \<le> length (drop_invalid_tail v))"
proof (induction v rule: drop_invalid_tail.induct)
  case (1 v)
  show ?case
  proof (cases "v = [] \<or> valid_utf8 v")
    case True
    then show ?thesis by (subst (1 2 3) drop_invalid_tail.simps) auto
  next
    case False
    let ?w = "butlast v"
    have v: "v = ?w @ [last v]" and eq: "drop_invalid_tail v = drop_invalid_tail ?w"
      using False by (simp_all add: drop_invalid_tail.simps [of v])
    from 1 False have IH: "valid_utf8 (drop_invalid_tail ?w)" "\<exists>r. ?w = drop_invalid_tail ?w @ r"
      "\<And>p r. ?w = p @ r \<Longrightarrow> valid_utf8 p \<Longrightarrow> length p \<le> length (drop_invalid_tail ?w)"
      by blast+
    have "\<exists>r. v = drop_invalid_tail ?w @ r" using IH(2) v by (metis append.assoc)
    moreover have "length p \<le> length (drop_invalid_tail ?w)" if "v = p @ r" "valid_utf8 p" for p r
    proof -
      from that False have "r \<noteq> []" by auto
      with that have "?w = p @ butlast r" by (simp add: butlast_append)
      with IH(3) that show ?thesis by blast
    qed
    ultimately show ?thesis unfolding eq using IH(1) by blast
  qed
qed

lemma length_drop_invalid_tail: "length (drop_invalid_tail v) \<le> length v"
  using drop_invalid_tail_spec [of v] by (metis length_append le_add1)

lemma length_trim_right_char: "length (trim_right_char c s) \<le> length s"
  unfolding trim_right_char_def by (metis length_rev length_dropWhile_le)

lemma length_truncate_bytes: "length (truncate_bytes v m) \<le> nat m"
  using length_drop_invalid_tail [of "take (nat m) v"]
  by (auto simp: truncate_bytes_def)

lemma length_trim_drop_take:
  "length (trim_right_char newline (drop_invalid_tail (take n w))) \<le> n"
proof -
  have "length (drop_invalid_tail (take n w)) \<le> n"
    using length_drop_invalid_tail [of "take n w"] by simp
  with length_trim_right_char show ?thesis by (rule le_trans)
qed

lemma length_truncate_marker: "length (truncate_bytes_with_marker v m k) \<le> nat m"
proof -
  define w where "w = to_valid_utf8 v"
  define lim where "lim = m - int (length k) - 1"
  have small: "length (trim_right_char newline w) \<le> nat lim" if "int (length w) \<le> lim"
    using that length_trim_right_char [of newline w] by linarith
  show ?thesis
  proof (cases "0 < m \<and> m < int (length w) \<and> int (length k) < m \<and> 0 < lim")
    case False
    then show ?thesis
      unfolding truncate_bytes_with_marker_def Let_def w_def [symmetric] lim_def [symmetric]
      by (auto simp: lim_def)
  next
    case True
    define v' where "v' = (if lim < int (length w) then drop_invalid_tail (take (nat lim) w) else w)"
    have "length (trim_right_char newline v') \<le> nat lim"
      using length_trim_drop_take small by (auto simp: v'_def)
    moreover from True have "truncate_bytes_with_marker v m k = trim_right_char newline v' @ [newline] @ k"
      unfolding truncate_bytes_with_marker_def Let_def w_def [symmetric] lim_def [symmetric] v'_def
      by auto
    ultimately show ?thesis using True by (auto simp: lim_def)
  qed
qed

lemma valid_to_valid_utf8: "valid_utf8 s \<Longrightarrow> to_valid_utf8 s = s"
proof -
  assume "valid_utf8 s"
  then have "filter (\<lambda>p. \<not> bad_chunk p) (rune_chunks s) = rune_chunks s"
    by (simp add: valid_utf8_def list_all_iff)
  then show ?thesis by (simp add: to_valid_utf8_def rune_chunks_concat)
qed

lemma truncate_marker_short:
  "valid_utf8 v \<Longrightarrow> 0 < m \<Longrightarrow> int (length v) \<le> m \<Longrightarrow> truncate_bytes_with_marker v m k = v"
  by (simp add: truncate_bytes_with_marker_def valid_to_valid_utf8 Let_def)

end
