(* ===== verification/Glob_Match.thy ===== *)
theory Glob_Match
  imports Str_Util
begin

text \<open>
  The package \<open>internal/base/glob\<close>: wildcard matching with \<open>*\<close> and \<open>?\<close>, as the permission
  policy uses it. \<open>glob_match\<close> is \<open>Match\<close> with its fast paths; \<open>glob_loop\<close> is the
  backtracking loop, which the source has twice, over bytes (\<open>Match\<close>) and over code points
  (\<open>matchRunes\<close>). \<open>wild\<close> is the meaning a reader of the documentation expects. The loop is
  sound for \<open>wild\<close>; it is complete where the value holds no star, and not in general: a star
  of the pattern that meets a star of the value is consumed as a plain character and is no
  longer available for backtracking.
\<close>

subsection \<open>The program\<close>

text \<open>
  The loop. \<open>p\<close> and \<open>v\<close> are the parts of the pattern and of the value from \<open>pIdx\<close> and
  \<open>vIdx\<close> on; \<open>bt\<close> is \<open>None\<close> while \<open>lastWildcardIdx\<close> is \<open>-1\<close>, else the pattern after the
  last star met and the value from \<open>backtrackIdx\<close> on.
\<close>

definition skip_stars :: "'a \<Rightarrow> 'a list \<Rightarrow> 'a list" where
  "skip_stars st p = dropWhile (\<lambda>c. c = st) p"

function glob_loop :: "'a \<Rightarrow> 'a \<Rightarrow> 'a list \<Rightarrow> 'a list \<Rightarrow> ('a list \<times> 'a list) option \<Rightarrow> bool" where
  "glob_loop st qm p v bt =
     (if v = [] then skip_stars st p = []
      else if p \<noteq> [] \<and> (hd p = qm \<or> hd p = hd v) then glob_loop st qm (tl p) (tl v) bt
      else if p \<noteq> [] \<and> hd p = st then glob_loop st qm (tl p) v (Some (tl p, v))
      else (case bt of
          Some (p', b) \<Rightarrow> glob_loop st qm p' (tl b) (Some (p', tl b))
        | None \<Rightarrow> False))"
  by pat_completeness auto

text \<open>
  The loop ends: a new star leaves less of the pattern than there was; a step back from the
  same star leaves less of the value to restart from; a match leaves less of the value.
\<close>

definition loop_fuel :: "'a list \<Rightarrow> ('a list \<times> 'a list) option \<Rightarrow> nat" where
  "loop_fuel p bt = Suc (case bt of None \<Rightarrow> length p | Some (p', _) \<Rightarrow> max (length p) (length p'))"

definition back_fuel :: "('a list \<times> 'a list) option \<Rightarrow> nat" where
  "back_fuel bt = (case bt of None \<Rightarrow> 0 | Some (_, b) \<Rightarrow> length b)"

termination glob_loop
proof (relation "measures [\<lambda>(st, qm, p, v, bt). loop_fuel p bt,
    \<lambda>(st, qm, p, v, bt). back_fuel bt, \<lambda>(st, qm, p, v, bt). length v]", goal_cases)
  case 1
  show ?case by simp
next
  case (2 st qm p v bt)
  then show ?case
    by (cases p; cases v) (auto simp: loop_fuel_def max_def split: option.splits)
next
  case (3 st qm p v bt)
  then show ?case
    by (cases p) (auto simp: loop_fuel_def split: option.splits)
next
  case (4 st qm p v bt x p' b)
  then show ?case
    by (cases b) (auto simp: loop_fuel_def back_fuel_def max_def split: if_splits)
qed

declare glob_loop.simps [simp del]

definition match_runes :: "string \<Rightarrow> string \<Rightarrow> bool" where
  "match_runes pattern value = glob_loop 42 63 (runes pattern) (runes value) None"

definition glob_match :: "string \<Rightarrow> string \<Rightarrow> bool" where
  "glob_match pattern value =
     (if pattern = ''*'' then True
      else if pattern = value then True
      else if pattern = '''' then value = ''''
      else if has_prefix pattern ''*'' \<and> \<not> contains_any (drop 1 pattern) ''*?''
        then has_suffix value (drop 1 pattern)
      else if has_suffix pattern ''*'' \<and> \<not> contains_any (butlast pattern) ''*?''
        then has_prefix value (butlast pattern)
      else if \<not> contains_any pattern ''*?'' then pattern = value
      else if is_ascii pattern \<and> is_ascii value
        then glob_loop (CHR ''*'') (CHR ''?'') pattern value None
      else match_runes pattern value)"

subsection \<open>The meaning of a pattern\<close>

text \<open>\<open>st\<close> stands for any sequence, \<open>qm\<close> for any one element, everything else for itself.\<close>

fun wild :: "'a \<Rightarrow> 'a \<Rightarrow> 'a list \<Rightarrow> 'a list \<Rightarrow> bool" where
  "wild st qm [] v = (v = [])"
| "wild st qm (c # p) v =
     (if c = st
      then wild st qm p v \<or> (case v of [] \<Rightarrow> False | d # v' \<Rightarrow> wild st qm (c # p) v')
      else (case v of [] \<Rightarrow> False | d # v' \<Rightarrow> (c = qm \<or> c = d) \<and> wild st qm p v'))"

declare wild.simps(2) [simp del]

locale wild_alphabet =
  fixes st qm :: 'a
  assumes star_not_qm: "st \<noteq> qm"
begin

abbreviation "W \<equiv> wild st qm"
abbreviation "L \<equiv> glob_loop st qm"

definition lit_match :: "'a list \<Rightarrow> 'a list \<Rightarrow> bool" where
  "lit_match q u = list_all2 (\<lambda>c d. c \<noteq> st \<and> (c = qm \<or> c = d)) q u"

lemma W_lit_Nil: "c \<noteq> st \<Longrightarrow> \<not> W (c # p) []"
  by (simp add: wild.simps(2))

lemma W_lit_Cons: "c \<noteq> st \<Longrightarrow> W (c # p) (d # v) \<longleftrightarrow> (c = qm \<or> c = d) \<and> W p v"
  by (simp add: wild.simps(2))

lemma W_lit_ex:
  "c \<noteq> st \<Longrightarrow> W (c # p) v \<longleftrightarrow> (\<exists>d w. v = d # w \<and> (c = qm \<or> c = d) \<and> W p w)"
  by (cases v) (simp_all add: W_lit_Nil W_lit_Cons)

lemma W_star: "W (st # p) v \<longleftrightarrow> (\<exists>u w. v = u @ w \<and> W p w)"
proof (induction v)
  case Nil
  then show ?case by (simp add: wild.simps(2))
next
  case (Cons d v)
  have "(\<exists>u w. d # v = u @ w \<and> W p w) \<longleftrightarrow> W p (d # v) \<or> (\<exists>u w. v = u @ w \<and> W p w)"
    by (metis append_Cons append_Nil append_eq_Cons_conv)
  with Cons.IH show ?case by (simp add: wild.simps(2) [of _ _ _ _ "d # v"])
qed

lemma W_star_here: "W p v \<Longrightarrow> W (st # p) v"
  unfolding W_star by (rule exI [of _ "[]"]) simp

lemma W_star_later: "W (st # p) w \<Longrightarrow> W (st # p) (u @ w)"
  unfolding W_star by (metis append.assoc)

lemma W_star_tl: "W (st # p) (tl v) \<Longrightarrow> W (st # p) v"
  using W_star_later [of p "tl v" "[hd v]"] by (cases v) simp_all

lemma W_star_unfold: "v \<noteq> [] \<Longrightarrow> W (st # p) v \<longleftrightarrow> W p v \<or> W (st # p) (tl v)"
  by (cases v) (simp_all add: wild.simps(2))

lemma W_lit_split: "W (q @ p) v \<Longrightarrow> st \<notin> set q \<Longrightarrow> \<exists>u w. v = u @ w \<and> lit_match q u \<and> W p w"
proof (induction q arbitrary: v)
  case Nil
  then show ?case by (auto simp: lit_match_def)
next
  case (Cons c q)
  from Cons.prems obtain d v' where v: "v = d # v'" "c = qm \<or> c = d" "c \<noteq> st" "W (q @ p) v'"
    by (auto simp: W_lit_ex)
  with Cons obtain u w where "v' = u @ w" "lit_match q u" "W p w" by (metis list.set_intros(2))
  with v have "v = (d # u) @ w \<and> lit_match (c # q) (d # u) \<and> W p w"
    by (auto simp: lit_match_def)
  then show ?case by blast
qed

lemma W_stars: "skip_stars st p = [] \<longleftrightarrow> W p []"
proof (induction p)
  case Nil
  then show ?case by (simp add: skip_stars_def)
next
  case (Cons c p)
  then show ?case by (cases "c = st") (simp_all add: skip_stars_def W_star W_lit_Nil)
qed

lemma W_literal: "st \<notin> set p \<Longrightarrow> qm \<notin> set p \<Longrightarrow> W p v = (p = v)"
proof (induction p arbitrary: v)
  case Nil
  then show ?case by auto
next
  case (Cons c p v)
  show ?case
  proof (cases v)
    case Nil
    with Cons.prems show ?thesis by (auto simp: W_lit_Nil)
  next
    case (Cons d v')
    with Cons.prems show ?thesis using Cons.IH [of v'] by (auto simp: W_lit_Cons)
  qed
qed

lemma W_suffix: "st \<notin> set p \<Longrightarrow> qm \<notin> set p \<Longrightarrow> W (st # p) v \<longleftrightarrow> (\<exists>u. v = u @ p)"
  by (simp add: W_star W_literal)

lemma W_all: "W [st] v"
  unfolding W_star by (rule exI [of _ v]) simp

lemma W_prefix: "st \<notin> set p \<Longrightarrow> qm \<notin> set p \<Longrightarrow> W (p @ [st]) v \<longleftrightarrow> (\<exists>w. v = p @ w)"
proof (induction p arbitrary: v)
  case Nil
  then show ?case by (simp add: W_all)
next
  case (Cons c p v)
  then show ?case by (cases v) (auto simp: W_lit_Nil W_lit_Cons)
qed

lemma W_self: "W p p"
proof (induction p)
  case Nil
  then show ?case by simp
next
  case (Cons c p)
  then show ?case
    by (cases "c = st") (use W_star_later [of p p "[c]"] W_star_here W_lit_Cons in auto)
qed

text \<open>Induction along the loop, with the two special elements fixed.\<close>

lemma L_induct:
  assumes "\<And>p v bt.
    \<lbrakk>v \<noteq> [] \<Longrightarrow> p \<noteq> [] \<and> (hd p = qm \<or> hd p = hd v) \<Longrightarrow> P (tl p) (tl v) bt;
     v \<noteq> [] \<Longrightarrow> \<not> (p \<noteq> [] \<and> (hd p = qm \<or> hd p = hd v)) \<Longrightarrow> p \<noteq> [] \<and> hd p = st \<Longrightarrow>
       P (tl p) v (Some (tl p, v));
     \<And>p' b. v \<noteq> [] \<Longrightarrow> \<not> (p \<noteq> [] \<and> (hd p = qm \<or> hd p = hd v)) \<Longrightarrow> \<not> (p \<noteq> [] \<and> hd p = st) \<Longrightarrow>
       bt = Some (p', b) \<Longrightarrow> P p' (tl b) (Some (p', tl b))\<rbrakk> \<Longrightarrow> P p v bt"
  shows "P p v bt"
proof -
  have "s = st \<longrightarrow> q = qm \<longrightarrow> P p v bt" for s q
  proof (induction s q p v bt rule: glob_loop.induct)
    case (1 s q p v bt)
    show ?case
    proof (intro impI)
      assume "s = st" "q = qm"
      show "P p v bt"
        by (rule assms; rule 1 [rule_format]) (simp_all add: \<open>s = st\<close> \<open>q = qm\<close>)
    qed
  qed
  then show ?thesis by blast
qed

lemma L_end: "L p [] bt = (skip_stars st p = [])"
  by (subst glob_loop.simps) simp

lemma L_eq: "c = qm \<or> c = d \<Longrightarrow> L (c # p) (d # v) bt = L p v bt"
  by (subst glob_loop.simps) simp

lemma L_star: "d \<noteq> st \<Longrightarrow> L (st # p) (d # v) bt = L p (d # v) (Some (p, d # v))"
  using star_not_qm by (subst glob_loop.simps) simp

lemma L_back:
  "v \<noteq> [] \<Longrightarrow> \<not> (p \<noteq> [] \<and> (hd p = qm \<or> hd p = hd v)) \<Longrightarrow> \<not> (p \<noteq> [] \<and> hd p = st) \<Longrightarrow>
   L p v bt = (case bt of Some (p', b) \<Rightarrow> L p' (tl b) (Some (p', tl b)) | None \<Rightarrow> False)"
  by (subst glob_loop.simps) (simp only: if_False not_True_eq_False not_False_eq_True simp_thms)

text \<open>Soundness of the loop, with no condition at all.\<close>

lemma loop_sound:
  "L p v bt \<Longrightarrow> W p v \<or> (\<exists>p' b. bt = Some (p', b) \<and> W (st # p') b)"
proof (induction p v bt rule: L_induct)
  case (1 p v bt)
  consider (fin) "v = []"
    | (eq) c p1 d v1 where "v = d # v1" and "p = c # p1" and "c = qm \<or> c = d"
    | (sta) d v1 p1 where "v = d # v1" and "p = st # p1" and "d \<noteq> st"
    | (again) "v \<noteq> []" and "\<not> (p \<noteq> [] \<and> (hd p = qm \<or> hd p = hd v))"
        and "\<not> (p \<noteq> [] \<and> hd p = st)"
    by (cases v; cases p) auto
  then show ?case
  proof cases
    case fin
    with 1 show ?thesis by (simp add: L_end W_stars)
  next
    case eq
    then have "W p1 v1 \<or> (\<exists>p' b. bt = Some (p', b) \<and> W (st # p') b)"
      using 1(1,4) by (simp add: L_eq)
    moreover have "W p v" if "W p1 v1"
      using that eq W_star_later [of p1 v1 "[d]"] W_star_here
      by (cases "c = st") (auto simp: W_lit_Cons)
    ultimately show ?thesis by blast
  next
    case sta
    then have "W p1 v \<or> W (st # p1) v"
      using 1(2,4) star_not_qm by (simp add: L_star)
    then show ?thesis using sta W_star_here by blast
  next
    case again
    with 1(4) obtain p' b where bt: "bt = Some (p', b)" and "L p' (tl b) (Some (p', tl b))"
      by (auto simp: L_back split: option.splits)
    with 1(3) [OF again bt] have "W p' (tl b) \<or> W (st # p') (tl b)" by simp
    then show ?thesis using bt W_star_here W_star_tl by blast
  qed
qed

text \<open>
  Completeness where the value holds no star. A star met later makes the earlier one
  redundant: any match that restarts from the earlier star leaves for the later one a
  suffix of what it has now.
\<close>

definition bt_ok :: "'a list \<Rightarrow> 'a list \<Rightarrow> ('a list \<times> 'a list) option \<Rightarrow> bool" where
  "bt_ok p v bt = (\<forall>p' b. bt = Some (p', b) \<longrightarrow>
     (\<exists>q u. p' = q @ p \<and> b = u @ v \<and> st \<notin> set b \<and> lit_match q u))"

definition bt_wild :: "('a list \<times> 'a list) option \<Rightarrow> bool" where
  "bt_wild bt = (case bt of None \<Rightarrow> False | Some (p', b) \<Rightarrow> b \<noteq> [] \<and> W (st # p') (tl b))"

lemma lit_matchD: "lit_match q u \<Longrightarrow> st \<notin> set q \<and> length q = length u"
  unfolding lit_match_def by (induction q u rule: list_all2_induct) auto

lemma earlier_star_redundant:
  assumes "bt_ok p v bt" "bt_wild bt"
  shows "W (st # p) v"
proof -
  from assms(2) obtain p' b where b: "bt = Some (p', b)" "b \<noteq> []" "W (st # p') (tl b)"
    unfolding bt_wild_def by (auto split: option.splits)
  with assms(1) obtain q u where "p' = q @ p" "b = u @ v" and bt: "lit_match q u"
    unfolding bt_ok_def by blast
  with b have nonempty: "u @ v \<noteq> []" and w0: "W (st # q @ p) (tl (u @ v))" by simp_all
  from w0 obtain x y where xy: "tl (u @ v) = x @ y" "W (q @ p) y" unfolding W_star by blast
  with bt obtain a w where aw: "y = a @ w" "lit_match q a" "W p w"
    using W_lit_split lit_matchD by blast
  have "length (tl (u @ v)) = length x + length q + length w"
    using xy(1) aw lit_matchD [OF aw(2)] by simp
  moreover have "length u = length q" using lit_matchD [OF bt] by simp
  moreover have "length (u @ v) = Suc (length (tl (u @ v)))" using nonempty by simp
  ultimately have len: "length w < length v" by simp
  from xy aw nonempty have "u @ v = (hd (u @ v) # x @ a) @ w" by (metis append.assoc append_Cons list.collapse)
  with len obtain z where "v = z @ w"
    by (metis append_eq_append_conv2 append_Nil2 length_append not_add_less2)
  with aw show ?thesis unfolding W_star by blast
qed

lemma W_star_collapse: "W (st # st # p) v = W (st # p) v"
  unfolding W_star [of "st # p"] by (metis W_star_later append_Nil)

lemma bt_ok_step:
  assumes "bt_ok (c # p) (d # v) bt" "c \<noteq> st" "c = qm \<or> c = d"
  shows "bt_ok p v bt"
proof (unfold bt_ok_def, intro allI impI)
  fix p' b
  assume "bt = Some (p', b)"
  with assms(1) obtain q u where "p' = q @ c # p" "b = u @ d # v" "st \<notin> set b" "lit_match q u"
    unfolding bt_ok_def by blast
  with assms(2,3) have "p' = (q @ [c]) @ p \<and> b = (u @ [d]) @ v \<and> st \<notin> set b \<and>
      lit_match (q @ [c]) (u @ [d])"
    by (auto simp: lit_match_def list_all2_appendI)
  then show "\<exists>q u. p' = q @ p \<and> b = u @ v \<and> st \<notin> set b \<and> lit_match q u" by blast
qed

lemma bt_ok_new: "st \<notin> set v \<Longrightarrow> bt_ok p v (Some (p, v))"
  by (auto simp: bt_ok_def lit_match_def)

lemma loop_complete:
  "st \<notin> set v \<Longrightarrow> bt_ok p v bt \<Longrightarrow> L p v bt \<longleftrightarrow> W p v \<or> bt_wild bt"
proof (induction p v bt rule: L_induct)
  case (1 p v bt)
  note ns = \<open>st \<notin> set v\<close> and ok = \<open>bt_ok p v bt\<close>
  consider (fin) "v = []"
    | (eq) c p1 d v1 where "v = d # v1" and "p = c # p1" and "c = qm \<or> c = d"
    | (sta) d v1 p1 where "v = d # v1" and "p = st # p1" and "d \<noteq> st"
    | (again) "v \<noteq> []" and "\<not> (p \<noteq> [] \<and> (hd p = qm \<or> hd p = hd v))"
        and "\<not> (p \<noteq> [] \<and> hd p = st)"
    by (cases v; cases p) auto
  then show ?case
  proof cases
    case fin
    have "bt_wild bt \<Longrightarrow> W p []"
      using earlier_star_redundant [OF ok] fin by (simp add: W_star)
    with fin show ?thesis by (auto simp: L_end W_stars)
  next
    case eq
    with ns star_not_qm have cst: "c \<noteq> st" by auto
    then have "bt_ok p1 v1 bt" using bt_ok_step ok eq by blast
    then have "L p1 v1 bt \<longleftrightarrow> W p1 v1 \<or> bt_wild bt"
      using 1(1) eq ns by simp
    with eq cst show ?thesis by (simp add: L_eq W_lit_Cons)
  next
    case sta
    have "L p1 v (Some (p1, v)) \<longleftrightarrow> W p1 v \<or> bt_wild (Some (p1, v))"
      using 1(2) sta ns star_not_qm bt_ok_new [of v p1] by simp
    then have "L p v bt \<longleftrightarrow> W p v"
      using sta by (auto simp: L_star bt_wild_def W_star_unfold)
    moreover have "bt_wild bt \<Longrightarrow> W p v"
      using earlier_star_redundant [OF ok] sta W_star_collapse by simp
    ultimately show ?thesis by blast
  next
    case again
    then have nw: "\<not> W p v"
      by (cases p; cases v) (auto simp: W_lit_Cons)
    show ?thesis
    proof (cases bt)
      case None
      with again nw show ?thesis by (simp add: L_back bt_wild_def)
    next
      case (Some pb)
      then obtain p' b where bt: "bt = Some (p', b)" by (cases pb) auto
      with ok again have b0: "b \<noteq> []" "st \<notin> set b" unfolding bt_ok_def by auto
      then have nst: "st \<notin> set (tl b)" by (cases b) auto
      then have "bt_ok p' (tl b) (Some (p', tl b))" by (rule bt_ok_new)
      with 1(3) [OF again bt] nst
      have "L p' (tl b) (Some (p', tl b)) \<longleftrightarrow> W p' (tl b) \<or> bt_wild (Some (p', tl b))" by blast
      also have "\<dots> \<longleftrightarrow> W (st # p') (tl b)"
        by (cases "tl b = []") (simp add: bt_wild_def W_star, simp add: bt_wild_def W_star_unfold)
      finally show ?thesis using again bt b0 nw by (simp add: L_back bt_wild_def)
    qed
  qed
qed

lemma loop_sound_start: "L p v None \<Longrightarrow> W p v"
  using loop_sound by blast

lemma loop_exact_start: "st \<notin> set v \<Longrightarrow> L p v None = W p v"
  using loop_complete [of v p None] by (simp add: bt_ok_def bt_wild_def)

end

interpretation byte_glob: wild_alphabet "CHR ''*''" "CHR ''?''"
  by unfold_locales simp

interpretation rune_glob: wild_alphabet "42 :: nat" "63 :: nat"
  by unfold_locales simp

subsection \<open>The matcher against its meaning\<close>

definition glob_spec :: "string \<Rightarrow> string \<Rightarrow> bool" where
  "glob_spec pattern value = wild (CHR ''*'') (CHR ''?'') pattern value"

lemma no_wildcards: "\<not> contains_any p ''*?'' \<longleftrightarrow> CHR ''*'' \<notin> set p \<and> CHR ''?'' \<notin> set p"
  by (auto simp: contains_any_iff)

lemma glob_spec_all: "glob_spec ''*'' value"
  by (simp add: glob_spec_def byte_glob.W_all)

lemma glob_spec_self: "glob_spec pattern pattern"
  by (simp add: glob_spec_def byte_glob.W_self)

lemma glob_spec_suffix:
  "\<not> contains_any q ''*?'' \<Longrightarrow> glob_spec (CHR ''*'' # q) value = has_suffix value q"
  by (simp add: glob_spec_def no_wildcards byte_glob.W_suffix has_suffix_iff)

lemma glob_spec_prefix:
  "\<not> contains_any q ''*?'' \<Longrightarrow> glob_spec (q @ ''*'') value = has_prefix value q"
  by (simp add: glob_spec_def no_wildcards byte_glob.W_prefix has_prefix_iff)

lemma glob_spec_literal: "\<not> contains_any q ''*?'' \<Longrightarrow> glob_spec q value = (q = value)"
  by (simp add: glob_spec_def no_wildcards byte_glob.W_literal)

lemma glob_spec_fast_suffix:
  "has_prefix p ''*'' \<Longrightarrow> \<not> contains_any (drop 1 p) ''*?'' \<Longrightarrow>
   glob_spec p value = has_suffix value (drop 1 p)"
  by (auto simp: has_prefix_iff glob_spec_suffix)

lemma glob_spec_fast_prefix:
  "has_suffix p ''*'' \<Longrightarrow> \<not> contains_any (butlast p) ''*?'' \<Longrightarrow>
   glob_spec p value = has_prefix value (butlast p)"
  by (auto simp: has_suffix_iff glob_spec_prefix)

text \<open>A pattern is decided by a fast path, rightly, or by the loop.\<close>

lemma glob_match_cases:
  assumes "is_ascii pattern" "is_ascii value"
  shows "glob_match pattern value = glob_spec pattern value \<or>
    glob_match pattern value = glob_loop (CHR ''*'') (CHR ''?'') pattern value None"
proof -
  let ?suf = "has_prefix pattern ''*'' \<and> \<not> contains_any (drop 1 pattern) ''*?''"
  let ?pre = "has_suffix pattern ''*'' \<and> \<not> contains_any (butlast pattern) ''*?''"
  have "glob_match pattern value = glob_spec pattern value"
    if "pattern = ''*'' \<or> pattern = value"
    using that glob_spec_all glob_spec_self by (auto simp: glob_match_def)
  moreover have "glob_match pattern value = glob_spec pattern value" if "pattern = []"
    using that by (auto simp: glob_match_def glob_spec_def)
  moreover have "glob_match pattern value = glob_spec pattern value"
    if "pattern \<noteq> ''*''" "pattern \<noteq> value" "pattern \<noteq> []" ?suf
    using that glob_spec_fast_suffix by (auto simp: glob_match_def)
  moreover have "glob_match pattern value = glob_spec pattern value"
    if "pattern \<noteq> ''*''" "pattern \<noteq> value" "pattern \<noteq> []" "\<not> ?suf" ?pre
    unfolding glob_match_def using that glob_spec_fast_prefix by presburger
  moreover have "glob_match pattern value = glob_spec pattern value"
    if "pattern \<noteq> ''*''" "pattern \<noteq> value" "pattern \<noteq> []" "\<not> ?suf" "\<not> ?pre"
      "\<not> contains_any pattern ''*?''"
    unfolding glob_match_def using that glob_spec_literal by presburger
  moreover have "glob_match pattern value = glob_loop (CHR ''*'') (CHR ''?'') pattern value None"
    if "pattern \<noteq> ''*''" "pattern \<noteq> value" "pattern \<noteq> []" "\<not> ?suf" "\<not> ?pre"
      "contains_any pattern ''*?''"
    unfolding glob_match_def using that assms by presburger
  ultimately show ?thesis by blast
qed

lemma glob_match_imp_spec:
  assumes "is_ascii pattern" "is_ascii value" "glob_match pattern value"
  shows "glob_spec pattern value"
  using glob_match_cases [OF assms(1,2)] assms(3) byte_glob.loop_sound_start
  by (auto simp: glob_spec_def)

lemma glob_match_eq_spec:
  assumes "is_ascii pattern" "is_ascii value" "CHR ''*'' \<notin> set value"
  shows "glob_match pattern value = glob_spec pattern value"
  using glob_match_cases [OF assms(1,2)] assms(3) byte_glob.loop_exact_start
  by (auto simp: glob_spec_def)

lemma match_runes_exact:
  "42 \<notin> set (runes value) \<Longrightarrow>
   match_runes pattern value = wild 42 63 (runes pattern) (runes value)"
  by (simp add: match_runes_def rune_glob.loop_exact_start)

lemma glob_match_literal: "\<not> contains_any p ''*?'' \<Longrightarrow> glob_match p v = (p = v)"
  by (auto simp: glob_match_def no_wildcards has_prefix_iff has_suffix_iff)

lemma glob_match_self [simp]: "glob_match p p"
  by (simp add: glob_match_def)

text \<open>
  A match reported by the glob matcher is a match in the sense of the documentation: each
  star of the pattern stands for some sequence, each question mark for one character, and
  every other character for itself. No wider match can come from the backtracking or from the
  fast paths.
\<close>

theorem glob_match_sound:
  assumes "is_ascii pattern" and "is_ascii value" and "glob_match pattern value"
  shows "glob_spec pattern value"
  using assms by (rule glob_match_imp_spec)

theorem glob_match_sound_witness:
  "glob_match ''a*c?'' ''abbcd'' \<and> glob_spec ''a*c?'' ''abbcd''"
proof -
  have m: "glob_match ''a*c?'' ''abbcd''" by code_simp
  show ?thesis by (intro conjI m glob_match_sound) code_simp+
qed



text \<open>
  With a star in the value the matcher misses matches. The star of the pattern is compared
  with the star of the value as a plain character first, and then nothing can be absorbed: the
  pattern \<open>*b?\<close>, any string that ends in b and one more character, does not match \<open>*xb1\<close>.
\<close>

theorem glob_match_star_in_value:
  "glob_spec ''*b?'' ''*xb1'' \<and> \<not> glob_match ''*b?'' ''*xb1'' \<and> glob_match ''*b?'' ''xb1''"
  by code_simp

end
