(* ===== verification/Tool_Domain.thy ===== *)
theory Tool_Domain
  imports Go_Prelude
begin

text \<open>
  The vocabulary of \<open>internal/core/tool\<close>: tool kinds, mutability, the safety contract, the
  effect, risk and scope of a command, failures and results, calls and definitions. Go's
  string enumerations are datatypes; a constructor for any other spelling exists where the
  code tells it apart (\<open>validKind\<close> and its kin). JSON arguments are kept as the bytes the
  program passes around; what decoding them yields is the parameter of the operations that
  decode (the decoder of \<open>encoding/json\<close> is not modelled).
\<close>

subsection \<open>Kinds\<close>

datatype kind =
    KindRead | KindEdit | KindBash | KindGrep | KindGit | KindMCP | KindWeb | KindTask
  | KindAgent | KindCompute | KindQuestion | KindAny | KindOther string

text \<open>The zero value of the Go type, the empty string.\<close>

abbreviation kind_none :: kind where
  "kind_none \<equiv> KindOther []"

definition valid_kind :: "kind \<Rightarrow> bool" where
  "valid_kind k = (k \<in> {KindRead, KindEdit, KindBash, KindGrep, KindGit, KindMCP, KindWeb,
     KindTask, KindAgent, KindCompute, KindQuestion})"

subsection \<open>Mutability and the safety contract\<close>

datatype mutability = MutabilityUnspecified | MutabilityReadOnly | MutabilityMutating
  | MutabilityOther string

definition valid_mutability :: "mutability \<Rightarrow> bool" where
  "valid_mutability m =
     (m \<in> {MutabilityUnspecified, MutabilityReadOnly, MutabilityMutating})"

datatype mutation_domain = DomainUnspecified | DomainNone | DomainWorkspace | DomainTaskState
  | DomainAgentState | DomainWorkspacePolicy

datatype mutation_safety = SafetyUnspecified | SafetyNone | SafetyContextual | SafetyWholeFile
  | SafetyDynamic

datatype checkpoint_policy = CheckpointUnspecified | CheckpointNone | CheckpointRequired
  | CheckpointWhenKnown

datatype boundary_policy = BoundaryUnspecified | BoundaryNone | BoundaryWorkspaceRead
  | BoundaryWorkspaceWrite | BoundaryExternalRead | BoundarySandbox

record safety_contract =
  mutation_domain :: mutation_domain
  mutation_safety :: mutation_safety
  checkpoint_policy :: checkpoint_policy
  boundary :: boundary_policy

definition safety_declared :: "safety_contract \<Rightarrow> bool" where
  "safety_declared s =
     (mutation_domain s \<noteq> DomainUnspecified \<and> mutation_safety s \<noteq> SafetyUnspecified \<and>
      checkpoint_policy s \<noteq> CheckpointUnspecified \<and> boundary s \<noteq> BoundaryUnspecified)"

datatype safety_error = ContractIncomplete | SafetyWithoutWorkspace | CheckpointWithoutWorkspace
  | NonMutatingWithSafety | RequiredWithoutWorkspace

definition safety_validate :: "safety_contract \<Rightarrow> safety_error option" where
  "safety_validate s =
     (if \<not> safety_declared s then Some ContractIncomplete
      else if mutation_domain s \<noteq> DomainWorkspace \<and> mutation_safety s \<noteq> SafetyNone
        then Some SafetyWithoutWorkspace
      else if mutation_domain s \<noteq> DomainWorkspace \<and> checkpoint_policy s \<noteq> CheckpointNone
        then Some CheckpointWithoutWorkspace
      else if mutation_domain s = DomainNone \<and> mutation_safety s \<noteq> SafetyNone
        then Some NonMutatingWithSafety
      else if checkpoint_policy s = CheckpointRequired \<and> mutation_domain s \<noteq> DomainWorkspace
        then Some RequiredWithoutWorkspace
      else None)"

datatype timeout_policy = TimeoutServiceDefault | TimeoutCallerBounded | TimeoutOther string

definition valid_timeout_policy :: "timeout_policy \<Rightarrow> bool" where
  "valid_timeout_policy p = (p \<in> {TimeoutServiceDefault, TimeoutCallerBounded})"

datatype evidence_kind = EvidenceNone | EvidenceWorkspace | EvidenceExternal
  | EvidenceOther string

definition valid_evidence_kind :: "evidence_kind \<Rightarrow> bool" where
  "valid_evidence_kind k = (k \<in> {EvidenceNone, EvidenceWorkspace, EvidenceExternal})"

subsection \<open>Effect, risk and scope of one command\<close>

datatype command_effect = EffectUnknown | EffectReadOnly | EffectMutating
datatype command_risk = RiskNormal | RiskDestructive | RiskRemoteDestructive
datatype command_scope = ScopeUnknown | ScopeLocal | ScopeRemote | ScopePublish
  | ScopeDeployment
datatype confidence = ConfidenceUnknown | ConfidenceCertain

record call_semantics =
  sem_mutability :: mutability
  sem_safety :: safety_contract
  sem_evidence :: evidence_kind
  sem_effect :: command_effect
  sem_risk :: command_risk
  sem_scope :: command_scope

subsection \<open>Calls, failures and results\<close>

text \<open>
  A call holds its JSON arguments as bytes. \<open>exit_code\<close>, pagination and the other pointer
  fields of a result are options.
\<close>

record tool_call =
  call_id :: string
  call_name :: string
  call_arguments :: string

datatype error_code = CodeInvalidArguments | CodeCommandFailed | CodeInvalidOutput
  | CodeOutputTooLarge | CodeCanceled | CodeDeadlineExceeded | CodePermissionDenied
  | CodeUnknownTool | CodeNotFound | CodeProtectedPath | CodeInternalPath
  | CodeOutsideWorkspace | CodeNoProgress | CodeStaleContinuation | CodeConflict
  | CodePreexistingWorkspaceChange | CodeWorkspaceStateUnavailable | CodeSandboxUnavailable
  | CodeExecution | CodeNetworkUnavailable

datatype recovery_action = RecoveryRestartPagination | RecoveryRefreshResource
  | RecoveryDiscoverResource | RecoveryUseDedicatedTool

record recovery =
  rcv_action :: recovery_action
  rcv_tool :: string
  rcv_arguments :: string

record recovery_evidence =
  ev_action :: recovery_action
  ev_tool :: string
  ev_output :: string
  ev_structured :: string
  ev_sha256 :: string
  ev_truncated :: bool

record failure =
  fail_code :: error_code
  fail_message :: string
  fail_diagnostic :: string
  fail_retryable :: bool
  fail_recovery :: "recovery option"
  fail_evidence :: "recovery_evidence option"

record tool_result =
  res_call_id :: string
  res_tool_name :: string
  res_output :: string
  res_structured :: string
  res_stdout :: string
  res_stderr :: string
  res_stdout_bytes :: int
  res_stderr_bytes :: int
  res_stdout_truncated :: bool
  res_stderr_truncated :: bool
  res_exit_code :: "int option"
  res_denied :: bool
  res_truncated :: bool
  res_next_offset :: "int option"
  res_continuation :: string
  res_failure :: "failure option"
  res_sha256 :: string
  res_checkpoint :: string

definition empty_result :: tool_result where
  "empty_result = \<lparr>res_call_id = [], res_tool_name = [], res_output = [], res_structured = [],
     res_stdout = [], res_stderr = [], res_stdout_bytes = 0, res_stderr_bytes = 0,
     res_stdout_truncated = False, res_stderr_truncated = False, res_exit_code = None,
     res_denied = False, res_truncated = False, res_next_offset = None, res_continuation = [],
     res_failure = None, res_sha256 = [], res_checkpoint = []\<rparr>"

subsection \<open>Definitions\<close>

text \<open>
  \<open>def_semantics\<close> is the optional resolver: what it returns for given arguments.
  The description, schemas and provider options of a definition are not modelled, but for the
  test that the description is not blank, which is \<open>def_description\<close>.
\<close>

record tool_definition =
  def_name :: string
  def_description :: string
  def_kind :: kind
  def_mutability :: mutability
  def_safety :: safety_contract
  def_timeout :: timeout_policy
  def_evidence :: evidence_kind
  def_detail_key :: string
  def_semantics :: "(string \<Rightarrow> call_semantics) option"

datatype definition_error = NameRequired | DescriptionRequired | UnsupportedKind
  | UnsupportedMutability | UnsupportedTimeoutPolicy | UnsupportedEvidence

definition definition_validate :: "tool_definition \<Rightarrow> definition_error option" where
  "definition_validate d =
     (if trim_space (def_name d) = [] then Some NameRequired
      else if trim_space (def_description d) = [] then Some DescriptionRequired
      else if \<not> valid_kind (def_kind d) then Some UnsupportedKind
      else if \<not> valid_mutability (def_mutability d) then Some UnsupportedMutability
      else if \<not> valid_timeout_policy (def_timeout d) then Some UnsupportedTimeoutPolicy
      else if \<not> valid_evidence_kind (def_evidence d) then Some UnsupportedEvidence
      else None)"

text \<open>
  \<open>NewCall\<close>, for arguments whose JSON validity the parameter decides: ids and names are
  trimmed and required, blank arguments become the empty object.
\<close>

datatype call_error = CallIdRequired | CallNameRequired | ArgumentsNotJSON

definition new_call :: "(string \<Rightarrow> bool) \<Rightarrow> string \<Rightarrow> string \<Rightarrow> string \<Rightarrow> (call_error, tool_call) result" where
  "new_call json_valid i n args =
     (let i = trim_space i; n = trim_space n in
      if i = [] then Inl CallIdRequired
      else if n = [] then Inl CallNameRequired
      else let args = trim_space args; args = (if args = [] then ''{}'' else args) in
        if \<not> json_valid args then Inl ArgumentsNotJSON
        else Inr \<lparr>call_id = i, call_name = n, call_arguments = args\<rparr>)"

definition call_validate :: "(string \<Rightarrow> bool) \<Rightarrow> tool_call \<Rightarrow> call_error option" where
  "call_validate json_valid c =
     (case new_call json_valid (call_id c) (call_name c) (call_arguments c) of
        Inl e \<Rightarrow> Some e | Inr _ \<Rightarrow> None)"

subsection \<open>Static semantics\<close>

definition effective_mutability :: "tool_definition \<Rightarrow> mutability" where
  "effective_mutability d =
     (if def_mutability d \<noteq> MutabilityUnspecified then def_mutability d
      else if def_kind d \<in> {KindRead, KindGrep, KindWeb, KindCompute} then MutabilityReadOnly
      else MutabilityMutating)"

definition static_call_semantics :: "tool_definition \<Rightarrow> call_semantics" where
  "static_call_semantics d =
     (let m = effective_mutability d in
      \<lparr>sem_mutability = m, sem_safety = def_safety d, sem_evidence = def_evidence d,
       sem_effect = (if m = MutabilityReadOnly then EffectReadOnly else EffectMutating),
       sem_risk = RiskNormal, sem_scope = ScopeUnknown\<rparr>)"

subsection \<open>Lemmas\<close>

lemma safety_validate_workspace:
  "safety_validate s = None \<Longrightarrow> mutation_domain s \<noteq> DomainWorkspace \<Longrightarrow>
   mutation_safety s = SafetyNone \<and> checkpoint_policy s = CheckpointNone"
  by (auto simp: safety_validate_def split: if_splits)

lemma trim_space_braces [simp]: "trim_space ''{}'' = ''{}''"
  by code_simp

lemma new_call_idem:
  "new_call jv i n args = Inr c \<Longrightarrow>
   new_call jv (call_id c) (call_name c) (call_arguments c) = Inr c"
  by (auto simp: new_call_def Let_def trim_space_id split: if_splits)

end
