(* ===== verification/Permission_Policy.thy ===== *)
theory Permission_Policy
  imports Glob_Match Tool_Domain
begin

text \<open>
  \<open>internal/core/permission/permission.go\<close>: actions, modes, rules, requests, and the static
  policy. A policy is its list of rules and its default; the mutex is not modelled, each
  operation below is one critical section. Two functions are parameters: \<open>host_of\<close>, the host
  name \<open>url.Parse\<close> finds in a detail (\<open>None\<close> when parsing fails), and \<open>digest\<close>,
  \<open>sha256.Sum256\<close> of the arguments. The reasons of decisions are a datatype in place of the
  English sentences.
\<close>

subsection \<open>Actions, modes, pattern modes, scopes and their spellings\<close>

text \<open>The enumerations are bytes; the last constructor holds the values without a name.\<close>

datatype action = ActionUnknown | ActionAllow | ActionDeny | ActionAsk | ActionByte nat
datatype mode = ModeUnknown | ModeAsk | ModeAuto | ModeAlwaysApprove | ModeDeny | ModeByte nat
datatype pattern_mode = PatternModeUnknown | PatternModeGlob | PatternModeDomain
  | PatternModeByte nat
datatype grant_scope = GrantScopeUnknown | GrantScopeOnce | GrantScopeSession | GrantScopeByte nat

fun action_string :: "action \<Rightarrow> string" where
  "action_string ActionAllow = ''allow''"
| "action_string ActionDeny = ''deny''"
| "action_string ActionAsk = ''ask''"
| "action_string _ = ''unknown''"

definition valid_action :: "action \<Rightarrow> bool" where
  "valid_action a = (a = ActionAllow \<or> a = ActionDeny \<or> a = ActionAsk)"

definition parse_action :: "string \<Rightarrow> action option" where
  "parse_action value =
     (let v = to_lower (trim_space value) in
      if v = ''allow'' then Some ActionAllow
      else if v = ''deny'' then Some ActionDeny
      else if v = ''ask'' then Some ActionAsk
      else None)"

fun mode_string :: "mode \<Rightarrow> string" where
  "mode_string ModeAsk = ''ask''"
| "mode_string ModeAuto = ''auto''"
| "mode_string ModeAlwaysApprove = ''always-approve''"
| "mode_string ModeDeny = ''deny''"
| "mode_string _ = ''unknown''"

definition valid_mode :: "mode \<Rightarrow> bool" where
  "valid_mode m = (m = ModeAsk \<or> m = ModeAuto \<or> m = ModeAlwaysApprove \<or> m = ModeDeny)"

definition parse_mode :: "string \<Rightarrow> mode option" where
  "parse_mode value =
     (let v = to_lower (trim_space value) in
      if v = ''ask'' then Some ModeAsk
      else if v = ''auto'' then Some ModeAuto
      else if v \<in> set [''always-approve'', ''always_approve'', ''yolo''] then Some ModeAlwaysApprove
      else if v \<in> set [''deny'', ''dont-ask'', ''dont_ask'', ''plan''] then Some ModeDeny
      else None)"

fun pattern_mode_string :: "pattern_mode \<Rightarrow> string" where
  "pattern_mode_string PatternModeGlob = ''glob''"
| "pattern_mode_string PatternModeDomain = ''domain''"
| "pattern_mode_string _ = ''unknown''"

definition valid_pattern_mode :: "pattern_mode \<Rightarrow> bool" where
  "valid_pattern_mode m = (m = PatternModeGlob \<or> m = PatternModeDomain)"

definition parse_pattern_mode :: "string \<Rightarrow> pattern_mode option" where
  "parse_pattern_mode value =
     (let v = to_lower (trim_space value) in
      if v = [] \<or> v = ''glob'' then Some PatternModeGlob
      else if v = ''domain'' then Some PatternModeDomain
      else None)"

fun grant_scope_string :: "grant_scope \<Rightarrow> string" where
  "grant_scope_string GrantScopeOnce = ''once''"
| "grant_scope_string GrantScopeSession = ''session''"
| "grant_scope_string _ = ''unknown''"

definition valid_grant_scope :: "grant_scope \<Rightarrow> bool" where
  "valid_grant_scope g = (g = GrantScopeOnce \<or> g = GrantScopeSession)"

definition parse_grant_scope :: "string \<Rightarrow> grant_scope option" where
  "parse_grant_scope value =
     (let v = to_lower (trim_space value) in
      if v = ''once'' then Some GrantScopeOnce
      else if v = ''session'' then Some GrantScopeSession
      else None)"

definition parse_tool_kind :: "string \<Rightarrow> kind option" where
  "parse_tool_kind value =
     (let v = to_lower (trim_space value) in
      if v = [] \<or> v = ''any'' then Some KindAny
      else if v = ''read'' then Some KindRead
      else if v = ''edit'' then Some KindEdit
      else if v = ''bash'' \<or> v = ''shell'' then Some KindBash
      else if v = ''grep'' \<or> v = ''search'' then Some KindGrep
      else if v = ''git'' then Some KindGit
      else if v = ''mcp'' then Some KindMCP
      else if v = ''web'' then Some KindWeb
      else if v = ''task'' \<or> v = ''todo'' then Some KindTask
      else if v = ''agent'' \<or> v = ''subagent'' then Some KindAgent
      else if v = ''compute'' \<or> v = ''math'' then Some KindCompute
      else if v = ''question'' \<or> v = ''ask'' then Some KindQuestion
      else None)"

definition valid_tool_kind :: "kind \<Rightarrow> bool" where
  "valid_tool_kind k = (k \<in> {KindAny, KindRead, KindEdit, KindBash, KindGrep, KindGit, KindMCP,
     KindWeb, KindTask, KindAgent, KindCompute, KindQuestion})"

subsection \<open>Rules, requests, decisions\<close>

record rule =
  rule_action :: action
  rule_tool :: kind
  rule_pattern :: string
  rule_mode :: pattern_mode

record config =
  config_rules :: "rule list"
  config_default :: action

record request =
  req_call_id :: string
  req_tool_name :: string
  req_kind :: kind
  req_detail :: string
  req_arguments :: string
  req_risk :: command_risk
  req_effect :: command_effect
  req_scope :: command_scope

datatype reason = DeniedByRule kind string string | RequiresApproval | AllowedByPolicy
  | SafeLocalComputation | InteractiveClarification | PolicyDefault action | ReasonText string

record decision =
  dec_action :: action
  dec_reason :: reason

record resolution =
  resn_action :: action
  resn_scope :: grant_scope
  resn_reason :: reason

text \<open>\<open>GrantKey\<close>, with the digest of the arguments.\<close>

record 'd grant_key =
  key_tool_name :: string
  key_kind :: kind
  key_detail :: string
  key_digest :: 'd
  key_effect :: command_effect
  key_risk :: command_risk
  key_scope :: command_scope

definition request_key :: "(string \<Rightarrow> 'd) \<Rightarrow> request \<Rightarrow> 'd grant_key" where
  "request_key digest r =
     \<lparr>key_tool_name = req_tool_name r, key_kind = req_kind r, key_detail = req_detail r,
      key_digest = digest (req_arguments r), key_effect = req_effect r,
      key_risk = req_risk r, key_scope = req_scope r\<rparr>"

definition session_grant_eligible :: "request \<Rightarrow> bool" where
  "session_grant_eligible r = (req_effect r = EffectReadOnly \<and> req_risk r = RiskNormal)"

type_synonym host_parser = "string \<Rightarrow> string option"

text \<open>\<open>url.Parse\<close> succeeds and \<open>Hostname()\<close> is not empty: the lower-cased host.\<close>

definition request_host :: "host_parser \<Rightarrow> string \<Rightarrow> string option" where
  "request_host host_of detail =
     (case host_of detail of
        None \<Rightarrow> None
      | Some h \<Rightarrow> if h = [] then None else Some (to_lower h))"

definition allow_rule :: "kind \<Rightarrow> string \<Rightarrow> pattern_mode \<Rightarrow> rule" where
  "allow_rule k p m =
     \<lparr>rule_action = ActionAllow, rule_tool = k, rule_pattern = p, rule_mode = m\<rparr>"

definition rule_from_request :: "host_parser \<Rightarrow> request \<Rightarrow> rule option" where
  "rule_from_request host_of r =
     (if req_kind r = KindMCP then
        (let n = trim_space (req_tool_name r) in
         if n = [] then None else Some (allow_rule KindMCP n PatternModeGlob))
      else let detail = trim_space (req_detail r) in
        if detail = [] \<or> contains_any detail [CHR 0x0D, CHR 0x0A] then None
        else if has_prefix detail ''{'' \<and> has_suffix detail ''}'' then None
        else if req_kind r = KindBash then Some (allow_rule KindBash detail PatternModeGlob)
        else if req_kind r \<in> {KindRead, KindGrep, KindGit}
        then Some (allow_rule (req_kind r) detail PatternModeGlob)
        else if req_kind r = KindWeb then
          map_option (\<lambda>h. allow_rule KindWeb h PatternModeDomain) (request_host host_of detail)
        else None)"

definition persistent_rule_eligible :: "host_parser \<Rightarrow> request \<Rightarrow> bool" where
  "persistent_rule_eligible host_of r =
     (session_grant_eligible r \<and> rule_from_request host_of r \<noteq> None)"

subsection \<open>Patterns\<close>

definition mcp_pattern :: "string \<Rightarrow> string" where
  "mcp_pattern p =
     (if p \<noteq> [] \<and> contains p ''.'' \<and> \<not> has_prefix p ''mcp.'' then ''mcp.'' @ p else p)"

definition normalize_pattern :: "kind \<Rightarrow> pattern_mode \<Rightarrow> string \<Rightarrow> string" where
  "normalize_pattern k m pattern =
     (let trimmed = trim_space pattern in
      if m = PatternModeDomain then
        (if trimmed = [] \<or> trimmed = ''*'' \<or> equal_fold trimmed ''all'' then ''*''
         else to_lower trimmed)
      else if k = KindMCP \<and> equal_fold trimmed ''all'' then ''*''
      else let t = (if k = KindMCP then mcp_pattern trimmed else trimmed) in
        if t = [] \<or> t = ''*'' \<or> equal_fold t ''all'' then ''*'' else t)"

definition rule_matches :: "host_parser \<Rightarrow> rule \<Rightarrow> request \<Rightarrow> bool" where
  "rule_matches host_of rule r =
     (if rule_tool rule \<noteq> KindAny \<and> rule_tool rule \<noteq> req_kind r then False
      else if rule_pattern rule = [] \<or> rule_pattern rule = ''*'' then True
      else if rule_mode rule = PatternModeDomain then
        (case request_host host_of (req_detail r) of
           None \<Rightarrow> False
         | Some h \<Rightarrow> glob_match (rule_pattern rule) h \<or>
             (req_kind r = KindMCP \<and> glob_match (rule_pattern rule) (req_tool_name r)))
      else glob_match (rule_pattern rule) (req_detail r) \<or>
             (req_kind r = KindMCP \<and> glob_match (rule_pattern rule) (req_tool_name r)))"

definition rule_reason :: "rule \<Rightarrow> request \<Rightarrow> reason" where
  "rule_reason rule r =
     DeniedByRule (rule_tool rule) (req_tool_name r)
       (if rule_pattern rule = [] then ''*'' else rule_pattern rule)"

subsection \<open>The policy\<close>

record policy =
  pol_rules :: "rule list"
  pol_default :: action

datatype config_error = InvalidDefault action | InvalidAction action | InvalidTool kind
  | InvalidPatternMode pattern_mode

text \<open>The pattern \<open>NewPolicy\<close> stores for a rule whose tool and mode are defaulted already.\<close>

definition config_pattern :: "kind \<Rightarrow> pattern_mode \<Rightarrow> string \<Rightarrow> string" where
  "config_pattern k m pattern =
     (let p = trim_space pattern in
      if m = PatternModeDomain then (if equal_fold p ''all'' then ''*'' else to_lower p)
      else if equal_fold p ''all'' then ''*''
      else if k = KindMCP then mcp_pattern p
      else p)"

text \<open>The defaults and the checks \<open>NewPolicy\<close> and \<open>AddRule\<close> share; they differ in the pattern.\<close>

definition compile_rule :: "(kind \<Rightarrow> pattern_mode \<Rightarrow> string \<Rightarrow> string) \<Rightarrow> rule \<Rightarrow>
    (config_error, rule) result" where
  "compile_rule norm r =
     (if \<not> valid_action (rule_action r) then Inl (InvalidAction (rule_action r))
      else let k = (if rule_tool r = KindOther [] then KindAny else rule_tool r) in
        if \<not> valid_tool_kind k then Inl (InvalidTool k)
        else let m = (if rule_mode r = PatternModeUnknown then PatternModeGlob else rule_mode r) in
          if \<not> valid_pattern_mode m then Inl (InvalidPatternMode m)
          else Inr (r\<lparr>rule_tool := k, rule_mode := m, rule_pattern := norm k m (rule_pattern r)\<rparr>))"

fun compile_rules :: "rule list \<Rightarrow> (config_error, rule list) result" where
  "compile_rules [] = Inr []"
| "compile_rules (r # rs) =
     (case compile_rule config_pattern r of
        Inl e \<Rightarrow> Inl e
      | Inr r' \<Rightarrow> (case compile_rules rs of Inl e \<Rightarrow> Inl e | Inr rs' \<Rightarrow> Inr (r' # rs')))"

definition new_policy :: "config \<Rightarrow> (config_error, policy) result" where
  "new_policy c =
     (let d = (if config_default c = ActionUnknown then ActionAsk else config_default c) in
      if \<not> valid_action d then Inl (InvalidDefault d)
      else case compile_rules (config_rules c) of
          Inl e \<Rightarrow> Inl e
        | Inr rs \<Rightarrow> Inr \<lparr>pol_rules = rs, pol_default = d\<rparr>)"

text \<open>The loop of \<open>Evaluate\<close>: the rules left, \<open>matchedAsk\<close>, \<open>matchedAllow\<close>.\<close>

fun evaluate_rules :: "host_parser \<Rightarrow> action \<Rightarrow> request \<Rightarrow> rule list \<Rightarrow> bool \<Rightarrow> bool \<Rightarrow> decision" where
  "evaluate_rules host_of dflt r [] ask allow =
     (if ask then \<lparr>dec_action = ActionAsk, dec_reason = RequiresApproval\<rparr>
      else if allow then \<lparr>dec_action = ActionAllow, dec_reason = AllowedByPolicy\<rparr>
      else if req_kind r = KindCompute
      then \<lparr>dec_action = ActionAllow, dec_reason = SafeLocalComputation\<rparr>
      else if req_kind r = KindQuestion
      then \<lparr>dec_action = ActionAllow, dec_reason = InteractiveClarification\<rparr>
      else \<lparr>dec_action = dflt, dec_reason = PolicyDefault dflt\<rparr>)"
| "evaluate_rules host_of dflt r (rule # rules) ask allow =
     (if \<not> rule_matches host_of rule r then evaluate_rules host_of dflt r rules ask allow
      else case rule_action rule of
          ActionDeny \<Rightarrow> \<lparr>dec_action = ActionDeny, dec_reason = rule_reason rule r\<rparr>
        | ActionAsk \<Rightarrow> evaluate_rules host_of dflt r rules True allow
        | ActionAllow \<Rightarrow> evaluate_rules host_of dflt r rules ask True
        | _ \<Rightarrow> evaluate_rules host_of dflt r rules ask allow)"

definition evaluate :: "host_parser \<Rightarrow> policy \<Rightarrow> request \<Rightarrow> decision" where
  "evaluate host_of p r = evaluate_rules host_of (pol_default p) r (pol_rules p) False False"

text \<open>\<open>AddRule\<close>: the error, or the policy after it.\<close>

definition add_rule :: "policy \<Rightarrow> rule \<Rightarrow> (config_error, policy) result" where
  "add_rule p r =
     (case compile_rule normalize_pattern r of
        Inl e \<Rightarrow> Inl e
      | Inr r' \<Rightarrow> Inr (p\<lparr>pol_rules := append_new (pol_rules p) r'\<rparr>))"

definition rules_copy :: "policy \<Rightarrow> rule list" where
  "rules_copy p = pol_rules p"

subsection \<open>Lemmas\<close>

definition rule_valid :: "rule \<Rightarrow> bool" where
  "rule_valid r =
     (valid_action (rule_action r) \<and> valid_tool_kind (rule_tool r) \<and>
      valid_pattern_mode (rule_mode r))"

definition policy_wf :: "policy \<Rightarrow> bool" where
  "policy_wf p = (valid_action (pol_default p) \<and> list_all rule_valid (pol_rules p))"

text \<open>Some rule of the policy with the given action matches.\<close>

definition has_match :: "host_parser \<Rightarrow> rule list \<Rightarrow> request \<Rightarrow> action \<Rightarrow> bool" where
  "has_match host_of rules r a =
     list_ex (\<lambda>x. rule_matches host_of x r \<and> rule_action x = a) rules"

lemma has_match_simps [simp]:
  "\<not> has_match h [] r a"
  "has_match h (x # xs) r a \<longleftrightarrow> (rule_matches h x r \<and> rule_action x = a) \<or> has_match h xs r a"
  "has_match h (xs @ ys) r a \<longleftrightarrow> has_match h xs r a \<or> has_match h ys r a"
  by (simp_all add: has_match_def)

lemma has_match_set: "set xs = set ys \<Longrightarrow> has_match h xs r a = has_match h ys r a"
  by (simp add: has_match_def list_ex_iff)

lemma has_match_append_new:
  "has_match h (append_new xs x) r a \<longleftrightarrow>
     has_match h xs r a \<or> (rule_matches h x r \<and> rule_action x = a)"
  by (auto simp: append_new_def has_match_def list_ex_iff)

lemma evaluate_rules_action:
  "dec_action (evaluate_rules h dflt r rules ask allow) =
     (if has_match h rules r ActionDeny then ActionDeny
      else if ask \<or> has_match h rules r ActionAsk then ActionAsk
      else if allow \<or> has_match h rules r ActionAllow then ActionAllow
      else if req_kind r \<in> {KindCompute, KindQuestion} then ActionAllow
      else dflt)"
  by (induction rules arbitrary: ask allow) (auto split: action.split)

lemma evaluate_action:
  "dec_action (evaluate h p r) =
     (if has_match h (pol_rules p) r ActionDeny then ActionDeny
      else if has_match h (pol_rules p) r ActionAsk then ActionAsk
      else if has_match h (pol_rules p) r ActionAllow then ActionAllow
      else if req_kind r \<in> {KindCompute, KindQuestion} then ActionAllow
      else pol_default p)"
  by (simp add: evaluate_def evaluate_rules_action)

lemma compile_rule_valid: "compile_rule norm r = Inr r' \<Longrightarrow> rule_valid r'"
  by (auto simp: compile_rule_def rule_valid_def Let_def split: if_splits)

lemma compile_rules_valid:
  "compile_rules rs = Inr rs' \<Longrightarrow> list_all rule_valid rs' \<and> length rs' = length rs \<and>
     map rule_action rs' = map rule_action rs"
proof (induction rs arbitrary: rs')
  case Nil
  then show ?case by simp
next
  case (Cons r rs)
  then show ?case
    by (auto simp: compile_rule_valid split: sum.splits)
       (auto simp: compile_rule_def Let_def split: if_splits)
qed

lemma add_rule_Inr:
  assumes "add_rule p r = Inr p'"
  obtains r' where "compile_rule normalize_pattern r = Inr r'"
    "p' = p\<lparr>pol_rules := append_new (pol_rules p) r'\<rparr>"
  using assms by (auto simp: add_rule_def split: sum.splits)

lemma compile_rule_Inr:
  assumes "compile_rule norm r = Inr r'"
  shows "rule_action r' = rule_action r"
    and "rule_tool r' = (if rule_tool r = KindOther [] then KindAny else rule_tool r)"
    and "rule_mode r' = (if rule_mode r = PatternModeUnknown then PatternModeGlob else rule_mode r)"
    and "rule_pattern r' = norm (rule_tool r') (rule_mode r') (rule_pattern r)"
  using assms by (auto simp: compile_rule_def Let_def split: if_splits)

lemma allow_rule_simps [simp]:
  "rule_action (allow_rule k p m) = ActionAllow" "rule_tool (allow_rule k p m) = k"
  "rule_pattern (allow_rule k p m) = p" "rule_mode (allow_rule k p m) = m"
  by (simp_all add: allow_rule_def)

lemma normalize_glob:
  "k \<noteq> KindMCP \<Longrightarrow> normalize_pattern k PatternModeGlob d =
     (if trim_space d = [] \<or> trim_space d = ''*'' \<or> equal_fold (trim_space d) ''all''
      then ''*'' else trim_space d)"
  by (simp add: normalize_pattern_def Let_def)

lemma normalize_mcp:
  "normalize_pattern KindMCP PatternModeGlob n = ''*'' \<or>
   normalize_pattern KindMCP PatternModeGlob n = mcp_pattern (trim_space n)"
  by (simp add: normalize_pattern_def Let_def)

text \<open>The cases in which a rule is made from a request.\<close>

lemma rule_from_request_cases:
  assumes "rule_from_request h r = Some x"
  obtains (mcp) "req_kind r = KindMCP" "trim_space (req_tool_name r) \<noteq> []"
      "x = allow_rule KindMCP (trim_space (req_tool_name r)) PatternModeGlob"
  | (detail) "req_kind r \<in> {KindBash, KindRead, KindGrep, KindGit}" "trim_space (req_detail r) \<noteq> []"
      "x = allow_rule (req_kind r) (trim_space (req_detail r)) PatternModeGlob"
  | (web) host where "req_kind r = KindWeb" "request_host h (trim_space (req_detail r)) = Some host"
      "x = allow_rule KindWeb host PatternModeDomain"
  using assms by (auto simp: rule_from_request_def Let_def split: if_splits)

text \<open>
  What a rule made from a request and added to a policy matches, when the parts it was made
  from are written the way the rule keeps them.
\<close>

definition canonical_request :: "host_parser \<Rightarrow> request \<Rightarrow> bool" where
  "canonical_request h r =
     (if req_kind r = KindMCP then mcp_pattern (trim_space (req_tool_name r)) = req_tool_name r
      else trim_space (req_detail r) = req_detail r \<and>
        (case request_host h (req_detail r) of
           None \<Rightarrow> True
         | Some host \<Rightarrow> to_lower (trim_space host) = host))"

lemma persisted_rule_matches:
  assumes "rule_from_request h r = Some x" "canonical_request h r"
    and "compile_rule normalize_pattern x = Inr x'"
  shows "rule_matches h x' r \<and> rule_action x' = ActionAllow"
proof -
  note c = compile_rule_Inr [OF assms(3)]
  from assms(1) show ?thesis
  proof (cases rule: rule_from_request_cases)
    case mcp
    with c normalize_mcp [of "trim_space (req_tool_name r)"] assms(2) show ?thesis
      by (auto simp: rule_matches_def canonical_request_def)
  next
    case detail
    with c assms(2) show ?thesis
      by (auto simp: rule_matches_def canonical_request_def normalize_glob)
  next
    case (web host)
    with assms(2) have d: "trim_space (req_detail r) = req_detail r"
      by (simp add: canonical_request_def)
    have host: "request_host h (req_detail r) = Some host" using web(2) unfolding d .
    then have "to_lower (trim_space host) = host"
      using assms(2) web(1) by (simp add: canonical_request_def)
    with c web have x': "rule_tool x' = KindWeb" "rule_mode x' = PatternModeDomain"
      "rule_pattern x' = ''*'' \<or> rule_pattern x' = host" "rule_action x' = ActionAllow"
      by (simp_all add: normalize_pattern_def Let_def)
    from x'(3) show ?thesis
      by (elim disjE) (simp_all add: rule_matches_def x' host web(1))
  qed
qed

lemma persisted_rule_narrow:
  assumes "rule_from_request h r = Some x" "req_kind r \<in> {KindBash, KindRead, KindGrep, KindGit}"
    and "compile_rule normalize_pattern x = Inr x'"
    and "\<not> contains_any (req_detail r) ''*?''" "\<not> equal_fold (trim_space (req_detail r)) ''all''"
    and "rule_matches h x' r'"
  shows "req_kind r' = req_kind r \<and> req_detail r' = trim_space (req_detail r)"
proof -
  note c = compile_rule_Inr [OF assms(3)]
  let ?d = "trim_space (req_detail r)"
  from assms(1) have xne: "x = allow_rule (req_kind r) ?d PatternModeGlob \<and> ?d \<noteq> []"
    by (cases rule: rule_from_request_cases) (use assms(2) in simp_all)
  then have x: "x = allow_rule (req_kind r) ?d PatternModeGlob" and ne: "?d \<noteq> []" by blast+
  have nw: "\<not> contains_any ?d ''*?''"
    using assms(4) set_trim_space [of "req_detail r"] unfolding contains_any_iff by blast
  then have star: "?d \<noteq> ''*''" by (metis contains_any_iff list.set_intros(1))
  have x': "rule_tool x' = req_kind r" "rule_mode x' = PatternModeGlob" "rule_pattern x' = ?d"
    using c x assms(2,5) ne star by (auto simp: normalize_glob)
  with assms(2,6) ne star have "glob_match ?d (req_detail r')" "req_kind r' = req_kind r"
    by (auto simp: rule_matches_def split: if_splits)
  with nw show ?thesis by (simp add: glob_match_literal)
qed

subsection \<open>Properties\<close>

text \<open>
  C4: A policy decides by precedence, not by the order of its rules: deny when any matching rule
  denies, else ask when any asks, else allow when any allows, else the built-in allowance for
  computation and questions, else the default. Two policies with the same default and the same
  set of rules decide the same.
\<close>

theorem evaluate_precedence:
  "dec_action (evaluate h p r) =
     (if has_match h (pol_rules p) r ActionDeny then ActionDeny
      else if has_match h (pol_rules p) r ActionAsk then ActionAsk
      else if has_match h (pol_rules p) r ActionAllow then ActionAllow
      else if req_kind r \<in> {KindCompute, KindQuestion} then ActionAllow
      else pol_default p) \<and>
   dec_action (evaluate h (p\<lparr>pol_rules := rev (pol_rules p)\<rparr>) r) = dec_action (evaluate h p r) \<and>
   dec_action (evaluate h (p\<lparr>pol_rules := remdups (pol_rules p)\<rparr>) r) = dec_action (evaluate h p r)"
  by (simp add: evaluate_action has_match_set [of "rev (pol_rules p)" "pol_rules p"]
      has_match_set [of "remdups (pol_rules p)" "pol_rules p"])

text \<open>
  A policy built from a configuration keeps one rule per configured rule with its action,
  all of them valid, and every decision it makes is one of allow, deny and ask. An unset default
  is ask.
\<close>

theorem new_policy_valid:
  assumes "new_policy c = Inr p"
  shows "policy_wf p \<and> map rule_action (pol_rules p) = map rule_action (config_rules c) \<and>
     (config_default c = ActionUnknown \<longrightarrow> pol_default p = ActionAsk) \<and>
     valid_action (dec_action (evaluate h p r))"
proof -
  from assms obtain rs where rs: "compile_rules (config_rules c) = Inr rs" "pol_rules p = rs"
      "valid_action (pol_default p)" "config_default c = ActionUnknown \<longrightarrow> pol_default p = ActionAsk"
    by (auto simp: new_policy_def Let_def split: if_splits sum.splits)
  moreover have "valid_action ActionAllow" "valid_action ActionDeny" "valid_action ActionAsk"
    by (simp_all add: valid_action_def)
  ultimately show ?thesis
    using compile_rules_valid [OF rs(1)] by (simp add: policy_wf_def evaluate_action)
qed

definition sample_config :: config where
  "sample_config = \<lparr>config_rules =
     [\<lparr>rule_action = ActionAllow, rule_tool = KindBash, rule_pattern = '' git * '',
        rule_mode = PatternModeUnknown\<rparr>,
      \<lparr>rule_action = ActionDeny, rule_tool = KindOther [], rule_pattern = ''*secret*'',
        rule_mode = PatternModeGlob\<rparr>],
     config_default = ActionUnknown\<rparr>"

definition sample_policy :: policy where
  "sample_policy = \<lparr>pol_rules =
     [\<lparr>rule_action = ActionAllow, rule_tool = KindBash, rule_pattern = ''git *'',
        rule_mode = PatternModeGlob\<rparr>,
      \<lparr>rule_action = ActionDeny, rule_tool = KindAny, rule_pattern = ''*secret*'',
        rule_mode = PatternModeGlob\<rparr>],
     pol_default = ActionAsk\<rparr>"

definition sample_request :: "kind \<Rightarrow> string \<Rightarrow> request" where
  "sample_request k detail = \<lparr>req_call_id = ''1'', req_tool_name = ''tool'', req_kind = k,
     req_detail = detail, req_arguments = ''{}'', req_risk = RiskNormal,
     req_effect = EffectReadOnly, req_scope = ScopeUnknown\<rparr>"

theorem new_policy_valid_witness:
  "policy_wf sample_policy \<and>
   dec_action (evaluate (\<lambda>_. None) sample_policy (sample_request KindBash ''git show secret'')) =
     ActionDeny"
proof
  have "new_policy sample_config = Inr sample_policy" by code_simp
  from new_policy_valid [OF this] show "policy_wf sample_policy" by blast
  show "dec_action (evaluate (\<lambda>_. None) sample_policy
      (sample_request KindBash ''git show secret'')) = ActionDeny"
    by code_simp
qed

text \<open>
  Adding a rule keeps a policy valid and free of repetitions, doing it twice is doing it
  once, every request that a rule of the policy denies stays denied, and a new rule that allows
  does not change the decision on a request for which a rule asks.
\<close>

theorem add_rule_keeps:
  assumes "policy_wf p" and "distinct (pol_rules p)" and "add_rule p x = Inr p'"
  shows "policy_wf p' \<and> distinct (pol_rules p') \<and> add_rule p' x = Inr p' \<and>
     set (pol_rules p) \<subseteq> set (pol_rules p') \<and>
     (has_match h (pol_rules p) r ActionDeny \<longrightarrow> dec_action (evaluate h p' r) = ActionDeny) \<and>
     (rule_action x = ActionAllow \<and> has_match h (pol_rules p) r ActionAsk \<longrightarrow>
        dec_action (evaluate h p' r) = dec_action (evaluate h p r))"
proof -
  from assms(3) obtain x' where x': "compile_rule normalize_pattern x = Inr x'"
      "p' = p\<lparr>pol_rules := append_new (pol_rules p) x'\<rparr>"
    by (rule add_rule_Inr)
  have "append_new (append_new (pol_rules p) x') x' = append_new (pol_rules p) x'"
    by (simp add: append_new_def)
  moreover have "list_all rule_valid (append_new (pol_rules p) x')"
    using assms(1) compile_rule_valid [OF x'(1)] by (simp add: policy_wf_def list_all_iff)
  ultimately show ?thesis
    using assms(1,2) x' compile_rule_Inr(1) [OF x'(1)]
    by (auto simp: add_rule_def policy_wf_def evaluate_action has_match_append_new)
qed

theorem add_rule_keeps_witness:
  "case add_rule sample_policy (allow_rule KindBash ''git show secret'' PatternModeGlob) of
     Inl _ \<Rightarrow> False
   | Inr p' \<Rightarrow> dec_action (evaluate (\<lambda>_. None) p' (sample_request KindBash ''git show secret'')) =
       ActionDeny"
proof -
  let ?x = "allow_rule KindBash ''git show secret'' PatternModeGlob"
  let ?p = "sample_policy\<lparr>pol_rules := append_new (pol_rules sample_policy) ?x\<rparr>"
  have "policy_wf sample_policy" "distinct (pol_rules sample_policy)"
    "has_match (\<lambda>_. None) (pol_rules sample_policy) (sample_request KindBash ''git show secret'')
       ActionDeny"
    by code_simp+
  moreover have a: "add_rule sample_policy ?x = Inr ?p" by code_simp
  ultimately have "dec_action (evaluate (\<lambda>_. None) ?p
      (sample_request KindBash ''git show secret'')) = ActionDeny"
    using add_rule_keeps by blast
  with a show ?thesis by simp
qed

text \<open>
  A rule persisted from a request does what its comment says: added to a policy it matches
  the request, which is then allowed unless a rule denies it or asks, provided that the
  request's detail is trimmed, its host name is in lower case and without blanks, and an MCP
  tool's name is already in canonical form.
\<close>

theorem persisted_rule_allows:
  assumes "rule_from_request h r = Some x" and "canonical_request h r"
    and "add_rule p x = Inr p'"
  shows "dec_action (evaluate h p' r) =
    (if has_match h (pol_rules p) r ActionDeny then ActionDeny
     else if has_match h (pol_rules p) r ActionAsk then ActionAsk
     else ActionAllow)"
proof -
  from assms(3) obtain x' where x': "compile_rule normalize_pattern x = Inr x'"
      "p' = p\<lparr>pol_rules := append_new (pol_rules p) x'\<rparr>"
    by (rule add_rule_Inr)
  from persisted_rule_matches [OF assms(1,2) x'(1)]
  show ?thesis by (simp add: x'(2) evaluate_action has_match_append_new)
qed

theorem persisted_rule_allows_witness:
  "case rule_from_request (\<lambda>_. Some ''Go.Dev'') (sample_request KindWeb ''https://Go.Dev/x'') of
     None \<Rightarrow> False
   | Some x \<Rightarrow> (case add_rule sample_policy x of
         Inl _ \<Rightarrow> False
       | Inr p' \<Rightarrow> dec_action (evaluate (\<lambda>_. Some ''Go.Dev'') p'
           (sample_request KindWeb ''https://Go.Dev/x'')) = ActionAllow)"
proof -
  let ?h = "\<lambda>_::string. Some ''Go.Dev''"
  let ?r = "sample_request KindWeb ''https://Go.Dev/x''"
  let ?x = "allow_rule KindWeb ''go.dev'' PatternModeDomain"
  let ?p = "sample_policy\<lparr>pol_rules := append_new (pol_rules sample_policy) ?x\<rparr>"
  have x: "rule_from_request ?h ?r = Some ?x" by code_simp
  have c: "canonical_request ?h ?r" by code_simp
  have a: "add_rule sample_policy ?x = Inr ?p" by code_simp
  have n: "\<not> has_match ?h (pol_rules sample_policy) ?r ActionDeny"
    "\<not> has_match ?h (pol_rules sample_policy) ?r ActionAsk" by code_simp+
  show ?thesis using persisted_rule_allows [OF x c a] x a n by simp
qed

text \<open>
  A rule persisted from a read, search, repository or shell request whose detail has no
  wildcard and is not the word all allows that detail only, for the same kind of tool only.
\<close>

theorem persisted_rule_exact:
  assumes "rule_from_request h r = Some x"
    and "req_kind r \<in> {KindBash, KindRead, KindGrep, KindGit}"
    and "\<not> contains_any (req_detail r) ''*?''"
    and "\<not> equal_fold (trim_space (req_detail r)) ''all''"
    and "compile_rule normalize_pattern x = Inr x'" and "rule_matches h x' r'"
  shows "req_kind r' = req_kind r \<and> req_detail r' = trim_space (req_detail r)"
  using persisted_rule_narrow [OF assms(1,2,5,3,4,6)] .

theorem persisted_rule_exact_witness:
  "req_detail (sample_request KindGit ''log'') = trim_space '' log ''"
proof -
  let ?x = "allow_rule KindGit ''log'' PatternModeGlob"
  have "rule_from_request (\<lambda>_. None) (sample_request KindGit '' log '') = Some ?x" by code_simp
  moreover have "req_kind (sample_request KindGit '' log '') \<in> {KindBash, KindRead, KindGrep, KindGit}"
    by code_simp
  moreover have "\<not> contains_any (req_detail (sample_request KindGit '' log '')) ''*?''" by code_simp
  moreover have "\<not> equal_fold (trim_space (req_detail (sample_request KindGit '' log ''))) ''all''"
    by code_simp
  moreover have "compile_rule normalize_pattern ?x = Inr ?x" by code_simp
  moreover have "rule_matches (\<lambda>_. None) ?x (sample_request KindGit ''log'')" by code_simp
  ultimately have "req_detail (sample_request KindGit ''log'') =
      trim_space (req_detail (sample_request KindGit '' log ''))"
    using persisted_rule_exact by blast
  then show ?thesis by (simp add: sample_request_def)
qed

definition persisted_matches :: "kind \<Rightarrow> string \<Rightarrow> string \<Rightarrow> bool" where
  "persisted_matches k detail other =
     (case rule_from_request (\<lambda>_. None) (sample_request k detail) of
        None \<Rightarrow> False
      | Some x \<Rightarrow> (case compile_rule normalize_pattern x of
            Inl _ \<Rightarrow> False
          | Inr x' \<Rightarrow> rule_matches (\<lambda>_. None) x' (sample_request k other)))"

text \<open>
  Neither condition can be dropped. The rule persisted from reading a file called all allows
  every read; the one persisted from a listing with a star also allows a removal behind it;
  and a detail with a blank in front is not matched by its own rule.
\<close>

theorem persisted_rule_too_wide:
  "persisted_matches KindRead ''all'' ''/etc/shadow'' \<and>
   persisted_matches KindBash ''ls *'' ''ls ; rm -rf x'' \<and>
   \<not> persisted_matches KindBash '' ls'' '' ls''"
  by code_simp

text \<open>
  The configuration spellings round-trip: each valid action, mode, pattern mode and grant
  scope parses back from its own name, and parsing never yields an invalid one.
\<close>

theorem spellings_round_trip:
  "(valid_action a \<longrightarrow> parse_action (action_string a) = Some a) \<and>
   (valid_mode m \<longrightarrow> parse_mode (mode_string m) = Some m) \<and>
   (valid_pattern_mode pm \<longrightarrow> parse_pattern_mode (pattern_mode_string pm) = Some pm) \<and>
   (valid_grant_scope g \<longrightarrow> parse_grant_scope (grant_scope_string g) = Some g) \<and>
   pred_option valid_action (parse_action v) \<and> pred_option valid_mode (parse_mode v) \<and>
   pred_option valid_pattern_mode (parse_pattern_mode v) \<and>
   pred_option valid_grant_scope (parse_grant_scope v)"
proof -
  have t: "parse_action ''allow'' = Some ActionAllow" "parse_action ''deny'' = Some ActionDeny"
    "parse_action ''ask'' = Some ActionAsk" "parse_mode ''ask'' = Some ModeAsk"
    "parse_mode ''auto'' = Some ModeAuto" "parse_mode ''always-approve'' = Some ModeAlwaysApprove"
    "parse_mode ''deny'' = Some ModeDeny" "parse_pattern_mode ''glob'' = Some PatternModeGlob"
    "parse_pattern_mode ''domain'' = Some PatternModeDomain"
    "parse_grant_scope ''once'' = Some GrantScopeOnce"
    "parse_grant_scope ''session'' = Some GrantScopeSession"
    by code_simp+
  have "pred_option valid_action (parse_action v)"
    by (simp add: parse_action_def valid_action_def Let_def)
  moreover have "pred_option valid_mode (parse_mode v)"
    by (simp add: parse_mode_def valid_mode_def Let_def)
  moreover have "pred_option valid_pattern_mode (parse_pattern_mode v)"
    "pred_option valid_grant_scope (parse_grant_scope v)"
    by (simp_all add: parse_pattern_mode_def valid_pattern_mode_def parse_grant_scope_def
        valid_grant_scope_def Let_def)
  ultimately show ?thesis
    using t by (auto simp: valid_action_def valid_mode_def valid_pattern_mode_def
        valid_grant_scope_def)
qed

theorem spellings_round_trip_witness:
  "parse_mode (mode_string ModeAlwaysApprove) = Some ModeAlwaysApprove"
  using spellings_round_trip [of ActionAllow ModeAlwaysApprove PatternModeGlob GrantScopeOnce]
  by (simp add: valid_mode_def)

end
