(* ===== verification/Path_Clean.thy ===== *)
theory Path_Clean
  imports Go_Prelude
begin

text \<open>
  \<open>filepath.Clean\<close> and \<open>filepath.IsAbs\<close> of the standard library on a Unix system, as the
  command analysis and the workspace use them: a path is cut at slashes, empty and dot
  components go, a dot-dot component removes the component before it unless there is none.
\<close>

definition slash :: char where
  "slash = CHR ''/''"

fun clean_step :: "bool \<Rightarrow> string list \<Rightarrow> string \<Rightarrow> string list" where
  "clean_step rooted stack part =
     (if part = [] \<or> part = ''.'' then stack
      else if part = ''..'' then
        (case stack of
           [] \<Rightarrow> if rooted then [] else [''..'']
         | t # ts \<Rightarrow> if t = ''..'' then ''..'' # stack else ts)
      else part # stack)"

definition clean_comps :: "string \<Rightarrow> string list" where
  "clean_comps p =
     rev (foldl (clean_step (has_prefix p [slash])) [] (split_char slash p))"

definition clean_path :: "string \<Rightarrow> string" where
  "clean_path p =
     (if p = [] then ''.''
      else let out = join [slash] (clean_comps p) in
        if has_prefix p [slash] then slash # out
        else if out = [] then ''.'' else out)"

definition is_abs :: "string \<Rightarrow> bool" where
  "is_abs p = has_prefix p [slash]"

subsection \<open>Lemmas\<close>

text \<open>A stack of components, last first: plain names above, then dot-dots of a relative path.\<close>

definition plain_comp :: "string \<Rightarrow> bool" where
  "plain_comp c = (c \<noteq> [] \<and> c \<noteq> ''.'' \<and> c \<noteq> ''..'' \<and> slash \<notin> set c)"

definition clean_stack :: "bool \<Rightarrow> string list \<Rightarrow> bool" where
  "clean_stack rooted st = (\<exists>xs n. st = xs @ replicate n ''..'' \<and> (\<forall>c \<in> set xs. plain_comp c) \<and>
     (rooted \<longrightarrow> n = 0))"

lemma split_char_no_sep: "w \<in> set (split_char x s) \<Longrightarrow> x \<notin> set w"
proof (induction s arbitrary: w)
  case Nil
  then show ?case by simp
next
  case (Cons c s)
  then show ?case by (fastforce split: if_splits list.splits)
qed

lemma clean_step_stack:
  assumes "clean_stack r st" "slash \<notin> set c"
  shows "clean_stack r (clean_step r st c)"
proof -
  from assms(1) obtain xs n where st: "st = xs @ replicate n ''..''"
      "\<forall>c \<in> set xs. plain_comp c" "r \<longrightarrow> n = 0"
    unfolding clean_stack_def by blast
  consider (skip) "c = [] \<or> c = ''.''" | (up) "c = ''..''" | (push) "plain_comp c"
    using assms(2) by (auto simp: plain_comp_def)
  then show ?thesis
  proof cases
    case skip
    with assms(1) show ?thesis by auto
  next
    case push
    then have "clean_step r st c = (c # xs) @ replicate n ''..''"
      using st by (auto simp: plain_comp_def)
    with push st show ?thesis unfolding clean_stack_def by (metis set_ConsD)
  next
    case up
    show ?thesis
    proof (cases xs)
      case Nil
      then show ?thesis
      proof (cases n)
        case 0
        then have "clean_step r st c = [] @ replicate (if r then 0 else 1) ''..''"
          using up st Nil by simp
        then show ?thesis unfolding clean_stack_def
          by (metis empty_iff empty_set)
      next
        case (Suc m)
        then have "clean_step r st c = [] @ replicate (Suc n) ''..''"
          using up st Nil by simp
        moreover from Suc st have "\<not> r" by simp
        ultimately show ?thesis unfolding clean_stack_def by (metis empty_iff empty_set)
      qed
    next
      case (Cons t ts)
      then have "clean_step r st c = ts @ replicate n ''..''"
        using up st by (auto simp: plain_comp_def)
      with Cons st show ?thesis unfolding clean_stack_def by (metis list.set_intros(2))
    qed
  qed
qed

lemma clean_fold_stack:
  "clean_stack r st \<Longrightarrow> \<forall>c \<in> set cs. slash \<notin> set c \<Longrightarrow> clean_stack r (foldl (clean_step r) st cs)"
proof (induction cs arbitrary: st)
  case Nil
  then show ?case by simp
next
  case (Cons c cs)
  then have "clean_stack r (clean_step r st c)" by (simp add: clean_step_stack del: clean_step.simps)
  with Cons show ?case by (simp del: clean_step.simps)
qed

lemma clean_comps_shape:
  obtains n xs where "clean_comps p = replicate n ''..'' @ xs" "\<forall>c \<in> set xs. plain_comp c"
    "is_abs p \<longrightarrow> n = 0"
proof -
  have "clean_stack r []" for r unfolding clean_stack_def by (metis append_Nil empty_iff empty_set replicate_0)
  moreover have "\<forall>c \<in> set (split_char slash p). slash \<notin> set c" using split_char_no_sep by blast
  ultimately have "clean_stack (is_abs p) (rev (clean_comps p))"
    unfolding clean_comps_def is_abs_def by (simp add: clean_fold_stack)
  then obtain xs n where "rev (clean_comps p) = xs @ replicate n ''..''"
      "\<forall>c \<in> set xs. plain_comp c" "is_abs p \<longrightarrow> n = 0"
    unfolding clean_stack_def by blast
  then have "clean_comps p = replicate n ''..'' @ rev xs" "\<forall>c \<in> set (rev xs). plain_comp c"
      "is_abs p \<longrightarrow> n = 0"
    by (metis rev_append rev_replicate rev_swap, simp_all)
  then show ?thesis by (rule that)
qed

lemma join_prefix_first: "has_prefix (join sep (w # ws)) w"
  by (cases ws) simp_all

text \<open>
  A relative path that neither is dot-dot nor starts with it once cleaned never leaves the
  directory it is read in: no component of it is dot-dot.
\<close>

lemma clean_path_stays:
  assumes "clean_path p \<noteq> ''..''" "\<not> has_prefix (clean_path p) ''../''" "\<not> is_abs p"
  shows "\<forall>c \<in> set (clean_comps p). plain_comp c"
proof -
  obtain n xs where sh: "clean_comps p = replicate n ''..'' @ xs" "\<forall>c \<in> set xs. plain_comp c"
    by (rule clean_comps_shape)
  show ?thesis
  proof (cases n)
    case 0
    with sh show ?thesis by simp
  next
    case (Suc m)
    then obtain ws where ws: "clean_comps p = ''..'' # ws" using sh by simp
    then have "p \<noteq> []" by (auto simp: clean_comps_def has_prefix_def)
    then have cp: "clean_path p = join [slash] (''..'' # ws)"
      using ws assms(3) join_prefix_first [of "[slash]" "''..''" ws]
      by (auto simp: clean_path_def is_abs_def Let_def has_prefix_iff)
    show ?thesis
    proof (cases ws)
      case Nil
      with cp assms(1) show ?thesis by simp
    next
      case (Cons v vs)
      with cp have "has_prefix (clean_path p) ''../''" by (simp add: slash_def has_prefix_def)
      with assms(2) show ?thesis by simp
    qed
  qed
qed

end
