(* ===== verification/Bash_Parser.thy ===== *)
theory Bash_Parser
  imports Path_Clean
begin

text \<open>
  \<open>internal/core/tool/bash_analysis_parser.go\<close>: the splitter of a command into segments and
  the splitter of a segment into words and redirection targets. Both are loops over the bytes
  of the string with one byte of lookahead (the splitter also looks one byte back). The
  remaining bytes are the list, \<open>prev\<close> is the byte before them, \<open>q\<close> the open quote, \<open>b\<close> the
  builder. \<open>None\<close> is the result \<open>false\<close>.
\<close>

subsection \<open>Bytes\<close>

definition dquote :: char where "dquote = CHR 0x22"
definition squote :: char where "squote = CHR 0x27"
definition backtick :: char where "backtick = CHR 0x60"
definition backslash :: char where "backslash = CHR 0x5C"
definition lf :: char where "lf = CHR 0x0A"
definition cr :: char where "cr = CHR 0x0D"

lemmas byte_defs = dquote_def squote_def backtick_def backslash_def lf_def cr_def slash_def

definition is_quote :: "char \<Rightarrow> bool" where
  "is_quote c = (c = squote \<or> c = dquote)"

text \<open>Unquoted, these bytes make the command unsupported.\<close>

definition refused_char :: "char \<Rightarrow> bool" where
  "refused_char c =
     (c = backtick \<or> c = CHR ''$'' \<or> c = CHR ''('' \<or> c = CHR '')'' \<or> c = CHR ''{'' \<or>
      c = CHR ''}'' \<or> c = lf)"

definition next_is :: "string \<Rightarrow> char \<Rightarrow> bool" where
  "next_is s c = (case s of [] \<Rightarrow> False | d # _ \<Rightarrow> d = c)"

subsection \<open>Segments\<close>

type_synonym split_result = "(string list \<times> string list) option"

definition split_finish :: "char option \<Rightarrow> string \<Rightarrow> string list \<Rightarrow> string list \<Rightarrow> split_result" where
  "split_finish q b segs ops =
     (if q \<noteq> None then None
      else let segs = segs @ [trim_space b] in
        if list_ex (\<lambda>s. s = []) segs then None else Some (segs, ops))"

fun split_shell :: "char option \<Rightarrow> string \<Rightarrow> char option \<Rightarrow> string \<Rightarrow> string list \<Rightarrow> string list \<Rightarrow>
    split_result" where
  "split_shell prev [] q b segs ops = split_finish q b segs ops"
| "split_shell prev (c # rest) q b segs ops =
     (case q of
        Some qc \<Rightarrow>
          if qc = dquote \<and> (c = backtick \<or> (c = CHR ''$'' \<and> next_is rest (CHR ''(''))) then None
          else split_shell (Some c) rest (if c = qc then None else q) (b @ [c]) segs ops
      | None \<Rightarrow>
          if is_quote c then split_shell (Some c) rest (Some c) (b @ [c]) segs ops
          else if refused_char c then None
          else if c = CHR '';'' then None
          else if c = CHR ''&'' then
            (if prev = Some (CHR ''>'') \<or> next_is rest (CHR ''>'')
             then split_shell (Some c) rest None (b @ [c]) segs ops
             else (case rest of
                 d # rest' \<Rightarrow>
                   if d = CHR ''&''
                   then split_shell (Some d) rest' None [] (segs @ [trim_space b]) (ops @ [''&&''])
                   else None
               | [] \<Rightarrow> None))
          else if c = CHR ''|'' then
            (if prev = Some (CHR ''>'') then split_shell (Some c) rest None (b @ [c]) segs ops
             else (case rest of
                 d # rest' \<Rightarrow>
                   if d = CHR ''|''
                   then split_shell (Some d) rest' None [] (segs @ [trim_space b]) (ops @ [''||''])
                   else if d = CHR ''&''
                   then split_shell (Some d) rest' None [] (segs @ [trim_space b]) (ops @ [''|&''])
                   else split_shell (Some c) rest None [] (segs @ [trim_space b]) (ops @ [''|''])
               | [] \<Rightarrow> split_shell (Some c) rest None [] (segs @ [trim_space b]) (ops @ [''|''])))
          else split_shell (Some c) rest None (b @ [c]) segs ops)"

definition split_simple_shell :: "string \<Rightarrow> split_result" where
  "split_simple_shell command = split_shell None command None [] [] []"

subsection \<open>Words and redirections\<close>

definition all_digits :: "string \<Rightarrow> bool" where
  "all_digits v = (v \<noteq> [] \<and> list_all digit_char v)"

definition flush_word :: "string \<Rightarrow> string list \<Rightarrow> string list" where
  "flush_word b words = (if b \<noteq> [] then words @ [b] else words)"

text \<open>\<open>strings.Trim(s, cutset)\<close> for a cutset of ASCII bytes.\<close>

definition trim_chars :: "char set \<Rightarrow> string \<Rightarrow> string" where
  "trim_chars cs s = rev (dropWhile (\<lambda>c. c \<in> cs) (rev (dropWhile (\<lambda>c. c \<in> cs) s)))"

text \<open>The bytes after a redirection operator: an optional second byte, blanks, the target.\<close>

definition skip_redirect :: "string \<Rightarrow> string" where
  "skip_redirect rest =
     dropWhile byte_space
       (case rest of d # r \<Rightarrow> if d = CHR ''>'' \<or> d = CHR ''|'' then r else rest | [] \<Rightarrow> [])"

lemma length_skip_redirect: "length (skip_redirect rest) \<le> length rest"
proof -
  have "length (dropWhile byte_space r) \<le> length r" for r by (rule length_dropWhile_le)
  then show ?thesis unfolding skip_redirect_def
    by (cases rest) (auto intro: le_SucI)
qed

lemma drop_redirect_less:
  "length (dropWhile P (skip_redirect rest)) < Suc (length rest)"
  by (meson le_imp_less_Suc le_trans length_dropWhile_le length_skip_redirect)

function shell_words_from :: "string \<Rightarrow> char option \<Rightarrow> string \<Rightarrow> string list \<Rightarrow> string list \<Rightarrow>
    (string list \<times> string list) option" where
  "shell_words_from [] q b words redirects =
     (if q \<noteq> None then None else Some (flush_word b words, redirects))"
| "shell_words_from (c # rest) q b words redirects =
     (case q of
        Some qc \<Rightarrow>
          if c = qc then shell_words_from rest None b words redirects
          else shell_words_from rest q (b @ [c]) words redirects
      | None \<Rightarrow>
          if is_quote c then shell_words_from rest (Some c) b words redirects
          else if byte_space c then shell_words_from rest None [] (flush_word b words) redirects
          else if c = CHR ''&'' \<and> next_is rest (CHR ''>'')
            then shell_words_from rest None b words redirects
          else if c = CHR ''>'' then
            (let words' = (if b \<noteq> [] \<and> all_digits b then words else flush_word b words);
                 target = takeWhile (\<lambda>d. \<not> byte_space d) (skip_redirect rest);
                 rest' = dropWhile (\<lambda>d. \<not> byte_space d) (skip_redirect rest)
             in if target = [] then None
                else shell_words_from rest' None [] words'
                       (redirects @ [trim_chars {squote, dquote} target]))
          else if c = CHR ''<'' then None
          else if c = backslash \<and> rest \<noteq> []
            then shell_words_from (tl rest) None (b @ [hd rest]) words redirects
          else shell_words_from rest None (b @ [c]) words redirects)"
  by pat_completeness auto
termination
  by (relation "measure (\<lambda>(s, q, b, w, r). length s)") (auto intro: drop_redirect_less)

definition shell_words :: "string \<Rightarrow> (string list \<times> string list) option" where
  "shell_words segment = shell_words_from segment None [] [] []"

subsection \<open>Paths a command may touch\<close>

definition is_stream_only_redirect :: "string \<Rightarrow> bool" where
  "is_stream_only_redirect target =
     (let t = trim_space target in
      (has_prefix t ''&'' \<and> 1 < length t \<and> all_digits (drop 1 t)) \<or>
      t \<in> {''/dev/null'', ''/dev/stdout'', ''/dev/stderr''})"

definition is_literal_workspace_path :: "string \<Rightarrow> bool" where
  "is_literal_workspace_path path =
     (let p = trim_space path in
      if p = [] \<or> is_abs p \<or> contains_any p (''$*?[]{}~)'' @ [backtick, lf, cr]) then False
      else let clean = clean_path p in
        clean \<noteq> ''.'' \<and> clean \<noteq> ''..'' \<and> \<not> has_prefix clean ''../'')"

definition append_unique_path :: "string list \<Rightarrow> string \<Rightarrow> string list" where
  "append_unique_path dst path =
     (let p = clean_path (trim_space path) in
      if p = [] \<or> p = ''.'' then dst else append_new dst p)"

definition append_unique_paths :: "string list \<Rightarrow> string list \<Rightarrow> string list" where
  "append_unique_paths dst paths = foldl append_unique_path dst paths"

definition literal_mutation_paths :: "string list \<Rightarrow> string list" where
  "literal_mutation_paths args =
     append_unique_paths []
       (filter (\<lambda>a. \<not> has_prefix a ''-'' \<and> is_literal_workspace_path a) args)"

definition copy_move_paths :: "string list \<Rightarrow> bool \<Rightarrow> string list" where
  "copy_move_paths args include_source =
     (let pos = filter (\<lambda>a. \<not> has_prefix a ''-'' \<and> is_literal_workspace_path a) args in
      if length pos < 2 then []
      else if include_source then append_unique_paths [] pos
      else append_unique_paths [] [last pos])"

definition tee_paths :: "string list \<Rightarrow> string list \<times> bool" where
  "tee_paths args =
     (let operands = filter (\<lambda>a. \<not> has_prefix a ''-'') args in
      (append_unique_paths [] (filter is_literal_workspace_path operands), operands \<noteq> []))"

subsection \<open>Lemmas on the splitter\<close>

text \<open>A segment list the splitter returns is never empty and has one operator less.\<close>

lemma split_shell_step:
  assumes "split_shell prev (c # rest) q b segs ops = Some r"
  obtains (keep) prev' q' b' where "split_shell prev' rest q' b' segs ops = Some r"
      "q = None \<longrightarrow> \<not> refused_char c \<and> c \<noteq> CHR '';'' \<and> (\<not> is_quote c \<longrightarrow> q' = None)"
  | (cut) prev' rest' oper where
      "split_shell prev' rest' None [] (segs @ [trim_space b]) (ops @ [oper]) = Some r"
      "length rest' \<le> length rest" "set rest' \<subseteq> set rest"
      "set rest - {CHR ''&'', CHR ''|''} \<subseteq> set rest'"
      "\<not> refused_char c \<and> c \<noteq> CHR '';''"
proof (cases q)
  case None
  have nq: "\<not> refused_char c \<and> c \<noteq> CHR '';''" if "is_quote c"
    using that by (auto simp: is_quote_def refused_char_def byte_defs)
  show ?thesis
    using assms[unfolded split_shell.simps(2) None option.case] nq
    apply (simp del: split_shell.simps split: if_split_asm list.split_asm)
    by (erule keep cut | simp add: None | blast)+
next
  case (Some qc)
  show ?thesis
    using assms[unfolded split_shell.simps(2) Some option.case]
    by (simp del: split_shell.simps split: if_split_asm) (erule keep, simp add: Some)+
qed

lemma split_shell_shape:
  "split_shell prev s q b segs ops = Some (segs', ops') \<Longrightarrow> length segs = length ops \<Longrightarrow>
   length segs' = Suc (length ops') \<and> [] \<notin> set segs'"
proof (induction s arbitrary: prev q b segs ops rule: length_induct)
  case (1 s)
  show ?case
  proof (cases s)
    case Nil
    with 1 show ?thesis
      by (auto simp: split_finish_def Let_def list_ex_iff split: if_splits)
  next
    case (Cons c rest)
    from 1(2)[unfolded Cons] show ?thesis
    proof (cases rule: split_shell_step)
      case keep
      with 1 Cons show ?thesis by auto
    next
      case (cut prev' rest' oper)
      moreover have "length rest' < length s" using cut(2) Cons by simp
      ultimately show ?thesis using 1(1,3) by (metis length_append_singleton)
    qed
  qed
qed

text \<open>Without a quote anywhere, a refused byte or a semicolon makes the split fail.\<close>

lemma split_shell_refuses:
  "\<forall>x \<in> set s. \<not> is_quote x \<Longrightarrow> \<exists>x \<in> set s. refused_char x \<or> x = CHR '';'' \<Longrightarrow>
   split_shell prev s None b segs ops = None"
proof (induction s arbitrary: prev b segs ops rule: length_induct)
  case (1 s)
  show ?case
  proof (rule ccontr)
    assume "split_shell prev s None b segs ops \<noteq> None"
    then obtain r where r: "split_shell prev s None b segs ops = Some r" by blast
    from 1(3) obtain c rest where s: "s = c # rest" by (cases s) auto
    from r[unfolded s] show False
    proof (cases rule: split_shell_step)
      case (keep prev' q' b')
      then have "q' = None" "\<exists>x \<in> set rest. refused_char x \<or> x = CHR '';''"
        using 1(2,3) s by auto
      moreover have "length rest < length s" "\<forall>x \<in> set rest. \<not> is_quote x" using 1(2) s by auto
      ultimately show ?thesis using 1(1) keep(1) by (metis option.distinct(1))
    next
      case (cut prev' rest' oper)
      have "\<not> refused_char (CHR ''&'')" "\<not> refused_char (CHR ''|'')"
        by (simp_all add: refused_char_def byte_defs)
      then have "\<exists>x \<in> set rest'. refused_char x \<or> x = CHR '';''"
        using 1(3) cut(4,5) s by fastforce
      moreover have "length rest' < length s" "\<forall>x \<in> set rest'. \<not> is_quote x"
        using 1(2) s cut(2,3) by auto
      ultimately show ?thesis using 1(1) cut(1) by (metis option.distinct(1))
    qed
  qed
qed

end
