(* ===== verification/Bash_Analysis.thy ===== *)
theory Bash_Analysis
  imports Bash_Parser Tool_Domain
begin

text \<open>
  \<open>internal/core/tool/bash_analysis.go\<close> and \<open>bash_analysis_git.go\<close>: what a shell command may
  do, without running it. A command is split into segments, each segment is classified by its
  first word, and the results are combined. The permissions, the grants and the turn's
  progress and verification rules read the result.
\<close>

record bash_analysis =
  ba_effect :: command_effect
  ba_risk :: command_risk
  ba_scope :: command_scope
  ba_confidence :: confidence
  ba_reason :: string
  ba_paths :: "string list"
  ba_conflict :: bool

definition unknown_bash_analysis :: "string \<Rightarrow> bash_analysis" where
  "unknown_bash_analysis reason =
     \<lparr>ba_effect = EffectUnknown, ba_risk = RiskNormal, ba_scope = ScopeUnknown,
      ba_confidence = ConfidenceUnknown, ba_reason = reason, ba_paths = [], ba_conflict = False\<rparr>"

text \<open>The two shapes of a proven result the code writes as composite literals.\<close>

definition read_only_analysis :: "string \<Rightarrow> bash_analysis" where
  "read_only_analysis reason =
     \<lparr>ba_effect = EffectReadOnly, ba_risk = RiskNormal, ba_scope = ScopeUnknown,
      ba_confidence = ConfidenceCertain, ba_reason = reason, ba_paths = [], ba_conflict = False\<rparr>"

definition mutating_analysis :: "command_risk \<Rightarrow> command_scope \<Rightarrow> string \<Rightarrow> string list \<Rightarrow> bash_analysis" where
  "mutating_analysis risk scope reason paths =
     \<lparr>ba_effect = EffectMutating, ba_risk = risk, ba_scope = scope,
      ba_confidence = ConfidenceCertain, ba_reason = reason, ba_paths = paths,
      ba_conflict = False\<rparr>"

lemmas analysis_defs = unknown_bash_analysis_def read_only_analysis_def mutating_analysis_def

fun command_risk_rank :: "command_risk \<Rightarrow> nat" where
  "command_risk_rank RiskRemoteDestructive = 2"
| "command_risk_rank RiskDestructive = 1"
| "command_risk_rank RiskNormal = 0"

fun command_scope_rank :: "command_scope \<Rightarrow> nat" where
  "command_scope_rank ScopeDeployment = 4"
| "command_scope_rank ScopePublish = 3"
| "command_scope_rank ScopeRemote = 2"
| "command_scope_rank ScopeLocal = 1"
| "command_scope_rank ScopeUnknown = 0"

definition normalize_command_scope :: "bash_analysis \<Rightarrow> bash_analysis" where
  "normalize_command_scope a =
     (if ba_effect a = EffectMutating \<and> ba_scope a = ScopeUnknown
      then a\<lparr>ba_scope := ScopeLocal\<rparr> else a)"

subsection \<open>git\<close>

definition has_short_flag :: "char \<Rightarrow> string list \<Rightarrow> bool" where
  "has_short_flag flag args =
     list_ex (\<lambda>a. 1 < length a \<and> has_prefix a ''-'' \<and> \<not> has_prefix a ''--'' \<and>
       flag \<in> set (drop 1 a)) args"

definition has_arg :: "string \<Rightarrow> string list \<Rightarrow> bool" where
  "has_arg want args = list_ex (\<lambda>a. a = want \<or> has_prefix a (want @ ''='')) args"

definition git_command_risk :: "string \<Rightarrow> string list \<Rightarrow> command_risk" where
  "git_command_risk subcommand args =
     (if subcommand = ''reset'' then
        (if has_arg ''--hard'' args then RiskDestructive else RiskNormal)
      else if subcommand = ''clean'' then
        (if has_arg ''--force'' args \<or> has_short_flag (CHR ''f'') args
         then RiskDestructive else RiskNormal)
      else if subcommand = ''checkout'' \<or> subcommand = ''switch'' then
        (if has_arg ''--force'' args \<or> has_short_flag (CHR ''f'') args \<or> has_arg ''--'' args
         then RiskDestructive else RiskNormal)
      else if subcommand = ''restore'' then RiskDestructive
      else if subcommand = ''branch'' then
        (if has_arg ''--delete'' args \<or> has_short_flag (CHR ''d'') args \<or>
            has_short_flag (CHR ''D'') args
         then RiskDestructive else RiskNormal)
      else if subcommand = ''stash'' then
        (if list_ex (\<lambda>a. a = ''drop'' \<or> a = ''clear'') args
         then RiskDestructive else RiskNormal)
      else if subcommand = ''push'' then
        (if has_arg ''--force'' args \<or> has_arg ''--force-with-lease'' args \<or>
            has_short_flag (CHR ''f'') args
         then RiskRemoteDestructive else RiskNormal)
      else RiskNormal)"

definition classify_git_branch_command :: "string list \<Rightarrow> command_effect" where
  "classify_git_branch_command args =
     (if list_all (\<lambda>a. a \<in> set [''--list'', ''-l'', ''--show-current'', ''--contains'',
           ''--no-contains'', ''--merged'', ''--no-merged''] \<or> has_prefix a ''--format='') args
      then EffectReadOnly else EffectMutating)"

text \<open>The global options before the subcommand; \<open>None\<close> when one lacks its value.\<close>

fun skip_git_options :: "string list \<Rightarrow> string list option" where
  "skip_git_options [] = Some []"
| "skip_git_options (a # args) =
     (if \<not> has_prefix a ''-'' then Some (a # args)
      else if a \<in> set [''-C'', ''-c'', ''--git-dir'', ''--work-tree''] then
        (case args of [] \<Rightarrow> None | _ # args' \<Rightarrow> skip_git_options args')
      else skip_git_options args)"

definition git_read_commands :: "string list" where
  "git_read_commands = [''status'', ''diff'', ''log'', ''show'', ''rev-parse'', ''rev-list'',
     ''ls-files'', ''ls-tree'', ''grep'', ''describe'']"

definition git_write_commands :: "string list" where
  "git_write_commands = [''add'', ''apply'', ''checkout'', ''switch'', ''restore'', ''reset'',
     ''clean'', ''commit'', ''merge'', ''rebase'', ''cherry-pick'', ''revert'', ''stash'', ''tag'',
     ''fetch'', ''pull'', ''push'']"

definition analyze_git_command :: "string list \<Rightarrow> bash_analysis" where
  "analyze_git_command args0 =
     (case skip_git_options args0 of
        None \<Rightarrow> unknown_bash_analysis ''incomplete git option''
      | Some [] \<Rightarrow> unknown_bash_analysis ''git subcommand is missing''
      | Some (sub # args) \<Rightarrow>
          if sub \<in> set git_read_commands
          then read_only_analysis (''git '' @ sub @ '' is read only'')
          else if sub = ''branch'' then
            (if classify_git_branch_command args = EffectReadOnly
             then read_only_analysis ''git branch invocation is read only''
             else mutating_analysis (git_command_risk sub args) ScopeUnknown
               ''git branch invocation modifies repository state'' [])
          else if sub \<in> set git_write_commands then
            (mutating_analysis (git_command_risk sub args)
               (if sub = ''push'' then ScopeRemote else ScopeLocal)
               (''git '' @ sub @ '' modifies repository or remote state'') [])
             \<lparr>ba_conflict := sub \<in> set [''apply'', ''merge'', ''rebase'', ''cherry-pick'']\<rparr>
          else unknown_bash_analysis ''git subcommand effect is not proven'')"

subsection \<open>One segment\<close>

definition read_only_commands :: "string list" where
  "read_only_commands = [''pwd'', ''ls'', ''cat'', ''head'', ''tail'', ''grep'', ''rg'', ''wc'',
     ''stat'', ''file'', ''realpath'', ''readlink'', ''which'', ''whereis'', ''env'', ''printenv'',
     ''echo'', ''printf'', ''true'', ''false'', ''test'', ''['']"

fun find_effect :: "string list \<Rightarrow> bash_analysis" where
  "find_effect [] = read_only_analysis ''find without execution/delete is read only''"
| "find_effect (a # args) =
     (if a = ''-delete'' then mutating_analysis RiskDestructive ScopeUnknown
        ''find -delete modifies filesystem state'' []
      else if a \<in> set [''-exec'', ''-execdir'', ''-ok'', ''-okdir''] then
        unknown_bash_analysis ''find executes an arbitrary command''
      else find_effect args)"

definition first_arg :: "string list \<Rightarrow> string \<Rightarrow> bool" where
  "first_arg args w = (args \<noteq> [] \<and> hd args = w)"

definition not_proven :: "string \<Rightarrow> bash_analysis" where
  "not_proven n = unknown_bash_analysis (n @ '' subcommand effect is not proven'')"

definition analyze_words :: "string \<Rightarrow> string list \<Rightarrow> bash_analysis" where
  "analyze_words n args =
     (if n \<in> set read_only_commands
      then read_only_analysis (n @ '' is a known read-only command'')
      else if n = ''find'' then find_effect args
      else if n = ''git'' then analyze_git_command args
      else if n \<in> set [''rm'', ''rmdir'', ''truncate''] then
        mutating_analysis RiskDestructive ScopeUnknown
          (n @ '' destructively modifies filesystem state'') (literal_mutation_paths args)
      else if n \<in> set [''touch'', ''mkdir'', ''chmod'', ''chown'', ''install'', ''ln''] then
        mutating_analysis RiskNormal ScopeUnknown
          (n @ '' modifies filesystem state'') (literal_mutation_paths args)
      else if n = ''cp'' then
        mutating_analysis RiskNormal ScopeUnknown
          ''cp modifies filesystem state'' (copy_move_paths args False)
      else if n = ''mv'' then
        mutating_analysis RiskNormal ScopeUnknown
          ''mv modifies filesystem state'' (copy_move_paths args True)
      else if n = ''tee'' then
        (if \<not> snd (tee_paths args)
         then read_only_analysis ''tee without file operands only writes stdout''
         else mutating_analysis RiskNormal ScopeUnknown
           ''tee writes file operands'' (fst (tee_paths args)))
      else if n = ''npm'' \<or> n = ''pnpm'' then
        (if first_arg args ''publish''
         then mutating_analysis RiskNormal ScopePublish (n @ '' publish publishes a package'') []
         else not_proven n)
      else if n = ''yarn'' then
        (if first_arg args ''publish'' \<or> (first_arg args ''npm'' \<and> first_arg (tl args) ''publish'')
         then mutating_analysis RiskNormal ScopePublish ''yarn publishes a package'' []
         else not_proven n)
      else if n = ''cargo'' then
        (if first_arg args ''publish''
         then mutating_analysis RiskNormal ScopePublish ''cargo publish publishes a crate'' []
         else not_proven n)
      else if n = ''wrangler'' then
        (if first_arg args ''deploy''
         then mutating_analysis RiskNormal ScopeDeployment
           ''wrangler deploy changes a remote deployment'' []
         else not_proven n)
      else if n = ''terraform'' then
        (if first_arg args ''apply''
         then mutating_analysis RiskNormal ScopeDeployment
           ''terraform apply changes remote infrastructure'' []
         else if first_arg args ''destroy''
         then mutating_analysis RiskRemoteDestructive ScopeDeployment
           ''terraform destroy destructively changes remote infrastructure'' []
         else not_proven n)
      else if n = ''kubectl'' then
        (if first_arg args ''apply''
         then mutating_analysis RiskNormal ScopeDeployment
           ''kubectl apply changes a remote deployment'' []
         else if first_arg args ''delete''
         then mutating_analysis RiskRemoteDestructive ScopeDeployment
           ''kubectl delete destructively changes a remote deployment'' []
         else not_proven n)
      else unknown_bash_analysis ''command effect is not proven'')"

definition redirect_paths :: "string list \<Rightarrow> string list" where
  "redirect_paths redirects =
     append_unique_paths []
       (filter (\<lambda>r. \<not> is_stream_only_redirect r \<and> is_literal_workspace_path r) redirects)"

definition analyze_simple_segment :: "string \<Rightarrow> bash_analysis" where
  "analyze_simple_segment segment =
     (case shell_words segment of
        None \<Rightarrow> unknown_bash_analysis ''unsupported shell expansion or quoting''
      | Some (words, redirects) \<Rightarrow>
          if words = [] then unknown_bash_analysis ''unsupported shell expansion or quoting''
          else if list_ex (\<lambda>r. \<not> is_stream_only_redirect r) redirects
          then mutating_analysis RiskNormal ScopeUnknown
            ''shell output redirection modifies state'' (redirect_paths redirects)
          else analyze_words (trim_prefix (hd words) ''./'') (tl words))"

subsection \<open>A command\<close>

definition combine_analysis :: "bool \<Rightarrow> bash_analysis \<Rightarrow> bash_analysis \<Rightarrow> bash_analysis" where
  "combine_analysis piped combined a =
     (let c1 = combined
            \<lparr>ba_paths := append_unique_paths (ba_paths combined) (ba_paths a),
             ba_conflict := ba_conflict combined \<or> ba_conflict a,
             ba_risk := (if command_risk_rank (ba_risk combined) < command_risk_rank (ba_risk a)
                         then ba_risk a else ba_risk combined),
             ba_scope := (if command_scope_rank (ba_scope combined)
                             < command_scope_rank (ba_scope a)
                          then ba_scope a else ba_scope combined)\<rparr>;
          c2 = (if ba_effect a = EffectMutating
                then c1\<lparr>ba_effect := EffectMutating, ba_confidence := ba_confidence a,
                        ba_reason := ba_reason a\<rparr>
                else if ba_effect a = EffectUnknown \<and> ba_effect c1 \<noteq> EffectMutating
                then (unknown_bash_analysis (ba_reason a))
                       \<lparr>ba_paths := ba_paths c1, ba_conflict := ba_conflict c1\<rparr>
                else c1)
      in if piped \<and> ba_effect a \<noteq> EffectReadOnly \<and> ba_effect c2 \<noteq> EffectMutating
         then (unknown_bash_analysis ''pipeline contains an unknown command'')
                \<lparr>ba_conflict := ba_conflict c2\<rparr>
         else c2)"

fun combine_segments :: "bash_analysis \<Rightarrow> string list \<Rightarrow> string list \<Rightarrow> bash_analysis" where
  "combine_segments combined [] operators = combined"
| "combine_segments combined (segment # segments) operators =
     combine_segments
       (combine_analysis (operators \<noteq> [] \<and> hd operators = ''|'') combined
          (normalize_command_scope (analyze_simple_segment segment)))
       segments (tl operators)"

definition analyze_command :: "string \<Rightarrow> bash_analysis" where
  "analyze_command command0 =
     (let command = trim_space command0 in
      if command = [] then unknown_bash_analysis ''empty command''
      else case split_simple_shell command of
          None \<Rightarrow> unknown_bash_analysis ''unsupported shell syntax''
        | Some (segments, operators) \<Rightarrow>
            if segments = [] then unknown_bash_analysis ''unsupported shell syntax''
            else if length segments = 1
            then normalize_command_scope (analyze_simple_segment (hd segments))
            else combine_segments (read_only_analysis ''all command segments are read only'')
                   segments operators)"

subsection \<open>Verification commands\<close>

fun verification_words :: "string list \<Rightarrow> string option" where
  "verification_words [] = None"
| "verification_words (w # args) =
     (let n = trim_prefix w ''./'' in
      if n = ''go'' then
        (if args \<noteq> [] \<and> hd args \<in> set [''test'', ''vet''] then Some (''go '' @ hd args) else None)
      else if n = ''cargo'' then
        (if args \<noteq> [] \<and> hd args \<in> set [''test'', ''check'', ''clippy'']
         then Some (''cargo '' @ hd args) else None)
      else if n = ''pytest'' \<or> n = ''py.test'' then Some ''pytest''
      else if n = ''python'' \<or> n = ''python3'' then
        (if 2 \<le> length args \<and> args ! 0 = ''-m'' \<and> args ! 1 = ''pytest''
         then Some (n @ '' -m pytest'') else None)
      else if n \<in> set [''npm'', ''pnpm'', ''yarn'', ''bun''] then
        (if args = [] then None
         else let script = (if hd args = ''run'' \<and> 1 < length args then args ! 1 else hd args) in
           if script \<in> set [''test'', ''lint'', ''typecheck'', ''check'', ''build'']
           then Some (n @ '' '' @ script) else None)
      else if n \<in> set [''eslint'', ''oxlint'', ''tsc'', ''golangci-lint''] then Some n
      else if n = ''npx'' then (if args \<noteq> [] then verification_words args else None)
      else if n = ''git'' then
        (if 2 \<le> length args \<and> args ! 0 = ''diff'' \<and> args ! 1 = ''--check''
         then Some ''git diff --check'' else None)
      else None)"

fun verification_labels :: "string list \<Rightarrow> string list option" where
  "verification_labels [] = Some []"
| "verification_labels (segment # segments) =
     (case shell_words segment of
        None \<Rightarrow> None
      | Some (words, redirects) \<Rightarrow>
          if words = [] \<or> redirects \<noteq> [] then None
          else (case verification_words words of
              None \<Rightarrow> None
            | Some label \<Rightarrow> map_option ((#) label) (verification_labels segments)))"

definition verification_command :: "string \<Rightarrow> string option" where
  "verification_command command =
     (case split_simple_shell (trim_space command) of
        None \<Rightarrow> None
      | Some (segments, _) \<Rightarrow>
          if segments = [] then None
          else map_option (join '' + '') (verification_labels segments))"

subsection \<open>Combination takes the worst segment\<close>

fun effect_rank :: "command_effect \<Rightarrow> nat" where
  "effect_rank EffectReadOnly = 0"
| "effect_rank EffectUnknown = 1"
| "effect_rank EffectMutating = 2"

text \<open>Only a mutating result carries a risk or a scope.\<close>

definition analysis_wf :: "bash_analysis \<Rightarrow> bool" where
  "analysis_wf a =
     (ba_effect a \<noteq> EffectMutating \<longrightarrow> ba_risk a = RiskNormal \<and> ba_scope a = ScopeUnknown)"

lemma analysis_wf_basic [simp]:
  "analysis_wf (unknown_bash_analysis r)" "analysis_wf (read_only_analysis r)"
  "analysis_wf (mutating_analysis k s r p)"
  by (simp_all add: analysis_wf_def analysis_defs)

lemma basic_effects [simp]:
  "ba_effect (unknown_bash_analysis r) = EffectUnknown"
  "ba_effect (read_only_analysis r) = EffectReadOnly"
  "ba_effect (mutating_analysis k s r p) = EffectMutating"
  by (simp_all add: analysis_defs)

lemma basic_paths [simp]:
  "ba_paths (unknown_bash_analysis r) = []"
  "ba_paths (read_only_analysis r) = []"
  "ba_paths (mutating_analysis k s r p) = p"
  by (simp_all add: analysis_defs)

lemma not_proven_basic [simp]:
  "ba_effect (not_proven r) = EffectUnknown" "ba_paths (not_proven r) = []"
  "analysis_wf (not_proven r)"
  by (simp_all add: not_proven_def)

lemma find_effect_wf: "analysis_wf (find_effect args)"
  by (induction args) auto

lemma analyze_git_wf: "analysis_wf (analyze_git_command args)"
  by (auto simp: analyze_git_command_def analysis_wf_def analysis_defs split: option.splits list.splits)

lemma analyze_words_wf: "analysis_wf (analyze_words n args)"
  unfolding analyze_words_def
  by (simp add: find_effect_wf analyze_git_wf)

lemma analyze_segment_wf: "analysis_wf (analyze_simple_segment s)"
  by (simp add: analyze_simple_segment_def analyze_words_wf split: option.split prod.split)

lemma normalize_scope_simps [simp]:
  "ba_effect (normalize_command_scope a) = ba_effect a"
  "ba_risk (normalize_command_scope a) = ba_risk a"
  "ba_paths (normalize_command_scope a) = ba_paths a"
  "ba_conflict (normalize_command_scope a) = ba_conflict a"
  by (simp_all add: normalize_command_scope_def)

lemma normalize_wf: "analysis_wf a \<Longrightarrow> analysis_wf (normalize_command_scope a)"
  by (simp add: analysis_wf_def normalize_command_scope_def)

definition segment_analysis :: "string \<Rightarrow> bash_analysis" where
  "segment_analysis s = normalize_command_scope (analyze_simple_segment s)"

lemma segment_analysis_wf: "analysis_wf (segment_analysis s)"
  by (simp add: segment_analysis_def normalize_wf analyze_segment_wf)

text \<open>The ranks of a result: effect, risk, scope.\<close>

definition ranks :: "bash_analysis \<Rightarrow> nat \<times> nat \<times> nat" where
  "ranks a = (effect_rank (ba_effect a), command_risk_rank (ba_risk a),
     command_scope_rank (ba_scope a))"

lemma combine_mutating:
  "ba_effect a = EffectMutating \<Longrightarrow>
   ba_effect (combine_analysis p c a) = EffectMutating \<and>
   ba_risk (combine_analysis p c a) =
     (if command_risk_rank (ba_risk c) < command_risk_rank (ba_risk a) then ba_risk a
      else ba_risk c) \<and>
   ba_scope (combine_analysis p c a) =
     (if command_scope_rank (ba_scope c) < command_scope_rank (ba_scope a) then ba_scope a
      else ba_scope c)"
  by (simp add: combine_analysis_def)

lemma combine_unknown:
  "ba_effect a = EffectUnknown \<Longrightarrow> ba_effect c \<noteq> EffectMutating \<Longrightarrow>
   ba_effect (combine_analysis p c a) = EffectUnknown \<and>
   ba_risk (combine_analysis p c a) = RiskNormal \<and>
   ba_scope (combine_analysis p c a) = ScopeUnknown"
  by (simp add: combine_analysis_def unknown_bash_analysis_def Let_def)

lemma combine_other:
  "ba_effect a \<noteq> EffectMutating \<Longrightarrow> ba_effect c = EffectMutating \<or> ba_effect a = EffectReadOnly \<Longrightarrow>
   analysis_wf a \<Longrightarrow>
   ba_effect (combine_analysis p c a) = ba_effect c \<and>
   ba_risk (combine_analysis p c a) = ba_risk c \<and>
   ba_scope (combine_analysis p c a) = ba_scope c"
  by (auto simp: combine_analysis_def analysis_wf_def Let_def)

lemma combine_analysis_ranks:
  assumes "analysis_wf c" "analysis_wf a"
  shows "effect_rank (ba_effect (combine_analysis p c a)) =
           max (effect_rank (ba_effect c)) (effect_rank (ba_effect a)) \<and>
         command_risk_rank (ba_risk (combine_analysis p c a)) =
           max (command_risk_rank (ba_risk c)) (command_risk_rank (ba_risk a)) \<and>
         command_scope_rank (ba_scope (combine_analysis p c a)) =
           max (command_scope_rank (ba_scope c)) (command_scope_rank (ba_scope a)) \<and>
         analysis_wf (combine_analysis p c a)"
proof -
  consider "ba_effect a = EffectMutating"
    | "ba_effect a = EffectUnknown" "ba_effect c \<noteq> EffectMutating"
    | "ba_effect a \<noteq> EffectMutating" "ba_effect c = EffectMutating \<or> ba_effect a = EffectReadOnly"
    by (cases "ba_effect a") auto
  then show ?thesis
  proof cases
    case 1
    show ?thesis using combine_mutating [OF 1, of p c] 1
      by (cases "ba_effect c") (auto simp: analysis_wf_def)
  next
    case 2
    show ?thesis using combine_unknown [OF 2, of p] 2 assms
      by (cases "ba_effect c") (auto simp: analysis_wf_def)
  next
    case 3
    show ?thesis using combine_other [OF 3 assms(2), of p] 3 assms
      by (cases "ba_effect c"; cases "ba_effect a") (auto simp: analysis_wf_def)
  qed
qed

lemma combine_segments_ranks:
  assumes "analysis_wf c"
  shows "effect_rank (ba_effect (combine_segments c segs ops)) =
           fold max (map (\<lambda>s. effect_rank (ba_effect (segment_analysis s))) segs)
             (effect_rank (ba_effect c))
       \<and> command_risk_rank (ba_risk (combine_segments c segs ops)) =
           fold max (map (\<lambda>s. command_risk_rank (ba_risk (segment_analysis s))) segs)
             (command_risk_rank (ba_risk c))
       \<and> command_scope_rank (ba_scope (combine_segments c segs ops)) =
           fold max (map (\<lambda>s. command_scope_rank (ba_scope (segment_analysis s))) segs)
             (command_scope_rank (ba_scope c))"
  using assms
proof (induction segs arbitrary: c ops)
  case Nil
  then show ?case by simp
next
  case (Cons s segs)
  note step = combine_analysis_ranks [OF Cons.prems segment_analysis_wf [of s]]
  show ?case
    using Cons.IH [of "combine_analysis (ops \<noteq> [] \<and> hd ops = ''|'') c (segment_analysis s)" "tl ops"]
      step [of "ops \<noteq> [] \<and> hd ops = ''|''"]
    by (simp add: segment_analysis_def max.commute)
qed

lemma fold_max_Max: "fold max xs (n::nat) = Max (insert n (set xs))"
  by (simp add: Max.set_eq_fold flip: list.set)

lemma effect_rank_iff:
  "effect_rank e = 0 \<longleftrightarrow> e = EffectReadOnly" "effect_rank e = 2 \<longleftrightarrow> e = EffectMutating"
  "effect_rank e \<le> 2"
  by (cases e; simp)+

lemma analyze_command_single:
  "split_simple_shell (trim_space c) = Some ([s], ops) \<Longrightarrow> trim_space c \<noteq> [] \<Longrightarrow>
   analyze_command c = segment_analysis s"
  by (simp add: analyze_command_def segment_analysis_def)

lemma analyze_command_many:
  "split_simple_shell (trim_space c) = Some (s # s' # segs, ops) \<Longrightarrow> trim_space c \<noteq> [] \<Longrightarrow>
   analyze_command c =
     combine_segments (read_only_analysis ''all command segments are read only'')
       (s # s' # segs) ops"
  by (simp add: analyze_command_def del: combine_segments.simps)

lemma split_simple_shape:
  "split_simple_shell c = Some (segs, ops) \<Longrightarrow> length segs = Suc (length ops) \<and> [] \<notin> set segs"
  unfolding split_simple_shell_def using split_shell_shape by force

lemma analyze_command_ranks:
  assumes "split_simple_shell (trim_space c) = Some (segs, ops)" "trim_space c \<noteq> []"
  shows "effect_rank (ba_effect (analyze_command c)) =
           Max ((\<lambda>s. effect_rank (ba_effect (segment_analysis s))) ` set segs) \<and>
         command_risk_rank (ba_risk (analyze_command c)) =
           Max ((\<lambda>s. command_risk_rank (ba_risk (segment_analysis s))) ` set segs) \<and>
         command_scope_rank (ba_scope (analyze_command c)) =
           Max ((\<lambda>s. command_scope_rank (ba_scope (segment_analysis s))) ` set segs)"
proof -
  from split_simple_shape [OF assms(1)] consider s where "segs = [s]"
    | s s' segs' where "segs = s # s' # segs'"
    by (metis list.exhaust list.size(3) nat.distinct(1))
  then show ?thesis
  proof cases
    case 1
    with assms show ?thesis by (simp add: analyze_command_single)
  next
    case 2
    let ?c = "read_only_analysis ''all command segments are read only''"
    have z: "effect_rank (ba_effect ?c) = 0" "command_risk_rank (ba_risk ?c) = 0"
      "command_scope_rank (ba_scope ?c) = 0" by (simp_all add: read_only_analysis_def)
    have "analyze_command c = combine_segments ?c segs ops"
      unfolding 2 by (rule analyze_command_many) (use assms 2 in simp_all)
    moreover have "Max (insert 0 (f ` set segs)) = Max (f ` set segs)" for f :: "string \<Rightarrow> nat"
      using 2 by (subst Max.insert) simp_all
    ultimately show ?thesis
      using combine_segments_ranks [OF analysis_wf_basic(2), of _ segs ops] z
      by (simp only: fold_max_Max set_map)
  qed
qed

lemma analyze_command_none:
  "trim_space c = [] \<or> split_simple_shell (trim_space c) = None \<Longrightarrow>
   \<exists>r. analyze_command c = unknown_bash_analysis r"
  by (auto simp: analyze_command_def Let_def)

lemma analyze_command_effect:
  assumes "split_simple_shell (trim_space c) = Some (segs, ops)" "trim_space c \<noteq> []"
  shows "ba_effect (analyze_command c) = EffectReadOnly \<longleftrightarrow>
           list_all (\<lambda>s. ba_effect (analyze_simple_segment s) = EffectReadOnly) segs"
    and "ba_effect (analyze_command c) = EffectMutating \<longleftrightarrow>
           list_ex (\<lambda>s. ba_effect (analyze_simple_segment s) = EffectMutating) segs"
proof -
  let ?f = "\<lambda>s. effect_rank (ba_effect (segment_analysis s))"
  from split_simple_shape [OF assms(1)] have ne: "set segs \<noteq> {}" by auto
  have eq: "effect_rank (ba_effect (analyze_command c)) = Max (?f ` set segs)"
    using analyze_command_ranks [OF assms] by blast
  have "Max (?f ` set segs) = 0 \<longleftrightarrow> (\<forall>s \<in> set segs. ?f s = 0)"
    using ne by (subst Max_eq_iff) (auto simp: image_iff ex_in_conv)
  then show "ba_effect (analyze_command c) = EffectReadOnly \<longleftrightarrow>
      list_all (\<lambda>s. ba_effect (analyze_simple_segment s) = EffectReadOnly) segs"
    using eq by (simp add: list_all_iff segment_analysis_def effect_rank_iff flip: effect_rank_iff(1))
  have "Max (?f ` set segs) = 2 \<longleftrightarrow> (\<exists>s \<in> set segs. ?f s = 2)"
    using ne by (subst Max_eq_iff) (auto simp: effect_rank_iff(3) intro!: bexI)
  then show "ba_effect (analyze_command c) = EffectMutating \<longleftrightarrow>
      list_ex (\<lambda>s. ba_effect (analyze_simple_segment s) = EffectMutating) segs"
    using eq by (simp add: list_ex_iff segment_analysis_def flip: effect_rank_iff(2))
qed

subsection \<open>Affected paths\<close>

text \<open>A relative path whose components are plain names: it names something below the root.\<close>

definition stays_inside :: "string \<Rightarrow> bool" where
  "stays_inside p = list_all plain_comp (split_char slash p)"

lemma literal_path_stays:
  assumes "is_literal_workspace_path a"
  shows "stays_inside (clean_path (trim_space a))"
proof -
  let ?p = "trim_space a"
  from assms have p: "?p \<noteq> []" "\<not> is_abs ?p" "clean_path ?p \<noteq> ''.''" "clean_path ?p \<noteq> ''..''"
      "\<not> has_prefix (clean_path ?p) ''../''"
    by (auto simp: is_literal_workspace_path_def Let_def split: if_splits)
  have pl: "\<forall>c \<in> set (clean_comps ?p). plain_comp c" by (rule clean_path_stays [OF p(4,5,2)])
  have out: "clean_path ?p = join [slash] (clean_comps ?p)" "clean_comps ?p \<noteq> []"
    using p(1,2,3) by (auto simp: clean_path_def is_abs_def Let_def split: if_splits)
  have "split_char slash (clean_path ?p) = clean_comps ?p"
    unfolding out(1) using out(2) pl by (intro split_char_join) (auto simp: plain_comp_def)
  with pl show ?thesis by (simp add: stays_inside_def list_all_iff)
qed

lemma set_append_unique_path:
  "set (append_unique_path dst a) \<subseteq> insert (clean_path (trim_space a)) (set dst)"
  by (auto simp: append_unique_path_def Let_def)

lemma set_append_unique_paths:
  "set (append_unique_paths dst as) \<subseteq> set dst \<union> (\<lambda>a. clean_path (trim_space a)) ` set as"
  unfolding append_unique_paths_def
proof (induction as arbitrary: dst)
  case Nil
  then show ?case by simp
next
  case (Cons a as)
  from Cons [of "append_unique_path dst a"] set_append_unique_path [of dst a] show ?case by auto
qed

lemma literal_paths_stay:
  "\<forall>a \<in> set as. is_literal_workspace_path a \<Longrightarrow> \<forall>p \<in> set (append_unique_paths [] as). stays_inside p"
  using set_append_unique_paths [of "[]" as] literal_path_stays by auto

lemma mutation_paths_stay:
  "\<forall>p \<in> set (literal_mutation_paths args). stays_inside p"
  "\<forall>p \<in> set (copy_move_paths args b). stays_inside p"
  "\<forall>p \<in> set (fst (tee_paths args)). stays_inside p"
  "\<forall>p \<in> set (redirect_paths args). stays_inside p"
proof -
  show "\<forall>p \<in> set (literal_mutation_paths args). stays_inside p"
    unfolding literal_mutation_paths_def by (rule literal_paths_stay) auto
  show "\<forall>p \<in> set (redirect_paths args). stays_inside p"
    unfolding redirect_paths_def by (rule literal_paths_stay) auto
  show "\<forall>p \<in> set (fst (tee_paths args)). stays_inside p"
    unfolding tee_paths_def Let_def fst_conv by (rule literal_paths_stay) auto
  let ?pos = "filter (\<lambda>a. \<not> has_prefix a ''-'' \<and> is_literal_workspace_path a) args"
  have "\<forall>p \<in> set (append_unique_paths [] ?pos). stays_inside p"
    by (rule literal_paths_stay) auto
  moreover have "\<forall>p \<in> set (append_unique_paths [] [last ?pos]). stays_inside p" if "2 \<le> length ?pos"
  proof -
    have "last ?pos \<in> set ?pos" using that by (intro last_in_set) auto
    then show ?thesis by (intro literal_paths_stay) auto
  qed
  ultimately show "\<forall>p \<in> set (copy_move_paths args b). stays_inside p"
    by (auto simp: copy_move_paths_def Let_def)
qed

lemma find_effect_paths: "ba_paths (find_effect args) = []"
  by (induction args) auto

lemma analyze_git_paths: "ba_paths (analyze_git_command args) = []"
  by (auto simp: analyze_git_command_def analysis_defs split: option.splits list.splits)

lemma analyze_words_paths: "\<forall>p \<in> set (ba_paths (analyze_words n args)). stays_inside p"
  unfolding analyze_words_def using mutation_paths_stay
  by (simp add: find_effect_paths analyze_git_paths)

subsection \<open>Properties\<close>

text \<open>
  A command is classified read only exactly when it splits into segments without
  unsupported syntax and every segment is read only on its own.
\<close>

theorem analyze_command_read_only:
  "ba_effect (analyze_command c) = EffectReadOnly \<longleftrightarrow>
     trim_space c \<noteq> [] \<and>
     (case split_simple_shell (trim_space c) of
        None \<Rightarrow> False
      | Some (segs, _) \<Rightarrow>
          list_all (\<lambda>s. ba_effect (analyze_simple_segment s) = EffectReadOnly) segs)"
proof (cases "trim_space c = [] \<or> split_simple_shell (trim_space c) = None")
  case True
  then show ?thesis using analyze_command_none [OF True] by (auto split: option.split)
next
  case False
  then obtain segs ops where "split_simple_shell (trim_space c) = Some (segs, ops)" by auto
  with False analyze_command_effect(1) show ?thesis by simp
qed

text \<open>
  C6: Combining segments keeps the worst: the effect, the risk and the scope of a command are
  the greatest of its segments', each in its own order (mutating over unknown over read only),
  and there is one operator fewer than segments, none of them empty.
\<close>

theorem analyze_command_worst:
  assumes "split_simple_shell (trim_space c) = Some (segs, ops)" "trim_space c \<noteq> []"
  shows "effect_rank (ba_effect (analyze_command c)) =
           Max ((\<lambda>s. effect_rank (ba_effect (segment_analysis s))) ` set segs) \<and>
         command_risk_rank (ba_risk (analyze_command c)) =
           Max ((\<lambda>s. command_risk_rank (ba_risk (segment_analysis s))) ` set segs) \<and>
         command_scope_rank (ba_scope (analyze_command c)) =
           Max ((\<lambda>s. command_scope_rank (ba_scope (segment_analysis s))) ` set segs) \<and>
         length segs = Suc (length ops) \<and> [] \<notin> set segs"
  using analyze_command_ranks [OF assms] split_simple_shape [OF assms(1)] by blast+

theorem analyze_command_worst_witness:
  "command_risk_rank (ba_risk (analyze_command ''ls | git push -f && rm x'')) =
     Max ((\<lambda>s. command_risk_rank (ba_risk (segment_analysis s))) `
            set [''ls'', ''git push -f'', ''rm x'']) \<and>
   ba_risk (analyze_command ''ls | git push -f && rm x'') = RiskRemoteDestructive"
proof
  have split: "split_simple_shell (trim_space ''ls | git push -f && rm x'') =
      Some ([''ls'', ''git push -f'', ''rm x''], [''|'', ''&&''])"
    by code_simp
  have ne: "trim_space ''ls | git push -f && rm x'' \<noteq> []" by code_simp
  show "command_risk_rank (ba_risk (analyze_command ''ls | git push -f && rm x'')) =
     Max ((\<lambda>s. command_risk_rank (ba_risk (segment_analysis s))) `
            set [''ls'', ''git push -f'', ''rm x''])"
    using analyze_command_worst [OF split ne] by blast
  show "ba_risk (analyze_command ''ls | git push -f && rm x'') = RiskRemoteDestructive"
    by code_simp
qed

text \<open>
  The analysis fails closed: a command without quotes that holds a semicolon, a newline, a
  backtick, a dollar, a parenthesis or a brace gets the unknown effect, whatever else it holds.
\<close>

theorem analyze_command_fail_closed:
  assumes "\<forall>x \<in> set (trim_space c). \<not> is_quote x"
    and "\<exists>x \<in> set (trim_space c). refused_char x \<or> x = CHR '';''"
  shows "ba_effect (analyze_command c) = EffectUnknown"
proof -
  have "split_simple_shell (trim_space c) = None"
    unfolding split_simple_shell_def using assms by (rule split_shell_refuses)
  with analyze_command_none [of c] show ?thesis by auto
qed

theorem analyze_command_fail_closed_witness:
  "ba_effect (analyze_command ''ls ; rm -rf /'') = EffectUnknown"
  by (rule analyze_command_fail_closed) code_simp+

text \<open>
  The paths one segment reports as affected are relative, already cleaned, and stay below
  the workspace: no component of them is empty, a dot or a dot-dot.
\<close>

theorem segment_paths_stay:
  "list_all stays_inside (ba_paths (analyze_simple_segment s))"
  using analyze_words_paths mutation_paths_stay(4)
  by (simp add: analyze_simple_segment_def list_all_iff split: option.split prod.split)

text \<open>
  For a command of several segments this fails: the combination trims and cleans the
  reported paths a second time, and a quoted directory whose name starts with a blank turns
  into a path that leaves the workspace.
\<close>

theorem combined_paths_escape:
  "ba_paths (analyze_command (''touch '' @ [dquote] @ ''./ ../y'' @ [dquote] @ '' && ls'')) =
     [''../y''] \<and>
   ba_paths (analyze_command (''touch '' @ [dquote] @ ''./ ../y'' @ [dquote])) = ['' ../y''] \<and>
   \<not> stays_inside ''../y''"
  by code_simp

text \<open>
  A backslash before a quote is not read by the splitter, so the text between two escaped
  quotes is taken for a quoted word: a command the shell runs as three, with a removal in the
  middle, is classified read only.
\<close>

theorem escaped_quote_hides_command:
  "ba_effect (analyze_command (''echo '' @ [backslash, dquote] @ '' ; rm -rf x ; echo '' @
     [backslash, dquote])) = EffectReadOnly"
  by code_simp

text \<open>
  Commands that run another program or write a file through an argument are classified read
  only by their first word alone: an environment prefix, a program of the workspace called
  like a known command, an output option of git or find.
\<close>

theorem read_only_by_first_word:
  "list_all (\<lambda>c. ba_effect (analyze_command c) = EffectReadOnly)
     [''env rm -rf x'', ''./ls'', ''find . -fprint out'', ''git diff --output=out'',
      ''rg --pre ./run x'']"
  by code_simp

subsection \<open>Verification commands are known verifiers\<close>

definition verifier_programs :: "string list" where
  "verifier_programs = [''go'', ''cargo'', ''pytest'', ''py.test'', ''python'', ''python3'',
     ''npm'', ''pnpm'', ''yarn'', ''bun'', ''eslint'', ''oxlint'', ''tsc'', ''golangci-lint'',
     ''git'']"

definition verifier_segment :: "string \<Rightarrow> bool" where
  "verifier_segment s =
     (case shell_words s of
        None \<Rightarrow> False
      | Some (words, redirects) \<Rightarrow>
          redirects = [] \<and>
          (case dropWhile (\<lambda>w. trim_prefix w ''./'' = ''npx'') words of
             [] \<Rightarrow> False
           | w # _ \<Rightarrow> trim_prefix w ''./'' \<in> set verifier_programs))"

lemma verification_words_known:
  "verification_words words = Some l \<Longrightarrow>
   (case dropWhile (\<lambda>w. trim_prefix w ''./'' = ''npx'') words of
      [] \<Rightarrow> False | w # _ \<Rightarrow> trim_prefix w ''./'' \<in> set verifier_programs)"
proof (induction words)
  case Nil
  then show ?case by simp
next
  case (Cons w words)
  show ?case
  proof (cases "trim_prefix w ''./'' = ''npx''")
    case True
    with Cons show ?thesis by (simp add: Let_def split: if_splits)
  next
    case False
    have "verification_words (w # words) = None" if "trim_prefix w ''./'' \<notin> set verifier_programs"
      using that False by (simp add: Let_def verifier_programs_def)
    with Cons.prems False show ?thesis by fastforce
  qed
qed

lemma verification_labels_known:
  "verification_labels segs = Some ls \<Longrightarrow> list_all verifier_segment segs \<and> length ls = length segs"
proof (induction segs arbitrary: ls)
  case Nil
  then show ?case by simp
next
  case (Cons s segs)
  then show ?case
    by (auto simp: verifier_segment_def dest!: verification_words_known
        split: option.splits prod.splits if_splits)
qed

text \<open>
  A command counts as a verification only when it splits without unsupported syntax and
  every segment runs, behind any npx, one of the known verifiers without a redirection.
\<close>

theorem verification_command_known:
  assumes "verification_command c = Some label"
  shows "case split_simple_shell (trim_space c) of
           None \<Rightarrow> False
         | Some (segs, _) \<Rightarrow> segs \<noteq> [] \<and> list_all verifier_segment segs"
  using assms verification_labels_known
  by (auto simp: verification_command_def split: option.splits prod.splits if_splits)

theorem verification_command_known_witness:
  "verification_command ''go vet ./... && npx tsc'' = Some ''go vet + tsc'' \<and>
   (case split_simple_shell (trim_space ''go vet ./... && npx tsc'') of
      None \<Rightarrow> False
    | Some (segs, _) \<Rightarrow> segs \<noteq> [] \<and> list_all verifier_segment segs)"
proof
  show v: "verification_command ''go vet ./... && npx tsc'' = Some ''go vet + tsc''" by code_simp
  show "case split_simple_shell (trim_space ''go vet ./... && npx tsc'') of
      None \<Rightarrow> False
    | Some (segs, _) \<Rightarrow> segs \<noteq> [] \<and> list_all verifier_segment segs"
    by (rule verification_command_known [OF v])
qed

end
