(* ===== verification/Tool_Semantics.thy ===== *)
theory Tool_Semantics
  imports Bash_Analysis
begin

text \<open>
  \<open>EffectiveCallSemantics\<close> of \<open>internal/core/tool/semantics.go\<close> and the accessors over it: what
  one concrete invocation may do. \<open>decode\<close> is \<open>json.Unmarshal\<close> of the arguments into
  \<open>struct { Command string }\<close>: \<open>None\<close> is its error, a missing member is the empty string.
\<close>

type_synonym command_decoder = "string \<Rightarrow> string option"

definition effective_call_semantics :: "command_decoder \<Rightarrow> tool_definition \<Rightarrow> string \<Rightarrow> call_semantics" where
  "effective_call_semantics decode d arguments =
     (case def_semantics d of
        Some resolve \<Rightarrow> resolve arguments
      | None \<Rightarrow>
          let s = static_call_semantics d in
          if def_kind d \<noteq> KindBash then s
          else (case decode arguments of
              None \<Rightarrow> s\<lparr>sem_mutability := MutabilityMutating, sem_effect := EffectUnknown,
                         sem_risk := RiskDestructive\<rparr>
            | Some command \<Rightarrow>
                let a = analyze_command command in
                s\<lparr>sem_effect := ba_effect a,
                  sem_risk := (if ba_effect a = EffectUnknown then RiskDestructive else ba_risk a),
                  sem_scope := ba_scope a,
                  sem_mutability := (if ba_effect a = EffectReadOnly then MutabilityReadOnly
                                     else MutabilityMutating)\<rparr>))"

definition effective_call_effect :: "command_decoder \<Rightarrow> tool_definition \<Rightarrow> string \<Rightarrow> command_effect" where
  "effective_call_effect decode d args = sem_effect (effective_call_semantics decode d args)"

definition effective_call_scope :: "command_decoder \<Rightarrow> tool_definition \<Rightarrow> string \<Rightarrow> command_scope" where
  "effective_call_scope decode d args = sem_scope (effective_call_semantics decode d args)"

definition effective_call_risk :: "command_decoder \<Rightarrow> tool_definition \<Rightarrow> string \<Rightarrow> command_risk" where
  "effective_call_risk decode d args = sem_risk (effective_call_semantics decode d args)"

definition effective_call_mutability :: "command_decoder \<Rightarrow> tool_definition \<Rightarrow> string \<Rightarrow> mutability" where
  "effective_call_mutability decode d args =
     sem_mutability (effective_call_semantics decode d args)"

definition effective_call_safety :: "command_decoder \<Rightarrow> tool_definition \<Rightarrow> string \<Rightarrow> safety_contract" where
  "effective_call_safety decode d args = sem_safety (effective_call_semantics decode d args)"

definition effective_call_evidence :: "command_decoder \<Rightarrow> tool_definition \<Rightarrow> string \<Rightarrow> evidence_kind" where
  "effective_call_evidence decode d args = sem_evidence (effective_call_semantics decode d args)"

lemmas effective_defs = effective_call_effect_def effective_call_scope_def effective_call_risk_def
  effective_call_mutability_def effective_call_safety_def effective_call_evidence_def

lemma static_semantics_simps [simp]:
  "sem_effect (static_call_semantics d) =
     (if effective_mutability d = MutabilityReadOnly then EffectReadOnly else EffectMutating)"
  "sem_mutability (static_call_semantics d) = effective_mutability d"
  "sem_risk (static_call_semantics d) = RiskNormal"
  "sem_scope (static_call_semantics d) = ScopeUnknown"
  by (simp_all add: static_call_semantics_def Let_def)

lemma analyze_command_wf: "analysis_wf (analyze_command c)"
proof (cases "trim_space c = [] \<or> split_simple_shell (trim_space c) = None")
  case True
  then show ?thesis using analyze_command_none [OF True] by auto
next
  case False
  then obtain segs ops where s: "split_simple_shell (trim_space c) = Some (segs, ops)"
      "trim_space c \<noteq> []" by auto
  let ?A = "analyze_command c"
  note rk = analyze_command_ranks [OF s]
  show ?thesis
    unfolding analysis_wf_def
  proof
    assume nm: "ba_effect ?A \<noteq> EffectMutating"
    then have "\<forall>s \<in> set segs. ba_effect (segment_analysis s) \<noteq> EffectMutating"
      using analyze_command_effect(2) [OF s] by (auto simp: list_ex_iff segment_analysis_def)
    then have "\<forall>s \<in> set segs. ba_risk (segment_analysis s) = RiskNormal \<and>
        ba_scope (segment_analysis s) = ScopeUnknown"
      using segment_analysis_wf by (auto simp: analysis_wf_def)
    moreover have "set segs \<noteq> {}" using split_simple_shape [OF s(1)] by auto
    ultimately have "command_risk_rank (ba_risk ?A) = 0 \<and> command_scope_rank (ba_scope ?A) = 0"
      using rk by (simp add: image_constant_conv cong: image_cong_simp)
    then show "ba_risk ?A = RiskNormal \<and> ba_scope ?A = ScopeUnknown"
      by (cases "ba_risk ?A"; cases "ba_scope ?A") simp_all
  qed
qed

text \<open>
  For a bash call without a resolver the effective semantics is consistent: the mutability
  is read only exactly when the effect is, an unknown effect is always destructive, and a read
  only effect has normal risk and no scope.
\<close>

theorem bash_semantics_consistent:
  assumes "def_kind d = KindBash" and "def_semantics d = None"
  shows "(sem_mutability (effective_call_semantics decode d args) = MutabilityReadOnly
            \<longleftrightarrow> sem_effect (effective_call_semantics decode d args) = EffectReadOnly) \<and>
         (sem_effect (effective_call_semantics decode d args) = EffectUnknown \<longrightarrow>
            sem_risk (effective_call_semantics decode d args) = RiskDestructive) \<and>
         (sem_effect (effective_call_semantics decode d args) = EffectReadOnly \<longrightarrow>
            sem_risk (effective_call_semantics decode d args) = RiskNormal \<and>
            sem_scope (effective_call_semantics decode d args) = ScopeUnknown)"
proof (cases "decode args")
  case None
  with assms show ?thesis by (simp add: effective_call_semantics_def Let_def)
next
  case (Some c)
  with assms show ?thesis
    using analyze_command_wf [of c]
    by (auto simp: effective_call_semantics_def analysis_wf_def Let_def)
qed

definition plain_bash :: tool_definition where
  "plain_bash = \<lparr>def_name = ''run_command'', def_description = ''run'', def_kind = KindBash,
     def_mutability = MutabilityMutating,
     def_safety = \<lparr>mutation_domain = DomainWorkspace, mutation_safety = SafetyDynamic,
       checkpoint_policy = CheckpointWhenKnown, boundary = BoundarySandbox\<rparr>,
     def_timeout = TimeoutServiceDefault, def_evidence = EvidenceNone, def_detail_key = ''command'',
     def_semantics = None\<rparr>"

theorem bash_semantics_consistent_witness:
  "sem_risk (effective_call_semantics (\<lambda>a. Some a) plain_bash ''make ; make'') = RiskDestructive"
proof -
  have k: "def_kind plain_bash = KindBash" "def_semantics plain_bash = None"
    by (simp_all add: plain_bash_def)
  have "sem_effect (effective_call_semantics (\<lambda>a. Some a) plain_bash ''make ; make'') = EffectUnknown"
    by code_simp
  with bash_semantics_consistent [OF k, of "\<lambda>a. Some a" "''make ; make''"] show ?thesis by blast
qed

end
