(* ===== verification/Todo_Plan.thy ===== *)
theory Todo_Plan
  imports Go_Prelude
begin

text \<open>
  The task plan: \<open>internal/core/todo\<close> (items, validation, the patch vocabulary) and
  \<open>internal/feature/todo\<close> (\<open>patch.go\<close>, \<open>store.go\<close>, \<open>reconcile.go\<close>). The store is a snapshot with
  its mutex; each operation is one critical section, a function on the state that returns the
  new state with the results. A context is two booleans, whether it is already cancelled
  before the lock and under it. Revisions are 64-bit words and wrap.
\<close>

subsection \<open>Items\<close>

datatype status = StatusPending | StatusInProgress | StatusCompleted | StatusOther string

definition status_valid :: "status \<Rightarrow> bool" where
  "status_valid s = (s = StatusPending \<or> s = StatusInProgress \<or> s = StatusCompleted)"

record item =
  item_id :: string
  item_text :: string
  item_status :: status

record snapshot =
  snap_revision :: u64
  snap_items :: "item list"

definition id_char :: "char \<Rightarrow> bool" where
  "id_char c = (letter_char c \<or> digit_char c \<or> c \<in> {CHR ''.'', CHR ''_'', CHR '':'', CHR ''-''})"

text \<open>The regular expression \<open>[A-Za-z0-9._:-]{1,128}\<close>, anchored.\<close>

definition valid_id :: "string \<Rightarrow> bool" where
  "valid_id i = (1 \<le> length i \<and> length i \<le> 128 \<and> list_all id_char i)"

datatype todo_error = IdRequired nat | IdMalformed nat string | DuplicateId nat string
  | TextRequired string | TextUnsafe string | StatusInvalid string status
  | StructuralTwice nat string | StructuralConflict nat string | TextTwice nat string
  | StatusTwice nat string | EmptyPatch | OpInvalidId nat string | OpExists nat string
  | OpMissing nat string | OpStatusInvalid nat | OpStatusWithText nat | OpTextWithStatus nat
  | OpRemoveWithFields nat | OpUnsupported nat | OpInvalidItem nat todo_error
  | CurrentInvalid todo_error | RevisionConflict | ContextDone | ReconcileInvalidId
  | ReconcileInvalidStatus | RepositoryError

text \<open>A line break, or the opening of one of the program's own comments, in the text.\<close>

definition unsafe_text :: "string \<Rightarrow> bool" where
  "unsafe_text t = (contains_any t [CHR 0x0D, CHR 0x0A] \<or> contains t ''<!-- proton:'')"

fun validate_from :: "nat \<Rightarrow> string list \<Rightarrow> item list \<Rightarrow> todo_error option" where
  "validate_from idx seen [] = None"
| "validate_from idx seen (it # its) =
     (let i = trim_space (item_id it) in
      if i = [] then Some (IdRequired idx)
      else if \<not> valid_id i then Some (IdMalformed idx i)
      else if i \<in> set seen then Some (DuplicateId idx i)
      else if trim_space (item_text it) = [] then Some (TextRequired i)
      else if unsafe_text (item_text it) then Some (TextUnsafe i)
      else if \<not> status_valid (item_status it) then Some (StatusInvalid i (item_status it))
      else validate_from (Suc idx) (i # seen) its)"

definition validate_items :: "item list \<Rightarrow> todo_error option" where
  "validate_items items = validate_from 0 [] items"

definition active_items :: "item list \<Rightarrow> item list" where
  "active_items items = filter (\<lambda>it. item_status it = StatusInProgress) items"

subsection \<open>Patches\<close>

datatype patch_op = PatchAdd | PatchSetStatus | PatchSetText | PatchRemove | PatchOther string

datatype patch_impact = ImpactUnknown | ImpactStatusOnly | ImpactStructural

record operation =
  op_op :: patch_op
  op_id :: string
  op_text :: string
  op_status :: status

record patch_effects =
  eff_structural :: bool
  eff_text :: bool
  eff_status :: bool
  eff_valid :: bool

definition no_effects :: patch_effects where
  "no_effects = \<lparr>eff_structural = False, eff_text = False, eff_status = False, eff_valid = False\<rparr>"

fun effects_from :: "patch_effects \<Rightarrow> operation list \<Rightarrow> patch_effects" where
  "effects_from e [] = e"
| "effects_from e (x # xs) =
     (case op_op x of
        PatchAdd \<Rightarrow> effects_from (e\<lparr>eff_structural := True\<rparr>) xs
      | PatchRemove \<Rightarrow> effects_from (e\<lparr>eff_structural := True\<rparr>) xs
      | PatchSetText \<Rightarrow> effects_from (e\<lparr>eff_text := True\<rparr>) xs
      | PatchSetStatus \<Rightarrow> effects_from (e\<lparr>eff_status := True\<rparr>) xs
      | PatchOther _ \<Rightarrow> no_effects)"

definition effects_of_patch :: "operation list \<Rightarrow> patch_effects" where
  "effects_of_patch xs =
     (if xs = [] then no_effects else effects_from (no_effects\<lparr>eff_valid := True\<rparr>) xs)"

definition classify_patch :: "operation list \<Rightarrow> patch_impact" where
  "classify_patch xs =
     (let e = effects_of_patch xs in
      if \<not> eff_valid e then ImpactUnknown
      else if eff_structural e \<or> eff_text e then ImpactStructural
      else if eff_status e then ImpactStatusOnly
      else ImpactUnknown)"

text \<open>\<open>seen\<close> of \<open>validatePatchWrites\<close>: the writes so far of each (trimmed) id.\<close>

record writes =
  wr_structural :: bool
  wr_text :: bool
  wr_status :: bool

definition no_writes :: writes where
  "no_writes = \<lparr>wr_structural = False, wr_text = False, wr_status = False\<rparr>"

fun validate_writes_from :: "nat \<Rightarrow> (string \<Rightarrow> writes) \<Rightarrow> operation list \<Rightarrow> todo_error option" where
  "validate_writes_from idx seen [] = None"
| "validate_writes_from idx seen (x # xs) =
     (let i = trim_space (op_id x); w = seen i in
      if wr_structural w then Some (StructuralTwice idx i)
      else case op_op x of
          PatchSetText \<Rightarrow>
            if wr_text w then Some (TextTwice idx i)
            else validate_writes_from (Suc idx) (seen(i := w\<lparr>wr_text := True\<rparr>)) xs
        | PatchSetStatus \<Rightarrow>
            if wr_status w then Some (StatusTwice idx i)
            else validate_writes_from (Suc idx) (seen(i := w\<lparr>wr_status := True\<rparr>)) xs
        | PatchOther _ \<Rightarrow> validate_writes_from (Suc idx) (seen(i := w)) xs
        | _ \<Rightarrow>
            if wr_text w \<or> wr_status w then Some (StructuralConflict idx i)
            else validate_writes_from (Suc idx) (seen(i := w\<lparr>wr_structural := True\<rparr>)) xs)"

definition validate_patch_writes :: "operation list \<Rightarrow> todo_error option" where
  "validate_patch_writes xs = validate_writes_from 0 (\<lambda>_. no_writes) xs"

text \<open>\<open>findItem\<close>: the first position with the id, \<open>None\<close> for \<open>-1\<close>.\<close>

fun find_item :: "item list \<Rightarrow> string \<Rightarrow> nat option" where
  "find_item [] i = None"
| "find_item (it # its) i = (if item_id it = i then Some 0 else map_option Suc (find_item its i))"

text \<open>One operation, at its index in the patch; the id is trimmed and checked first.\<close>

definition apply_op :: "nat \<Rightarrow> item list \<Rightarrow> operation \<Rightarrow> (todo_error, item list) result" where
  "apply_op idx items x =
     (let i = trim_space (op_id x) in
      if i = [] \<or> \<not> valid_id i then Inl (OpInvalidId idx i)
      else case op_op x of
          PatchAdd \<Rightarrow>
            (case find_item items i of
               Some _ \<Rightarrow> Inl (OpExists idx i)
             | None \<Rightarrow>
                 let it = \<lparr>item_id = i, item_text = trim_space (op_text x),
                           item_status = op_status x\<rparr> in
                 case validate_items [it] of
                   Some e \<Rightarrow> Inl (OpInvalidItem idx e)
                 | None \<Rightarrow> Inr (items @ [it]))
        | PatchSetStatus \<Rightarrow>
            (case find_item items i of
               None \<Rightarrow> Inl (OpMissing idx i)
             | Some p \<Rightarrow>
                 if \<not> status_valid (op_status x) then Inl (OpStatusInvalid idx)
                 else if trim_space (op_text x) \<noteq> [] then Inl (OpStatusWithText idx)
                 else Inr (items[p := (items ! p)\<lparr>item_status := op_status x\<rparr>]))
        | PatchSetText \<Rightarrow>
            (case find_item items i of
               None \<Rightarrow> Inl (OpMissing idx i)
             | Some p \<Rightarrow>
                 if op_status x \<noteq> StatusOther [] then Inl (OpTextWithStatus idx)
                 else let next = items[p := (items ! p)\<lparr>item_text := trim_space (op_text x)\<rparr>] in
                   case validate_items next of
                     Some e \<Rightarrow> Inl (OpInvalidItem idx e)
                   | None \<Rightarrow> Inr next)
        | PatchRemove \<Rightarrow>
            (case find_item items i of
               None \<Rightarrow> Inl (OpMissing idx i)
             | Some p \<Rightarrow>
                 if trim_space (op_text x) \<noteq> [] \<or> op_status x \<noteq> StatusOther []
                 then Inl (OpRemoveWithFields idx)
                 else Inr (take p items @ drop (Suc p) items))
        | PatchOther _ \<Rightarrow> Inl (OpUnsupported idx))"

fun apply_ops :: "nat \<Rightarrow> item list \<Rightarrow> operation list \<Rightarrow> (todo_error, item list) result" where
  "apply_ops idx items [] =
     (case validate_items items of Some e \<Rightarrow> Inl e | None \<Rightarrow> Inr items)"
| "apply_ops idx items (x # xs) =
     (case apply_op idx items x of
        Inl e \<Rightarrow> Inl e
      | Inr items' \<Rightarrow> apply_ops (Suc idx) items' xs)"

definition apply_patch :: "item list \<Rightarrow> operation list \<Rightarrow> (todo_error, item list) result" where
  "apply_patch items xs =
     (if xs = [] then Inl EmptyPatch
      else case validate_patch_writes xs of
          Some e \<Rightarrow> Inl e
        | None \<Rightarrow> (case validate_items items of
              Some e \<Rightarrow> Inl (CurrentInvalid e)
            | None \<Rightarrow> apply_ops 0 items xs))"

subsection \<open>The store\<close>

definition empty_snapshot :: snapshot where
  "empty_snapshot = \<lparr>snap_revision = 0, snap_items = []\<rparr>"

definition new_store_with_revision :: "u64 \<Rightarrow> item list \<Rightarrow> (todo_error, snapshot) result" where
  "new_store_with_revision rv items =
     (case validate_items items of
        Some e \<Rightarrow> Inl e
      | None \<Rightarrow> Inr \<lparr>snap_revision = rv, snap_items = items\<rparr>)"

definition new_store :: "item list \<Rightarrow> (todo_error, snapshot) result" where
  "new_store items = new_store_with_revision 0 items"

text \<open>The state after storing a list of items: the revision moves when the items change.\<close>

definition commit_items :: "snapshot \<Rightarrow> item list \<Rightarrow> snapshot" where
  "commit_items s next =
     (if snap_items s = next then s
      else \<lparr>snap_revision = snap_revision s + 1, snap_items = next\<rparr>)"

definition store_replace :: "bool \<Rightarrow> bool \<Rightarrow> snapshot \<Rightarrow> item list \<Rightarrow>
    snapshot \<times> (todo_error, snapshot) result" where
  "store_replace ctx ctx' s items =
     (if ctx then (s, Inl ContextDone)
      else case validate_items items of
          Some e \<Rightarrow> (s, Inl e)
        | None \<Rightarrow>
            if ctx' then (s, Inl ContextDone)
            else let s' = commit_items s items in (s', Inr s'))"

text \<open>State, before, after, error: on a conflict both snapshots are the current one.\<close>

type_synonym patch_result = "snapshot \<times> snapshot \<times> todo_error option"

definition compare_and_patch :: "bool \<Rightarrow> bool \<Rightarrow> snapshot \<Rightarrow> u64 \<Rightarrow> operation list \<Rightarrow>
    snapshot \<times> patch_result" where
  "compare_and_patch ctx ctx' s expected xs =
     (if ctx \<or> ctx' then (s, empty_snapshot, empty_snapshot, Some ContextDone)
      else if snap_revision s \<noteq> expected then (s, s, s, Some RevisionConflict)
      else case apply_patch (snap_items s) xs of
          Inl e \<Rightarrow> (s, s, s, Some e)
        | Inr next \<Rightarrow> let s' = commit_items s next in (s', s, s', None))"

definition compare_and_replace :: "bool \<Rightarrow> bool \<Rightarrow> snapshot \<Rightarrow> u64 \<Rightarrow> item list \<Rightarrow>
    snapshot \<times> snapshot \<times> todo_error option" where
  "compare_and_replace ctx ctx' s expected items =
     (if ctx then (s, empty_snapshot, Some ContextDone)
      else case validate_items items of
          Some e \<Rightarrow> (s, empty_snapshot, Some e)
        | None \<Rightarrow>
            if ctx' then (s, empty_snapshot, Some ContextDone)
            else if snap_revision s \<noteq> expected then (s, s, Some RevisionConflict)
            else let s' = commit_items s items in (s', s', None))"

subsection \<open>Status reconciliation\<close>

text \<open>
  \<open>ReconcileStatus\<close> over any repository: \<open>snap\<close> and \<open>patch\<close> are the methods of
  \<open>PatchRepository\<close> it calls, \<open>env k\<close> is what other clients do to the repository before the
  \<open>k\<close>-th call. \<open>reconcile_loop\<close> takes the attempts left. The result: the repository, the
  snapshot returned, whether the status was changed, the error.
\<close>

definition set_status_op :: "string \<Rightarrow> status \<Rightarrow> operation" where
  "set_status_op i st = \<lparr>op_op = PatchSetStatus, op_id = i, op_text = [], op_status = st\<rparr>"

fun reconcile_loop :: "('r \<Rightarrow> snapshot) \<Rightarrow> ('r \<Rightarrow> u64 \<Rightarrow> operation list \<Rightarrow> 'r \<times> patch_result) \<Rightarrow>
    (nat \<Rightarrow> 'r \<Rightarrow> 'r) \<Rightarrow> string \<Rightarrow> status \<Rightarrow> nat \<Rightarrow> nat \<Rightarrow> 'r \<Rightarrow>
    'r \<times> snapshot \<times> bool \<times> todo_error option" where
  "reconcile_loop snap patch env i st 0 k r =
     (let r0 = env k r in (r0, snap r0, False, Some RevisionConflict))"
| "reconcile_loop snap patch env i st (Suc n) k r =
     (let r1 = env k r; sn = snap r1 in
      case find_item (snap_items sn) i of
        None \<Rightarrow> (r1, sn, False, None)
      | Some p \<Rightarrow>
          if item_status (snap_items sn ! p) = st then (r1, sn, False, None)
          else (case patch (env (Suc k) r1) (snap_revision sn) [set_status_op i st] of
              (r2, _, after, None) \<Rightarrow> (r2, after, True, None)
            | (r2, _, _, Some e) \<Rightarrow>
                if e \<noteq> RevisionConflict
                then (let r3 = env (Suc (Suc k)) r2 in (r3, snap r3, False, Some e))
                else reconcile_loop snap patch env i st n (Suc (Suc k)) r2))"

definition reconcile_status_attempts :: nat where
  "reconcile_status_attempts = 3"

definition reconcile_status :: "('r \<Rightarrow> snapshot) \<Rightarrow>
    ('r \<Rightarrow> u64 \<Rightarrow> operation list \<Rightarrow> 'r \<times> patch_result) \<Rightarrow> (nat \<Rightarrow> 'r \<Rightarrow> 'r) \<Rightarrow> string \<Rightarrow> status \<Rightarrow> 'r \<Rightarrow>
    'r \<times> snapshot \<times> bool \<times> todo_error option" where
  "reconcile_status snap patch env i0 st r =
     (let i = trim_space i0 in
      if \<not> valid_id i then (let r0 = env 0 r in (r0, snap r0, False, Some ReconcileInvalidId))
      else if \<not> status_valid st
      then (let r0 = env 0 r in (r0, snap r0, False, Some ReconcileInvalidStatus))
      else reconcile_loop snap patch env i st reconcile_status_attempts 0 r)"

subsection \<open>Lemmas: validation\<close>

definition item_ok :: "item \<Rightarrow> bool" where
  "item_ok it =
     (valid_id (trim_space (item_id it)) \<and> trim_space (item_text it) \<noteq> [] \<and>
      \<not> unsafe_text (item_text it) \<and> status_valid (item_status it))"

abbreviation trimmed_ids :: "item list \<Rightarrow> string list" where
  "trimmed_ids items \<equiv> map (\<lambda>it. trim_space (item_id it)) items"

lemma valid_id_nonempty [simp]: "\<not> valid_id []"
  by (simp add: valid_id_def)

lemma validate_from_None:
  "validate_from idx seen items = None \<longleftrightarrow>
     list_all item_ok items \<and> distinct (trimmed_ids items) \<and>
     set (trimmed_ids items) \<inter> set seen = {}"
proof (induction items arbitrary: idx seen)
  case Nil
  then show ?case by simp
next
  case (Cons it items)
  show ?case
    using Cons [of "Suc idx" "trim_space (item_id it) # seen"]
    by (auto simp: Let_def item_ok_def)
qed

lemma validate_items_None:
  "validate_items items = None \<longleftrightarrow> list_all item_ok items \<and> distinct (trimmed_ids items)"
  by (simp add: validate_items_def validate_from_None)

lemma distinct_ids: "distinct (trimmed_ids items) \<Longrightarrow> distinct (map item_id items)"
  by (induction items) auto

lemma validate_from_error: "validate_from idx seen items \<noteq> Some RevisionConflict"
  by (induction idx seen items rule: validate_from.induct) (simp_all add: Let_def)

lemma validate_writes_error: "validate_writes_from idx seen xs \<noteq> Some RevisionConflict"
  by (induction xs arbitrary: idx seen) (simp_all add: Let_def split: patch_op.split)

lemma apply_ops_error: "apply_ops idx items xs \<noteq> Inl RevisionConflict"
proof (induction idx items xs rule: apply_ops.induct)
  case (1 idx items)
  then show ?case by (auto simp: validate_items_def validate_from_error split: option.split)
next
  case (2 idx items x xs)
  have "apply_op idx items x \<noteq> Inl RevisionConflict"
    by (auto simp: apply_op_def Let_def split: option.split patch_op.split)
  with 2 show ?case by (auto split: sum.split)
qed

lemma apply_patch_error: "apply_patch items xs \<noteq> Inl RevisionConflict"
  by (auto simp: apply_patch_def apply_ops_error validate_patch_writes_def validate_writes_error
      split: option.split)

lemma apply_ops_valid: "apply_ops idx items xs = Inr next \<Longrightarrow> validate_items next = None"
  by (induction idx items xs rule: apply_ops.induct) (auto split: option.splits sum.splits)

lemma apply_patch_valid: "apply_patch items xs = Inr next \<Longrightarrow> validate_items next = None"
  by (auto simp: apply_patch_def apply_ops_valid split: if_splits option.splits)

subsection \<open>Lemmas: finding an item\<close>

lemma find_item_Some:
  "find_item items i = Some p \<Longrightarrow> p < length items \<and> item_id (items ! p) = i"
  by (induction items arbitrary: p) (auto split: if_splits)

lemma find_item_None: "find_item items i = None \<longleftrightarrow> i \<notin> set (map item_id items)"
  by (induction items) auto

lemma find_item_ids: "map item_id items = map item_id items' \<Longrightarrow> find_item items i = find_item items' i"
proof (induction items arbitrary: items')
  case Nil
  then show ?case by simp
next
  case (Cons it items)
  then show ?case by (cases items') auto
qed

lemma find_item_update:
  "distinct (map item_id items) \<Longrightarrow> find_item items i = Some p \<Longrightarrow>
   items[p := f (items ! p)] = map (\<lambda>it. if item_id it = i then f it else it) items"
proof (induction items arbitrary: p)
  case Nil
  then show ?case by simp
next
  case (Cons it items)
  show ?case
  proof (cases "item_id it = i")
    case True
    with Cons.prems have "map (\<lambda>it. if item_id it = i then f it else it) items = items"
      by (intro map_idI) (metis (no_types, lifting) distinct.simps(2) imageI list.simps(9) set_map)
    with True Cons.prems show ?thesis by simp
  next
    case False
    with Cons show ?thesis by auto
  qed
qed

subsection \<open>Lemmas: patches that only set statuses\<close>

definition status_update :: "operation list \<Rightarrow> item \<Rightarrow> item" where
  "status_update xs it =
     (case find (\<lambda>x. trim_space (op_id x) = item_id it) xs of
        None \<Rightarrow> it | Some x \<Rightarrow> it\<lparr>item_status := op_status x\<rparr>)"

lemma effects_from_keep:
  "eff_valid e \<Longrightarrow> eff_valid (effects_from e xs) \<Longrightarrow>
   (eff_structural (effects_from e xs) \<longleftrightarrow>
      eff_structural e \<or> (\<exists>x \<in> set xs. op_op x = PatchAdd \<or> op_op x = PatchRemove)) \<and>
   (eff_text (effects_from e xs) \<longleftrightarrow> eff_text e \<or> (\<exists>x \<in> set xs. op_op x = PatchSetText)) \<and>
   (\<forall>x \<in> set xs. \<forall>s. op_op x \<noteq> PatchOther s)"
proof (induction xs arbitrary: e)
  case Nil
  then show ?case by simp
next
  case (Cons x xs)
  from Cons.prems Cons.IH [of "e\<lparr>eff_structural := True\<rparr>"] Cons.IH [of "e\<lparr>eff_text := True\<rparr>"]
    Cons.IH [of "e\<lparr>eff_status := True\<rparr>"]
  show ?case by (cases "op_op x") (auto simp: no_effects_def)
qed

lemma classify_status_only:
  assumes "classify_patch xs = ImpactStatusOnly"
  shows "\<forall>x \<in> set xs. op_op x = PatchSetStatus"
proof
  fix x
  assume x: "x \<in> set xs"
  from assms have ne: "xs \<noteq> []"
    by (auto simp: classify_patch_def effects_of_patch_def no_effects_def)
  let ?e = "effects_from (no_effects\<lparr>eff_valid := True\<rparr>) xs"
  from assms ne have "eff_valid ?e" "\<not> eff_structural ?e" "\<not> eff_text ?e"
    by (auto simp: classify_patch_def effects_of_patch_def Let_def split: if_splits)
  with effects_from_keep [of "no_effects\<lparr>eff_valid := True\<rparr>" xs] x show "op_op x = PatchSetStatus"
    by (cases "op_op x") auto
qed

lemma status_writes_distinct:
  "\<forall>x \<in> set xs. op_op x = PatchSetStatus \<Longrightarrow> validate_writes_from idx seen xs = None \<Longrightarrow>
   distinct (map (\<lambda>x. trim_space (op_id x)) xs) \<and>
   (\<forall>x \<in> set xs. \<not> wr_status (seen (trim_space (op_id x))))"
proof (induction xs arbitrary: idx seen)
  case Nil
  then show ?case by simp
next
  case (Cons x xs)
  let ?i = "trim_space (op_id x)"
  from Cons.prems have v: "\<not> wr_status (seen ?i)"
      "validate_writes_from (Suc idx) (seen(?i := (seen ?i)\<lparr>wr_status := True\<rparr>)) xs = None"
    by (auto simp: Let_def split: if_splits)
  from Cons.IH [OF _ v(2)] Cons.prems(1) v(1) show ?case
    by (auto split: if_splits)
qed

lemma apply_ops_status:
  assumes "\<forall>x \<in> set xs. op_op x = PatchSetStatus"
    and "distinct (map (\<lambda>x. trim_space (op_id x)) xs)" "distinct (map item_id items)"
    and "apply_ops idx items xs = Inr next"
  shows "next = map (status_update xs) items"
  using assms
proof (induction xs arbitrary: idx items)
  case Nil
  then show ?case by (auto simp: status_update_def split: option.splits)
next
  case (Cons x xs)
  let ?i = "trim_space (op_id x)"
  let ?f = "\<lambda>it. if item_id it = ?i then it\<lparr>item_status := op_status x\<rparr> else it"
  from Cons.prems(4) obtain items' where s: "apply_op idx items x = Inr items'"
      "apply_ops (Suc idx) items' xs = Inr next"
    by (auto split: sum.splits)
  from s(1) Cons.prems(1) obtain p where p: "find_item items ?i = Some p"
      "items' = items[p := (items ! p)\<lparr>item_status := op_status x\<rparr>]"
    by (auto simp: apply_op_def Let_def split: if_splits option.splits)
  have items': "items' = map ?f items"
    using find_item_update [OF Cons.prems(3) p(1)] p(2) by simp
  then have "map item_id items' = map item_id items" by simp
  then have nx: "next = map (status_update xs) items'"
    using Cons.IH [OF _ _ _ s(2)] Cons.prems by simp
  have "status_update xs (?f it) = status_update (x # xs) it" for it
  proof (cases "item_id it = ?i")
    case True
    then have "find (\<lambda>y. trim_space (op_id y) = item_id it) xs = None"
      using Cons.prems(2) unfolding find_None_iff by (force simp: image_iff)
    with True show ?thesis by (simp add: status_update_def)
  qed (auto simp: status_update_def)
  with nx items' show ?case by simp
qed

lemma apply_patch_status:
  assumes "classify_patch xs = ImpactStatusOnly" "apply_patch items xs = Inr next"
  shows "next = map (status_update xs) items"
proof -
  note all = classify_status_only [OF assms(1)]
  from assms(2) have v: "validate_patch_writes xs = None" "validate_items items = None"
      "apply_ops 0 items xs = Inr next"
    by (auto simp: apply_patch_def split: if_splits option.splits)
  from status_writes_distinct [OF all] v(1)
  have "distinct (map (\<lambda>x. trim_space (op_id x)) xs)" by (auto simp: validate_patch_writes_def)
  moreover have "distinct (map item_id items)"
    using v(2) distinct_ids by (simp add: validate_items_None)
  ultimately show ?thesis using apply_ops_status [OF all _ _ v(3)] by blast
qed

subsection \<open>Lemmas: the store\<close>

definition store_wf :: "snapshot \<Rightarrow> bool" where
  "store_wf s = (validate_items (snap_items s) = None)"

lemma commit_items_simps [simp]:
  "snap_items (commit_items s next) = next"
  "snap_revision (commit_items s next) =
     (if snap_items s = next then snap_revision s else snap_revision s + 1)"
  by (auto simp: commit_items_def)

text \<open>The mutating operations of the store, as a client issues them.\<close>

datatype store_op = OpReplace bool bool "item list" | OpPatch bool bool u64 "operation list"
  | OpCompareReplace bool bool u64 "item list"

fun store_step :: "store_op \<Rightarrow> snapshot \<Rightarrow> snapshot" where
  "store_step (OpReplace c c' items) s = fst (store_replace c c' s items)"
| "store_step (OpPatch c c' rv xs) s = fst (compare_and_patch c c' s rv xs)"
| "store_step (OpCompareReplace c c' rv items) s = fst (compare_and_replace c c' s rv items)"

lemma store_step_commits:
  "store_step x s = s \<or>
   (\<exists>nx. store_step x s = commit_items s nx \<and> validate_items nx = None \<and> snap_items s \<noteq> nx)"
proof (cases x)
  case (OpReplace c c' items)
  then show ?thesis
    by (cases "snap_items s = items")
       (auto simp: store_replace_def Let_def commit_items_def split: option.split)
next
  case (OpPatch c c' rv xs)
  then show ?thesis
    by (cases "apply_patch (snap_items s) xs")
       (auto simp: compare_and_patch_def Let_def commit_items_def dest: apply_patch_valid)
next
  case (OpCompareReplace c c' rv items)
  then show ?thesis
    by (cases "snap_items s = items")
       (auto simp: compare_and_replace_def Let_def commit_items_def split: option.split)
qed

text \<open>A run moves the revision by the number of times the items changed.\<close>

lemma store_run_revision:
  "\<exists>k \<le> length xs. snap_revision (fold store_step xs s) = snap_revision s + of_nat k \<and>
     (k = 0 \<longrightarrow> fold store_step xs s = s)"
proof (induction xs arbitrary: s)
  case Nil
  then show ?case by simp
next
  case (Cons x xs)
  from Cons [of "store_step x s"] obtain k where k: "k \<le> length xs"
      "snap_revision (fold store_step xs (store_step x s)) = snap_revision (store_step x s) + of_nat k"
      "k = 0 \<longrightarrow> fold store_step xs (store_step x s) = store_step x s" by blast
  show ?case
  proof (cases "store_step x s = s")
    case True
    with k show ?thesis by (intro exI [of _ k]) auto
  next
    case False
    then obtain nx where nx: "store_step x s = commit_items s nx" "snap_items s \<noteq> nx"
      using store_step_commits [of x s] by blast
    with k show ?thesis by (intro exI [of _ "Suc k"]) (simp add: add.assoc)
  qed
qed

lemma store_run_wf: "store_wf s \<Longrightarrow> store_wf (fold store_step xs s)"
proof (induction xs arbitrary: s)
  case Nil
  then show ?case by simp
next
  case (Cons x xs)
  have "store_wf (store_step x s)"
    using Cons.prems store_step_commits [of x s] by (auto simp: store_wf_def)
  with Cons show ?case by simp
qed

lemma of_nat_u64_zero: "k < 2 ^ 64 \<Longrightarrow> (of_nat k :: u64) = 0 \<Longrightarrow> k = 0"
  by (simp add: word_of_nat_eq_0_iff) (meson nat_dvd_not_less neq0_conv)

lemma store_no_aba:
  assumes "length xs < 2 ^ 64" "snap_revision (fold store_step xs s) = snap_revision s"
  shows "fold store_step xs s = s"
proof -
  obtain k where k: "k \<le> length xs" "k = 0 \<longrightarrow> fold store_step xs s = s"
      "snap_revision (fold store_step xs s) = snap_revision s + of_nat k"
    using store_run_revision by blast
  from k(3) assms(2) have "(of_nat k :: u64) = 0" by simp
  then have "k = 0" using of_nat_u64_zero [of k] k(1) assms(1) by linarith
  with k(2) show ?thesis by blast
qed

subsection \<open>The repository interface\<close>

text \<open>
  What \<open>ReconcileStatus\<close> relies on of a \<open>PatchRepository\<close>: a patch that succeeds was computed
  from the items of the snapshot before, and its result is the new snapshot; and a conflict
  refreshes the snapshot, so that a patch at the revision then seen does not conflict. The
  snapshot of the store in memory is its state, that of the store over a file may be older than
  the file: both keep these laws.
\<close>

locale patch_repository =
  fixes snap :: "'r \<Rightarrow> snapshot"
    and patch :: "'r \<Rightarrow> u64 \<Rightarrow> operation list \<Rightarrow> 'r \<times> patch_result"
  assumes patch_refreshes: "patch r rv xs = (r', b, a, Some RevisionConflict) \<Longrightarrow>
      patch r' (snap_revision (snap r')) ys \<noteq> (r'', b', a', Some RevisionConflict)"
    and patch_applied: "patch r rv xs = (r', b, a, None) \<Longrightarrow>
      snap r' = a \<and> apply_patch (snap_items b) xs = Inr (snap_items a)"
begin

lemma set_status_applied:
  assumes "trim_space i = i" "patch r rv [set_status_op i st] = (r', b, a, None)"
  shows "snap_items (snap r') =
    map (\<lambda>it. if item_id it = i then it\<lparr>item_status := st\<rparr> else it) (snap_items b)"
proof -
  have "classify_patch [set_status_op i st] = ImpactStatusOnly"
    by (simp add: set_status_op_def classify_patch_def effects_of_patch_def no_effects_def)
  moreover have "apply_patch (snap_items b) [set_status_op i st] = Inr (snap_items (snap r'))"
    using patch_applied [OF assms(2)] by simp
  ultimately have "snap_items (snap r') =
      map (status_update [set_status_op i st]) (snap_items b)"
    by (rule apply_patch_status)
  moreover have "status_update [set_status_op i st] it =
      (if item_id it = i then it\<lparr>item_status := st\<rparr> else it)" for it
    using assms(1) by (simp add: status_update_def set_status_op_def)
  ultimately show ?thesis by simp
qed

lemma set_status_found:
  assumes "trim_space i = i" "patch r rv [set_status_op i st] = (r', b, a, None)"
    and "find_item (snap_items (snap r')) i = Some p"
  shows "item_status (snap_items (snap r') ! p) = st"
proof -
  note m = set_status_applied [OF assms(1,2)]
  have "map item_id (snap_items (snap r')) = map item_id (snap_items b)"
    unfolding m by simp
  then have f: "find_item (snap_items b) i = Some p" using assms(3) find_item_ids by metis
  from find_item_Some [OF f] show ?thesis unfolding m by simp
qed

lemma reconcile_loop_settles:
  "trim_space i = i \<Longrightarrow>
   reconcile_loop snap patch env i st n k r = (r', sn, changed, None) \<Longrightarrow>
   sn = snap r' \<and>
   (case find_item (snap_items sn) i of
      None \<Rightarrow> \<not> changed | Some p \<Rightarrow> item_status (snap_items sn ! p) = st)"
proof (induction n arbitrary: k r)
  case 0
  then show ?case by (simp add: Let_def)
next
  case (Suc n)
  let ?r1 = "env k r"
  let ?sn = "snap ?r1"
  show ?case
  proof (cases "find_item (snap_items ?sn) i")
    case None
    with Suc.prems show ?thesis by (auto simp: Let_def)
  next
    case (Some p)
    show ?thesis
    proof (cases "item_status (snap_items ?sn ! p) = st")
      case True
      with Some Suc.prems show ?thesis by (auto simp: Let_def)
    next
      case False
      obtain r2 b a e where pt: "patch (env (Suc k) ?r1) (snap_revision ?sn) [set_status_op i st] =
          (r2, b, a, e)" by (metis prod_cases4)
      show ?thesis
      proof (cases e)
        case None
        note pt = pt [unfolded None]
        from Suc.prems(2) Some False pt have eq: "r' = r2" "sn = a" "changed"
          by (auto simp: Let_def)
        have a: "a = snap r2" using patch_applied [OF pt] by simp
        have "find_item (snap_items a) i \<noteq> None"
        proof -
          have ap: "apply_patch (snap_items b) [set_status_op i st] = Inr (snap_items a)" using patch_applied [OF pt] by blast
          then obtain q where "find_item (snap_items b) i = Some q"
            using Suc.prems(1)
            by (auto simp: apply_patch_def apply_op_def set_status_op_def Let_def
                split: if_splits option.splits)
          moreover have "map item_id (snap_items a) = map item_id (snap_items b)"
            using set_status_applied [OF Suc.prems(1) pt] a by simp
          ultimately show ?thesis using find_item_ids by (metis option.distinct(1))
        qed
        then obtain q where q: "find_item (snap_items a) i = Some q" by blast
        with set_status_found [OF Suc.prems(1) pt, of q] a eq show ?thesis by simp
      next
        case (Some e')
        with \<open>find_item (snap_items ?sn) i = Some p\<close> False pt Suc show ?thesis
          by (auto simp: Let_def split: if_splits)
      qed
    qed
  qed
qed

text \<open>Without interference the second attempt decides at the latest.\<close>

lemma reconcile_second_quiet:
  assumes "reconcile_loop snap patch (\<lambda>_ x. x) i st (Suc n) k r = (r', sn, changed, e)"
    and "\<And>ys r'' b' a'. patch r (snap_revision (snap r)) ys \<noteq> (r'', b', a', Some RevisionConflict)"
  shows "e \<noteq> Some RevisionConflict"
proof -
  obtain r2 b a e' where pt: "patch r (snap_revision (snap r)) [set_status_op i st] = (r2, b, a, e')"
    by (metis prod_cases4)
  with assms(2) have "e' \<noteq> Some RevisionConflict" by metis
  with assms(1) pt show ?thesis
    by (auto simp: Let_def split: option.splits if_splits)
qed

lemma reconcile_loop_quiet:
  assumes "reconcile_loop snap patch (\<lambda>_ x. x) i st (Suc (Suc n)) k r = (r', sn, changed, e)"
  shows "e \<noteq> Some RevisionConflict"
proof -
  obtain r2 b a e' where pt: "patch r (snap_revision (snap r)) [set_status_op i st] = (r2, b, a, e')"
    by (metis prod_cases4)
  show ?thesis
  proof (cases "e' = Some RevisionConflict")
    case True
    have q: "patch r2 (snap_revision (snap r2)) ys \<noteq> (r'', b', a', Some RevisionConflict)"
      for ys r'' b' a'
      using patch_refreshes [OF pt [unfolded True]] .
    from assms pt True have "e = None \<or>
        reconcile_loop snap patch (\<lambda>_ x. x) i st (Suc n) (Suc (Suc k)) r2 = (r', sn, changed, e)"
      by (auto simp: Let_def split: option.splits if_splits)
    then show ?thesis using reconcile_second_quiet [OF _ q] by blast
  next
    case False
    with assms pt show ?thesis by (auto simp: Let_def split: option.splits if_splits)
  qed
qed

lemma reconcile_settles:
  assumes "reconcile_status snap patch env i st r = (r', sn, changed, None)"
  shows "sn = snap r' \<and>
    (case find_item (snap_items sn) (trim_space i) of
       None \<Rightarrow> \<not> changed | Some p \<Rightarrow> item_status (snap_items sn ! p) = st)"
  using assms reconcile_loop_settles [of "trim_space i"]
  by (simp add: reconcile_status_def Let_def split: if_splits)

lemma reconcile_quiet:
  assumes "reconcile_status snap patch (\<lambda>_ x. x) i st r = (r', sn, changed, e)"
  shows "e \<noteq> Some RevisionConflict"
  using assms reconcile_loop_quiet [of "trim_space i" st 1 0 r]
  by (auto simp: reconcile_status_def reconcile_status_attempts_def Let_def numeral_3_eq_3
      numeral_2_eq_2 simp del: reconcile_loop.simps split: if_splits)

end

interpretation todo_store: patch_repository "\<lambda>s. s" "compare_and_patch False False"
  by unfold_locales
     (auto simp: compare_and_patch_def Let_def apply_patch_error split: if_splits sum.splits)

subsection \<open>Properties\<close>

text \<open>
  A patch classified as status only, the kind that runs without asking, changes nothing but
  statuses: the new plan is the old one with the status of each named item replaced, in the
  same order, with the same ids and texts.
\<close>

theorem status_patch_frame:
  assumes "classify_patch xs = ImpactStatusOnly" and "apply_patch items xs = Inr nx"
  shows "nx = map (status_update xs) items \<and> map item_id nx = map item_id items \<and>
    map item_text nx = map item_text items \<and> validate_items nx = None"
proof -
  have "item_id (status_update xs it) = item_id it" "item_text (status_update xs it) = item_text it"
    for it by (auto simp: status_update_def split: option.split)
  then show ?thesis
    using apply_patch_status [OF assms] apply_patch_valid [OF assms(2)] by simp
qed

definition sample_items :: "item list" where
  "sample_items =
     [\<lparr>item_id = ''a'', item_text = ''first'', item_status = StatusPending\<rparr>,
      \<lparr>item_id = ''b'', item_text = ''second'', item_status = StatusInProgress\<rparr>]"

theorem status_patch_frame_witness:
  "case apply_patch sample_items [set_status_op ''b'' StatusCompleted,
       set_status_op ''a'' StatusInProgress] of
     Inl _ \<Rightarrow> False
   | Inr nx \<Rightarrow> map item_text nx = [''first'', ''second'']"
proof -
  let ?xs = "[set_status_op ''b'' StatusCompleted, set_status_op ''a'' StatusInProgress]"
  let ?nx = "map (status_update ?xs) sample_items"
  have c: "classify_patch ?xs = ImpactStatusOnly" by code_simp
  have a: "apply_patch sample_items ?xs = Inr ?nx" by code_simp
  have "map item_text ?nx = map item_text sample_items"
    using status_patch_frame [OF c a] by blast
  with a show ?thesis by (simp add: sample_items_def)
qed

text \<open>
  The store's compare-and-patch is optimistic concurrency control: with a stale revision, or
  a patch that does not apply, the state is untouched and the error says which; otherwise the
  new items are the patched ones, they are valid, and the revision moves exactly when they
  differ.
\<close>

theorem compare_and_patch_cas:
  "case compare_and_patch c c' s expected xs of
     (s', before, after, err) \<Rightarrow>
       (if c \<or> c' then s' = s \<and> err = Some ContextDone
        else if snap_revision s \<noteq> expected
        then s' = s \<and> before = s \<and> after = s \<and> err = Some RevisionConflict
        else case apply_patch (snap_items s) xs of
            Inl e \<Rightarrow> s' = s \<and> before = s \<and> err = Some e \<and> e \<noteq> RevisionConflict
          | Inr nx \<Rightarrow> err = None \<and> before = s \<and> after = s' \<and> snap_items s' = nx \<and> store_wf s' \<and>
              snap_revision s' =
                (if snap_items s = nx then snap_revision s else snap_revision s + 1))"
  by (auto simp: compare_and_patch_def Let_def store_wf_def apply_patch_error
      dest: apply_patch_valid split: sum.split)

text \<open>
  Along any sequence of fewer than 2 to the 64 operations, by whatever clients, the plan
  stays valid, and if the revision is the same at the end then nothing changed: a client that
  compares revisions cannot be fooled by changes in between.
\<close>

theorem store_revision_detects_change:
  assumes "store_wf s" and "length xs < 2 ^ 64"
  shows "store_wf (fold store_step xs s) \<and>
    (snap_revision (fold store_step xs s) = snap_revision s \<longrightarrow> fold store_step xs s = s)"
  using store_run_wf [OF assms(1)] store_no_aba [OF assms(2)] by blast

theorem store_revision_detects_change_witness:
  "let s = \<lparr>snap_revision = 18446744073709551615, snap_items = sample_items\<rparr>;
       xs = [OpPatch False False 18446744073709551615 [set_status_op ''a'' StatusCompleted],
             OpReplace False False sample_items]
   in store_wf (fold store_step xs s) \<and> snap_items (fold store_step xs s) = sample_items \<and>
      snap_revision (fold store_step xs s) \<noteq> snap_revision s"
proof -
  define s where "s = \<lparr>snap_revision = 18446744073709551615, snap_items = sample_items\<rparr>"
  define xs where "xs = [OpPatch False False 18446744073709551615
       [set_status_op ''a'' StatusCompleted], OpReplace False False sample_items]"
  have "store_wf s" unfolding s_def by code_simp
  moreover have "length xs < 2 ^ 64" by (simp add: xs_def)
  ultimately have "store_wf (fold store_step xs s)"
    using store_revision_detects_change by blast
  moreover have "snap_items (fold store_step xs s) = sample_items"
    unfolding s_def xs_def by code_simp
  moreover have "snap_revision (fold store_step xs s) \<noteq> snap_revision s"
    unfolding s_def xs_def by code_simp
  ultimately show ?thesis unfolding s_def xs_def Let_def by blast
qed

text \<open>
  Status reconciliation settles. Whatever other clients do between its calls, when it
  returns without an error the snapshot it returns is the store's, and the task is absent from
  it or has the wanted status; and without interference it never reports a conflict.
\<close>

theorem reconcile_status_settles:
  assumes "reconcile_status (\<lambda>s. s) (compare_and_patch False False) env i st s =
    (s', sn, changed, err)"
  shows "(err = None \<longrightarrow> sn = s' \<and>
      (case find_item (snap_items sn) (trim_space i) of
         None \<Rightarrow> \<not> changed | Some p \<Rightarrow> item_status (snap_items sn ! p) = st)) \<and>
    (env = (\<lambda>_ x. x) \<longrightarrow> err \<noteq> Some RevisionConflict)"
proof (intro conjI impI)
  assume "err = None"
  with assms todo_store.reconcile_settles [of env i st s s' sn changed]
  show "sn = s'" "case find_item (snap_items sn) (trim_space i) of
      None \<Rightarrow> \<not> changed | Some p \<Rightarrow> item_status (snap_items sn ! p) = st" by auto
next
  assume "env = (\<lambda>_ x. x)"
  with assms have "reconcile_status (\<lambda>s. s) (compare_and_patch False False) (\<lambda>_ x. x) i st s =
      (s', sn, changed, err)" by simp
  then show "err \<noteq> Some RevisionConflict" by (rule todo_store.reconcile_quiet)
qed

text \<open>An interference: another client replaces the plan between the first read and the first write.\<close>

definition busy_env :: "nat \<Rightarrow> snapshot \<Rightarrow> snapshot" where
  "busy_env k s = (if k = 1 then store_step (OpReplace False False sample_items) s else s)"

theorem reconcile_status_settles_witness:
  "case reconcile_status (\<lambda>s. s) (compare_and_patch False False) busy_env '' b'' StatusCompleted
       \<lparr>snap_revision = 7, snap_items = take 1 sample_items @
          [\<lparr>item_id = ''b'', item_text = ''other'', item_status = StatusPending\<rparr>]\<rparr> of
     (s', sn, changed, err) \<Rightarrow> err = None \<and> changed \<and> sn = s' \<and>
       (case find_item (snap_items sn) ''b'' of
          None \<Rightarrow> False | Some p \<Rightarrow> item_status (snap_items sn ! p) = StatusCompleted)"
proof -
  let ?s = "\<lparr>snap_revision = 7, snap_items = take 1 sample_items @
          [\<lparr>item_id = ''b'', item_text = ''other'', item_status = StatusPending\<rparr>]\<rparr>"
  let ?f = "\<lparr>snap_revision = 9, snap_items = take 1 sample_items @
          [\<lparr>item_id = ''b'', item_text = ''second'', item_status = StatusCompleted\<rparr>]\<rparr>"
  have r: "reconcile_status (\<lambda>s. s) (compare_and_patch False False) busy_env '' b''
      StatusCompleted ?s = (?f, ?f, True, None)"
    by code_simp
  have t: "trim_space '' b'' = ''b''" by code_simp
  have f: "find_item (snap_items ?f) ''b'' = Some 1" by code_simp
  show ?thesis
    using reconcile_status_settles [OF r] unfolding t f by (simp only: r t f prod.case option.case)
qed

text \<open>
  An id is checked after trimming but stored as given, so a plan can hold an item that no
  patch can address: naming it trimmed or untrimmed, it does not exist, while adding the
  trimmed id is refused as a duplicate.
\<close>

theorem untrimmed_id_unreachable:
  "let items = [\<lparr>item_id = '' a'', item_text = ''x'', item_status = StatusPending\<rparr>];
       rm = \<lambda>i. \<lparr>op_op = PatchRemove, op_id = i, op_text = [], op_status = StatusOther []\<rparr>
   in validate_items items = None \<and>
      apply_patch items [rm ''a''] = Inl (OpMissing 0 ''a'') \<and>
      apply_patch items [rm '' a''] = Inl (OpMissing 0 ''a'') \<and>
      apply_patch items [\<lparr>op_op = PatchAdd, op_id = ''a'', op_text = ''y'',
         op_status = StatusPending\<rparr>] = Inl (DuplicateId 1 ''a'')"
  by code_simp

end
