(* ===== verification/Call_Authorize.thy ===== *)
theory Call_Authorize
  imports Permission_Policy Tool_Semantics Todo_Plan
begin

text \<open>
  \<open>internal/engine/toolcall/authorize.go\<close> and \<open>task_permission.go\<close>, with the permission state of
  the \<open>Service\<close> of \<open>service.go\<close>: the decision on one call from the static policy, the mode, the
  session grants and the interactive prompt. The prompt and the guard are functions of the
  history of the service so far, the list of its events.
\<close>

subsection \<open>The environment and the service\<close>

datatype event = EvPermit request resolution | EvDeny request reason
  | EvRun string string | EvAcquire | EvRelease | EvRecoveryAttempted recovery_action
  | EvRecoveryFailed recovery_action | EvRecoverySucceeded recovery_action

type_synonym history = "event list"

text \<open>The prompt fails with a message and the failure its error converts to, or answers.\<close>

datatype prompt_answer = PromptError string failure | PromptResolution resolution

text \<open>What decoding the JSON arguments as an object and looking up one key yields.\<close>

datatype json_field = FieldUndecodable | FieldMissing | FieldString string | FieldRaw string

text \<open>
  The library functions and the surroundings the service uses: URL host names, SHA-256, the
  decodings of \<open>encoding/json\<close> (the command of a shell call, the action and operations of a
  task call, one field, validity), the code of the caller's context once it is done, and the
  failure of acquiring the workspace's mutation lock.
\<close>

record environment =
  env_host :: host_parser
  env_digest :: "string \<Rightarrow> string"
  env_command :: command_decoder
  env_task :: "string \<Rightarrow> (string \<times> operation list) option"
  env_field :: "string \<Rightarrow> string \<Rightarrow> json_field"
  env_json_valid :: "string \<Rightarrow> bool"
  env_canceled :: "history \<Rightarrow> error_code option"
  env_gate :: "history \<Rightarrow> failure option"

text \<open>
  A registered tool: its definition, its handler (\<open>None\<close> is a panic; else the result and the
  failure its error converts to), the optional provider of a permission detail, the
  normalizations of arguments, whether its schemas compile, and the schema validators.
\<close>

record handler =
  h_def :: tool_definition
  h_run :: "history \<Rightarrow> tool_call \<Rightarrow> (tool_result \<times> failure option) option"
  h_detail :: "(string \<Rightarrow> string) option"
  h_normalize_call :: "string \<Rightarrow> string"
  h_normalize :: "string \<Rightarrow> string"
  h_compiles :: bool
  h_input :: "(string \<Rightarrow> bool) option"
  h_output :: "(string \<Rightarrow> bool) option"

record service =
  svc_registry :: "string \<Rightarrow> handler option"
  svc_policy :: policy
  svc_mode :: mode
  svc_prompt :: "(history \<Rightarrow> request \<Rightarrow> prompt_answer) option"
  svc_guard :: "(history \<Rightarrow> request \<Rightarrow> string option) option"
  svc_grants :: "string grant_key set"
  svc_gated :: bool

subsection \<open>Authorization\<close>

definition task_metadata_auto_allowed :: "environment \<Rightarrow> request \<Rightarrow> bool" where
  "task_metadata_auto_allowed env r =
     (if req_kind r \<noteq> KindTask then False
      else case env_task env (req_arguments r) of
          None \<Rightarrow> False
        | Some (act, ops) \<Rightarrow>
            req_tool_name r = ''todo'' \<and>
            (if act = ''get'' then True
             else if act = ''update'' then classify_patch ops = ImpactStatusOnly
             else False))"

definition resolve :: "action \<Rightarrow> reason \<Rightarrow> resolution" where
  "resolve a rs = \<lparr>resn_action = a, resn_scope = GrantScopeUnknown, resn_reason = rs\<rparr>"

text \<open>The clean-up of what the prompt answered.\<close>

definition accept_resolution :: "request \<Rightarrow> resolution \<Rightarrow> resolution" where
  "accept_resolution r x =
     (if resn_action x \<noteq> ActionAllow \<and> resn_action x \<noteq> ActionDeny
      then resolve ActionDeny (ReasonText ''permission prompt returned an invalid decision'')
      else let x = (if resn_reason x = ReasonText []
                    then x\<lparr>resn_reason := ReasonText ''interactive permission decision''\<rparr> else x);
               x = (if resn_action x = ActionDeny then x\<lparr>resn_scope := GrantScopeOnce\<rparr> else x);
               x = (if resn_scope x \<noteq> GrantScopeOnce \<and> resn_scope x \<noteq> GrantScopeSession
                    then x\<lparr>resn_scope := GrantScopeOnce\<rparr> else x)
           in if resn_scope x = GrantScopeSession \<and> \<not> session_grant_eligible r
              then x\<lparr>resn_scope := GrantScopeOnce\<rparr> else x)"

text \<open>The resolution, and the failure of a failed prompt.\<close>

definition authorize :: "environment \<Rightarrow> service \<Rightarrow> history \<Rightarrow> request \<Rightarrow> resolution \<times> failure option" where
  "authorize env s w r =
     (let d = evaluate (env_host env) (svc_policy s) r in
      if dec_action d = ActionDeny then (resolve ActionDeny (dec_reason d), None)
      else if dec_action d = ActionAllow then (resolve ActionAllow (dec_reason d), None)
      else if svc_mode s = ModeDeny then (resolve ActionDeny (ReasonText ''deny mode''), None)
      else if req_kind r = KindAgent \<and> (svc_mode s = ModeAsk \<or> svc_mode s = ModeAuto)
      then (resolve ActionAllow (ReasonText ''subagent orchestration is allowed''), None)
      else if task_metadata_auto_allowed env r \<and> (svc_mode s = ModeAsk \<or> svc_mode s = ModeAuto)
      then (resolve ActionAllow (ReasonText ''safe task metadata transition is allowed''), None)
      else if request_key (env_digest env) r \<in> svc_grants s \<and>
              req_effect r = EffectReadOnly \<and> req_risk r = RiskNormal
      then (resolve ActionAllow (ReasonText ''allowed by session grant''), None)
      else if svc_mode s = ModeAlwaysApprove
      then (resolve ActionAllow (ReasonText ''always-approve mode''), None)
      else if svc_mode s = ModeAsk \<or> svc_mode s = ModeAuto then
        (case svc_prompt s of
           None \<Rightarrow> (resolve ActionDeny (ReasonText ''no permission prompt is configured''), None)
         | Some prompt \<Rightarrow>
             (case prompt w r of
                PromptError e f \<Rightarrow>
                  (resolve ActionDeny (ReasonText (''permission prompt failed: '' @ e)), Some f)
              | PromptResolution x \<Rightarrow> (accept_resolution r x, None)))
      else (resolve ActionDeny (ReasonText ''invalid permission mode''), None))"

definition remember_grant :: "service \<Rightarrow> string grant_key \<Rightarrow> service" where
  "remember_grant s k = s\<lparr>svc_grants := insert k (svc_grants s)\<rparr>"

definition guard_call :: "service \<Rightarrow> history \<Rightarrow> request \<Rightarrow> string option" where
  "guard_call s w r = (case svc_guard s of None \<Rightarrow> None | Some g \<Rightarrow> g w r)"

definition permission_detail :: "environment \<Rightarrow> tool_definition \<Rightarrow> string \<Rightarrow> string" where
  "permission_detail env d args =
     (if def_detail_key d = [] then args
      else case env_field env args (def_detail_key d) of
          FieldUndecodable \<Rightarrow> args
        | FieldMissing \<Rightarrow> args
        | FieldString v \<Rightarrow> v
        | FieldRaw raw \<Rightarrow> raw)"

subsection \<open>The operations on the permission state\<close>

text \<open>
  \<open>NewService\<close> also compiles the schemas of the registered tools and fails when one does not
  compile; here that is the flag \<open>h_compiles\<close>, read when the tool is called.
\<close>

definition new_service :: "(string \<Rightarrow> handler option) \<Rightarrow> policy \<Rightarrow> service" where
  "new_service registry p =
     \<lparr>svc_registry = registry, svc_policy = p, svc_mode = ModeAsk, svc_prompt = None,
      svc_guard = None, svc_grants = {}, svc_gated = False\<rparr>"

definition clone :: "service \<Rightarrow> service" where
  "clone s = s\<lparr>svc_grants := {}\<rparr>"

definition clone_with_registry :: "service \<Rightarrow> (string \<Rightarrow> handler option) \<Rightarrow> service option" where
  "clone_with_registry s registry =
     (if \<not> valid_mode (svc_mode s) then None
      else Some ((new_service registry (svc_policy s))
        \<lparr>svc_mode := svc_mode s, svc_prompt := svc_prompt s, svc_guard := svc_guard s,
         svc_gated := svc_gated s\<rparr>))"

definition set_mode :: "service \<Rightarrow> mode \<Rightarrow> service option" where
  "set_mode s m = (if \<not> valid_mode m then None else Some (s\<lparr>svc_mode := m\<rparr>))"

definition set_prompt :: "service \<Rightarrow> (history \<Rightarrow> request \<Rightarrow> prompt_answer) option \<Rightarrow> service" where
  "set_prompt s p = s\<lparr>svc_prompt := p\<rparr>"

definition set_call_guard :: "service \<Rightarrow> (history \<Rightarrow> request \<Rightarrow> string option) option \<Rightarrow> service" where
  "set_call_guard s g = s\<lparr>svc_guard := g\<rparr>"

definition service_add_rule :: "service \<Rightarrow> rule \<Rightarrow> service option" where
  "service_add_rule s x =
     (case add_rule (svc_policy s) x of Inl _ \<Rightarrow> None | Inr p \<Rightarrow> Some (s\<lparr>svc_policy := p\<rparr>))"

subsection \<open>Lemmas\<close>

lemma resolve_simps [simp]:
  "resn_action (resolve a rs) = a" "resn_scope (resolve a rs) = GrantScopeUnknown"
  by (simp_all add: resolve_def)

lemma accept_resolution_action:
  "resn_action (accept_resolution r x) = ActionAllow \<longleftrightarrow> resn_action x = ActionAllow"
  by (auto simp: accept_resolution_def Let_def)

lemma accept_resolution_cases:
  "resn_action (accept_resolution r x) \<in> {ActionAllow, ActionDeny} \<and>
   (resn_scope (accept_resolution r x) = GrantScopeSession \<longrightarrow>
      resn_action (accept_resolution r x) = ActionAllow \<and> session_grant_eligible r)"
  by (auto simp: accept_resolution_def Let_def)

text \<open>The ways a call is allowed that no static rule decides.\<close>

definition allowed_by_mode :: "environment \<Rightarrow> service \<Rightarrow> history \<Rightarrow> request \<Rightarrow> bool" where
  "allowed_by_mode env s w r =
     (case svc_mode s of
        ModeDeny \<Rightarrow> False
      | ModeAlwaysApprove \<Rightarrow> True
      | m \<Rightarrow>
          (request_key (env_digest env) r \<in> svc_grants s \<and> session_grant_eligible r) \<or>
          ((m = ModeAsk \<or> m = ModeAuto) \<and>
             (req_kind r = KindAgent \<or> task_metadata_auto_allowed env r \<or>
              (case svc_prompt s of
                 None \<Rightarrow> False
               | Some prompt \<Rightarrow> (case prompt w r of
                     PromptError _ _ \<Rightarrow> False
                   | PromptResolution x \<Rightarrow> resn_action x = ActionAllow)))))"

lemma authorize_allow:
  "resn_action (fst (authorize env s w r)) = ActionAllow \<longleftrightarrow>
     dec_action (evaluate (env_host env) (svc_policy s) r) = ActionAllow \<or>
     (dec_action (evaluate (env_host env) (svc_policy s) r) \<noteq> ActionDeny \<and>
      allowed_by_mode env s w r)"
  by (cases "svc_mode s")
     (auto simp: authorize_def allowed_by_mode_def session_grant_eligible_def Let_def
        accept_resolution_action split: option.split prompt_answer.split)

lemma authorize_session_scope:
  "resn_scope (fst (authorize env s w r)) = GrantScopeSession \<Longrightarrow>
   resn_action (fst (authorize env s w r)) = ActionAllow \<and> session_grant_eligible r"
  using accept_resolution_cases [of r]
  by (auto simp: authorize_def Let_def split: if_splits option.splits prompt_answer.splits)

lemma authorize_total:
  "resn_action (fst (authorize env s w r)) \<in> {ActionAllow, ActionDeny}"
  using accept_resolution_cases [of r]
  by (auto simp: authorize_def Let_def split: option.split prompt_answer.split)

end
