(* ===== verification/Tool_Call.thy ===== *)
theory Tool_Call
  imports Call_Authorize
begin

text \<open>
  \<open>Service.call\<close> of \<open>internal/engine/toolcall/service.go\<close> and \<open>recovery.go\<close>: one tool call from
  its validation to its result, with the recovery of a failed handler. The history records
  what the call does in order: the permission given or refused, each run of a handler, the
  mutation lock taken and released, the recoveries. A nested call of a recovery is the same
  function one level down, where the recoveries that call again are refused. The English
  messages of failures are left empty; the code and the recovery are kept.
\<close>

datatype svc_error = ErrInvalidCall call_error | ErrCanceled error_code | ErrUnknownTool string
  | ErrContract | ErrInvalidInput | ErrGuard string | ErrPrompt failure | ErrDenied reason
  | ErrGate failure | ErrExecute failure | ErrInvalidOutput

definition retryable_code :: "error_code \<Rightarrow> bool" where
  "retryable_code c = (c \<in> {CodeCanceled, CodeDeadlineExceeded, CodeNetworkUnavailable})"

definition plain_failure :: "error_code \<Rightarrow> failure" where
  "plain_failure c = \<lparr>fail_code = c, fail_message = [], fail_diagnostic = [],
     fail_retryable = retryable_code c, fail_recovery = None, fail_evidence = None\<rparr>"

definition failed_result :: "tool_call \<Rightarrow> bool \<Rightarrow> failure \<Rightarrow> tool_result" where
  "failed_result c denied f =
     empty_result\<lparr>res_call_id := call_id c, res_tool_name := call_name c, res_denied := denied,
       res_failure := Some f\<rparr>"

type_synonym call_outcome = "service \<times> history \<times> tool_result \<times> svc_error option"

text \<open>\<open>lookupHandler\<close>, with the old name of the question tool.\<close>

definition lookup_handler :: "service \<Rightarrow> string \<Rightarrow> handler option" where
  "lookup_handler s n =
     (case svc_registry s n of
        Some h \<Rightarrow> Some h
      | None \<Rightarrow> if n = ''ask_question'' then svc_registry s ''askQuestion'' else None)"

definition call_detail :: "environment \<Rightarrow> handler \<Rightarrow> string \<Rightarrow> string" where
  "call_detail env h args =
     (case h_detail h of
        None \<Rightarrow> permission_detail env (h_def h) args
      | Some f \<Rightarrow>
          if trim_space (f args) \<noteq> [] then trim_space (f args)
          else permission_detail env (h_def h) args)"

definition call_request :: "environment \<Rightarrow> handler \<Rightarrow> tool_call \<Rightarrow> request" where
  "call_request env h c =
     \<lparr>req_call_id = call_id c, req_tool_name = call_name c, req_kind = def_kind (h_def h),
      req_detail = call_detail env h (call_arguments c), req_arguments = call_arguments c,
      req_risk = effective_call_risk (env_command env) (h_def h) (call_arguments c),
      req_effect = effective_call_effect (env_command env) (h_def h) (call_arguments c),
      req_scope = effective_call_scope (env_command env) (h_def h) (call_arguments c)\<rparr>"

text \<open>The checks before permission: the handler, the call with its arguments normalized.\<close>

definition prepare_call :: "environment \<Rightarrow> service \<Rightarrow> history \<Rightarrow> tool_call \<Rightarrow>
    (svc_error \<times> tool_result, handler \<times> tool_call) result" where
  "prepare_call env s w c =
     (case call_validate (env_json_valid env) c of
        Some e \<Rightarrow>
          Inl (ErrInvalidCall e, failed_result c False (plain_failure CodeInvalidArguments))
      | None \<Rightarrow>
          (case env_canceled env w of
             Some code \<Rightarrow> Inl (ErrCanceled code, failed_result c False (plain_failure code))
           | None \<Rightarrow>
          (case lookup_handler s (call_name c) of
              None \<Rightarrow> Inl (ErrUnknownTool (call_name c),
                failed_result c False (plain_failure CodeUnknownTool))
            | Some h \<Rightarrow>
                let c' = c\<lparr>call_arguments := h_normalize_call h (call_arguments c)\<rparr> in
                if \<not> h_compiles h
                then Inl (ErrContract, failed_result c' False (plain_failure CodeExecution))
                else (case h_input h of
                    Some valid \<Rightarrow>
                      if \<not> valid (call_arguments c')
                      then Inl (ErrInvalidInput,
                        failed_result c' False (plain_failure CodeInvalidArguments))
                      else Inr (h, c')
                  | None \<Rightarrow> Inr (h, c')))))"

text \<open>The guard and the permission: the service with a new grant, or the refusal.\<close>

definition permit_call :: "environment \<Rightarrow> service \<Rightarrow> history \<Rightarrow> tool_call \<Rightarrow> request \<Rightarrow>
    history \<times> (svc_error \<times> tool_result, service) result" where
  "permit_call env s w c r =
     (case guard_call s w r of
        Some msg \<Rightarrow> (w @ [EvDeny r (ReasonText msg)],
          Inl (ErrGuard msg, failed_result c True (plain_failure CodePermissionDenied)))
      | None \<Rightarrow>
          (case authorize env s w r of
             (x, Some f) \<Rightarrow> (w @ [EvDeny r (resn_reason x)],
               Inl (ErrPrompt f, failed_result c True f))
           | (x, None) \<Rightarrow>
               if resn_action x \<noteq> ActionAllow
               then (w @ [EvDeny r (resn_reason x)],
                 Inl (ErrDenied (resn_reason x),
                      failed_result c True (plain_failure CodePermissionDenied)))
               else (w @ [EvPermit r x],
                 Inr (if resn_scope x = GrantScopeSession \<and> session_grant_eligible r
                      then remember_grant s (request_key (env_digest env) r) else s))))"

text \<open>\<open>executeHandler\<close>: a panic is an error with an empty result.\<close>

definition execute_handler :: "handler \<Rightarrow> history \<Rightarrow> tool_call \<Rightarrow>
    history \<times> tool_result \<times> failure option" where
  "execute_handler h w c =
     (let w' = w @ [EvRun (call_name c) (call_arguments c)] in
      case h_run h w c of
        None \<Rightarrow> (w', empty_result, Some (plain_failure CodeExecution))
      | Some (res, e) \<Rightarrow> (w', res, e))"

subsection \<open>Recovery\<close>

text \<open>
  The result of a recovery: the service and the history after it, and, when it recovered, the
  result and the error in place of the handler's. \<open>nested\<close> is the call one level down, \<open>None\<close>
  where \<open>recoveryDepth\<close> is not zero.
\<close>

type_synonym recovery_outcome = "service \<times> history \<times> (tool_result \<times> failure option) option"
type_synonym nested_call = "(service \<Rightarrow> history \<Rightarrow> tool_call \<Rightarrow> call_outcome) option"

text \<open>The failure an error of the service converts to.\<close>

fun error_failure :: "svc_error \<Rightarrow> failure" where
  "error_failure (ErrExecute f) = f"
| "error_failure (ErrInvalidCall _) = plain_failure CodeInvalidArguments"
| "error_failure (ErrCanceled code) = plain_failure code"
| "error_failure (ErrUnknownTool _) = plain_failure CodeExecution"
| "error_failure ErrContract = plain_failure CodeExecution"
| "error_failure ErrInvalidInput = plain_failure CodeInvalidArguments"
| "error_failure (ErrGuard _) = plain_failure CodeExecution"
| "error_failure (ErrPrompt f) = f"
| "error_failure (ErrDenied _) = plain_failure CodeExecution"
| "error_failure (ErrGate f) = f"
| "error_failure ErrInvalidOutput = plain_failure CodeInvalidOutput"

definition input_ok :: "handler \<Rightarrow> string \<Rightarrow> bool" where
  "input_ok h args = (case h_input h of None \<Rightarrow> True | Some valid \<Rightarrow> valid args)"

definition recover_pagination :: "service \<Rightarrow> history \<Rightarrow> handler \<Rightarrow> tool_call \<Rightarrow> recovery \<Rightarrow> recovery_outcome" where
  "recover_pagination s w h c rec =
     (if rcv_tool rec \<noteq> def_name (h_def h) \<or> effective_mutability (h_def h) \<noteq> MutabilityReadOnly
      then (s, w, None)
      else let args = h_normalize h (rcv_arguments rec) in
        if \<not> input_ok h args then (s, w, None)
        else case execute_handler h (w @ [EvRecoveryAttempted (rcv_action rec)])
               (c\<lparr>call_arguments := args\<rparr>) of
            (w', res, e) \<Rightarrow>
              (s, w' @ [if e = None then EvRecoverySucceeded (rcv_action rec)
                        else EvRecoveryFailed (rcv_action rec)], Some (res, e)))"

text \<open>
  The target of a recovery that calls: its handler and the call, when the tool is registered,
  read only for these arguments, of the required boundary, and the arguments are valid.
\<close>

definition recovery_target :: "environment \<Rightarrow> service \<Rightarrow> bool \<Rightarrow> string \<Rightarrow> string \<Rightarrow> recovery \<Rightarrow>
    (handler \<times> tool_call) option" where
  "recovery_target env s need_read i tag rec =
     (case svc_registry s (rcv_tool rec) of
        None \<Rightarrow> None
      | Some h \<Rightarrow>
          let args = h_normalize h (rcv_arguments rec); d = h_def h in
          if effective_call_mutability (env_command env) d args \<noteq> MutabilityReadOnly then None
          else if need_read \<and>
            boundary (effective_call_safety (env_command env) d args) \<noteq> BoundaryWorkspaceRead
          then None
          else if \<not> h_compiles h \<or> \<not> input_ok h args then None
          else (case new_call (env_json_valid env) (i @ tag) (def_name d) args of
              Inl _ \<Rightarrow> None | Inr nc \<Rightarrow> Some (h, nc)))"

definition recover_resource :: "environment \<Rightarrow> nested_call \<Rightarrow> service \<Rightarrow> history \<Rightarrow> tool_call \<Rightarrow> failure \<Rightarrow>
    recovery \<Rightarrow> recovery_outcome" where
  "recover_resource env nested s w c f rec =
     (case nested of
        None \<Rightarrow> (s, w, None)
      | Some run \<Rightarrow>
          if trim_space (rcv_tool rec) = [] then (s, w, None)
          else case recovery_target env s False (call_id c) '':refresh'' rec of
              None \<Rightarrow> (s, w, None)
            | Some (h, nc) \<Rightarrow>
                (case run s (w @ [EvRecoveryAttempted (rcv_action rec)]) nc of
                   (s', w', res, e) \<Rightarrow>
                     if e \<noteq> None \<or> res_failure res \<noteq> None \<or> res_denied res
                     then (s', w' @ [EvRecoveryFailed (rcv_action rec)], None)
                     else (s', w' @ [EvRecoverySucceeded (rcv_action rec)],
                       (let f' = f\<lparr>fail_evidence := Some \<lparr>ev_action = rcv_action rec,
                              ev_tool = def_name (h_def h), ev_output = res_output res,
                              ev_structured = res_structured res, ev_sha256 = res_sha256 res,
                              ev_truncated = res_truncated res\<rparr>\<rparr>
                        in Some (failed_result c False f', Some f)))))"

definition recover_dedicated :: "environment \<Rightarrow> nested_call \<Rightarrow> service \<Rightarrow> history \<Rightarrow> tool_call \<Rightarrow> recovery \<Rightarrow>
    recovery_outcome" where
  "recover_dedicated env nested s w c rec =
     (case nested of
        None \<Rightarrow> (s, w, None)
      | Some run \<Rightarrow>
          if trim_space (rcv_tool rec) = [] \<or> rcv_tool rec = call_name c then (s, w, None)
          else case recovery_target env s True (call_id c) '':recovery'' rec of
              None \<Rightarrow> (s, w, None)
            | Some (h, nc) \<Rightarrow>
                (case run s (w @ [EvRecoveryAttempted (rcv_action rec)]) nc of
                   (s', w', res, e) \<Rightarrow>
                     (s', w' @ [if e = None then EvRecoverySucceeded (rcv_action rec)
                                else EvRecoveryFailed (rcv_action rec)],
                      Some (res\<lparr>res_call_id := call_id c, res_tool_name := call_name c\<rparr>,
                            map_option error_failure e))))"

definition recover_call :: "environment \<Rightarrow> nested_call \<Rightarrow> service \<Rightarrow> history \<Rightarrow> handler \<Rightarrow> tool_call \<Rightarrow>
    failure \<Rightarrow> recovery_outcome" where
  "recover_call env nested s w h c f =
     (case fail_recovery f of
        None \<Rightarrow> (s, w, None)
      | Some rec \<Rightarrow>
          (case rcv_action rec of
             RecoveryRestartPagination \<Rightarrow> recover_pagination s w h c rec
           | RecoveryRefreshResource \<Rightarrow> recover_resource env nested s w c f rec
           | RecoveryDiscoverResource \<Rightarrow> recover_resource env nested s w c f rec
           | RecoveryUseDedicatedTool \<Rightarrow> recover_dedicated env nested s w c rec))"

subsection \<open>The call\<close>

text \<open>After the run and its recovery: identity of the result, the error, the output schema.\<close>

definition finish_call :: "handler \<Rightarrow> tool_call \<Rightarrow> tool_result \<Rightarrow> failure option \<Rightarrow>
    tool_result \<times> svc_error option" where
  "finish_call h c res0 e =
     (let res = (if res_call_id res0 = [] then res0\<lparr>res_call_id := call_id c\<rparr> else res0);
          res = (if res_tool_name res = [] then res\<lparr>res_tool_name := call_name c\<rparr> else res) in
      case e of
        Some f \<Rightarrow>
          ((if res_failure res = None then res\<lparr>res_failure := Some f\<rparr> else res),
           Some (ErrExecute f))
      | None \<Rightarrow>
          (case h_output h of
             Some valid \<Rightarrow>
               if \<not> valid (res_structured res)
               then (res\<lparr>res_failure := Some (plain_failure CodeInvalidOutput)\<rparr>,
                     Some ErrInvalidOutput)
               else (res, None)
           | None \<Rightarrow> (res, None)))"

definition run_call :: "environment \<Rightarrow> nested_call \<Rightarrow> service \<Rightarrow> history \<Rightarrow> handler \<Rightarrow> tool_call \<Rightarrow>
    call_outcome" where
  "run_call env nested s w h c =
     (case execute_handler h w c of
        (w1, res, None) \<Rightarrow>
          (case finish_call h c res None of (res', e') \<Rightarrow> (s, w1, res', e'))
      | (w1, res, Some f) \<Rightarrow>
          (case recover_call env nested s w1 h c f of
             (s', w2, None) \<Rightarrow>
               (case finish_call h c res (Some f) of (res', e') \<Rightarrow> (s', w2, res', e'))
           | (s', w2, Some (res1, e1)) \<Rightarrow>
               (case finish_call h c res1 e1 of (res', e') \<Rightarrow> (s', w2, res', e'))))"

definition call_step :: "environment \<Rightarrow> nested_call \<Rightarrow> service \<Rightarrow> history \<Rightarrow> tool_call \<Rightarrow> call_outcome" where
  "call_step env nested s w c =
     (case prepare_call env s w c of
        Inl (e, res) \<Rightarrow> (s, w, res, Some e)
      | Inr (h, c') \<Rightarrow>
          (case permit_call env s w c' (call_request env h c') of
             (w1, Inl (e, res)) \<Rightarrow> (s, w1, res, Some e)
           | (w1, Inr s1) \<Rightarrow>
               if svc_gated s1 \<and>
                  effective_call_mutability (env_command env) (h_def h) (call_arguments c')
                    = MutabilityMutating
               then
                 (case env_gate env w1 of
                    Some f \<Rightarrow> (s1, w1, failed_result c' False f, Some (ErrGate f))
                  | None \<Rightarrow>
                      (case run_call env nested s1 (w1 @ [EvAcquire]) h c' of
                         (s2, w2, res, e) \<Rightarrow> (s2, w2 @ [EvRelease], res, e)))
               else run_call env nested s1 w1 h c'))"

definition call :: "environment \<Rightarrow> service \<Rightarrow> history \<Rightarrow> tool_call \<Rightarrow> call_outcome" where
  "call env s w c = call_step env (Some (call_step env None)) s w c"

subsection \<open>What a call leaves of the service\<close>

definition grants_wf :: "service \<Rightarrow> bool" where
  "grants_wf s = (\<forall>k \<in> svc_grants s. key_effect k = EffectReadOnly \<and> key_risk k = RiskNormal)"

text \<open>
  Only grants are added, and each was given: the history holds the permission of an eligible
  request with that key, in session scope.
\<close>

definition granted :: "environment \<Rightarrow> history \<Rightarrow> string grant_key \<Rightarrow> bool" where
  "granted env w k =
     (\<exists>r x. EvPermit r x \<in> set w \<and> k = request_key (env_digest env) r \<and>
        resn_scope x = GrantScopeSession \<and> session_grant_eligible r)"

definition svc_keeps :: "environment \<Rightarrow> service \<Rightarrow> service \<Rightarrow> history \<Rightarrow> bool" where
  "svc_keeps env s s' w' =
     (s' = s\<lparr>svc_grants := svc_grants s'\<rparr> \<and> svc_grants s \<subseteq> svc_grants s' \<and>
      (\<forall>k \<in> svc_grants s' - svc_grants s. granted env w' k))"

lemma granted_mono: "granted env w k \<Longrightarrow> set w \<subseteq> set w' \<Longrightarrow> granted env w' k"
  unfolding granted_def by blast

lemma granted_key: "granted env w k \<Longrightarrow> key_effect k = EffectReadOnly \<and> key_risk k = RiskNormal"
  by (auto simp: granted_def request_key_def session_grant_eligible_def)

lemma svc_keeps_refl [simp]: "svc_keeps env s s w"
  by (simp add: svc_keeps_def)

lemma svc_keeps_trans:
  assumes "svc_keeps env s s' w'" "svc_keeps env s' s'' w''" "set w' \<subseteq> set w''"
  shows "svc_keeps env s s'' w''"
proof -
  from assms have "s'' = s\<lparr>svc_grants := svc_grants s''\<rparr>"
    by (metis (no_types, lifting) service.surjective service.update_convs(6) svc_keeps_def)
  with assms granted_mono show ?thesis unfolding svc_keeps_def by blast
qed

lemma svc_keeps_more: "svc_keeps env s s' w' \<Longrightarrow> set w' \<subseteq> set w'' \<Longrightarrow> svc_keeps env s s' w''"
  unfolding svc_keeps_def using granted_mono by blast

lemma svc_keeps_simps:
  assumes "svc_keeps env s s' w"
  shows "svc_registry s' = svc_registry s" "svc_policy s' = svc_policy s" "svc_mode s' = svc_mode s"
    "svc_gated s' = svc_gated s"
proof -
  from assms obtain g where "s' = s\<lparr>svc_grants := g\<rparr>" unfolding svc_keeps_def by metis
  then show "svc_registry s' = svc_registry s" "svc_policy s' = svc_policy s"
    "svc_mode s' = svc_mode s" "svc_gated s' = svc_gated s" by simp_all
qed

lemma remember_grant_keeps:
  "session_grant_eligible r \<Longrightarrow> resn_scope x = GrantScopeSession \<Longrightarrow>
   svc_keeps env s (remember_grant s (request_key (env_digest env) r)) (w @ [EvPermit r x])"
  by (auto simp: svc_keeps_def remember_grant_def granted_def)

subsection \<open>Runs and permissions in a history\<close>

text \<open>
  Scanning the events of a call: each run must be for a tool and arguments permitted before it,
  or a restart of a tool that is read only by its definition and was permitted before it for
  other arguments.
\<close>

fun runs_permitted :: "(string \<Rightarrow> bool) \<Rightarrow> (string \<times> string) list \<Rightarrow> event list \<Rightarrow> bool" where
  "runs_permitted restart seen [] = True"
| "runs_permitted restart seen (EvPermit r x # evs) =
     (resn_action x = ActionAllow \<and>
      runs_permitted restart ((req_tool_name r, req_arguments r) # seen) evs)"
| "runs_permitted restart seen (EvRun n a # evs) =
     (((n, a) \<in> set seen \<or> (restart n \<and> n \<in> fst ` set seen)) \<and> runs_permitted restart seen evs)"
| "runs_permitted restart seen (_ # evs) = runs_permitted restart seen evs"

lemma runs_permitted_mono:
  "set seen \<subseteq> set seen' \<Longrightarrow> runs_permitted R seen evs \<Longrightarrow> runs_permitted R seen' evs"
proof (induction R seen evs arbitrary: seen' rule: runs_permitted.induct)
  case (2 R seen r x evs)
  from 2(1) [of "(req_tool_name r, req_arguments r) # seen'"] 2(2,3) show ?case by auto
next
  case (3 R seen n a evs)
  from 3(1) [OF 3(2)] 3(2,3) show ?case by auto
qed auto

lemma runs_permitted_append:
  "runs_permitted R seen xs \<Longrightarrow> runs_permitted R seen ys \<Longrightarrow> runs_permitted R seen (xs @ ys)"
proof (induction R seen xs rule: runs_permitted.induct)
  case (2 R seen r x evs)
  have "runs_permitted R ((req_tool_name r, req_arguments r) # seen) ys"
    by (rule runs_permitted_mono [OF _ 2(3)]) auto
  with 2 show ?case by simp
qed auto

text \<open>The history grows by events that are in order, given what was permitted before.\<close>

definition grows :: "(string \<Rightarrow> bool) \<Rightarrow> (string \<times> string) list \<Rightarrow> history \<Rightarrow> history \<Rightarrow> bool" where
  "grows R seen w w' = (\<exists>evs. w' = w @ evs \<and> runs_permitted R seen evs)"

lemma grows_refl [simp]: "grows R seen w w"
  by (simp add: grows_def)

lemma grows_append: "runs_permitted R seen evs \<Longrightarrow> grows R seen w (w @ evs)"
  by (auto simp: grows_def)

lemma grows_trans: "grows R seen w w' \<Longrightarrow> grows R seen w' w'' \<Longrightarrow> grows R seen w w''"
  unfolding grows_def using runs_permitted_append by (metis append.assoc)

lemma grows_mono: "grows R seen w w' \<Longrightarrow> set seen \<subseteq> set seen' \<Longrightarrow> grows R seen' w w'"
  unfolding grows_def using runs_permitted_mono by blast

definition restartable :: "service \<Rightarrow> string \<Rightarrow> bool" where
  "restartable s n =
     (case lookup_handler s n of
        None \<Rightarrow> False | Some h \<Rightarrow> effective_mutability (h_def h) = MutabilityReadOnly)"

lemma lookup_handler_cong:
  assumes "svc_registry s = svc_registry s'" shows "lookup_handler s n = lookup_handler s' n"
  unfolding lookup_handler_def assms ..

lemma restartable_cong:
  assumes "svc_registry s = svc_registry s'" shows "restartable s = restartable s'"
  unfolding restartable_def lookup_handler_cong [OF assms] ..

text \<open>What holds of a nested call.\<close>

definition nested_ok :: "environment \<Rightarrow> nested_call \<Rightarrow> (string \<Rightarrow> handler option) \<Rightarrow> bool" where
  "nested_ok env nested reg =
     (case nested of
        None \<Rightarrow> True
      | Some run \<Rightarrow> \<forall>s w c s' w' res e. svc_registry s = reg \<longrightarrow> run s w c = (s', w', res, e) \<longrightarrow>
          svc_keeps env s s' w' \<and> grows (restartable s) [] w w')"

lemma prepare_call_Inr:
  assumes "prepare_call env s w c = Inr (h, c')"
  shows "lookup_handler s (call_name c) = Some h" "call_name c' = call_name c"
    "call_id c' = call_id c" "call_arguments c' = h_normalize_call h (call_arguments c)"
    "h_compiles h" "input_ok h (call_arguments c')" "call_validate (env_json_valid env) c = None"
    "env_canceled env w = None"
  using assms by (auto simp: prepare_call_def Let_def input_ok_def split: option.splits if_splits)

lemma permit_call_Inr:
  assumes "permit_call env s w c r = (w1, Inr s1)"
  obtains x where "w1 = w @ [EvPermit r x]" "authorize env s w r = (x, None)"
    "resn_action x = ActionAllow" "guard_call s w r = None" "svc_keeps env s s1 w1"
  using assms remember_grant_keeps [of r _ env s w]
  by (auto simp: permit_call_def split: option.splits prod.splits if_splits)

lemma permit_call_Inl:
  assumes "permit_call env s w c r = (w1, Inl x)"
  shows "\<exists>rs. w1 = w @ [EvDeny r rs]"
  using assms by (auto simp: permit_call_def split: option.splits prod.splits if_splits)

lemma execute_handler_grows:
  assumes "execute_handler h w c = (w', res, e)"
    and "(call_name c, call_arguments c) \<in> set seen \<or> (R (call_name c) \<and> call_name c \<in> fst ` set seen)"
  shows "grows R seen w w'"
proof -
  have "runs_permitted R seen [EvRun (call_name c) (call_arguments c)]" using assms(2) by simp
  moreover have "w' = w @ [EvRun (call_name c) (call_arguments c)]"
    using assms(1) by (auto simp: execute_handler_def Let_def split: option.splits)
  ultimately show ?thesis unfolding grows_def by blast
qed

lemma recover_pagination_ok:
  assumes "recover_pagination s w h c rcv = (s', w', x)" "lookup_handler s (call_name c) = Some h"
    and "call_name c \<in> fst ` set seen"
  shows "svc_keeps env s s' w' \<and> grows (restartable s) seen w w'"
proof (cases "s' = s \<and> w' = w")
  case True
  then show ?thesis by simp
next
  case False
  let ?a = "h_normalize h (rcv_arguments rcv)"
  obtain w1 res e where ex: "execute_handler h (w @ [EvRecoveryAttempted (rcv_action rcv)])
      (c\<lparr>call_arguments := ?a\<rparr>) = (w1, res, e)" by (metis prod_cases3)
  from assms(1) ex False have s: "s' = s" "effective_mutability (h_def h) = MutabilityReadOnly"
    "w' = w1 @ [EvRecoverySucceeded (rcv_action rcv)] \<or>
     w' = w1 @ [EvRecoveryFailed (rcv_action rcv)]"
    by (auto simp: recover_pagination_def Let_def split: if_splits)
  have "restartable s (call_name c)" using s(2) assms(2) by (simp add: restartable_def)
  then have "grows (restartable s) seen (w @ [EvRecoveryAttempted (rcv_action rcv)]) w1"
    using execute_handler_grows [OF ex] assms(3) by simp
  moreover have "grows (restartable s) seen w (w @ [EvRecoveryAttempted (rcv_action rcv)])"
    by (intro grows_append) simp
  moreover have "grows (restartable s) seen w1 w'" using s(3) by (auto intro: grows_append)
  ultimately show ?thesis using s(1) grows_trans by (metis svc_keeps_refl)
qed

text \<open>A recovery that calls: the attempt, the nested call, its outcome.\<close>

lemma nested_grows:
  assumes "nested_ok env (Some run) (svc_registry s)"
    and "run s (w @ [EvRecoveryAttempted a]) nc = (s', w1, res, e)"
    and "w' = w1 @ [EvRecoverySucceeded a'] \<or> w' = w1 @ [EvRecoveryFailed a']"
  shows "svc_keeps env s s' w' \<and> grows (restartable s) seen w w'"
proof -
  from assms(1,2) have n: "svc_keeps env s s' w1" "grows (restartable s) [] (w @ [EvRecoveryAttempted a]) w1"
    unfolding nested_ok_def option.case by blast+
  have "grows (restartable s) seen w (w @ [EvRecoveryAttempted a])" by (intro grows_append) simp
  moreover have "grows (restartable s) seen (w @ [EvRecoveryAttempted a]) w1"
    using n(2) grows_mono by fastforce
  moreover have "grows (restartable s) seen w1 w'" using assms(3) by (auto intro: grows_append)
  ultimately have "grows (restartable s) seen w w'" using grows_trans by metis
  moreover have "set w1 \<subseteq> set w'" using assms(3) by auto
  ultimately show ?thesis using n(1) svc_keeps_more by blast
qed

lemma recover_resource_ok:
  assumes "recover_resource env nested s w c f rcv = (s', w', x)" "nested_ok env nested (svc_registry s)"
  shows "svc_keeps env s s' w' \<and> grows (restartable s) seen w w'"
proof (cases "s' = s \<and> w' = w")
  case True
  then show ?thesis by simp
next
  case False
  with assms(1) obtain run h nc where r: "nested = Some run"
      "recovery_target env s False (call_id c) '':refresh'' rcv = Some (h, nc)"
    by (auto simp: recover_resource_def split: option.splits if_splits)
  obtain s1 w1 res e where n: "run s (w @ [EvRecoveryAttempted (rcv_action rcv)]) nc =
      (s1, w1, res, e)" by (metis prod_cases4)
  from assms(1) r n False have "s' = s1" "w' = w1 @ [EvRecoverySucceeded (rcv_action rcv)] \<or>
      w' = w1 @ [EvRecoveryFailed (rcv_action rcv)]"
    by (auto simp: recover_resource_def Let_def split: if_splits)
  with nested_grows [OF assms(2) [unfolded r(1)] n] show ?thesis by blast
qed

lemma recover_dedicated_ok:
  assumes "recover_dedicated env nested s w c rcv = (s', w', x)" "nested_ok env nested (svc_registry s)"
  shows "svc_keeps env s s' w' \<and> grows (restartable s) seen w w'"
proof (cases "s' = s \<and> w' = w")
  case True
  then show ?thesis by simp
next
  case False
  with assms(1) obtain run h nc where r: "nested = Some run"
      "recovery_target env s True (call_id c) '':recovery'' rcv = Some (h, nc)"
    by (auto simp: recover_dedicated_def split: option.splits if_splits)
  obtain s1 w1 res e where n: "run s (w @ [EvRecoveryAttempted (rcv_action rcv)]) nc =
      (s1, w1, res, e)" by (metis prod_cases4)
  from assms(1) r n False have "s' = s1" "w' = w1 @ [EvRecoverySucceeded (rcv_action rcv)] \<or>
      w' = w1 @ [EvRecoveryFailed (rcv_action rcv)]"
    by (auto simp: recover_dedicated_def split: if_splits)
  with nested_grows [OF assms(2) [unfolded r(1)] n] show ?thesis by blast
qed

lemma recover_call_ok:
  assumes "recover_call env nested s w h c f = (s', w', x)" "nested_ok env nested (svc_registry s)"
    and "lookup_handler s (call_name c) = Some h" "call_name c \<in> fst ` set seen"
  shows "svc_keeps env s s' w' \<and> grows (restartable s) seen w w'"
proof (cases "fail_recovery f")
  case None
  with assms(1) show ?thesis by (simp add: recover_call_def)
next
  case (Some rcv)
  with assms(1) show ?thesis
    by (cases "rcv_action rcv")
       (auto simp: recover_call_def
          dest: recover_pagination_ok [OF _ assms(3,4)] recover_resource_ok [OF _ assms(2)]
            recover_dedicated_ok [OF _ assms(2)])
qed

lemma run_call_ok:
  assumes "run_call env nested s w h c = (s', w', res, e)" "nested_ok env nested (svc_registry s)"
    and "lookup_handler s (call_name c) = Some h" "(call_name c, call_arguments c) \<in> set seen"
  shows "svc_keeps env s s' w' \<and> grows (restartable s) seen w w'"
proof -
  obtain w1 r0 e0 where ex: "execute_handler h w c = (w1, r0, e0)" by (metis prod_cases3)
  have g: "grows (restartable s) seen w w1" using execute_handler_grows [OF ex] assms(4) by blast
  show ?thesis
  proof (cases e0)
    case None
    with assms(1) ex g show ?thesis by (auto simp: run_call_def split: prod.splits)
  next
    case (Some f)
    obtain s2 w2 x where rc: "recover_call env nested s w1 h c f = (s2, w2, x)" by (metis prod_cases3)
    from assms(1) ex Some rc have eq: "s' = s2" "w' = w2"
      by (auto simp: run_call_def split: prod.splits option.splits)
    have "call_name c \<in> fst ` set seen" using assms(4) by force
    from recover_call_ok [OF rc assms(2,3) this] g eq grows_trans show ?thesis by blast
  qed
qed

lemma call_step_ok:
  assumes "call_step env nested s w c = (s', w', res, e)" "nested_ok env nested (svc_registry s)"
  shows "svc_keeps env s s' w' \<and> grows (restartable s) [] w w'"
proof (cases "prepare_call env s w c")
  case (Inl x)
  with assms(1) show ?thesis by (cases x) (auto simp: call_step_def)
next
  case (Inr hc)
  obtain h c' where hc: "hc = (h, c')" by (cases hc)
  note pr = prepare_call_Inr [OF Inr [unfolded hc]]
  let ?r = "call_request env h c'"
  obtain w1 p where pm: "permit_call env s w c' ?r = (w1, p)" by (metis surj_pair)
  show ?thesis
  proof (cases p)
    case (Inl x)
    from permit_call_Inl [OF pm [unfolded Inl]] obtain rs where w1: "w1 = w @ [EvDeny ?r rs]" by blast
    have "s' = s" "w' = w1"
      using assms(1) Inr hc pm Inl by (auto simp: call_step_def split: prod.splits)
    then show ?thesis using w1 by (auto intro: grows_append)
  next
    case (Inr s1)
    from permit_call_Inr [OF pm [unfolded Inr]] obtain x where x: "w1 = w @ [EvPermit ?r x]"
      "resn_action x = ActionAllow" and k1: "svc_keeps env s s1 w1" by metis
    let ?seen = "[(call_name c', call_arguments c')]"
    have reg: "svc_registry s1 = svc_registry s" using svc_keeps_simps [OF k1] by blast
    have lk: "lookup_handler s1 (call_name c') = Some h"
      using pr(1,2) lookup_handler_cong [OF reg] by simp
    have R: "restartable s1 = restartable s" using reg by (rule restartable_cong)
    have run: "svc_keeps env s1 s2 w2 \<and> grows (restartable s) ?seen wa w2"
      if "run_call env nested s1 wa h c' = (s2, w2, r2, e2)" for wa s2 w2 r2 e2
      using run_call_ok [OF that _ lk, of ?seen] assms(2) reg R by simp
    have tail: "svc_keeps env s1 s' w' \<and> grows (restartable s) ?seen w1 w'"
    proof (cases "svc_gated s1 \<and> effective_call_mutability (env_command env) (h_def h)
        (call_arguments c') = MutabilityMutating")
      case False
      with assms(1) \<open>prepare_call env s w c = Inr hc\<close> hc pm Inr
      have "run_call env nested s1 w1 h c' = (s', w', res, e)" by (auto simp: call_step_def)
      from run [OF this] show ?thesis .
    next
      case True
      show ?thesis
      proof (cases "env_gate env w1")
        case (Some f)
        with True assms(1) \<open>prepare_call env s w c = Inr hc\<close> hc pm Inr show ?thesis
          by (auto simp: call_step_def)
      next
        case None
        obtain s2 w2 r2 e2 where rc: "run_call env nested s1 (w1 @ [EvAcquire]) h c' =
            (s2, w2, r2, e2)" by (metis prod_cases4)
        with None True assms(1) \<open>prepare_call env s w c = Inr hc\<close> hc pm Inr
        have eq: "s' = s2" "w' = w2 @ [EvRelease]" by (auto simp: call_step_def)
        have "grows (restartable s) ?seen w1 (w1 @ [EvAcquire])"
          "grows (restartable s) ?seen w2 (w2 @ [EvRelease])" by (simp_all add: grows_append)
        with run [OF rc] eq(2) grows_trans have "grows (restartable s) ?seen w1 w'" by metis
        moreover have "svc_keeps env s1 s' w'"
          using run [OF rc] svc_keeps_more [of env s1 s2 w2 w'] eq by auto
        ultimately show ?thesis by blast
      qed
    qed
    then obtain evs where evs: "w' = w1 @ evs" "runs_permitted (restartable s) ?seen evs"
      by (auto simp: grows_def)
    have "runs_permitted (restartable s) [] (EvPermit ?r x # evs)"
      using evs(2) x(2) by (simp add: call_request_def)
    then have "grows (restartable s) [] w w'" using evs(1) x(1) by (auto simp: grows_def)
    moreover have "set w1 \<subseteq> set w'" using evs(1) by auto
    ultimately show ?thesis using svc_keeps_trans [OF k1, of s' w'] tail by blast
  qed
qed

lemma call_ok:
  assumes "call env s w c = (s', w', res, e)"
  shows "svc_keeps env s s' w' \<and> grows (restartable s) [] w w'"
proof -
  have "nested_ok env (Some (call_step env None)) (svc_registry s)"
    unfolding nested_ok_def option.case
    using call_step_ok [of env None] by (auto simp: nested_ok_def)
  from call_step_ok [OF assms [unfolded call_def] this] show ?thesis .
qed

subsection \<open>The service over its life\<close>

text \<open>The states of a service, with its history, under the operations of its interface.\<close>

inductive reachable :: "environment \<Rightarrow> service \<Rightarrow> history \<Rightarrow> bool" for env where
  reach_new: "reachable env (new_service registry p) []"
| reach_mode: "reachable env s w \<Longrightarrow> set_mode s m = Some s' \<Longrightarrow> reachable env s' w"
| reach_prompt: "reachable env s w \<Longrightarrow> reachable env (set_prompt s f) w"
| reach_guard: "reachable env s w \<Longrightarrow> reachable env (set_call_guard s g) w"
| reach_rule: "reachable env s w \<Longrightarrow> service_add_rule s x = Some s' \<Longrightarrow> reachable env s' w"
| reach_clone: "reachable env s w \<Longrightarrow> reachable env (clone s) w"
| reach_rebind: "reachable env s w \<Longrightarrow> clone_with_registry s registry = Some s' \<Longrightarrow> reachable env s' w"
| reach_call: "reachable env s w \<Longrightarrow> call env s w c = (s', w', res, e) \<Longrightarrow> reachable env s' w'"

inductive_cases reachable_cases: "reachable env s w"

lemma reachable_granted: "reachable env s w \<Longrightarrow> \<forall>k \<in> svc_grants s. granted env w k"
proof (induction rule: reachable.induct)
  case (reach_call s w c s' w' res e)
  from call_ok [OF reach_call(2)] have k: "svc_keeps env s s' w'" "set w \<subseteq> set w'"
    by (auto simp: grows_def)
  then show ?case using reach_call(3) granted_mono unfolding svc_keeps_def by blast
qed (auto simp: new_service_def set_mode_def set_prompt_def set_call_guard_def clone_def
    service_add_rule_def clone_with_registry_def split: if_splits sum.splits)

lemma reachable_mode: "reachable env s w \<Longrightarrow> valid_mode (svc_mode s)"
proof (induction rule: reachable.induct)
  case (reach_call s w c s' w' res e)
  from call_ok [OF reach_call(2)] reach_call(3) show ?case using svc_keeps_simps by metis
qed (auto simp: new_service_def set_mode_def set_prompt_def set_call_guard_def clone_def
    service_add_rule_def clone_with_registry_def valid_mode_def split: if_splits sum.splits)

lemma call_prepared:
  assumes "prepare_call env s w c = Inr (h, c')" "guard_call s w (call_request env h c') = None"
    and "resn_action (fst (authorize env s w (call_request env h c'))) = ActionDeny"
  shows "\<exists>rs res e. call env s w c = (s, w @ [EvDeny (call_request env h c') rs], res, Some e) \<and>
    res_denied res"
  using assms
  by (auto simp: call_def call_step_def permit_call_def failed_result_def
      split: prod.splits option.splits)

subsection \<open>Properties\<close>

text \<open>
  C3: Authorization decides every request one way or the other, and allows it exactly when the
  static policy allows it, or does not deny it and the mode does: always-approve; in the asking
  modes an orchestration call, a task read or status-only patch, or the user's answer; a session
  grant for the very same call, if that call is read only and harmless; never the deny mode.
\<close>

theorem authorize_decides:
  "resn_action (fst (authorize env s w r)) \<in> {ActionAllow, ActionDeny} \<and>
   (resn_action (fst (authorize env s w r)) = ActionAllow \<longleftrightarrow>
      dec_action (evaluate (env_host env) (svc_policy s) r) = ActionAllow \<or>
      (dec_action (evaluate (env_host env) (svc_policy s) r) \<noteq> ActionDeny \<and>
       allowed_by_mode env s w r)) \<and>
   (resn_scope (fst (authorize env s w r)) = GrantScopeSession \<longrightarrow> session_grant_eligible r)"
  using authorize_total authorize_allow authorize_session_scope by blast

text \<open>A sample environment and service: one editing tool and one reading tool.\<close>

definition sample_env :: environment where
  "sample_env = \<lparr>env_host = (\<lambda>_. None), env_digest = (\<lambda>a. a), env_command = (\<lambda>a. Some a),
     env_task = (\<lambda>_. None), env_field = (\<lambda>_ _. FieldMissing), env_json_valid = (\<lambda>_. True),
     env_canceled = (\<lambda>_. None), env_gate = (\<lambda>_. None)\<rparr>"

definition sample_tool :: "string \<Rightarrow> kind \<Rightarrow> tool_definition" where
  "sample_tool n k = plain_bash\<lparr>def_name := n, def_kind := k,
     def_mutability := MutabilityUnspecified\<rparr>"

definition sample_handler :: "string \<Rightarrow> kind \<Rightarrow> handler" where
  "sample_handler n k = \<lparr>h_def = sample_tool n k,
     h_run = (\<lambda>w c. if call_arguments c = ''stale''
       then Some (empty_result, Some ((plain_failure CodeStaleContinuation)
         \<lparr>fail_recovery := Some \<lparr>rcv_action = RecoveryRestartPagination, rcv_tool = n,
            rcv_arguments = ''fresh''\<rparr>\<rparr>))
       else Some (empty_result, None)),
     h_detail = None, h_normalize_call = (\<lambda>a. a), h_normalize = (\<lambda>a. a), h_compiles = True,
     h_input = None, h_output = None\<rparr>"

definition sample_service :: service where
  "sample_service = (new_service
     (\<lambda>n. if n = ''read'' then Some (sample_handler ''read'' KindRead)
          else if n = ''edit'' then Some (sample_handler ''edit'' KindEdit) else None)
     \<lparr>pol_rules = [], pol_default = ActionAsk\<rparr>)
     \<lparr>svc_prompt := Some (\<lambda>_ _. PromptResolution \<lparr>resn_action = ActionAllow,
        resn_scope = GrantScopeSession, resn_reason = ReasonText []\<rparr>)\<rparr>"

definition sample_call :: "string \<Rightarrow> string \<Rightarrow> tool_call" where
  "sample_call n a = \<lparr>call_id = ''1'', call_name = n, call_arguments = a\<rparr>"

theorem authorize_decides_witness:
  "resn_scope (fst (authorize sample_env sample_service []
     (sample_request KindEdit ''x''\<lparr>req_effect := EffectMutating\<rparr>))) \<noteq> GrantScopeSession"
proof -
  have "\<not> session_grant_eligible (sample_request KindEdit ''x''\<lparr>req_effect := EffectMutating\<rparr>)"
    by code_simp
  then show ?thesis using authorize_decides by blast
qed

text \<open>
  C1: Nothing runs unpermitted. Whatever a call does, nested recoveries included, each run of a
  handler comes after a permission for the same tool with the same arguments; the one exception
  is a restarted pagination, whose arguments the failed handler chose: there the tool is read
  only by its definition and was permitted before. The policy, the mode and the registry are
  left as they were.
\<close>

theorem runs_are_permitted:
  assumes "call env s w c = (s', w', res, e)"
  shows "(\<exists>evs. w' = w @ evs \<and> runs_permitted (restartable s) [] evs) \<and>
    svc_policy s' = svc_policy s \<and> svc_mode s' = svc_mode s \<and> svc_registry s' = svc_registry s"
  using call_ok [OF assms] svc_keeps_simps unfolding grows_def by blast

theorem runs_are_permitted_witness:
  "case call sample_env sample_service [] (sample_call ''read'' ''stale'') of
     (s', w', res, e) \<Rightarrow> EvRun ''read'' ''fresh'' \<in> set w' \<and>
       runs_permitted (restartable sample_service) [] w'"
proof -
  obtain s' w' res e where c: "call sample_env sample_service [] (sample_call ''read'' ''stale'') =
      (s', w', res, e)" by (metis prod_cases4)
  have "EvRun ''read'' ''fresh'' \<in>
      set (fst (snd (call sample_env sample_service [] (sample_call ''read'' ''stale''))))"
    by code_simp
  with runs_are_permitted [OF c] c show ?thesis by auto
qed

text \<open>
  C23: Session grants are never invented. In every state a service can reach, each grant it holds
  was given in its history by a permission in session scope for a request with exactly that
  tool, detail and arguments, whose effect is read only and whose risk is normal; and the mode
  is a valid one.
\<close>

theorem grants_were_given:
  assumes "reachable env s w"
  shows "(\<forall>k \<in> svc_grants s. granted env w k \<and> key_effect k = EffectReadOnly \<and>
      key_risk k = RiskNormal) \<and> valid_mode (svc_mode s)"
  using reachable_granted [OF assms] reachable_mode [OF assms] granted_key by blast

theorem grants_were_given_witness:
  "case call sample_env sample_service [] (sample_call ''read'' ''a'') of
     (s', w', res, e) \<Rightarrow> svc_grants s' \<noteq> {} \<and> (\<forall>k \<in> svc_grants s'. granted sample_env w' k)"
proof -
  obtain s' w' res e where c: "call sample_env sample_service [] (sample_call ''read'' ''a'') =
      (s', w', res, e)" by (metis prod_cases4)
  have "reachable sample_env sample_service []"
    unfolding sample_service_def
    using reach_prompt [OF reach_new [of sample_env]] by (simp add: set_prompt_def)
  then have "\<forall>k \<in> svc_grants s'. granted sample_env w' k"
    using grants_were_given [OF reach_call [OF _ c]] by blast
  moreover have "svc_grants (fst (call sample_env sample_service [] (sample_call ''read'' ''a'')))
      \<noteq> {}" by code_simp
  ultimately show ?thesis using c by simp
qed

text \<open>
  C24: A call that passes its checks and is refused, by a rule of the policy in any mode, grant or
  not, or by the deny mode when no rule allows it, runs nothing: the state is unchanged, the
  only event is the refusal, and the result is marked denied.
\<close>

theorem refused_call_runs_nothing:
  assumes "prepare_call env s w c = Inr (h, c')"
    and "guard_call s w (call_request env h c') = None"
    and "has_match (env_host env) (pol_rules (svc_policy s)) (call_request env h c') ActionDeny \<or>
      (svc_mode s = ModeDeny \<and>
       dec_action (evaluate (env_host env) (svc_policy s) (call_request env h c')) \<noteq> ActionAllow)"
  shows "\<exists>rs res e. call env s w c = (s, w @ [EvDeny (call_request env h c') rs], res, Some e) \<and>
    res_denied res"
proof (rule call_prepared [OF assms(1,2)])
  from assms(3) have "resn_action (fst (authorize env s w (call_request env h c'))) \<noteq> ActionAllow"
  proof
    assume m: "has_match (env_host env) (pol_rules (svc_policy s)) (call_request env h c') ActionDeny"
    then have "dec_action (evaluate (env_host env) (svc_policy s) (call_request env h c')) = ActionDeny"
      by (simp add: evaluate_action)
    then show ?thesis by (simp add: authorize_allow)
  next
    assume "svc_mode s = ModeDeny \<and>
       dec_action (evaluate (env_host env) (svc_policy s) (call_request env h c')) \<noteq> ActionAllow"
    then show ?thesis by (simp add: authorize_allow allowed_by_mode_def)
  qed
  with authorize_total show "resn_action (fst (authorize env s w (call_request env h c'))) = ActionDeny"
    by blast
qed

theorem refused_call_runs_nothing_witness:
  "let s = sample_service\<lparr>svc_mode := ModeDeny\<rparr> in
   fst (snd (call sample_env s [] (sample_call ''edit'' ''a''))) =
     [EvDeny (call_request sample_env (sample_handler ''edit'' KindEdit) (sample_call ''edit'' ''a''))
        (ReasonText ''deny mode'')]"
proof -
  define s where "s = sample_service\<lparr>svc_mode := ModeDeny\<rparr>"
  let ?h = "sample_handler ''edit'' KindEdit"
  let ?c = "sample_call ''edit'' ''a''"
  have v: "call_validate (env_json_valid sample_env) ?c = None" by code_simp
  have p: "prepare_call sample_env s [] ?c = Inr (?h, ?c)"
    using v by (simp add: prepare_call_def s_def sample_env_def sample_service_def new_service_def
        lookup_handler_def sample_call_def sample_handler_def)
  have g: "guard_call s [] (call_request sample_env ?h ?c) = None"
    by (simp add: guard_call_def s_def sample_service_def new_service_def)
  have d: "svc_mode s = ModeDeny" "svc_policy s = \<lparr>pol_rules = [], pol_default = ActionAsk\<rparr>"
    by (simp_all add: s_def sample_service_def new_service_def)
  have "dec_action (evaluate (env_host sample_env) (svc_policy s) (call_request sample_env ?h ?c)) =
      ActionAsk"
    unfolding d(2) by code_simp
  then obtain rs res e where "call sample_env s [] ?c =
      (s, [] @ [EvDeny (call_request sample_env ?h ?c) rs], res, Some e)"
    using refused_call_runs_nothing [OF p g] d(1) by auto
  moreover have "list_ex (\<lambda>ev. case ev of EvDeny _ q \<Rightarrow> q = ReasonText ''deny mode'' | _ \<Rightarrow> False)
      (fst (snd (call sample_env s [] ?c)))"
    unfolding s_def by code_simp
  ultimately show ?thesis unfolding s_def Let_def by simp
qed

text \<open>
  A restarted pagination is not permitted again: after one permission for the arguments of
  the call, the reading tool runs with other arguments, which the policy would have denied.
\<close>

theorem restart_not_permitted_again:
  "let s = sample_service\<lparr>svc_policy := \<lparr>pol_rules = [\<lparr>rule_action = ActionDeny,
             rule_tool = KindRead, rule_pattern = ''fresh'', rule_mode = PatternModeGlob\<rparr>],
             pol_default = ActionAllow\<rparr>\<rparr>;
       direct = call sample_env s [] (sample_call ''read'' ''fresh'');
       restarted = call sample_env s [] (sample_call ''read'' ''stale'')
   in EvRun ''read'' ''fresh'' \<notin> set (fst (snd direct)) \<and>
      EvRun ''read'' ''fresh'' \<in> set (fst (snd restarted)) \<and>
      snd (snd (snd restarted)) = None"
  by code_simp

end
