(* ===== verification/Agent_Lifecycle.thy ===== *)
theory Agent_Lifecycle
  imports Go_Prelude
begin

text \<open>
  The lifecycle of a delegated agent: \<open>internal/feature/agent/transition.go\<close>,
  \<open>domain_event.go\<close>, and the states, profiles and request checks of \<open>agent.go\<close> and
  \<open>internal/core/agentprofile\<close>. A status is derived from a log of versioned events. Times are
  natural numbers, 0 the zero time. The fields that say who an agent is and what it was asked
  (ten of them) are one record here, \<open>agent_identity\<close>, in the status and in the event; the
  pointer of an event to the result is not modelled.
\<close>

subsection \<open>States, profiles, requests\<close>

datatype profile = ProfileUniversal | ProfileStrength | ProfileAgility | ProfileIntelligence
  | ProfileOther string

definition is_subagent :: "profile \<Rightarrow> bool" where
  "is_subagent p = (p = ProfileStrength \<or> p = ProfileAgility \<or> p = ProfileIntelligence)"

text \<open>\<open>StateUnset\<close> is the zero value of a status that no event has reached.\<close>

datatype state = StateUnset | StateQueued | StateRunning | StateCanceling | StateCompleted
  | StateFailed | StateCanceled | StateInterrupted | StateResuming | StateResumed
  | StateOther string

definition terminal :: "state \<Rightarrow> bool" where
  "terminal s = (s = StateCompleted \<or> s = StateFailed \<or> s = StateCanceled \<or>
     s = StateInterrupted \<or> s = StateResumed)"

record agent_request =
  ar_session :: string
  ar_id :: string
  ar_parent :: string
  ar_profile :: profile
  ar_task :: string
  ar_task_id :: string
  ar_context :: string
  ar_depends :: "string list"
  ar_optional :: bool
  ar_timeout :: int
  ar_queue_timeout :: int
  ar_resumed_from :: string

datatype request_error = BadProfile profile | TaskRequired | NegativeTimeout
  | NegativeQueueTimeout | TooManyDependencies

definition max_agent_dependencies :: nat where
  "max_agent_dependencies = 64"

definition request_validate :: "agent_request \<Rightarrow> request_error option" where
  "request_validate r =
     (if \<not> is_subagent (ar_profile r) then Some (BadProfile (ar_profile r))
      else if trim_space (ar_task r) = [] then Some TaskRequired
      else if ar_timeout r < 0 then Some NegativeTimeout
      else if ar_queue_timeout r < 0 then Some NegativeQueueTimeout
      else if max_agent_dependencies < length (ar_depends r) then Some TooManyDependencies
      else None)"

subsection \<open>Transitions\<close>

definition valid_state_transition :: "state \<Rightarrow> state \<Rightarrow> bool" where
  "valid_state_transition a b =
     (if a = b then True
      else case a of
          StateQueued \<Rightarrow> b = StateRunning \<or> b = StateCanceling \<or> b = StateCanceled \<or>
            b = StateFailed \<or> b = StateInterrupted
        | StateRunning \<Rightarrow> b = StateCanceling \<or> b = StateCompleted \<or> b = StateFailed \<or>
            b = StateCanceled \<or> b = StateInterrupted
        | StateCanceling \<Rightarrow> b = StateCompleted \<or> b = StateFailed \<or> b = StateCanceled \<or>
            b = StateInterrupted
        | StateInterrupted \<Rightarrow> b = StateResuming
        | StateResuming \<Rightarrow> b = StateResumed \<or> b = StateInterrupted
        | _ \<Rightarrow> False)"

record agent_identity =
  id_session :: string
  id_agent :: string
  id_parent :: string
  id_profile :: profile
  id_provider :: string
  id_model :: string
  id_task :: string
  id_task_id :: string
  id_depends :: "string list"
  id_optional :: bool

record agent_status =
  st_identity :: agent_identity
  st_state :: state
  st_version :: u64
  st_start_time :: nat
  st_started_at :: nat
  st_finished_at :: nat
  st_reason :: string
  st_resumed_from :: string
  st_resumed_as :: string

definition empty_identity :: agent_identity where
  "empty_identity = \<lparr>id_session = [], id_agent = [], id_parent = [],
     id_profile = ProfileOther [], id_provider = [], id_model = [], id_task = [],
     id_task_id = [], id_depends = [], id_optional = False\<rparr>"

definition empty_status :: agent_status where
  "empty_status = \<lparr>st_identity = empty_identity, st_state = StateUnset, st_version = 0,
     st_start_time = 0, st_started_at = 0, st_finished_at = 0, st_reason = [],
     st_resumed_from = [], st_resumed_as = []\<rparr>"

datatype lifecycle_kind = AgentQueued | AgentStarted | AgentCancelRequested | AgentCompleted
  | AgentFailed | AgentCanceled | AgentInterrupted | AgentResumeRequested | AgentResumed
  | KindUnknown string

record lifecycle_event =
  le_kind :: lifecycle_kind
  le_version :: u64
  le_at :: nat
  le_identity :: agent_identity
  le_reason :: string
  le_resumed_from :: string
  le_resumed_as :: string
  le_request :: "agent_request option"
  le_error :: string

datatype lifecycle_error = BadTransition state state | VersionConflict u64 u64
  | AgentMismatch string string | SessionMismatch string string | UnknownKind string

definition transition_status :: "agent_status \<Rightarrow> state \<Rightarrow> nat \<Rightarrow> string \<Rightarrow>
    (lifecycle_error, agent_status) result" where
  "transition_status s b t reason =
     (if \<not> valid_state_transition (st_state s) b then Inl (BadTransition (st_state s) b)
      else let s = s\<lparr>st_state := b, st_reason := reason\<rparr> in
        if b = StateRunning
        then Inr (if st_started_at s = 0 then s\<lparr>st_started_at := t\<rparr> else s)
        else if b \<in> {StateCompleted, StateFailed, StateCanceled, StateInterrupted, StateResumed}
        then Inr (s\<lparr>st_finished_at := t\<rparr>)
        else Inr s)"

fun target_state :: "lifecycle_kind \<Rightarrow> (lifecycle_error, state) result" where
  "target_state AgentQueued = Inr StateQueued"
| "target_state AgentStarted = Inr StateRunning"
| "target_state AgentCancelRequested = Inr StateCanceling"
| "target_state AgentCompleted = Inr StateCompleted"
| "target_state AgentFailed = Inr StateFailed"
| "target_state AgentCanceled = Inr StateCanceled"
| "target_state AgentInterrupted = Inr StateInterrupted"
| "target_state AgentResumeRequested = Inr StateResuming"
| "target_state AgentResumed = Inr StateResumed"
| "target_state (KindUnknown k) = Inl (UnknownKind k)"

definition next_lifecycle_event :: "agent_status \<Rightarrow> lifecycle_kind \<Rightarrow> nat \<Rightarrow> string \<Rightarrow> lifecycle_event" where
  "next_lifecycle_event s k t reason =
     \<lparr>le_kind = k, le_version = st_version s + 1, le_at = t, le_identity = st_identity s,
      le_reason = reason, le_resumed_from = st_resumed_from s,
      le_resumed_as = st_resumed_as s, le_request = None, le_error = []\<rparr>"

definition apply_lifecycle_event :: "agent_status \<Rightarrow> lifecycle_event \<Rightarrow>
    (lifecycle_error, agent_status) result" where
  "apply_lifecycle_event s e =
     (if le_version e = 0 \<or> le_version e \<noteq> st_version s + 1
      then Inl (VersionConflict (st_version s) (le_version e))
      else if id_agent (st_identity s) \<noteq> [] \<and> id_agent (st_identity s) \<noteq> id_agent (le_identity e)
      then Inl (AgentMismatch (id_agent (st_identity s)) (id_agent (le_identity e)))
      else if id_session (st_identity s) \<noteq> [] \<and>
              id_session (st_identity s) \<noteq> id_session (le_identity e)
      then Inl (SessionMismatch (id_session (st_identity s)) (id_session (le_identity e)))
      else case target_state (le_kind e) of
          Inl err \<Rightarrow> Inl err
        | Inr target \<Rightarrow>
            (case (if st_state s = StateUnset then
                     (if target \<noteq> StateQueued then Inl (BadTransition (st_state s) target)
                      else Inr (empty_status\<lparr>st_identity := le_identity e,
                             st_state := StateQueued, st_start_time := le_at e,
                             st_resumed_from := le_resumed_from e\<rparr>))
                   else transition_status s target (le_at e) (le_reason e)) of
               Inl err \<Rightarrow> Inl err
             | Inr s' \<Rightarrow>
                 Inr (s'\<lparr>st_version := le_version e,
                        st_resumed_from := (if le_resumed_from e \<noteq> [] then le_resumed_from e
                                            else st_resumed_from s'),
                        st_resumed_as := (if le_resumed_as e \<noteq> [] then le_resumed_as e
                                          else st_resumed_as s')\<rparr>)))"

text \<open>Replaying a log from the empty status; the first event that does not apply stops it.\<close>

fun replay :: "agent_status \<Rightarrow> lifecycle_event list \<Rightarrow> (lifecycle_error, agent_status) result" where
  "replay s [] = Inr s"
| "replay s (e # es) =
     (case apply_lifecycle_event s e of Inl err \<Rightarrow> Inl err | Inr s' \<Rightarrow> replay s' es)"

subsection \<open>Lemmas\<close>

text \<open>The states no transition leaves.\<close>

definition final_state :: "state \<Rightarrow> bool" where
  "final_state s = (s \<in> {StateCompleted, StateFailed, StateCanceled, StateResumed})"

lemma final_terminal: "final_state s \<Longrightarrow> terminal s"
  by (auto simp: final_state_def terminal_def)

lemma final_stays: "final_state a \<Longrightarrow> valid_state_transition a b \<Longrightarrow> b = a"
  by (auto simp: final_state_def valid_state_transition_def split: if_splits)

lemma terminal_leaves:
  "terminal a \<Longrightarrow> valid_state_transition a b \<Longrightarrow>
   b = a \<or> (a = StateInterrupted \<and> b = StateResuming)"
  by (auto simp: terminal_def valid_state_transition_def split: if_splits)

lemma transition_status_Inr:
  assumes "transition_status s b t reason = Inr s'"
  shows "st_state s' = b" "st_identity s' = st_identity s" "valid_state_transition (st_state s) b"
    "st_version s' = st_version s" "st_start_time s' = st_start_time s"
    "st_started_at s \<noteq> 0 \<longrightarrow> st_started_at s' = st_started_at s"
  using assms by (auto simp: transition_status_def Let_def split: if_splits)

lemma apply_lifecycle_Inr:
  assumes "apply_lifecycle_event s e = Inr s'"
  shows "le_version e = st_version s + 1" "le_version e \<noteq> 0" "st_version s' = le_version e"
    "target_state (le_kind e) = Inr (st_state s')"
    "st_state s = StateUnset \<longrightarrow> st_state s' = StateQueued \<and> st_identity s' = le_identity e"
    "st_state s \<noteq> StateUnset \<longrightarrow>
       valid_state_transition (st_state s) (st_state s') \<and> st_identity s' = st_identity s \<and>
       st_start_time s' = st_start_time s"
proof -
  show "le_version e = st_version s + 1" "le_version e \<noteq> 0" "st_version s' = le_version e"
    using assms by (auto simp: apply_lifecycle_event_def split: if_splits sum.splits)
  from assms obtain target where t: "target_state (le_kind e) = Inr target"
    by (auto simp: apply_lifecycle_event_def split: if_splits sum.splits)
  have st: "st_state s' = target \<and>
      (st_state s = StateUnset \<longrightarrow> target = StateQueued \<and> st_identity s' = le_identity e) \<and>
      (st_state s \<noteq> StateUnset \<longrightarrow> valid_state_transition (st_state s) target \<and>
         st_identity s' = st_identity s \<and> st_start_time s' = st_start_time s)"
    using assms t
    by (auto simp: apply_lifecycle_event_def split: if_splits sum.splits
        dest: transition_status_Inr)
  with t show "target_state (le_kind e) = Inr (st_state s')"
    "st_state s = StateUnset \<longrightarrow> st_state s' = StateQueued \<and> st_identity s' = le_identity e"
    "st_state s \<noteq> StateUnset \<longrightarrow>
       valid_state_transition (st_state s) (st_state s') \<and> st_identity s' = st_identity s \<and>
       st_start_time s' = st_start_time s"
    by auto
qed

lemma target_not_unset: "target_state k = Inr s \<Longrightarrow> s \<noteq> StateUnset"
  by (cases k) auto

lemma apply_set: "apply_lifecycle_event s e = Inr s' \<Longrightarrow> st_state s' \<noteq> StateUnset"
  using apply_lifecycle_Inr(4) target_not_unset by blast

text \<open>The event \<open>nextLifecycleEvent\<close> builds applies when the transition is valid.\<close>

lemma apply_next:
  assumes "target_state k = Inr b" "st_state s \<noteq> StateUnset"
    "valid_state_transition (st_state s) b" "st_version s + 1 \<noteq> 0"
  shows "\<exists>s'. apply_lifecycle_event s (next_lifecycle_event s k t reason) = Inr s' \<and>
    st_state s' = b \<and> st_identity s' = st_identity s"
  using assms
  by (auto simp: apply_lifecycle_event_def next_lifecycle_event_def transition_status_def Let_def)

lemma replay_append:
  "replay s (xs @ ys) = (case replay s xs of Inl e \<Rightarrow> Inl e | Inr s' \<Rightarrow> replay s' ys)"
  by (induction xs arbitrary: s) (auto split: sum.split)

lemma replay_version:
  "replay s es = Inr s' \<Longrightarrow> st_version s' = st_version s + of_nat (length es) \<and>
     list_all (\<lambda>e. le_version e \<noteq> 0) es \<and>
     map le_version es = map (\<lambda>k. st_version s + of_nat (Suc k)) [0 ..< length es]"
proof (induction es arbitrary: s' rule: rev_induct)
  case Nil
  then show ?case by simp
next
  case (snoc e es)
  then obtain s1 where s1: "replay s es = Inr s1" "apply_lifecycle_event s1 e = Inr s'"
    by (auto simp: replay_append split: sum.splits)
  note a = apply_lifecycle_Inr(1-3) [OF s1(2)]
  from snoc.IH [OF s1(1)] a show ?case by (simp add: add.assoc)
qed

lemma replay_identity:
  "replay s es = Inr s' \<Longrightarrow> st_state s \<noteq> StateUnset \<Longrightarrow>
   st_identity s' = st_identity s \<and> st_state s' \<noteq> StateUnset \<and>
   (final_state (st_state s) \<longrightarrow> st_state s' = st_state s)"
proof (induction es arbitrary: s)
  case Nil
  then show ?case by simp
next
  case (Cons e es)
  then obtain s1 where s1: "apply_lifecycle_event s e = Inr s1" "replay s1 es = Inr s'"
    by (auto split: sum.splits)
  note a = apply_lifecycle_Inr [OF s1(1)]
  from Cons.IH [OF s1(2) apply_set [OF s1(1)]] a(6) Cons.prems(2) final_stays show ?case by metis
qed

lemma of_nat_top: "Suc m = 2 ^ 64 \<Longrightarrow> (of_nat (Suc m) :: u64) = 0"
  by (simp only: word_of_nat_eq_0_iff) simp

lemma replay_bounded:
  assumes "replay empty_status es = Inr s"
  shows "length es < 2 ^ 64"
proof (rule ccontr)
  assume "\<not> length es < 2 ^ 64"
  moreover have "(2::nat) ^ 64 \<noteq> 0" by (rule power_not_zero) (rule zero_neq_numeral [symmetric])
  then obtain m :: nat where m: "2 ^ 64 = Suc m" using not0_implies_Suc by blast
  ultimately have len: "m < length es" unfolding m by (simp only: not_less Suc_le_eq)
  have v: "list_all (\<lambda>e. le_version e \<noteq> 0) es"
    "map le_version es = map (\<lambda>k. of_nat (Suc k)) [0 ..< length es]"
    using replay_version [OF assms] by (simp_all add: empty_status_def)
  have "le_version (es ! m) = map le_version es ! m" using len by simp
  also have "\<dots> = of_nat (Suc m)" unfolding v(2) using len by (simp del: of_nat_Suc)
  finally have "le_version (es ! m) = 0" using of_nat_top [OF m [symmetric]] by (simp only:)
  moreover have "le_version (es ! m) \<noteq> 0" using v(1) len unfolding list_all_length by blast
  ultimately show False by blast
qed

lemma replay_first:
  assumes "replay empty_status es = Inr s" "es \<noteq> []"
  shows "le_kind (hd es) = AgentQueued \<and> st_identity s = le_identity (hd es)"
proof -
  obtain e rest where es: "es = e # rest" using assms(2) by (cases es) auto
  with assms(1) obtain s1 where s1: "apply_lifecycle_event empty_status e = Inr s1"
      "replay s1 rest = Inr s" by (auto split: sum.splits)
  have "st_state empty_status = StateUnset" by (simp add: empty_status_def)
  with apply_lifecycle_Inr [OF s1(1)] have q: "st_state s1 = StateQueued"
    "st_identity s1 = le_identity e" "target_state (le_kind e) = Inr StateQueued" by auto
  have "le_kind e = AgentQueued" using q(3) by (cases "le_kind e") auto
  moreover have "st_identity s = st_identity s1" using replay_identity [OF s1(2)] q(1) by simp
  ultimately show ?thesis using es q(2) by simp
qed

subsection \<open>Properties\<close>


definition sample_identity :: agent_identity where
  "sample_identity = \<lparr>id_session = ''s'', id_agent = ''agility-1'', id_parent = ''t'',
     id_profile = ProfileAgility, id_provider = [], id_model = [], id_task = ''look'',
     id_task_id = [], id_depends = [], id_optional = False\<rparr>"

definition sample_event :: "u64 \<Rightarrow> lifecycle_kind \<Rightarrow> lifecycle_event" where
  "sample_event v k = \<lparr>le_kind = k, le_version = v, le_at = unat v, le_identity = sample_identity,
     le_reason = [], le_resumed_from = [], le_resumed_as = [], le_request = None, le_error = []\<rparr>"

definition sample_log :: "lifecycle_event list" where
  "sample_log = [sample_event 1 AgentQueued, sample_event 2 AgentStarted,
     sample_event 3 AgentCancelRequested, sample_event 4 AgentCompleted]"

definition sample_status :: agent_status where
  "sample_status = empty_status\<lparr>st_identity := sample_identity, st_state := StateCompleted,
     st_version := 4, st_start_time := 1, st_started_at := 2, st_finished_at := 4\<rparr>"

lemma sample_replay: "replay empty_status sample_log = Inr sample_status"
  by code_simp


text \<open>
  Terminal states hold. Whatever events follow, a completed, failed, canceled or resumed
  agent stays in that state, and an interrupted one can only start resuming; the identity never
  changes.
\<close>

theorem final_states_hold:
  assumes "replay s es = Inr s'" and "terminal (st_state s)"
  shows "st_identity s' = st_identity s \<and>
    (st_state s \<noteq> StateInterrupted \<longrightarrow> st_state s' = st_state s) \<and>
    (case es of [e] \<Rightarrow> st_state s' = st_state s \<or>
        (st_state s = StateInterrupted \<and> st_state s' = StateResuming) | _ \<Rightarrow> True)"
proof -
  have "st_state s \<noteq> StateUnset" using assms(2) by (auto simp: terminal_def)
  note r = replay_identity [OF assms(1) this]
  have "st_state s' = st_state s \<or> (st_state s = StateInterrupted \<and> st_state s' = StateResuming)"
    if "es = [e]" for e
  proof -
    from assms(1) that have "apply_lifecycle_event s e = Inr s'" by (auto split: sum.splits)
    then show ?thesis
      using apply_lifecycle_Inr(6) \<open>st_state s \<noteq> StateUnset\<close> terminal_leaves [OF assms(2)] by blast
  qed
  then show ?thesis
    using r assms(2) by (auto simp: terminal_def final_state_def split: list.split)
qed

theorem final_states_hold_witness:
  "case replay sample_status [sample_event 5 AgentCompleted] of
     Inl _ \<Rightarrow> False | Inr s' \<Rightarrow> st_state s' = StateCompleted \<and> st_finished_at s' = 5"
proof -
  let ?s = "sample_status\<lparr>st_version := 5, st_finished_at := 5\<rparr>"
  have r: "replay sample_status [sample_event 5 AgentCompleted] = Inr ?s" by code_simp
  have "terminal (st_state sample_status)" "st_state sample_status \<noteq> StateInterrupted"
    by code_simp+
  with final_states_hold [OF r] have "st_state ?s = st_state sample_status" by blast
  moreover have "st_state sample_status = StateCompleted" by (simp add: sample_status_def)
  ultimately show ?thesis using r by simp
qed

text \<open>
  A log replays only whole and in order: an event that was applied is refused when it comes
  again, and a log from which an event in the middle is missing is refused.
\<close>

theorem replay_no_gap:
  assumes "replay s (xs @ e # ys) = Inr s'"
  shows "(\<exists>err. replay s (xs @ e # e # ys) = Inl err) \<and>
    (ys \<noteq> [] \<longrightarrow> (\<exists>err. replay s (xs @ ys) = Inl err))"
proof -
  from assms obtain s1 s2 where s1: "replay s xs = Inr s1" "apply_lifecycle_event s1 e = Inr s2"
      "replay s2 ys = Inr s'"
    by (auto simp: replay_append split: sum.splits)
  note v = apply_lifecycle_Inr(1,3) [OF s1(2)]
  have "le_version e \<noteq> st_version s2 + 1" using v by simp
  then have "apply_lifecycle_event s2 e = Inl (VersionConflict (st_version s2) (le_version e))"
    by (simp add: apply_lifecycle_event_def)
  then have "\<exists>err. replay s (xs @ e # e # ys) = Inl err" using s1 by (simp add: replay_append)
  moreover have "\<exists>err. replay s (xs @ ys) = Inl err" if "ys \<noteq> []"
  proof -
    obtain y zs where ys: "ys = y # zs" using \<open>ys \<noteq> []\<close> by (cases ys) auto
    with s1(3) obtain s3 where "apply_lifecycle_event s2 y = Inr s3" by (auto split: sum.splits)
    then have "le_version y = st_version s2 + 1" using apply_lifecycle_Inr(1) by blast
    then have "le_version y \<noteq> st_version s1 + 1" using v by simp
    then have "\<exists>err. apply_lifecycle_event s1 y = Inl err" by (simp add: apply_lifecycle_event_def)
    then show ?thesis using s1(1) ys by (auto simp: replay_append)
  qed
  ultimately show ?thesis by blast
qed

theorem replay_no_gap_witness:
  "\<exists>err. replay empty_status [sample_event 1 AgentQueued, sample_event 3 AgentCancelRequested,
     sample_event 4 AgentCompleted] = Inl err"
  using replay_no_gap [of empty_status "[sample_event 1 AgentQueued]" "sample_event 2 AgentStarted"
      "[sample_event 3 AgentCancelRequested, sample_event 4 AgentCompleted]" sample_status]
    sample_replay
  by (simp add: sample_log_def)

end
