(* ===== verification/Agent_Coordinator.thy ===== *)
theory Agent_Coordinator
  imports Agent_Lifecycle "HOL-Library.AList" "HOL-Library.Multiset" "HOL-Library.List_Lexorder"
    "HOL-Library.Product_Lexorder"
begin

text \<open>
  The coordinator's registry of agents: admission and cancellation (\<open>lifecycle.go\<close>), the scoped
  operations (\<open>scope.go\<close>), dependencies (\<open>dependencies.go\<close>), retention and queries
  (\<open>registry.go\<close>), resumption (\<open>resume.go\<close>), recovery (\<open>recovery.go\<close>) and the journal
  (\<open>lifecycle_store.go\<close>). Each operation is what runs under \<open>agentsMu\<close>; an operation that
  takes the lock several times is several functions. The registry is an association list in
  place of Go's map: the order of iteration is a parameter of no result but where an append to
  the journal fails. \<open>ok\<close> says which appends succeed. Results, models and runtimes are not
  modelled.
\<close>

record entry =
  en_status :: agent_status
  en_request :: agent_request
  en_deps :: "string list"
  en_result_version :: u64
  en_canceled :: bool

record coordinator =
  co_agents :: "(string \<times> entry) list"
  co_seq :: u64
  co_max_live :: nat
  co_max_retained :: nat
  co_ttl :: nat
  co_enabled :: bool
  co_closed :: bool
  co_journaled :: bool
  co_journal :: "lifecycle_event list"

type_synonym agents = "(string \<times> entry) list"

datatype coordinator_error = InvalidRequest request_error | SubagentsDisabled
  | CoordinatorClosed | LiveLimit nat | AlreadyExists string | DependencyScope string
  | DependencyNotFound string | DependencyFailed string state | NotFound string
  | NotResumable string state | PersistFailed | SessionRequired
  | LifecycleFailed lifecycle_error

abbreviation en_state :: "entry \<Rightarrow> state" where
  "en_state e \<equiv> st_state (en_status e)"

abbreviation en_identity :: "entry \<Rightarrow> agent_identity" where
  "en_identity e \<equiv> st_identity (en_status e)"

subsection \<open>The journal\<close>

definition persist_event :: "(lifecycle_event \<Rightarrow> bool) \<Rightarrow> coordinator \<Rightarrow> lifecycle_event \<Rightarrow>
    (coordinator_error, coordinator) result" where
  "persist_event ok c e =
     (if \<not> co_journaled c then Inr c
      else if trim_space (id_session (le_identity e)) = [] then Inl SessionRequired
      else if \<not> ok e then Inl PersistFailed
      else Inr (c\<lparr>co_journal := co_journal c @ [e]\<rparr>))"

definition set_status :: "coordinator \<Rightarrow> string \<Rightarrow> agent_status \<Rightarrow> coordinator" where
  "set_status c i s =
     c\<lparr>co_agents := map (\<lambda>(k, e). if k = i then (k, e\<lparr>en_status := s\<rparr>) else (k, e)) (co_agents c)\<rparr>"

text \<open>The event is appended first and applied afterwards.\<close>

definition persist_and_apply :: "(lifecycle_event \<Rightarrow> bool) \<Rightarrow> coordinator \<Rightarrow> string \<Rightarrow> agent_status \<Rightarrow>
    lifecycle_event \<Rightarrow> coordinator \<times> coordinator_error option" where
  "persist_and_apply ok c i s e =
     (case persist_event ok c e of
        Inl err \<Rightarrow> (c, Some err)
      | Inr c1 \<Rightarrow>
          (case apply_lifecycle_event s e of
             Inl err \<Rightarrow> (c1, Some (LifecycleFailed err))
           | Inr s' \<Rightarrow> (set_status c1 i s', None)))"

definition persist_transition :: "(lifecycle_event \<Rightarrow> bool) \<Rightarrow> coordinator \<Rightarrow> string \<Rightarrow> agent_status \<Rightarrow>
    lifecycle_kind \<Rightarrow> nat \<Rightarrow> string \<Rightarrow> coordinator \<times> coordinator_error option" where
  "persist_transition ok c i s k now reason =
     persist_and_apply ok c i s (next_lifecycle_event s k now reason)"

subsection \<open>Retention\<close>

definition expired :: "nat \<Rightarrow> nat \<Rightarrow> entry \<Rightarrow> bool" where
  "expired ttl now e =
     (terminal (en_state e) \<and> st_finished_at (en_status e) \<noteq> 0 \<and>
      ttl \<le> now - st_finished_at (en_status e) \<and> st_finished_at (en_status e) \<le> now)"

text \<open>The order in which retained results are dropped: by end, then by id.\<close>

definition retain_key :: "string \<times> entry \<Rightarrow> nat \<times> nat list" where
  "retain_key p = (st_finished_at (en_status (snd p)), map of_char (fst p))"

definition over_limit :: "nat \<Rightarrow> agents \<Rightarrow> string list" where
  "over_limit n as =
     (let ts = filter (\<lambda>p. terminal (en_state (snd p))) as in
      map fst (take (length ts - n) (sort_key retain_key ts)))"

definition prune_agents :: "nat \<Rightarrow> nat \<Rightarrow> nat \<Rightarrow> agents \<Rightarrow> agents" where
  "prune_agents ttl n now as =
     (let as1 = (if 0 < ttl then filter (\<lambda>p. \<not> expired ttl now (snd p)) as else as) in
      if n = 0 then as1
      else filter (\<lambda>p. fst p \<notin> set (over_limit n as1)) as1)"

definition prune_expired :: "coordinator \<Rightarrow> nat \<Rightarrow> coordinator" where
  "prune_expired c now =
     c\<lparr>co_agents := prune_agents (co_ttl c) (co_max_retained c) now (co_agents c)\<rparr>"

subsection \<open>Admission\<close>

definition is_live :: "entry \<Rightarrow> bool" where
  "is_live e = (\<not> terminal (en_state e))"

definition live_count :: "agents \<Rightarrow> nat" where
  "live_count as = length (filter (\<lambda>p. is_live (snd p)) as)"

fun normalize_ids_from :: "string list \<Rightarrow> string list \<Rightarrow> string list" where
  "normalize_ids_from seen [] = []"
| "normalize_ids_from seen (v # vs) =
     (let i = trim_space v in
      if i = [] \<or> i \<in> set seen then normalize_ids_from seen vs
      else i # normalize_ids_from (i # seen) vs)"

definition normalize_dependency_ids :: "string list \<Rightarrow> string list" where
  "normalize_dependency_ids vs = normalize_ids_from [] vs"

fun resolve_deps :: "agents \<Rightarrow> agent_request \<Rightarrow> string list \<Rightarrow> coordinator_error option" where
  "resolve_deps as r [] = None"
| "resolve_deps as r (i # is) =
     (if i = ar_id r then Some (DependencyScope i)
      else case map_of as i of
          None \<Rightarrow> Some (DependencyNotFound i)
        | Some e \<Rightarrow>
            if id_session (en_identity e) \<noteq> ar_session r \<or> id_parent (en_identity e) \<noteq> ar_parent r
            then Some (DependencyScope i)
            else if terminal (en_state e) \<and> en_state e \<noteq> StateCompleted
            then Some (DependencyFailed i (en_state e))
            else resolve_deps as r is)"

fun profile_name :: "profile \<Rightarrow> string" where
  "profile_name ProfileUniversal = ''universal''"
| "profile_name ProfileStrength = ''strength''"
| "profile_name ProfileAgility = ''agility''"
| "profile_name ProfileIntelligence = ''intelligence''"
| "profile_name (ProfileOther n) = n"

text \<open>\<open>fmt.Sprintf("%s-%d", profile, seq)\<close>.\<close>

definition generated_id :: "profile \<Rightarrow> u64 \<Rightarrow> string" where
  "generated_id p n = profile_name p @ ''-'' @ digits_of (unat n)"

definition queued_event :: "agent_request \<Rightarrow> string \<Rightarrow> string \<Rightarrow> string \<Rightarrow> nat \<Rightarrow> lifecycle_event" where
  "queued_event r i provider model now =
     \<lparr>le_kind = AgentQueued, le_version = 1, le_at = now,
      le_identity = \<lparr>id_session = ar_session r, id_agent = i, id_parent = ar_parent r,
        id_profile = ar_profile r, id_provider = provider, id_model = model, id_task = ar_task r,
        id_task_id = ar_task_id r, id_depends = ar_depends r, id_optional = ar_optional r\<rparr>,
      le_reason = [], le_resumed_from = ar_resumed_from r, le_resumed_as = [],
      le_request = Some r, le_error = []\<rparr>"

text \<open>
  \<open>Spawn\<close> up to the release of the lock: the error, or the handle. \<open>provider\<close> and \<open>model\<close> are
  the identity of the model bound to the agent.
\<close>

definition spawn :: "(lifecycle_event \<Rightarrow> bool) \<Rightarrow> coordinator \<Rightarrow> agent_request \<Rightarrow> string \<Rightarrow> string \<Rightarrow> nat \<Rightarrow>
    coordinator \<times> (coordinator_error, string) result" where
  "spawn ok c r0 provider model now =
     (let r = r0\<lparr>ar_session := trim_space (ar_session r0), ar_parent := trim_space (ar_parent r0),
                 ar_depends := normalize_dependency_ids (ar_depends r0)\<rparr> in
      case request_validate r of
        Some e \<Rightarrow> (c, Inl (InvalidRequest e))
      | None \<Rightarrow>
          if \<not> co_enabled c then (c, Inl SubagentsDisabled)
          else if co_closed c then (c, Inl CoordinatorClosed)
          else let c1 = prune_expired c now in
            if 0 < co_max_live c1 \<and> co_max_live c1 \<le> live_count (co_agents c1)
            then (c1, Inl (LiveLimit (co_max_live c1)))
            else let given = trim_space (ar_id r);
                     i = (if given = [] then generated_id (ar_profile r) (co_seq c1 + 1) else given);
                     c2 = (if given = [] then c1\<lparr>co_seq := co_seq c1 + 1\<rparr> else c1);
                     r1 = (if given = [] then r\<lparr>ar_id := i\<rparr> else r)
              in if given \<noteq> [] \<and> map_of (co_agents c2) i \<noteq> None
                 then (c2, Inl (AlreadyExists i))
                 else case resolve_deps (co_agents c2) r1 (ar_depends r1) of
                     Some e \<Rightarrow> (c2, Inl e)
                   | None \<Rightarrow>
                       let e = queued_event r1 i provider model now in
                       (case persist_event ok c2 e of
                          Inl err \<Rightarrow> (c2, Inl err)
                        | Inr c3 \<Rightarrow>
                            (case apply_lifecycle_event empty_status e of
                               Inl err \<Rightarrow> (c3, Inl (LifecycleFailed err))
                             | Inr s \<Rightarrow>
                                 (c3\<lparr>co_agents := AList.update i
                                    \<lparr>en_status = s, en_request = r1, en_deps = ar_depends r1,
                                     en_result_version = 0, en_canceled = False\<rparr>
                                    (co_agents c3)\<rparr>, Inr i))))"

subsection \<open>Running and ending\<close>

text \<open>The critical section of \<open>runEntry\<close> that starts the agent; \<open>done\<close> is its context's end.\<close>

definition start_agent :: "(lifecycle_event \<Rightarrow> bool) \<Rightarrow> coordinator \<Rightarrow> string \<Rightarrow> bool \<Rightarrow> nat \<Rightarrow>
    coordinator \<times> bool" where
  "start_agent ok c i finished now =
     (case map_of (co_agents c) i of
        None \<Rightarrow> (c, False)
      | Some e \<Rightarrow>
          if en_state e = StateCanceling \<or> finished then (c, False)
          else (case persist_transition ok c i (en_status e) AgentStarted now [] of
              (c', err) \<Rightarrow> (c', err = None)))"

datatype run_end = RunOk | RunCanceled | RunFailed string

definition end_kind :: "run_end \<Rightarrow> lifecycle_kind" where
  "end_kind x = (case x of RunOk \<Rightarrow> AgentCompleted | RunCanceled \<Rightarrow> AgentCanceled
     | RunFailed _ \<Rightarrow> AgentFailed)"

definition end_reason :: "run_end \<Rightarrow> string" where
  "end_reason x = (case x of RunOk \<Rightarrow> [] | RunCanceled \<Rightarrow> ''canceled'' | RunFailed m \<Rightarrow> m)"

definition store_terminal :: "(lifecycle_event \<Rightarrow> bool) \<Rightarrow> coordinator \<Rightarrow> string \<Rightarrow> run_end \<Rightarrow> nat \<Rightarrow>
    coordinator \<times> coordinator_error option" where
  "store_terminal ok c i x now =
     (case map_of (co_agents c) i of
        None \<Rightarrow> (c, Some (NotFound i))
      | Some e \<Rightarrow>
          let ev = (next_lifecycle_event (en_status e) (end_kind x) now (end_reason x))
                     \<lparr>le_error := end_reason x\<rparr> in
          (case persist_and_apply ok c i (en_status e) ev of
             (c', Some err) \<Rightarrow> (c', Some err)
           | (c', None) \<Rightarrow>
               (c'\<lparr>co_agents := map (\<lambda>(k, e). if k = i then (k, e\<lparr>en_result_version := le_version ev\<rparr>)
                                             else (k, e)) (co_agents c')\<rparr>, None)))"

subsection \<open>Cancellation\<close>

definition mark_canceled :: "coordinator \<Rightarrow> string \<Rightarrow> coordinator" where
  "mark_canceled c i =
     c\<lparr>co_agents := map (\<lambda>(k, e). if k = i then (k, e\<lparr>en_canceled := True\<rparr>) else (k, e))
         (co_agents c)\<rparr>"

definition cancel :: "(lifecycle_event \<Rightarrow> bool) \<Rightarrow> coordinator \<Rightarrow> string \<Rightarrow> nat \<Rightarrow>
    coordinator \<times> coordinator_error option" where
  "cancel ok c i0 now =
     (let i = trim_space i0 in
      case map_of (co_agents c) i of
        None \<Rightarrow> (c, Some (NotFound i0))
      | Some e \<Rightarrow>
          if terminal (en_state e) then (c, None)
          else (case persist_transition ok c i (en_status e) AgentCancelRequested now
                       ''cancel requested'' of
              (c', Some err) \<Rightarrow> (c', Some err)
            | (c', None) \<Rightarrow> (mark_canceled c' i, None)))"

definition cancel_ref :: "(lifecycle_event \<Rightarrow> bool) \<Rightarrow> coordinator \<Rightarrow> string \<Rightarrow> string \<Rightarrow> nat \<Rightarrow>
    coordinator \<times> coordinator_error option" where
  "cancel_ref ok c session i0 now =
     (let i = trim_space i0 in
      case map_of (co_agents c) i of
        None \<Rightarrow> (c, Some (NotFound i))
      | Some e \<Rightarrow>
          if id_session (en_identity e) \<noteq> trim_space session then (c, Some (NotFound i))
          else cancel ok c i now)"

text \<open>
  The loop shared by the cancellations of a group: the entries still to visit, the number of
  requests issued. An agent that is terminal or being canceled is skipped, and so is one whose
  transition fails.
\<close>

fun cancel_loop :: "(lifecycle_event \<Rightarrow> bool) \<Rightarrow> (agent_identity \<Rightarrow> bool) \<Rightarrow> string \<Rightarrow> nat \<Rightarrow>
    agents \<Rightarrow> coordinator \<Rightarrow> nat \<Rightarrow> coordinator \<times> nat" where
  "cancel_loop ok mine reason now [] c n = (c, n)"
| "cancel_loop ok mine reason now ((i, e) # es) c n =
     (if \<not> mine (en_identity e) \<or> terminal (en_state e) \<or> en_state e = StateCanceling
      then cancel_loop ok mine reason now es c n
      else (case persist_transition ok c i (en_status e) AgentCancelRequested now reason of
          (c', Some _) \<Rightarrow> cancel_loop ok mine reason now es c' n
        | (c', None) \<Rightarrow> cancel_loop ok mine reason now es (mark_canceled c' i) (Suc n)))"

definition cancel_by_parent :: "(lifecycle_event \<Rightarrow> bool) \<Rightarrow> coordinator \<Rightarrow> string \<Rightarrow> nat \<Rightarrow>
    coordinator \<times> nat" where
  "cancel_by_parent ok c parent0 now =
     (let parent = trim_space parent0 in
      if parent = [] then (c, 0)
      else cancel_loop ok (\<lambda>d. id_parent d = parent) ''cancel requested'' now (co_agents c) c 0)"

definition cancel_by_turn :: "(lifecycle_event \<Rightarrow> bool) \<Rightarrow> coordinator \<Rightarrow> string \<Rightarrow> string \<Rightarrow> nat \<Rightarrow>
    coordinator \<times> nat" where
  "cancel_by_turn ok c session turn now =
     (if trim_space turn = [] then (c, 0)
      else cancel_loop ok (\<lambda>d. id_session d = trim_space session \<and> id_parent d = trim_space turn)
             ''cancel requested'' now (co_agents c) c 0)"

definition cancel_optional_by_turn :: "(lifecycle_event \<Rightarrow> bool) \<Rightarrow> coordinator \<Rightarrow> string \<Rightarrow> string \<Rightarrow> nat \<Rightarrow>
    coordinator \<times> nat" where
  "cancel_optional_by_turn ok c session turn now =
     (if trim_space turn = [] then (c, 0)
      else cancel_loop ok (\<lambda>d. id_session d = trim_space session \<and> id_parent d = trim_space turn \<and>
               id_optional d)
             ''optional child no longer needed after parent completion'' now (co_agents c) c 0)"

definition cancel_turn :: "(lifecycle_event \<Rightarrow> bool) \<Rightarrow> coordinator \<Rightarrow> string \<Rightarrow> string \<Rightarrow> bool \<Rightarrow> nat \<Rightarrow>
    coordinator \<times> nat" where
  "cancel_turn ok c session turn and_children now =
     (if \<not> and_children then (c, 0) else cancel_by_turn ok c session turn now)"

subsection \<open>Resumption\<close>

text \<open>The first lock of \<open>Resume\<close>: the child of an earlier resumption, or the request to resume.\<close>

definition resume_begin :: "(lifecycle_event \<Rightarrow> bool) \<Rightarrow> coordinator \<Rightarrow> string \<Rightarrow> nat \<Rightarrow>
    coordinator \<times> (coordinator_error, string + agent_request) result" where
  "resume_begin ok c i now =
     (case map_of (co_agents c) i of
        None \<Rightarrow> (c, Inl (NotFound i))
      | Some e \<Rightarrow>
          if en_state e = StateResumed \<and> st_resumed_as (en_status e) \<noteq> [] then
            (case map_of (co_agents c) (trim_space (st_resumed_as (en_status e))) of
               None \<Rightarrow> (c, Inl (NotFound (st_resumed_as (en_status e))))
             | Some child \<Rightarrow> (c, Inr (Inl (id_agent (en_identity child)))))
          else if en_state e \<noteq> StateInterrupted then (c, Inl (NotResumable i (en_state e)))
          else (case persist_transition ok c i (en_status e) AgentResumeRequested now
                       ''resume requested'' of
              (c', Some err) \<Rightarrow> (c', Inl err)
            | (c', None) \<Rightarrow> (c', Inr (Inr (en_request e)))))"

definition rollback_resume :: "(lifecycle_event \<Rightarrow> bool) \<Rightarrow> coordinator \<Rightarrow> string \<Rightarrow> nat \<Rightarrow> coordinator" where
  "rollback_resume ok c i now =
     (case map_of (co_agents c) i of
        None \<Rightarrow> c
      | Some e \<Rightarrow>
          if en_state e \<noteq> StateResuming then c
          else fst (persist_transition ok c i (en_status e) AgentInterrupted now
                 ''resume admission failed''))"

definition resume_safety_context :: string where
  "resume_safety_context = ''This delegated task is resuming after a prior process interruption. The previous run may have partially changed workspace state. Re-inspect current state before making changes and do not assume earlier steps either succeeded or failed.''"

definition resume_request :: "agent_request \<Rightarrow> string \<Rightarrow> string \<Rightarrow> agent_request" where
  "resume_request r i parent =
     r\<lparr>ar_id := [], ar_parent := parent, ar_depends := [], ar_resumed_from := i,
       ar_context := (if trim_space (ar_context r) = [] then resume_safety_context
         else resume_safety_context @ [CHR 0x0A, CHR 0x0A] @ ''Previous task context:'' @
              [CHR 0x0A] @ ar_context r)\<rparr>"

definition resume_finish :: "(lifecycle_event \<Rightarrow> bool) \<Rightarrow> coordinator \<Rightarrow> string \<Rightarrow> string \<Rightarrow> nat \<Rightarrow>
    coordinator \<times> (coordinator_error, string) result" where
  "resume_finish ok c i child now =
     (case map_of (co_agents c) i of
        None \<Rightarrow> (fst (cancel ok c child now), Inl (NotFound i))
      | Some e \<Rightarrow>
          (case persist_and_apply ok c i (en_status e)
                  ((next_lifecycle_event (en_status e) AgentResumed now (''resumed as '' @ child))
                    \<lparr>le_resumed_as := child\<rparr>) of
             (c', Some err) \<Rightarrow> (fst (cancel ok c' child now), Inl err)
           | (c', None) \<Rightarrow> (c', Inr child)))"

text \<open>\<open>Resume\<close> when nothing else runs between its critical sections.\<close>

definition resume :: "(lifecycle_event \<Rightarrow> bool) \<Rightarrow> coordinator \<Rightarrow> string \<Rightarrow> string \<Rightarrow> string \<Rightarrow> string \<Rightarrow> nat \<Rightarrow>
    coordinator \<times> (coordinator_error, string) result" where
  "resume ok c i0 parent provider model now =
     (let i = trim_space i0 in
      case resume_begin ok c i now of
        (c1, Inl e) \<Rightarrow> (c1, Inl e)
      | (c1, Inr (Inl child)) \<Rightarrow> (c1, Inr child)
      | (c1, Inr (Inr r)) \<Rightarrow>
          (case spawn ok c1 (resume_request r i (trim_space parent)) provider model now of
             (c2, Inl e) \<Rightarrow> (rollback_resume ok c2 i now, Inl e)
           | (c2, Inr child) \<Rightarrow> resume_finish ok c2 i child now))"

subsection \<open>Recovery\<close>

definition raise_sequence :: "u64 \<Rightarrow> string \<Rightarrow> u64" where
  "raise_sequence sq i =
     (let parts = split_char (CHR ''-'') i in
      if length parts < 2 then sq
      else case parse_uint64 (last parts) of
          None \<Rightarrow> sq
        | Some v \<Rightarrow> if v \<le> unat sq then sq else of_nat v)"

definition install_entry :: "coordinator \<Rightarrow> agent_status \<Rightarrow> agent_request \<Rightarrow> coordinator" where
  "install_entry c s r =
     (let i = id_agent (st_identity s) in
      c\<lparr>co_agents := AList.update i \<lparr>en_status = s, en_request = r, en_deps = [],
          en_result_version = 0, en_canceled = False\<rparr> (co_agents c),
        co_seq := raise_sequence (co_seq c) i\<rparr>)"

text \<open>One record of a snapshot, and the request it is installed with.\<close>

definition install_record :: "string \<Rightarrow> coordinator \<Rightarrow> agent_status \<times> agent_request \<Rightarrow> coordinator" where
  "install_record session c rcd =
     (case rcd of (s0, r0) \<Rightarrow>
       if trim_space (id_agent (st_identity s0)) = [] \<or> \<not> is_subagent (id_profile (st_identity s0))
       then c
       else let s1 = (if id_session (st_identity s0) = []
                      then s0\<lparr>st_identity := (st_identity s0)\<lparr>id_session := session\<rparr>\<rparr> else s0) in
         if id_session (st_identity s1) \<noteq> session then c
         else let s2 = (if st_version s1 = 0 then s1\<lparr>st_version := 1\<rparr> else s1);
                  d = st_identity s2;
                  r = r0\<lparr>ar_session := session, ar_id := id_agent d, ar_parent := id_parent d,
                         ar_profile := id_profile d, ar_task := id_task d\<rparr>;
                  s3 = s2\<lparr>st_identity := d\<lparr>id_depends := ar_depends r\<rparr>\<rparr>
              in install_entry c s3 r)"

definition request_of_event :: "lifecycle_event \<Rightarrow> agent_status \<Rightarrow> agent_request" where
  "request_of_event e s =
     (let d = st_identity s in
      case le_request e of
        Some r \<Rightarrow> r\<lparr>ar_session := id_session d, ar_id := id_agent d, ar_parent := id_parent d,
                    ar_profile := id_profile d, ar_task := id_task d, ar_task_id := id_task_id d\<rparr>
      | None \<Rightarrow> \<lparr>ar_session = id_session d, ar_id = id_agent d, ar_parent = id_parent d,
                 ar_profile = id_profile d, ar_task = id_task d, ar_task_id = id_task_id d,
                 ar_context = [], ar_depends = [], ar_optional = id_optional d, ar_timeout = 0,
                 ar_queue_timeout = 0, ar_resumed_from = st_resumed_from s\<rparr>)"

text \<open>One event of the journal; what was replayed before it stays when it fails.\<close>

definition recover_event :: "string \<Rightarrow> coordinator \<Rightarrow> lifecycle_event \<Rightarrow>
    (lifecycle_error, coordinator) result" where
  "recover_event session c e =
     (let i = id_agent (le_identity e) in
      if id_session (le_identity e) \<noteq> session \<or> trim_space i = [] then Inr c
      else case map_of (co_agents c) i of
          None \<Rightarrow>
            (case apply_lifecycle_event empty_status e of
               Inl err \<Rightarrow> Inl err
             | Inr s \<Rightarrow> Inr (install_entry c s (request_of_event e s)))
        | Some en \<Rightarrow>
            if le_version e \<le> st_version (en_status en) then Inr c
            else (case apply_lifecycle_event (en_status en) e of
                Inl err \<Rightarrow> Inl err
              | Inr s \<Rightarrow>
                  Inr (c\<lparr>co_agents := map (\<lambda>(k, x). if k = i
                      then (k, x\<lparr>en_status := s, en_request := (if le_request e = None
                             then en_request x else request_of_event e s)\<rparr>)
                      else (k, x)) (co_agents c)\<rparr>)))"

fun recover_events :: "string \<Rightarrow> coordinator \<Rightarrow> lifecycle_event list \<Rightarrow>
    coordinator \<times> lifecycle_error option" where
  "recover_events session c [] = (c, None)"
| "recover_events session c (e # es) =
     (case recover_event session c e of
        Inl err \<Rightarrow> (c, Some err)
      | Inr c' \<Rightarrow> recover_events session c' es)"

text \<open>Every agent of the session without a runtime becomes interrupted.\<close>

fun interrupt_loop :: "(lifecycle_event \<Rightarrow> bool) \<Rightarrow> string \<Rightarrow> nat \<Rightarrow> agents \<Rightarrow> coordinator \<Rightarrow>
    coordinator \<times> coordinator_error option" where
  "interrupt_loop ok session now [] c = (c, None)"
| "interrupt_loop ok session now ((i, e) # es) c =
     (if id_session (en_identity e) \<noteq> session \<or> terminal (en_state e)
      then interrupt_loop ok session now es c
      else (case persist_transition ok c i (en_status e) AgentInterrupted now
                   ''interrupted by previous process exit'' of
          (c', Some err) \<Rightarrow> (c', Some err)
        | (c', None) \<Rightarrow> interrupt_loop ok session now es c'))"

datatype recover_error = RecoverSession | RecoverClosed | RecoverSnapshotVersion
  | RecoverReplay lifecycle_error | RecoverInterrupt coordinator_error

text \<open>\<open>RecoverLifecycle\<close>; a snapshot is its version and its records.\<close>

definition recover_lifecycle :: "(lifecycle_event \<Rightarrow> bool) \<Rightarrow> coordinator \<Rightarrow> string \<Rightarrow>
    (nat \<times> (agent_status \<times> agent_request) list) option \<Rightarrow> lifecycle_event list \<Rightarrow> nat \<Rightarrow>
    coordinator \<times> recover_error option" where
  "recover_lifecycle ok c session0 snapshot events now =
     (let session = trim_space session0 in
      if session = [] then (c, Some RecoverSession)
      else if co_closed c then (c, Some RecoverClosed)
      else if (case snapshot of None \<Rightarrow> False | Some (v, _) \<Rightarrow> v \<noteq> 1)
      then (c, Some RecoverSnapshotVersion)
      else let c1 = (case snapshot of None \<Rightarrow> c
                     | Some (_, rcds) \<Rightarrow> foldl (install_record session) c rcds) in
        (case recover_events session c1 events of
           (c2, Some err) \<Rightarrow> (c2, Some (RecoverReplay err))
         | (c2, None) \<Rightarrow>
             (case interrupt_loop ok session now (co_agents c2) c2 of
                (c3, Some err) \<Rightarrow> (c3, Some (RecoverInterrupt err))
              | (c3, None) \<Rightarrow> (prune_expired c3 now, None))))"

subsection \<open>Queries and switches\<close>

definition get_agent :: "coordinator \<Rightarrow> string \<Rightarrow> nat \<Rightarrow> coordinator \<times> agent_status option" where
  "get_agent c i now =
     (let c1 = prune_expired c now in
      (c1, map_option en_status (map_of (co_agents c1) (trim_space i))))"

definition get_ref :: "coordinator \<Rightarrow> string \<Rightarrow> string \<Rightarrow> nat \<Rightarrow> coordinator \<times> agent_status option" where
  "get_ref c session i now =
     (let c1 = prune_expired c now in
      (c1, case map_of (co_agents c1) (trim_space i) of
         None \<Rightarrow> None
       | Some e \<Rightarrow> if id_session (en_identity e) \<noteq> trim_space session then None
                  else Some (en_status e)))"

definition status_key :: "agent_status \<Rightarrow> nat \<times> nat list" where
  "status_key s = (st_start_time s, map of_char (id_agent (st_identity s)))"

definition list_agents :: "coordinator \<Rightarrow> nat \<Rightarrow> coordinator \<times> agent_status list" where
  "list_agents c now =
     (let c1 = prune_expired c now in
      (c1, sort_key status_key (map (\<lambda>p. en_status (snd p)) (co_agents c1))))"

definition active_agents :: "coordinator \<Rightarrow> nat \<Rightarrow> coordinator \<times> agent_status list" where
  "active_agents c now =
     (let c1 = prune_expired c now in
      (c1, sort_key status_key
        (map (\<lambda>p. en_status (snd p)) (filter (\<lambda>p. is_live (snd p)) (co_agents c1)))))"

definition list_session :: "coordinator \<Rightarrow> string \<Rightarrow> nat \<Rightarrow> coordinator \<times> agent_status list" where
  "list_session c session now =
     (case list_agents c now of
        (c1, all) \<Rightarrow> (c1, filter (\<lambda>s. id_session (st_identity s) = trim_space session) all))"

definition has_live_for_turn :: "coordinator \<Rightarrow> string \<Rightarrow> string \<Rightarrow> bool \<Rightarrow> nat \<Rightarrow> coordinator \<times> bool" where
  "has_live_for_turn c session turn blocking now =
     (let c1 = prune_expired c now; session = trim_space session; turn = trim_space turn in
      (c1, list_ex (\<lambda>p. let d = en_identity (snd p) in
         (session = [] \<or> id_session d = session) \<and> (turn = [] \<or> id_parent d = turn) \<and>
         \<not> (blocking \<and> id_optional d) \<and> is_live (snd p)) (co_agents c1)))"

definition set_enabled :: "coordinator \<Rightarrow> bool \<Rightarrow> coordinator" where
  "set_enabled c b = c\<lparr>co_enabled := b\<rparr>"

text \<open>\<open>Close\<close>, its critical section: no more admissions, every live agent is canceled.\<close>

definition close_coordinator :: "coordinator \<Rightarrow> coordinator" where
  "close_coordinator c =
     c\<lparr>co_closed := True,
       co_agents := map (\<lambda>(k, e). (k, if is_live e then e\<lparr>en_canceled := True\<rparr> else e)) (co_agents c)\<rparr>"

subsection \<open>Lemmas: entries changed in place\<close>

abbreviation at_key :: "string \<Rightarrow> (entry \<Rightarrow> entry) \<Rightarrow> agents \<Rightarrow> agents" where
  "at_key i f as \<equiv> map (\<lambda>(k, e). if k = i then (k, f e) else (k, e)) as"

lemma fst_at_key [simp]: "map fst (at_key i f as) = map fst as"
  by (induction as) auto

lemma map_of_at_key:
  "map_of (at_key i f as) j = (if j = i then map_option f (map_of as i) else map_of as j)"
  by (induction as) auto

lemma at_key_absent: "map_of as i = None \<Longrightarrow> at_key i f as = as"
  by (induction as) (auto split: if_splits)

text \<open>Live, but not an interrupted agent on its way to a new run.\<close>

definition busy :: "entry \<Rightarrow> bool" where
  "busy e = (is_live e \<and> en_state e \<noteq> StateResuming)"

definition busy_count :: "agents \<Rightarrow> nat" where
  "busy_count as = length (filter (\<lambda>p. busy (snd p)) as)"

lemma busy_le_live: "busy_count as \<le> live_count as"
  unfolding busy_count_def live_count_def
  by (induction as) (auto simp: busy_def)

lemma busy_count_at_key:
  "distinct (map fst as) \<Longrightarrow> (\<And>e. map_of as i = Some e \<Longrightarrow> busy (f e) \<Longrightarrow> busy e) \<Longrightarrow>
   busy_count (at_key i f as) \<le> busy_count as"
proof (induction as)
  case Nil
  then show ?case by simp
next
  case (Cons p as)
  obtain k e where p: "p = (k, e)" by (cases p)
  show ?case
  proof (cases "k = i")
    case True
    have "map_of as i = None" using Cons.prems(1) p True by (simp add: map_of_eq_None_iff)
    then have "at_key i f as = as" by (rule at_key_absent)
    with Cons.prems(2) p True show ?thesis by (auto simp: busy_count_def)
  next
    case False
    with Cons p show ?thesis by (simp add: busy_count_def)
  qed
qed

lemma busy_count_filter: "busy_count (filter P as) \<le> busy_count as"
  unfolding busy_count_def by (induction as) auto

lemma busy_count_update: "busy_count (AList.update i e as) \<le> Suc (busy_count as)"
  unfolding busy_count_def by (induction as) auto

lemma busy_transition:
  assumes "valid_state_transition a b" "b \<noteq> StateResuming" "\<not> terminal b"
  shows "\<not> terminal a \<and> a \<noteq> StateResuming"
  using assms by (auto simp: valid_state_transition_def terminal_def split: if_splits state.splits)

lemma busy_apply:
  assumes "apply_lifecycle_event (en_status e) ev = Inr s" "en_state e \<noteq> StateUnset"
    "busy (e\<lparr>en_status := s\<rparr>)"
  shows "busy e"
  using apply_lifecycle_Inr(6) [OF assms(1)] assms(2,3) busy_transition
  by (auto simp: busy_def is_live_def)

subsection \<open>Lemmas: the registry's invariant\<close>

text \<open>
  Keys are unique, every entry has a state, and, when a limit is set, no more agents than the
  limit are busy.
\<close>

definition co_wf :: "coordinator \<Rightarrow> bool" where
  "co_wf c =
     (distinct (map fst (co_agents c)) \<and> (\<forall>p \<in> set (co_agents c). en_state (snd p) \<noteq> StateUnset) \<and>
      (0 < co_max_live c \<longrightarrow> busy_count (co_agents c) \<le> co_max_live c))"

lemma co_wf_agents:
  "co_wf c \<Longrightarrow> co_agents c' = co_agents c \<Longrightarrow> co_max_live c' = co_max_live c \<Longrightarrow> co_wf c'"
  by (simp add: co_wf_def)

lemma co_wf_found: "co_wf c \<Longrightarrow> map_of (co_agents c) i = Some e \<Longrightarrow> en_state e \<noteq> StateUnset"
  unfolding co_wf_def by (metis map_of_SomeD snd_conv)

lemma co_wf_at_key:
  assumes "co_wf c" "co_agents c' = at_key i f (co_agents c)" "co_max_live c' = co_max_live c"
    "\<And>e. map_of (co_agents c) i = Some e \<Longrightarrow> en_state (f e) \<noteq> StateUnset \<and> (busy (f e) \<longrightarrow> busy e)"
  shows "co_wf c'"
proof -
  have d: "distinct (map fst (co_agents c))" using assms(1) by (simp add: co_wf_def)
  have "busy_count (co_agents c') \<le> busy_count (co_agents c)"
    unfolding assms(2) by (rule busy_count_at_key [OF d]) (use assms(4) in blast)
  moreover have "en_state (snd p) \<noteq> StateUnset" if "p \<in> set (co_agents c')" for p
  proof -
    from that obtain k e where ke: "(k, e) \<in> set (co_agents c)" "p = (if k = i then (k, f e) else (k, e))"
      unfolding assms(2) by auto
    then have "map_of (co_agents c) k = Some e" using d by simp
    with ke assms(4) co_wf_found [OF assms(1)] show ?thesis by auto
  qed
  moreover have "distinct (map fst (co_agents c'))"
    unfolding assms(2) using d by (simp only: fst_at_key)
  ultimately show ?thesis
    using assms(1) unfolding co_wf_def assms(3) by (meson le_trans)
qed

lemma persist_event_Inr:
  "persist_event ok c e = Inr c1 \<Longrightarrow>
   co_agents c1 = co_agents c \<and> co_max_live c1 = co_max_live c \<and> co_seq c1 = co_seq c"
  by (auto simp: persist_event_def split: if_splits)

lemma persist_and_apply_cases:
  assumes "persist_and_apply ok c i s e = (c', err)"
  obtains (failed) x where "err = Some x" "co_agents c' = co_agents c" "co_max_live c' = co_max_live c"
  | (applied) s' where "err = None" "apply_lifecycle_event s e = Inr s'"
      "co_agents c' = at_key i (\<lambda>x. x\<lparr>en_status := s'\<rparr>) (co_agents c)"
      "co_max_live c' = co_max_live c"
  using assms
  by (auto simp: persist_and_apply_def set_status_def split: sum.splits dest: persist_event_Inr)

lemma persist_and_apply_wf:
  assumes "co_wf c" "map_of (co_agents c) i = Some e"
    "persist_and_apply ok c i (en_status e) ev = (c', err)"
  shows "co_wf c'"
  using assms(3)
proof (cases rule: persist_and_apply_cases)
  case (failed x)
  with assms(1) show ?thesis by (simp add: co_wf_agents)
next
  case (applied s')
  show ?thesis
  proof (rule co_wf_at_key [OF assms(1) applied(3,4)])
    fix x
    assume "map_of (co_agents c) i = Some x"
    then have x: "x = e" using assms(2) by simp
    show "en_state (x\<lparr>en_status := s'\<rparr>) \<noteq> StateUnset \<and> (busy (x\<lparr>en_status := s'\<rparr>) \<longrightarrow> busy x)"
      using apply_set [OF applied(2)] busy_apply [OF applied(2) co_wf_found [OF assms(1,2)]] x
      by simp
  qed
qed

lemma mark_canceled_wf: "co_wf c \<Longrightarrow> co_wf (mark_canceled c i)"
  by (rule co_wf_at_key [where i = i and f = "\<lambda>e. e\<lparr>en_canceled := True\<rparr>"])
     (auto simp: mark_canceled_def busy_def is_live_def co_wf_found)

lemma prune_wf:
  assumes "co_wf c" shows "co_wf (prune_expired c now)"
proof -
  have f: "\<exists>P. co_agents (prune_expired c now) = filter P (co_agents c)"
    unfolding prune_expired_def prune_agents_def Let_def
    by (auto simp: filter_filter intro: exI [of _ "\<lambda>_. True"])
  then obtain P where P: "co_agents (prune_expired c now) = filter P (co_agents c)" by blast
  have "distinct (map fst (filter P (co_agents c)))"
    using assms distinct_map_filter unfolding co_wf_def by blast
  moreover have "co_max_live (prune_expired c now) = co_max_live c" by (simp add: prune_expired_def)
  ultimately show ?thesis
    using assms busy_count_filter [of P "co_agents c"] unfolding co_wf_def P by auto
qed

lemma prune_max_live [simp]: "co_max_live (prune_expired c now) = co_max_live c"
  by (simp add: prune_expired_def)

lemma set_update_sub: "set (AList.update i en as) \<subseteq> insert (i, en) (set as)"
  by (induction as) auto

text \<open>The request as admission sees it, and the two ways an admission ends.\<close>

definition admitted_request :: "agent_request \<Rightarrow> agent_request" where
  "admitted_request r0 =
     r0\<lparr>ar_session := trim_space (ar_session r0), ar_parent := trim_space (ar_parent r0),
        ar_depends := normalize_dependency_ids (ar_depends r0)\<rparr>"

definition at_limit :: "coordinator \<Rightarrow> bool" where
  "at_limit c = (0 < co_max_live c \<and> co_max_live c \<le> live_count (co_agents c))"

lemma spawn_cases:
  assumes "spawn ok c r0 provider model now = (c', res)"
  obtains (refused) err where "res = Inl err" "co_max_live c' = co_max_live c"
      "co_agents c' = co_agents c \<or> co_agents c' = co_agents (prune_expired c now)"
  | (admitted) i r1 en where "res = Inr i" "co_max_live c' = co_max_live c"
      "r1 = (admitted_request r0)\<lparr>ar_id := ar_id r1\<rparr>"
      "co_agents c' = AList.update i en (co_agents (prune_expired c now))"
      "en_state en = StateQueued" "en_deps en = ar_depends (admitted_request r0)"
      "\<not> at_limit (prune_expired c now)"
      "resolve_deps (co_agents (prune_expired c now)) r1 (ar_depends r1) = None"
      "request_validate (admitted_request r0) = None" "co_enabled c" "\<not> co_closed c"
      "i = ar_id r1 \<or> map_of (co_agents (prune_expired c now)) i = None"
      "en_identity en = le_identity (queued_event r1 i provider model now)"
proof -
  define r where "r = admitted_request r0"
  define c1 where "c1 = prune_expired c now"
  define i where "i = (if trim_space (ar_id r) = [] then generated_id (ar_profile r) (co_seq c1 + 1)
    else trim_space (ar_id r))"
  define c2 where "c2 = (if trim_space (ar_id r) = [] then c1\<lparr>co_seq := co_seq c1 + 1\<rparr> else c1)"
  define r1 where "r1 = (if trim_space (ar_id r) = [] then r\<lparr>ar_id := i\<rparr> else r)"
  define ev where "ev = queued_event r1 i provider model now"
  have c2: "co_agents c2 = co_agents c1" "co_max_live c2 = co_max_live c"
    by (simp_all add: c2_def c1_def)
  have r1: "r1 = r\<lparr>ar_id := ar_id r1\<rparr>" "ar_depends r1 = ar_depends r" by (simp_all add: r1_def)
  note eq = assms [unfolded spawn_def Let_def, folded admitted_request_def, folded r_def,
      folded c1_def, folded i_def, folded c2_def, folded r1_def, folded ev_def]
  note agents = c1_def [symmetric]
  consider (early) err where "c' = c" "res = Inl err"
    | (pruned) err where "res = Inl err" "co_agents c' = co_agents c1" "co_max_live c' = co_max_live c"
    | (go) c3 s where "request_validate r = None" "co_enabled c" "\<not> co_closed c"
        "\<not> at_limit c1" "resolve_deps (co_agents c2) r1 (ar_depends r1) = None"
        "persist_event ok c2 ev = Inr c3" "apply_lifecycle_event empty_status ev = Inr s"
        "i = ar_id r1 \<or> map_of (co_agents c2) i = None"
        "res = Inr i" "c' = c3\<lparr>co_agents := AList.update i \<lparr>en_status = s, en_request = r1,
           en_deps = ar_depends r1, en_result_version = 0, en_canceled = False\<rparr> (co_agents c3)\<rparr>"
  proof -
    let ?dup = "trim_space (ar_id r) \<noteq> [] \<and> map_of (co_agents c2) i \<noteq> None"
    have max1: "co_max_live c1 = co_max_live c" by (simp add: c1_def)
    show thesis
    proof (cases "request_validate r \<noteq> None \<or> \<not> co_enabled c \<or> co_closed c")
      case True
      show ?thesis
      proof (cases "request_validate r")
        case None
        then show ?thesis using eq True by (cases "co_enabled c") (auto intro: early)
      next
        case (Some err)
        with eq show ?thesis by (auto intro: early)
      qed
    next
      case False
      note ok = this
      show ?thesis
      proof (cases "at_limit c1")
        case True
        with eq ok max1 show ?thesis by (auto simp: at_limit_def intro: pruned)
      next
        case False
        note lim = this
        then have eq2: "(if ?dup then (c2, Inl (AlreadyExists i))
            else case resolve_deps (co_agents c2) r1 (ar_depends r1) of
               Some e \<Rightarrow> (c2, Inl e)
             | None \<Rightarrow> (case persist_event ok c2 ev of
                  Inl err \<Rightarrow> (c2, Inl err)
                | Inr c3 \<Rightarrow> (case apply_lifecycle_event empty_status ev of
                     Inl err \<Rightarrow> (c3, Inl (LifecycleFailed err))
                   | Inr s \<Rightarrow> (c3\<lparr>co_agents := AList.update i \<lparr>en_status = s, en_request = r1,
                       en_deps = ar_depends r1, en_result_version = 0, en_canceled = False\<rparr>
                       (co_agents c3)\<rparr>, Inr i)))) = (c', res)"
          using eq ok by (auto simp: at_limit_def)
        show ?thesis
        proof (cases "?dup \<or> resolve_deps (co_agents c2) r1 (ar_depends r1) \<noteq> None")
          case True
          show ?thesis
          proof (cases ?dup)
            case True
            with eq2 c2 show ?thesis by (auto intro: pruned)
          next
            case False
            with True obtain err where "resolve_deps (co_agents c2) r1 (ar_depends r1) = Some err"
              by auto
            with eq2 c2 False show ?thesis by (auto intro: pruned)
          qed
        next
          case False
          note nd = this
          show ?thesis
          proof (cases "persist_event ok c2 ev")
            case (Inl err)
            with eq2 nd c2 show ?thesis by (auto intro: pruned)
          next
            case (Inr c3)
            have "i = ar_id r1 \<or> map_of (co_agents c2) i = None"
              using nd by (auto simp: r1_def)
            with Inr persist_event_Inr [OF Inr] c2 eq2 nd ok lim show ?thesis
              by (cases "apply_lifecycle_event empty_status ev") (auto intro: go pruned)
          qed
        qed
      qed
    qed
  qed
  then show thesis
  proof cases
    case early
    then show ?thesis by (intro refused) simp_all
  next
    case pruned
    then show ?thesis by (intro refused) (simp_all add: c1_def)
  next
    case go
    have s: "st_state s = StateQueued" "st_identity s = le_identity ev"
      using apply_lifecycle_Inr(5) [OF go(7)] by (simp_all add: empty_status_def)
    from persist_event_Inr [OF go(6)] c2 have c3: "co_agents c3 = co_agents c1"
      "co_max_live c3 = co_max_live c" by simp_all
    show ?thesis
      by (rule admitted [where i = i and ?r1.0 = r1 and en = "\<lparr>en_status = s, en_request = r1,
              en_deps = ar_depends r1, en_result_version = 0, en_canceled = False\<rparr>"])
         (use go s c3 r1 c2 in \<open>simp_all add: c1_def r_def ev_def\<close>)
  qed
qed

lemma spawn_wf:
  assumes "co_wf c" "spawn ok c r0 provider model now = (c', res)"
  shows "co_wf c'"
  using assms(2)
proof (cases rule: spawn_cases)
  case (refused err)
  from refused(3) show ?thesis
  proof
    assume "co_agents c' = co_agents c"
    from co_wf_agents [OF assms(1) this refused(2)] show ?thesis .
  next
    assume "co_agents c' = co_agents (prune_expired c now)"
    from co_wf_agents [OF prune_wf [OF assms(1)] this] refused(2) show ?thesis by simp
  qed
next
  case (admitted i r1 en)
  let ?as = "co_agents (prune_expired c now)"
  have wf1: "co_wf (prune_expired c now)" by (rule prune_wf [OF assms(1)])
  have "busy_count (co_agents c') \<le> Suc (busy_count ?as)"
    unfolding admitted(4) by (rule busy_count_update)
  moreover have "0 < co_max_live c \<longrightarrow> Suc (busy_count ?as) \<le> co_max_live c"
    using admitted(7) busy_le_live [of ?as] by (auto simp: at_limit_def)
  moreover have "\<forall>p \<in> set (co_agents c'). en_state (snd p) \<noteq> StateUnset"
    using set_update_sub [of i en ?as] wf1 admitted(5) unfolding admitted(4) co_wf_def by fastforce
  moreover have "distinct (map fst (co_agents c'))"
    unfolding admitted(4) using wf1 by (simp add: co_wf_def distinct_update)
  ultimately show ?thesis unfolding co_wf_def admitted(2) by (meson le_trans)
qed

lemma persist_transition_wf:
  assumes "co_wf c" "map_of (co_agents c) i = Some e"
    "persist_transition ok c i (en_status e) k now reason = (c', err)"
  shows "co_wf c'"
  using persist_and_apply_wf [OF assms(1,2) assms(3) [unfolded persist_transition_def]] .

lemma start_agent_wf: "co_wf c \<Longrightarrow> co_wf (fst (start_agent ok c i fin now))"
  by (auto simp: start_agent_def split: option.splits prod.splits dest: persist_transition_wf)

lemma co_wf_at_result:
  "co_wf c \<Longrightarrow> co_wf (c\<lparr>co_agents := at_key i (\<lambda>e. e\<lparr>en_result_version := v\<rparr>) (co_agents c)\<rparr>)"
  by (rule co_wf_at_key [where i = i and f = "\<lambda>e. e\<lparr>en_result_version := v\<rparr>"])
     (auto simp: busy_def is_live_def co_wf_found)

lemma store_terminal_wf: "co_wf c \<Longrightarrow> co_wf (fst (store_terminal ok c i x now))"
  by (auto simp: store_terminal_def Let_def split: option.splits prod.splits
      dest: persist_and_apply_wf intro: co_wf_at_result)

lemma cancel_wf: "co_wf c \<Longrightarrow> co_wf (fst (cancel ok c i now))"
  by (auto simp: cancel_def Let_def split: option.splits prod.splits
      dest: persist_transition_wf intro: mark_canceled_wf)

lemma cancel_ref_wf: "co_wf c \<Longrightarrow> co_wf (fst (cancel_ref ok c s i now))"
  by (auto simp: cancel_ref_def Let_def cancel_wf split: option.splits)

subsection \<open>Lemmas: cancelling a group\<close>

text \<open>What one request of cancellation leaves of the registry.\<close>

lemma persist_transition_frame:
  assumes "persist_transition ok c i s k now reason = (c', err)" "j \<noteq> i"
  shows "map_of (co_agents c') j = map_of (co_agents c) j"
  using assms(1)[unfolded persist_transition_def]
  by (cases rule: persist_and_apply_cases) (use assms(2) in \<open>auto simp: map_of_at_key\<close>)

lemma map_of_mark_canceled:
  "map_of (co_agents (mark_canceled c i)) j =
   (if j = i then map_option (\<lambda>e. e\<lparr>en_canceled := True\<rparr>) (map_of (co_agents c) i)
    else map_of (co_agents c) j)"
  by (simp add: mark_canceled_def map_of_at_key)

lemma cancel_request_done:
  assumes "persist_transition ok c i (en_status e) AgentCancelRequested now reason = (c', None)"
    "map_of (co_agents c) i = Some e" "en_state e \<noteq> StateUnset"
  shows "\<exists>e'. map_of (co_agents (mark_canceled c' i)) i = Some e' \<and> en_state e' = StateCanceling \<and>
    en_canceled e' \<and> en_identity e' = en_identity e"
  using assms(1)[unfolded persist_transition_def]
proof (cases rule: persist_and_apply_cases)
  case (applied s')
  have "st_state s' = StateCanceling" "st_identity s' = en_identity e"
    using apply_lifecycle_Inr(4,6) [OF applied(2)] assms(3)
    by (auto simp: next_lifecycle_event_def)
  with applied(3) assms(2) show ?thesis by (simp add: map_of_mark_canceled map_of_at_key)
qed simp

lemma cancel_request_undone:
  assumes "persist_transition ok c i s k now reason = (c', Some x)"
  shows "co_agents c' = co_agents c"
  using assms[unfolded persist_transition_def]
  by (cases rule: persist_and_apply_cases) auto

definition cancelable :: "(agent_identity \<Rightarrow> bool) \<Rightarrow> entry \<Rightarrow> bool" where
  "cancelable mine e = (mine (en_identity e) \<and> is_live e \<and> en_state e \<noteq> StateCanceling)"

text \<open>One round of the loop: skipped, refused by the journal or the transition, or canceled.\<close>

lemma cancel_loop_Cons:
  assumes "cancel_loop ok mine reason now ((i, e) # es) c n = res"
  obtains (skipped) "\<not> cancelable mine e" "cancel_loop ok mine reason now es c n = res"
  | (refused) c1 x where "cancelable mine e" "co_agents c1 = co_agents c"
      "persist_transition ok c i (en_status e) AgentCancelRequested now reason = (c1, Some x)"
      "cancel_loop ok mine reason now es c1 n = res"
  | (canceled) c1 where "cancelable mine e"
      "persist_transition ok c i (en_status e) AgentCancelRequested now reason = (c1, None)"
      "cancel_loop ok mine reason now es (mark_canceled c1 i) (Suc n) = res"
proof (cases "cancelable mine e")
  case False
  then show ?thesis using skipped assms by (auto simp: cancelable_def is_live_def)
next
  case True
  obtain c1 err where p: "persist_transition ok c i (en_status e) AgentCancelRequested now reason = (c1, err)"
    by (meson prod.exhaust)
  show ?thesis
  proof (cases err)
    case None
    with True p assms show ?thesis by (auto simp: cancelable_def is_live_def intro: canceled)
  next
    case (Some x)
    with p have "co_agents c1 = co_agents c" by (simp add: cancel_request_undone)
    with True p assms Some show ?thesis by (auto simp: cancelable_def is_live_def intro: refused)
  qed
qed

lemma cancel_loop_wf:
  assumes "co_wf c" "distinct (map fst es)" "\<forall>(i, e) \<in> set es. map_of (co_agents c) i = Some e"
  shows "co_wf (fst (cancel_loop ok mine reason now es c n))"
  using assms
proof (induction es arbitrary: c n)
  case Nil
  then show ?case by simp
next
  case (Cons p es)
  obtain i e where p: "p = (i, e)" by (cases p)
  have i: "map_of (co_agents c) i = Some e" "i \<notin> fst ` set es" "distinct (map fst es)"
    "\<forall>(j, x) \<in> set es. map_of (co_agents c) j = Some x"
    using Cons.prems p by auto
  define res where "res = cancel_loop ok mine reason now ((i, e) # es) c n"
  have "co_wf (fst res)"
    using res_def [symmetric]
  proof (cases rule: cancel_loop_Cons)
    case skipped
    with Cons.IH [OF Cons.prems(1) i(3,4), of n] show ?thesis by simp
  next
    case (refused c1 x)
    have "co_wf c1" using persist_transition_wf [OF Cons.prems(1) i(1) refused(3)] .
    with Cons.IH [of c1 n] i(3,4) refused(2,4) show ?thesis by simp
  next
    case (canceled c1)
    have "co_wf (mark_canceled c1 i)"
      using persist_transition_wf [OF Cons.prems(1) i(1) canceled(2)] by (rule mark_canceled_wf)
    moreover have "\<forall>(j, x) \<in> set es. map_of (co_agents (mark_canceled c1 i)) j = Some x"
    proof (clarify)
      fix j x
      assume jx: "(j, x) \<in> set es"
      then have "j \<noteq> i" using i(2) by (metis fst_conv rev_image_eqI)
      with jx i(4) persist_transition_frame [OF canceled(2)]
      show "map_of (co_agents (mark_canceled c1 i)) j = Some x" by (auto simp: map_of_mark_canceled)
    qed
    ultimately show ?thesis using Cons.IH [of "mark_canceled c1 i" "Suc n"] i(3) canceled(3) by simp
  qed
  then show ?case by (simp add: res_def p)
qed

lemma cancel_loop_all_wf: "co_wf c \<Longrightarrow> co_wf (fst (cancel_loop ok mine reason now (co_agents c) c n))"
  by (rule cancel_loop_wf) (auto simp: co_wf_def)

lemma cancel_by_parent_wf: "co_wf c \<Longrightarrow> co_wf (fst (cancel_by_parent ok c parent now))"
  by (simp add: cancel_by_parent_def Let_def cancel_loop_all_wf)

lemma cancel_by_turn_wf: "co_wf c \<Longrightarrow> co_wf (fst (cancel_by_turn ok c session turn now))"
  by (simp add: cancel_by_turn_def cancel_loop_all_wf)

lemma cancel_optional_wf: "co_wf c \<Longrightarrow> co_wf (fst (cancel_optional_by_turn ok c session turn now))"
  by (simp add: cancel_optional_by_turn_def cancel_loop_all_wf)

lemma cancel_turn_wf: "co_wf c \<Longrightarrow> co_wf (fst (cancel_turn ok c session turn b now))"
  by (simp add: cancel_turn_def cancel_by_turn_wf)

lemma resume_begin_wf: "co_wf c \<Longrightarrow> co_wf (fst (resume_begin ok c i now))"
  by (auto simp: resume_begin_def split: option.splits prod.splits dest: persist_transition_wf)

lemma rollback_resume_wf:
  assumes "co_wf c" shows "co_wf (rollback_resume ok c i now)"
proof (cases "map_of (co_agents c) i")
  case (Some e)
  obtain c' err where "persist_transition ok c i (en_status e) AgentInterrupted now
      ''resume admission failed'' = (c', err)" by (meson prod.exhaust)
  with persist_transition_wf [OF assms Some this] Some assms show ?thesis
    by (simp add: rollback_resume_def)
qed (simp add: rollback_resume_def assms)

lemma resume_finish_wf:
  assumes "co_wf c" shows "co_wf (fst (resume_finish ok c i child now))"
proof (cases "map_of (co_agents c) i")
  case None
  with assms show ?thesis by (simp add: resume_finish_def cancel_wf)
next
  case (Some e)
  obtain c' err where p: "persist_and_apply ok c i (en_status e)
      ((next_lifecycle_event (en_status e) AgentResumed now (''resumed as '' @ child))
         \<lparr>le_resumed_as := child\<rparr>) = (c', err)" by (meson prod.exhaust)
  from persist_and_apply_wf [OF assms Some p] have "co_wf c'" .
  with p Some show ?thesis
    by (cases err) (simp_all add: resume_finish_def cancel_wf)
qed

lemma close_wf:
  assumes "co_wf c" shows "co_wf (close_coordinator c)"
proof -
  let ?g = "\<lambda>(k, e). (k, if is_live e then e\<lparr>en_canceled := True\<rparr> else e)"
  have key: "busy_count (map ?g as) = busy_count as \<and> map fst (map ?g as) = map fst as \<and>
      ((\<forall>p \<in> set as. en_state (snd p) \<noteq> StateUnset) \<longrightarrow>
       (\<forall>p \<in> set (map ?g as). en_state (snd p) \<noteq> StateUnset))" for as :: agents
    unfolding busy_count_def by (induction as) (auto simp: busy_def is_live_def split: if_splits)
  have eq: "co_agents (close_coordinator c) = map ?g (co_agents c)"
    "co_max_live (close_coordinator c) = co_max_live c" by (simp_all add: close_coordinator_def)
  show ?thesis
    unfolding co_wf_def eq using assms [unfolded co_wf_def] key [of "co_agents c"]
    by (elim conjE, intro conjI) presburger+
qed

subsection \<open>The coordinator at work\<close>

text \<open>
  One critical section of one operation, whatever ran before it: admissions, runs that start and
  end, cancellations, resumptions in their three parts, queries and switches interleave freely.
  Recovery at startup has its own lemmas.
\<close>

inductive co_step :: "coordinator \<Rightarrow> coordinator \<Rightarrow> bool" where
  spawned: "co_step c (fst (spawn ok c r provider model now))"
| started: "co_step c (fst (start_agent ok c i finished now))"
| ended: "co_step c (fst (store_terminal ok c i x now))"
| cancel_one: "co_step c (fst (cancel ok c i now))"
| cancel_scoped: "co_step c (fst (cancel_ref ok c session i now))"
| cancel_children: "co_step c (fst (cancel_by_parent ok c parent now))"
| cancel_in_turn: "co_step c (fst (cancel_turn ok c session turn b now))"
| cancel_optional: "co_step c (fst (cancel_optional_by_turn ok c session turn now))"
| resume_begun: "co_step c (fst (resume_begin ok c i now))"
| resume_undone: "co_step c (rollback_resume ok c i now)"
| resume_done: "co_step c (fst (resume_finish ok c i child now))"
| pruned: "co_step c (prune_expired c now)"
| switched: "co_step c (set_enabled c b)"
| closed: "co_step c (close_coordinator c)"

definition new_coordinator :: "nat \<Rightarrow> nat \<Rightarrow> nat \<Rightarrow> bool \<Rightarrow> bool \<Rightarrow> coordinator" where
  "new_coordinator max_live max_retained ttl enabled journaled =
     \<lparr>co_agents = [], co_seq = 0, co_max_live = max_live, co_max_retained = max_retained,
      co_ttl = ttl, co_enabled = enabled, co_closed = False, co_journaled = journaled,
      co_journal = []\<rparr>"

inductive co_reachable :: "coordinator \<Rightarrow> coordinator \<Rightarrow> bool" for c0 where
  co_start: "co_reachable c0 c0"
| co_more: "co_reachable c0 c \<Longrightarrow> co_step c c' \<Longrightarrow> co_reachable c0 c'"

lemmas co_op_wf = start_agent_wf store_terminal_wf cancel_wf cancel_ref_wf cancel_by_parent_wf
  cancel_turn_wf cancel_optional_wf resume_begin_wf rollback_resume_wf resume_finish_wf
  prune_wf close_wf

lemma spawn_fst_wf: "co_wf c \<Longrightarrow> co_wf (fst (spawn ok c r provider model now))"
  by (metis prod.collapse spawn_wf)

lemma co_step_wf: "co_step c c' \<Longrightarrow> co_wf c \<Longrightarrow> co_wf c'"
  by (induction rule: co_step.induct)
     (simp_all add: co_op_wf spawn_fst_wf, simp add: set_enabled_def co_wf_def)

text \<open>No operation changes the limit.\<close>

lemma persist_transition_max:
  "persist_transition ok c i s k now reason = (c', err) \<Longrightarrow> co_max_live c' = co_max_live c"
  unfolding persist_transition_def by (erule persist_and_apply_cases) simp_all

lemma mark_canceled_max [simp]: "co_max_live (mark_canceled c i) = co_max_live c"
  by (simp add: mark_canceled_def)

lemma cancel_max: "co_max_live (fst (cancel ok c i now)) = co_max_live c"
  by (auto simp: cancel_def Let_def split: option.splits prod.splits dest: persist_transition_max)

lemma cancel_loop_max: "co_max_live (fst (cancel_loop ok mine reason now es c n)) = co_max_live c"
  by (induction es arbitrary: c n)
     (auto split: prod.splits option.splits dest: persist_transition_max)

lemma spawn_max: "co_max_live (fst (spawn ok c r provider model now)) = co_max_live c"
  by (metis prod.collapse spawn_cases)

lemma store_terminal_max: "co_max_live (fst (store_terminal ok c i x now)) = co_max_live c"
  by (auto simp: store_terminal_def Let_def split: option.splits prod.splits
      elim!: persist_and_apply_cases)

lemma resume_finish_max: "co_max_live (fst (resume_finish ok c i child now)) = co_max_live c"
  by (auto simp: resume_finish_def cancel_max split: option.splits prod.splits
      elim!: persist_and_apply_cases)

lemma persist_transition_max_fst [simp]:
  "co_max_live (fst (persist_transition ok c i s k now reason)) = co_max_live c"
  by (metis prod.collapse persist_transition_max)

lemma co_step_max: "co_step c c' \<Longrightarrow> co_max_live c' = co_max_live c"
  by (induction rule: co_step.induct)
     (auto simp: spawn_max cancel_max cancel_loop_max store_terminal_max resume_finish_max
       start_agent_def cancel_ref_def cancel_by_parent_def cancel_turn_def cancel_by_turn_def
       cancel_optional_by_turn_def resume_begin_def rollback_resume_def set_enabled_def
       close_coordinator_def Let_def split: option.splits prod.splits dest: persist_transition_max)

lemma co_reachable_wf:
  "co_reachable c0 c \<Longrightarrow> co_wf c0 \<Longrightarrow> co_wf c \<and> co_max_live c = co_max_live c0"
  by (induction rule: co_reachable.induct) (auto dest: co_step_wf co_step_max)

lemma new_coordinator_wf: "co_wf (new_coordinator n m ttl e j)"
  by (simp add: co_wf_def new_coordinator_def busy_count_def)

text \<open>
  An entry the loop changes was in its list, was to be canceled, and is now being canceled; where
  the journal accepts the request and the transition exists, it is.
\<close>

definition cancel_result :: "entry \<Rightarrow> entry option \<Rightarrow> bool" where
  "cancel_result e x = (\<exists>e'. x = Some e' \<and> en_state e' = StateCanceling \<and> en_canceled e' \<and>
     en_identity e' = en_identity e)"

lemma cancel_loop_frame:
  assumes "distinct (map fst es)" "\<forall>(i, e) \<in> set es. map_of (co_agents c) i = Some e"
    "\<forall>(i, e) \<in> set es. en_state e \<noteq> StateUnset" "cancel_loop ok mine reason now es c n = (c', m)"
  shows "map_of (co_agents c') j = map_of (co_agents c) j \<or>
    (\<exists>e. (j, e) \<in> set es \<and> cancelable mine e \<and> cancel_result e (map_of (co_agents c') j))"
  using assms
proof (induction es arbitrary: c n)
  case Nil
  then show ?case by simp
next
  case (Cons p es)
  obtain i e where p: "p = (i, e)" by (cases p)
  have i: "map_of (co_agents c) i = Some e" "i \<notin> fst ` set es" "distinct (map fst es)"
    "\<forall>(j, x) \<in> set es. map_of (co_agents c) j = Some x" "en_state e \<noteq> StateUnset"
    "\<forall>(i, e) \<in> set es. en_state e \<noteq> StateUnset"
    using Cons.prems(1-3) p by auto
  have "cancel_loop ok mine reason now ((i, e) # es) c n = (c', m)" using Cons.prems(4) p by simp
  then show ?case
  proof (cases rule: cancel_loop_Cons)
    case skipped
    with Cons.IH [OF i(3,4,6)] p show ?thesis by fastforce
  next
    case (refused c1 x)
    with Cons.IH [OF i(3) _ i(6) refused(4)] i(4) p show ?thesis by fastforce
  next
    case (canceled c1)
    have ij: "\<And>j x. (j, x) \<in> set es \<Longrightarrow> j \<noteq> i" using i(2) by (metis fst_conv rev_image_eqI)
    have other: "map_of (co_agents (mark_canceled c1 i)) j = map_of (co_agents c) j" if "j \<noteq> i" for j
      using persist_transition_frame [OF canceled(2) that] that by (simp add: map_of_mark_canceled)
    have "\<forall>(j, x) \<in> set es. map_of (co_agents (mark_canceled c1 i)) j = Some x"
      using i(4) ij other by fastforce
    note IH = Cons.IH [OF i(3) this i(6) canceled(3)]
    show ?thesis
    proof (cases "j = i")
      case True
      from IH ij True have "map_of (co_agents c') i = map_of (co_agents (mark_canceled c1 i)) i" by blast
      with cancel_request_done [OF canceled(2) i(1,5)]
      have "cancel_result e (map_of (co_agents c') i)" by (simp add: cancel_result_def)
      with True canceled(1) p show ?thesis by auto
    next
      case False
      with IH other p show ?thesis by auto
    qed
  qed
qed

text \<open>Without a journal a cancelable agent that is queued or running is canceled.\<close>

lemma request_unjournaled:
  assumes "\<not> co_journaled c" "en_state e = StateQueued \<or> en_state e = StateRunning"
    "st_version (en_status e) + 1 \<noteq> 0"
  shows "\<exists>c'. persist_transition ok c i (en_status e) AgentCancelRequested now reason = (c', None)"
proof -
  have "\<exists>s'. apply_lifecycle_event (en_status e)
      (next_lifecycle_event (en_status e) AgentCancelRequested now reason) = Inr s' \<and>
      st_state s' = StateCanceling \<and> st_identity s' = en_identity e"
    by (rule apply_next) (use assms in \<open>auto simp: valid_state_transition_def\<close>)
  with assms(1) show ?thesis
    by (auto simp: persist_transition_def persist_and_apply_def persist_event_def)
qed

lemma persist_transition_journaled:
  "persist_transition ok c i s k now reason = (c', err) \<Longrightarrow> co_journaled c' = co_journaled c"
  by (auto simp: persist_transition_def persist_and_apply_def persist_event_def set_status_def
      split: sum.splits if_splits)

lemma mark_canceled_journaled [simp]: "co_journaled (mark_canceled c i) = co_journaled c"
  by (simp add: mark_canceled_def)

lemma cancel_loop_other:
  assumes "cancel_loop ok mine reason now es c n = (c', m)" "j \<notin> fst ` set es"
  shows "map_of (co_agents c') j = map_of (co_agents c) j"
  using assms
proof (induction es arbitrary: c n)
  case Nil
  then show ?case by simp
next
  case (Cons p es)
  obtain i e where p: "p = (i, e)" by (cases p)
  have j: "j \<noteq> i" "j \<notin> fst ` set es" using Cons.prems(2) p by auto
  have "cancel_loop ok mine reason now ((i, e) # es) c n = (c', m)" using Cons.prems(1) p by simp
  then show ?case
  proof (cases rule: cancel_loop_Cons)
    case skipped
    with Cons.IH j show ?thesis by blast
  next
    case (refused c1 x)
    with Cons.IH [OF refused(4) j(2)] show ?thesis by simp
  next
    case (canceled c1)
    with Cons.IH [OF canceled(3) j(2)] persist_transition_frame [OF canceled(2) j(1)] j(1)
    show ?thesis by (simp add: map_of_mark_canceled)
  qed
qed

lemma cancel_loop_complete:
  assumes "distinct (map fst es)" "\<forall>(i, e) \<in> set es. map_of (co_agents c) i = Some e"
    "\<not> co_journaled c" "cancel_loop ok mine reason now es c n = (c', m)"
    "(j, e) \<in> set es" "mine (en_identity e)" "en_state e = StateQueued \<or> en_state e = StateRunning"
    "st_version (en_status e) + 1 \<noteq> 0"
  shows "cancel_result e (map_of (co_agents c') j)"
  using assms
proof (induction es arbitrary: c n)
  case Nil
  then show ?case by simp
next
  case (Cons p es)
  obtain i x where p: "p = (i, x)" by (cases p)
  have i: "map_of (co_agents c) i = Some x" "i \<notin> fst ` set es" "distinct (map fst es)"
    "\<forall>(j, x) \<in> set es. map_of (co_agents c) j = Some x"
    using Cons.prems(1-2) p by auto
  have ij: "\<And>j x. (j, x) \<in> set es \<Longrightarrow> j \<noteq> i" using i(2) by (metis fst_conv rev_image_eqI)
  have can: "cancelable mine e"
    using Cons.prems(6,7) by (auto simp: cancelable_def is_live_def terminal_def)
  have "cancel_loop ok mine reason now ((i, x) # es) c n = (c', m)" using Cons.prems(4) p by simp
  then show ?case
  proof (cases rule: cancel_loop_Cons)
    case skipped
    with can Cons.prems(5) p have "(j, e) \<in> set es" by auto
    with Cons.IH [OF i(3,4) Cons.prems(3) skipped(2) _ Cons.prems(6-8)] show ?thesis by blast
  next
    case (refused c1 err)
    have "(i, x) \<noteq> (j, e)"
      using request_unjournaled [OF Cons.prems(3,7,8), of ok j now reason] refused(3) by auto
    with Cons.prems(5) p have "(j, e) \<in> set es" by auto
    with Cons.IH [OF i(3) _ _ refused(4) _ Cons.prems(6-8)] i(4) refused(2)
      persist_transition_journaled [OF refused(3)] Cons.prems(3) show ?thesis by auto
  next
    case (canceled c1)
    have other: "map_of (co_agents (mark_canceled c1 i)) k = map_of (co_agents c) k" if "k \<noteq> i" for k
      using persist_transition_frame [OF canceled(2) that] that by (simp add: map_of_mark_canceled)
    have ent: "\<forall>(j, x) \<in> set es. map_of (co_agents (mark_canceled c1 i)) j = Some x"
      using i(4) ij other by fastforce
    have nj: "\<not> co_journaled (mark_canceled c1 i)"
      using persist_transition_journaled [OF canceled(2)] Cons.prems(3) by simp
    show ?thesis
    proof (cases "(j, e) \<in> set es")
      case True
      with Cons.IH [OF i(3) ent nj canceled(3) _ Cons.prems(6-8)] show ?thesis by blast
    next
      case False
      then have je: "j = i" "e = x" using Cons.prems(5) p by auto
      have "en_state e \<noteq> StateUnset" using Cons.prems(7) by auto
      with cancel_request_done [OF canceled(2) i(1)] je
      have cr: "cancel_result e (map_of (co_agents (mark_canceled c1 i)) i)"
        by (simp add: cancel_result_def)
      have "map_of (co_agents c') i = map_of (co_agents (mark_canceled c1 i)) i"
        by (rule cancel_loop_other [OF canceled(3) i(2)])
      with cr je show ?thesis by simp
    qed
  qed
qed

subsection \<open>Lemmas: retention and dependencies\<close>

definition ended :: "string \<times> entry \<Rightarrow> bool" where
  "ended p = terminal (en_state (snd p))"

lemma same_key: "distinct (map fst as) \<Longrightarrow> p \<in> set as \<Longrightarrow> q \<in> set as \<Longrightarrow> fst p = fst q \<Longrightarrow> p = q"
  by (metis eq_key_imp_eq_value prod.collapse)

lemma over_limit_split:
  fixes as :: agents
  obtains S k where "mset S = mset (filter ended as)" "sorted (map retain_key S)"
    "over_limit n as = map fst (take k S)" "length (drop k S) \<le> n"
proof
  show "mset (sort_key retain_key (filter ended as)) = mset (filter ended as)" by simp
  show "sorted (map retain_key (sort_key retain_key (filter ended as)))" by simp
  show "over_limit n as = map fst (take (length (filter ended as) - n)
      (sort_key retain_key (filter ended as)))"
    by (simp add: over_limit_def ended_def [abs_def] Let_def)
  show "length (drop (length (filter ended as) - n) (sort_key retain_key (filter ended as))) \<le> n"
    by simp
qed

lemma over_limit_bounds:
  fixes as :: agents
  shows "length (filter ended (filter (\<lambda>p. fst p \<notin> set (over_limit n as)) as)) \<le> n"
proof -
  obtain S k where S: "mset S = mset (filter ended as)" "over_limit n as = map fst (take k S)"
    "length (drop k S) \<le> n" by (rule over_limit_split)
  let ?P = "\<lambda>p. fst p \<notin> set (map fst (take k S))"
  have "filter ended (filter ?P as) = filter ?P (filter ended as)" by (simp add: filter_filter conj_commute)
  then have "length (filter ended (filter ?P as)) = size (filter_mset ?P (mset (filter ended as)))"
    by (metis mset_filter size_mset)
  also have "\<dots> = length (filter ?P S)" by (metis S(1) mset_filter size_mset)
  also have "filter ?P S = filter ?P (take k S) @ filter ?P (drop k S)"
    by (metis append_take_drop_id filter_append)
  also have "filter ?P (take k S) = []" by (simp add: filter_empty_conv)
  finally show ?thesis using S(2,3) length_filter_le [of ?P "drop k S"] by simp
qed

lemma over_limit_oldest:
  fixes as :: agents
  assumes "distinct (map fst as)" "p \<in> set as" "fst p \<in> set (over_limit n as)"
  shows "ended p" "q \<in> set as \<Longrightarrow> fst q \<notin> set (over_limit n as) \<Longrightarrow> ended q \<Longrightarrow>
    retain_key p \<le> retain_key q"
proof -
  obtain S k where S: "mset S = mset (filter ended as)" "sorted (map retain_key S)"
    "over_limit n as = map fst (take k S)" by (rule over_limit_split)
  have set: "set S = {x \<in> set as. ended x}" using S(1) by (metis mset_eq_setD set_filter)
  have p: "p \<in> set (take k S)"
  proof -
    from assms(3) S(3) obtain p' where p': "p' \<in> set (take k S)" "fst p' = fst p" by auto
    then have "p' \<in> set S" by (blast dest: in_set_takeD)
    then have "p' \<in> set as" using set by simp
    from same_key [OF assms(1) this assms(2) p'(2)] p'(1) show ?thesis by simp
  qed
  then have "p \<in> set S" by (blast dest: in_set_takeD)
  then show "ended p" using set by simp
  assume q: "q \<in> set as" "fst q \<notin> set (over_limit n as)" "ended q"
  have "q \<in> set S" using q(1,3) set by simp
  moreover have "q \<notin> set (take k S)" using q(2) S(3) by auto
  moreover have "set S = set (take k S) \<union> set (drop k S)" by (metis append_take_drop_id set_append)
  ultimately have "q \<in> set (drop k S)" by blast
  moreover have "sorted (map retain_key (take k S) @ map retain_key (drop k S))"
    by (metis S(2) append_take_drop_id map_append)
  ultimately show "retain_key p \<le> retain_key q" using p by (auto simp: sorted_append)
qed

lemma resolve_deps_None:
  "resolve_deps as r is = None \<longleftrightarrow>
   (\<forall>i \<in> set is. i \<noteq> ar_id r \<and> (\<exists>e. map_of as i = Some e \<and>
      id_session (en_identity e) = ar_session r \<and> id_parent (en_identity e) = ar_parent r \<and>
      (terminal (en_state e) \<longrightarrow> en_state e = StateCompleted)))"
  by (induction "is") (auto split: option.splits)

lemma normalize_ids_from_spec:
  "distinct (normalize_ids_from seen vs) \<and>
   set (normalize_ids_from seen vs) = trim_space ` set vs - {[]} - set seen"
proof (induction vs arbitrary: seen)
  case Nil
  then show ?case by simp
next
  case (Cons v vs)
  then show ?case by (auto simp: Let_def)
qed

lemma prune_sub: "set (co_agents (prune_expired c now)) \<subseteq> set (co_agents c)"
  by (auto simp: prune_expired_def prune_agents_def Let_def)

subsection \<open>Properties\<close>

text \<open>A request and a status to evaluate the operations on.\<close>

definition demo_request :: "string \<Rightarrow> string list \<Rightarrow> agent_request" where
  "demo_request i deps =
     \<lparr>ar_session = ''s'', ar_id = i, ar_parent = ''t'', ar_profile = ProfileStrength,
      ar_task = ''work'', ar_task_id = [], ar_context = [], ar_depends = deps,
      ar_optional = False, ar_timeout = 0, ar_queue_timeout = 0, ar_resumed_from = []\<rparr>"

definition demo_spawn :: "coordinator \<Rightarrow> string \<Rightarrow> string list \<Rightarrow> coordinator" where
  "demo_spawn c i deps = fst (spawn (\<lambda>_. True) c (demo_request i deps) ''p'' ''m'' 1)"



text \<open>
  An admitted agent is in the registry, queued, with a duplicate-free list of dependencies;
  each of them is another agent of the registry, of the same session and the same parent, that
  has not ended other than by completing.
\<close>

theorem spawn_dependencies:
  assumes "spawn ok c r provider model now = (c', Inr i)"
  shows "\<exists>e. map_of (co_agents c') i = Some e \<and> en_state e = StateQueued \<and> distinct (en_deps e) \<and>
    (\<forall>d \<in> set (en_deps e). d \<noteq> i \<and> (\<exists>x. map_of (co_agents c') d = Some x \<and>
       id_session (en_identity x) = id_session (en_identity e) \<and>
       id_parent (en_identity x) = id_parent (en_identity e) \<and>
       (terminal (en_state x) \<longrightarrow> en_state x = StateCompleted)))"
  using assms
proof (cases rule: spawn_cases)
  case (admitted j r1 en)
  let ?as = "co_agents (prune_expired c now)"
  have e: "map_of (co_agents c') i = Some en" "i = j"
    using admitted(1,4) by (simp_all add: update_conv')
  have deps: "en_deps en = ar_depends r1" using admitted(3,6) by (metis agent_request.select_convs(8) agent_request.surjective agent_request.update_convs(2))
  have scope: "id_session (en_identity en) = ar_session r1" "id_parent (en_identity en) = ar_parent r1"
    using admitted(13) by (simp_all add: queued_event_def)
  have "distinct (en_deps en)"
    using normalize_ids_from_spec admitted(6) by (simp add: admitted_request_def normalize_dependency_ids_def)
  moreover have "d \<noteq> i \<and> (\<exists>x. map_of (co_agents c') d = Some x \<and>
       id_session (en_identity x) = id_session (en_identity en) \<and>
       id_parent (en_identity x) = id_parent (en_identity en) \<and>
       (terminal (en_state x) \<longrightarrow> en_state x = StateCompleted))" if "d \<in> set (en_deps en)" for d
  proof -
    from admitted(8) that deps obtain x where x: "d \<noteq> ar_id r1" "map_of ?as d = Some x"
        "id_session (en_identity x) = ar_session r1" "id_parent (en_identity x) = ar_parent r1"
        "terminal (en_state x) \<longrightarrow> en_state x = StateCompleted"
      by (auto simp: resolve_deps_None)
    have "d \<noteq> i" using admitted(12) x(1,2) e(2) by auto
    with x scope admitted(4) e(2) show ?thesis by (simp add: update_conv')
  qed
  ultimately show ?thesis using e(1) admitted(5) by blast
qed simp

theorem spawn_dependencies_witness:
  "\<exists>c'. spawn (\<lambda>_. True) (demo_spawn (new_coordinator 4 0 0 True False) ''a'' [])
     (demo_request ''b'' ['' a'', ''a'']) ''p'' ''m'' 2 = (c', Inr ''b'') \<and>
   (\<exists>e. map_of (co_agents c') ''b'' = Some e \<and> en_state e = StateQueued \<and> distinct (en_deps e) \<and>
    (\<forall>d \<in> set (en_deps e). d \<noteq> ''b'' \<and> (\<exists>x. map_of (co_agents c') d = Some x \<and>
       id_session (en_identity x) = id_session (en_identity e) \<and>
       id_parent (en_identity x) = id_parent (en_identity e) \<and>
       (terminal (en_state x) \<longrightarrow> en_state x = StateCompleted))))"
proof -
  have r: "snd (spawn (\<lambda>_. True) (demo_spawn (new_coordinator 4 0 0 True False) ''a'' [])
     (demo_request ''b'' ['' a'', ''a'']) ''p'' ''m'' 2) = Inr ''b''"
    by code_simp
  then obtain c' where c': "spawn (\<lambda>_. True) (demo_spawn (new_coordinator 4 0 0 True False) ''a'' [])
     (demo_request ''b'' ['' a'', ''a'']) ''p'' ''m'' 2 = (c', Inr ''b'')"
    by (metis prod.collapse)
  from spawn_dependencies [OF c'] c' show ?thesis by blast
qed

text \<open>
  Canceling a turn leaves every agent of another session or another turn, and every agent
  that has ended or is being canceled, exactly as it was; an agent it does change is now being
  canceled, with its context ended and its identity unchanged. Without a journal to refuse the
  request, every queued or running agent of the turn is changed.
\<close>

theorem cancel_by_turn_scope:
  assumes "distinct (map fst (co_agents c))" "\<forall>p \<in> set (co_agents c). en_state (snd p) \<noteq> StateUnset"
    "map_of (co_agents c) j = Some e" "cancel_by_turn ok c session turn now = (c', n)"
    "mine \<longleftrightarrow> trim_space turn \<noteq> [] \<and> id_session (en_identity e) = trim_space session \<and>
       id_parent (en_identity e) = trim_space turn"
  shows "(map_of (co_agents c') j = Some e \<or>
      mine \<and> en_state e \<noteq> StateCanceling \<and> \<not> terminal (en_state e) \<and>
      (\<exists>e'. map_of (co_agents c') j = Some e' \<and> en_state e' = StateCanceling \<and> en_canceled e' \<and>
         en_identity e' = en_identity e)) \<and>
    (mine \<and> (en_state e = StateQueued \<or> en_state e = StateRunning) \<and> \<not> co_journaled c \<and>
     st_version (en_status e) + 1 \<noteq> 0 \<longrightarrow>
     (\<exists>e'. map_of (co_agents c') j = Some e' \<and> en_state e' = StateCanceling))"
proof (cases "trim_space turn = []")
  case True
  with assms(3-5) show ?thesis by (simp add: cancel_by_turn_def)
next
  case False
  let ?mine = "\<lambda>d. id_session d = trim_space session \<and> id_parent d = trim_space turn"
  have run: "cancel_loop ok ?mine ''cancel requested'' now (co_agents c) c 0 = (c', n)"
    using False assms(4) by (simp add: cancel_by_turn_def)
  have ent: "\<forall>(i, e) \<in> set (co_agents c). map_of (co_agents c) i = Some e" using assms(1) by simp
  have set: "\<forall>(i, e) \<in> set (co_agents c). en_state e \<noteq> StateUnset" using assms(2) by auto
  have je: "(j, e) \<in> set (co_agents c)" using assms(3) by (rule map_of_SomeD)
  have uniq: "(j, x) \<in> set (co_agents c) \<Longrightarrow> x = e" for x using ent assms(3) by auto
  from cancel_loop_frame [OF assms(1) ent set run, of j] uniq assms(3,5) False
  have "map_of (co_agents c') j = Some e \<or> mine \<and> en_state e \<noteq> StateCanceling \<and>
      \<not> terminal (en_state e) \<and> cancel_result e (map_of (co_agents c') j)"
    by (auto simp: cancelable_def is_live_def)
  moreover from cancel_loop_complete [OF assms(1) ent _ run je] assms(5)
  have "mine \<and> (en_state e = StateQueued \<or> en_state e = StateRunning) \<and> \<not> co_journaled c \<and>
      st_version (en_status e) + 1 \<noteq> 0 \<longrightarrow> cancel_result e (map_of (co_agents c') j)"
    by blast
  ultimately show ?thesis unfolding cancel_result_def by blast
qed

theorem cancel_by_turn_scope_witness:
  "\<exists>c e c' n e'. map_of (co_agents c) ''a'' = Some e \<and>
     cancel_by_turn (\<lambda>_. True) c ''s'' ''t'' 2 = (c', n) \<and>
     map_of (co_agents c') ''a'' = Some e' \<and> en_state e' = StateCanceling"
proof -
  let ?c = "demo_spawn (new_coordinator 1 0 0 True False) ''a'' []"
  have d: "distinct (map fst (co_agents ?c))" "list_all (\<lambda>p. en_state (snd p) \<noteq> StateUnset) (co_agents ?c)"
    by code_simp+
  have l: "\<forall>p \<in> set (co_agents ?c). en_state (snd p) \<noteq> StateUnset"
    using d(2) by (simp only: list_all_iff)
  have v: "map_option (\<lambda>e. (en_state e, st_version (en_status e), id_session (en_identity e),
      id_parent (en_identity e))) (map_of (co_agents ?c) ''a'') = Some (StateQueued, 1, ''s'', ''t'')"
    "\<not> co_journaled ?c" "trim_space ''s'' = ''s''" "trim_space ''t'' = ''t''"
    by code_simp+
  then obtain e where e: "map_of (co_agents ?c) ''a'' = Some e" "en_state e = StateQueued"
      "st_version (en_status e) = 1" "id_session (en_identity e) = ''s''" "id_parent (en_identity e) = ''t''"
    by auto
  obtain c' n where run: "cancel_by_turn (\<lambda>_. True) ?c ''s'' ''t'' 2 = (c', n)"
    by (meson prod.exhaust)
  have m: "True \<longleftrightarrow> trim_space ''t'' \<noteq> [] \<and> id_session (en_identity e) = trim_space ''s'' \<and>
      id_parent (en_identity e) = trim_space ''t''" using e v by simp
  from cancel_by_turn_scope [OF d(1) l e(1) run m] e v(2)
  obtain e' where "map_of (co_agents c') ''a'' = Some e'" "en_state e' = StateCanceling" by auto
  with e(1) run show ?thesis by blast
qed

text \<open>
  Retention drops only agents that have ended; with a limit at most that many ended agents
  are left, and one dropped before its time to live is not younger than any that is left.
\<close>

theorem prune_keeps_newest:
  assumes "distinct (map fst (co_agents c))" "p \<in> set (co_agents c)"
    "p \<notin> set (co_agents (prune_expired c now))"
  shows "terminal (en_state (snd p)) \<and>
    (0 < co_max_retained c \<longrightarrow>
       length (filter ended (co_agents (prune_expired c now))) \<le> co_max_retained c) \<and>
    ((0 < co_ttl c \<and> expired (co_ttl c) now (snd p)) \<or>
     (\<forall>q \<in> set (co_agents (prune_expired c now)). terminal (en_state (snd q)) \<longrightarrow>
        st_finished_at (en_status (snd p)) \<le> st_finished_at (en_status (snd q))))"
proof -
  let ?n = "co_max_retained c"
  define as1 where "as1 = (if 0 < co_ttl c then filter (\<lambda>p. \<not> expired (co_ttl c) now (snd p)) (co_agents c)
    else co_agents c)"
  have out: "co_agents (prune_expired c now) =
      (if ?n = 0 then as1 else filter (\<lambda>p. fst p \<notin> set (over_limit ?n as1)) as1)"
    by (simp add: prune_expired_def prune_agents_def as1_def Let_def)
  have d: "distinct (map fst as1)" using assms(1) by (simp add: as1_def distinct_map_filter)
  have bound: "0 < ?n \<longrightarrow> length (filter ended (co_agents (prune_expired c now))) \<le> ?n"
    unfolding out using over_limit_bounds [of ?n as1] by simp
  show ?thesis
  proof (cases "p \<in> set as1")
    case False
    with assms(2) have "0 < co_ttl c" "expired (co_ttl c) now (snd p)"
      by (auto simp: as1_def split: if_splits)
    with bound show ?thesis by (auto simp: expired_def)
  next
    case True
    with assms(3) out have n: "?n \<noteq> 0" "fst p \<in> set (over_limit ?n as1)" by (auto split: if_splits)
    note old = over_limit_oldest [OF d True n(2)]
    have "st_finished_at (en_status (snd p)) \<le> st_finished_at (en_status (snd q))"
      if "q \<in> set (co_agents (prune_expired c now))" "terminal (en_state (snd q))" for q
      using old(2) [of q] that out n(1) by (auto simp: retain_key_def ended_def less_eq_prod_def)
    with bound old(1) show ?thesis by (auto simp: ended_def)
  qed
qed

definition demo_ended :: "string \<Rightarrow> nat \<Rightarrow> string \<times> entry" where
  "demo_ended i t = (i, \<lparr>en_status = empty_status\<lparr>st_state := StateCompleted, st_finished_at := t\<rparr>,
     en_request = demo_request i [], en_deps = [], en_result_version = 0, en_canceled = False\<rparr>)"

theorem prune_keeps_newest_witness:
  "\<exists>c. map fst (co_agents c) = [''x'', ''y''] \<and>
     map fst (co_agents (prune_expired c 9)) = [''x''] \<and> terminal (en_state (snd (demo_ended ''y'' 5)))"
proof -
  let ?c = "(new_coordinator 0 1 0 True False)\<lparr>co_agents := [demo_ended ''x'' 7, demo_ended ''y'' 5]\<rparr>"
  have v: "distinct (map fst (co_agents ?c))" "map fst (co_agents ?c) = [''x'', ''y'']"
    "map fst (co_agents (prune_expired ?c 9)) = [''x'']" by code_simp+
  have "demo_ended ''y'' 5 \<in> set (co_agents ?c)" by simp
  moreover have "demo_ended ''y'' 5 \<notin> set (co_agents (prune_expired ?c 9))"
  proof
    assume "demo_ended ''y'' 5 \<in> set (co_agents (prune_expired ?c 9))"
    then have "fst (demo_ended ''y'' 5) \<in> set (map fst (co_agents (prune_expired ?c 9)))" by auto
    then show False unfolding v(3) by (simp add: demo_ended_def)
  qed
  ultimately have "terminal (en_state (snd (demo_ended ''y'' 5)))"
    using prune_keeps_newest [OF v(1)] by blast
  with v(2,3) show ?thesis by (intro exI [of _ ?c] conjI)
qed

subsection \<open>What recovery and resumption do\<close>

definition demo_queued :: "string \<Rightarrow> lifecycle_event" where
  "demo_queued i = queued_event (demo_request i []) i ''p'' ''m'' 1"

definition demo_recovered :: "nat \<Rightarrow> coordinator" where
  "demo_recovered n =
     fst (recover_lifecycle (\<lambda>_. True) ((new_coordinator n 0 0 True True)
       \<lparr>co_journal := [demo_queued ''a'']\<rparr>) ''s'' None [demo_queued ''a''] 2)"

text \<open>
  With a limit of one the coordinator cannot resume an interrupted agent although nothing is
  running: the agent itself, once it is resuming, is counted as live, so the admission of its
  child is refused and the resumption rolled back.
\<close>

theorem resume_blocks_itself:
  "map_option en_state (map_of (co_agents (demo_recovered 1)) ''a'') = Some StateInterrupted \<and>
   live_count (co_agents (demo_recovered 1)) = 0 \<and>
   snd (resume (\<lambda>_. True) (demo_recovered 1) ''a'' ''t'' ''p'' ''m'' 3) = Inl (LiveLimit 1) \<and>
   map_option en_state (map_of (co_agents
     (fst (resume (\<lambda>_. True) (demo_recovered 1) ''a'' ''t'' ''p'' ''m'' 3))) ''a'') =
     Some StateInterrupted \<and>
   (\<exists>i. snd (resume (\<lambda>_. True) (demo_recovered 2) ''a'' ''t'' ''p'' ''m'' 3) = Inr i)"
proof -
  have "snd (resume (\<lambda>_. True) (demo_recovered 2) ''a'' ''t'' ''p'' ''m'' 3) = Inr ''strength-1''"
    by code_simp
  moreover have "map_option en_state (map_of (co_agents (demo_recovered 1)) ''a'') = Some StateInterrupted"
    by code_simp
  moreover have "live_count (co_agents (demo_recovered 1)) = 0" by code_simp
  moreover have "snd (resume (\<lambda>_. True) (demo_recovered 1) ''a'' ''t'' ''p'' ''m'' 3) = Inl (LiveLimit 1)"
    by code_simp
  moreover have "map_option en_state (map_of (co_agents
     (fst (resume (\<lambda>_. True) (demo_recovered 1) ''a'' ''t'' ''p'' ''m'' 3))) ''a'') =
     Some StateInterrupted" by code_simp
  ultimately show ?thesis by blast
qed

definition demo_poisoned :: coordinator where
  "demo_poisoned =
     fst (cancel (\<lambda>_. True) (fst (resume_begin (\<lambda>_. True) (demo_recovered 4) ''a'' 3)) ''a'' 4)"

text \<open>
  A request to cancel an agent that is between its interruption and its new run is journaled
  before it is found not to apply: the cancellation fails, and so does every later recovery of
  the session from that journal.
\<close>

theorem cancel_poisons_journal:
  "snd (cancel (\<lambda>_. True) (fst (resume_begin (\<lambda>_. True) (demo_recovered 4) ''a'' 3)) ''a'' 4) =
     Some (LifecycleFailed (BadTransition StateResuming StateCanceling)) \<and>
   map le_version (co_journal demo_poisoned) = [1, 2, 3, 4] \<and>
   snd (recover_lifecycle (\<lambda>_. True) (new_coordinator 4 0 0 True True) ''s'' None
     (co_journal demo_poisoned) 5) =
     Some (RecoverReplay (BadTransition StateResuming StateCanceling))"
  by (intro conjI) code_simp+

text \<open>
  The id generated for a request that has none is not compared with the ids in use: it
  replaces a live agent that was given that id by name.
\<close>

theorem generated_id_overwrites:
  "(let c = demo_spawn (new_coordinator 4 0 0 True False) ''strength-1'' [];
        r = spawn (\<lambda>_. True) c (demo_request [] []) ''p'' ''m'' 7 in
    map_option (\<lambda>e. st_start_time (en_status e)) (map_of (co_agents c) ''strength-1'') = Some 1 \<and>
    snd r = Inr ''strength-1'' \<and> length (co_agents (fst r)) = 1 \<and>
    map_option (\<lambda>e. st_start_time (en_status e)) (map_of (co_agents (fst r)) ''strength-1'') = Some 7)"
  by code_simp

definition settled :: "string \<Rightarrow> entry \<Rightarrow> bool" where
  "settled session e = (id_session (en_identity e) = session \<longrightarrow> terminal (en_state e))"

lemma interrupt_step:
  assumes "persist_transition ok c i s AgentInterrupted now reason = (c', None)"
  shows "\<exists>s'. co_agents c' = at_key i (\<lambda>x. x\<lparr>en_status := s'\<rparr>) (co_agents c) \<and> terminal (st_state s')"
  using assms[unfolded persist_transition_def]
proof (cases rule: persist_and_apply_cases)
  case (applied s')
  have "st_state s' = StateInterrupted"
    using apply_lifecycle_Inr(4) [OF applied(2)] by (simp add: next_lifecycle_event_def)
  with applied(3) show ?thesis by (auto simp: terminal_def)
qed simp

lemma settled_at_key:
  assumes "terminal (st_state s')"
    "\<forall>(k, e) \<in> set as. settled session e \<or> k \<in> insert i K"
  shows "\<forall>(k, e) \<in> set (at_key i (\<lambda>x. x\<lparr>en_status := s'\<rparr>) as). settled session e \<or> k \<in> K"
  using assms by (auto simp: settled_def split: if_splits)

lemma interrupt_loop_settles:
  assumes "interrupt_loop ok session now es c = (c', None)"
    "\<forall>(k, e) \<in> set (co_agents c). settled session e \<or>
       k \<in> fst ` {p \<in> set es. \<not> settled session (snd p)}"
  shows "\<forall>(k, e) \<in> set (co_agents c'). settled session e"
  using assms
proof (induction es arbitrary: c)
  case Nil
  then show ?case by auto
next
  case (Cons p es)
  obtain i e where p: "p = (i, e)" by (cases p)
  show ?case
  proof (cases "settled session e")
    case True
    then have run: "interrupt_loop ok session now es c = (c', None)"
      using Cons.prems(1) p by (auto simp: settled_def)
    have "{q \<in> set (p # es). \<not> settled session (snd q)} =
        {q \<in> set es. \<not> settled session (snd q)}" using True p by auto
    from Cons.IH [OF run Cons.prems(2) [unfolded this]] show ?thesis .
  next
    case False
    then have ns: "\<not> (id_session (en_identity e) \<noteq> session \<or> terminal (en_state e))"
      by (simp add: settled_def)
    from Cons.prems(1) ns p obtain c1 where c1: "persist_transition ok c i (en_status e)
          AgentInterrupted now ''interrupted by previous process exit'' = (c1, None)"
        "interrupt_loop ok session now es c1 = (c', None)"
      by (auto split: prod.splits option.splits)
    from interrupt_step [OF c1(1)] obtain s' where
      s': "co_agents c1 = at_key i (\<lambda>x. x\<lparr>en_status := s'\<rparr>) (co_agents c)" "terminal (st_state s')"
      by blast
    have "fst ` {q \<in> set (p # es). \<not> settled session (snd q)} =
        insert i (fst ` {q \<in> set es. \<not> settled session (snd q)})"
      using False p by (force simp: image_iff)
    with Cons.prems(2) have "\<forall>(k, e) \<in> set (co_agents c). settled session e \<or>
        k \<in> insert i (fst ` {q \<in> set es. \<not> settled session (snd q)})" by simp
    from settled_at_key [OF s'(2) this] have "\<forall>(k, e) \<in> set (co_agents c1). settled session e \<or>
        k \<in> fst ` {q \<in> set es. \<not> settled session (snd q)}" unfolding s'(1) .
    from Cons.IH [OF c1(2) this] show ?thesis .
  qed
qed

text \<open>
  A recovery that succeeds leaves no agent of its session live: each one that was queued,
  running, being canceled or resuming when the process ended is now interrupted, and none is run
  again.
\<close>

theorem recovery_settles:
  assumes "recover_lifecycle ok c session snapshot events now = (c', None)"
    "p \<in> set (co_agents c')" "id_session (en_identity (snd p)) = trim_space session"
  shows "terminal (en_state (snd p))"
proof -
  from assms(1) obtain c2 c3 where c3: "interrupt_loop ok (trim_space session) now (co_agents c2) c2 = (c3, None)"
      "c' = prune_expired c3 now"
    by (auto simp: recover_lifecycle_def Let_def split: if_splits prod.splits option.splits)
  have "\<forall>(k, e) \<in> set (co_agents c3). settled (trim_space session) e"
    by (rule interrupt_loop_settles [OF c3(1)]) force
  moreover have "p \<in> set (co_agents c3)" using assms(2) c3(2) prune_sub by blast
  ultimately show ?thesis using assms(3) by (auto simp: settled_def)
qed

theorem recovery_settles_witness:
  "\<exists>c'. recover_lifecycle (\<lambda>_. True) (new_coordinator 4 0 0 True True) ''s'' None [demo_queued ''a''] 2
      = (c', None) \<and> (\<exists>p \<in> set (co_agents c'). terminal (en_state (snd p)))"
proof -
  let ?r = "recover_lifecycle (\<lambda>_. True) (new_coordinator 4 0 0 True True) ''s'' None [demo_queued ''a''] 2"
  have v: "snd ?r = None" "map (\<lambda>p. id_session (en_identity (snd p))) (co_agents (fst ?r)) = [''s'']"
    "trim_space ''s'' = ''s''" by code_simp+
  from v(2) obtain p where p: "p \<in> set (co_agents (fst ?r))" "id_session (en_identity (snd p)) = trim_space ''s''"
    using v(3) by (auto simp: map_eq_Cons_conv)
  have r: "?r = (fst ?r, None)" using v(1) by (metis prod.collapse)
  from recovery_settles [OF r p] p(1) r show ?thesis by blast
qed

end
