(* ===== verification/Workspace_Gate.thy ===== *)
theory Workspace_Gate
  imports Main
begin

text \<open>
  The admission of delegated agents to the workspace: \<open>acquireWorkspace\<close> of
  \<open>internal/feature/agent/scheduler.go\<close> and the release it returns. Three buffered channels are
  used as semaphores: \<open>wsWriter\<close> and \<open>wsAdmission\<close> of capacity one, \<open>wsGate\<close> of the coordinator's
  concurrency. A send or a receive is one step; the steps of the workers interleave in any order,
  and a worker whose context is done may leave at each of its selects. A channel is the number of
  its elements.
\<close>

subsection \<open>The program\<close>

text \<open>
  Where a worker is: at the first, the second, the third select (with the tokens acquired so far),
  giving tokens back after its context ended, giving up the writer's turn, in the workspace, in
  the release with the tokens that are left, or done.
\<close>

datatype phase = AtWriter | AtAdmission | Filling nat | Aborting nat | DropWriter | Inside
  | Leaving nat | Gone

record worker =
  wk_exclusive :: bool
  wk_phase :: phase

record channels =
  ch_gate :: nat
  ch_writer :: nat
  ch_admission :: nat

datatype ws_action = Proceed | ContextEnded

definition wanted :: "nat \<Rightarrow> worker \<Rightarrow> nat" where
  "wanted cap w = (if wk_exclusive w then cap else 1)"

text \<open>One step of one worker; \<open>None\<close> while it has to wait.\<close>

definition worker_step :: "nat \<Rightarrow> channels \<Rightarrow> worker \<Rightarrow> ws_action \<Rightarrow> (channels \<times> phase) option" where
  "worker_step cap c w a =
     (case wk_phase w of
        AtWriter \<Rightarrow>
          if a = ContextEnded then Some (c, Gone)
          else if ch_writer c < 1 then Some (c\<lparr>ch_writer := ch_writer c + 1\<rparr>, AtAdmission)
          else None
      | AtAdmission \<Rightarrow>
          if a = ContextEnded then Some (c, if wk_exclusive w then DropWriter else Gone)
          else if ch_admission c < 1
          then Some (c\<lparr>ch_admission := ch_admission c + 1\<rparr>, Filling 0)
          else None
      | Filling k \<Rightarrow>
          if k < wanted cap w then
            (if a = ContextEnded then Some (c, Aborting k)
             else if ch_gate c < cap then Some (c\<lparr>ch_gate := ch_gate c + 1\<rparr>, Filling (k + 1))
             else None)
          else if a = Proceed \<and> 0 < ch_admission c
          then Some (c\<lparr>ch_admission := ch_admission c - 1\<rparr>, Inside)
          else None
      | Aborting k \<Rightarrow>
          if a = ContextEnded then None
          else if 0 < k then
            (if 0 < ch_gate c then Some (c\<lparr>ch_gate := ch_gate c - 1\<rparr>, Aborting (k - 1)) else None)
          else if 0 < ch_admission c
          then Some (c\<lparr>ch_admission := ch_admission c - 1\<rparr>,
                     if wk_exclusive w then DropWriter else Gone)
          else None
      | DropWriter \<Rightarrow>
          if a = Proceed \<and> 0 < ch_writer c then Some (c\<lparr>ch_writer := ch_writer c - 1\<rparr>, Gone)
          else None
      | Inside \<Rightarrow> if a = Proceed then Some (c, Leaving (wanted cap w)) else None
      | Leaving k \<Rightarrow>
          if a = ContextEnded then None
          else if 0 < k then
            (if 0 < ch_gate c then Some (c\<lparr>ch_gate := ch_gate c - 1\<rparr>, Leaving (k - 1)) else None)
          else if \<not> wk_exclusive w then Some (c, Gone)
          else if 0 < ch_writer c then Some (c\<lparr>ch_writer := ch_writer c - 1\<rparr>, Gone)
          else None
      | Gone \<Rightarrow> None)"

record gate_state =
  gs_cap :: nat
  gs_channels :: channels
  gs_workers :: "worker list"

definition new_gate :: "nat \<Rightarrow> gate_state" where
  "new_gate cap =
     \<lparr>gs_cap = cap, gs_channels = \<lparr>ch_gate = 0, ch_writer = 0, ch_admission = 0\<rparr>,
      gs_workers = []\<rparr>"

text \<open>A call of \<open>acquireWorkspace\<close>: a reader starts at the second select.\<close>

definition arrive :: "gate_state \<Rightarrow> bool \<Rightarrow> gate_state" where
  "arrive s exclusive =
     s\<lparr>gs_workers := gs_workers s @ [\<lparr>wk_exclusive = exclusive,
         wk_phase = (if exclusive then AtWriter else AtAdmission)\<rparr>]\<rparr>"

definition gate_step :: "gate_state \<Rightarrow> nat \<Rightarrow> ws_action \<Rightarrow> gate_state option" where
  "gate_step s i a =
     (if length (gs_workers s) \<le> i then None
      else let w = gs_workers s ! i in
        case worker_step (gs_cap s) (gs_channels s) w a of
          None \<Rightarrow> None
        | Some (c, p) \<Rightarrow>
            Some (s\<lparr>gs_channels := c, gs_workers := (gs_workers s)[i := w\<lparr>wk_phase := p\<rparr>]\<rparr>))"

fun gate_run :: "gate_state \<Rightarrow> (nat \<times> ws_action) list \<Rightarrow> gate_state option" where
  "gate_run s [] = Some s"
| "gate_run s ((i, a) # xs) =
     (case gate_step s i a of None \<Rightarrow> None | Some s' \<Rightarrow> gate_run s' xs)"

inductive gate_reachable :: "nat \<Rightarrow> gate_state \<Rightarrow> bool" for cap where
  gate_new: "gate_reachable cap (new_gate cap)"
| gate_arrive: "gate_reachable cap s \<Longrightarrow> gate_reachable cap (arrive s x)"
| gate_more: "gate_reachable cap s \<Longrightarrow> gate_step s i a = Some s' \<Longrightarrow> gate_reachable cap s'"

subsection \<open>Lemmas: what a worker holds\<close>

fun phase_tokens :: "nat \<Rightarrow> phase \<Rightarrow> nat" where
  "phase_tokens n (Filling k) = k"
| "phase_tokens n (Aborting k) = k"
| "phase_tokens n Inside = n"
| "phase_tokens n (Leaving k) = k"
| "phase_tokens n _ = 0"

definition tokens :: "nat \<Rightarrow> worker \<Rightarrow> nat" where
  "tokens cap w = phase_tokens (wanted cap w) (wk_phase w)"

definition has_writer :: "worker \<Rightarrow> nat" where
  "has_writer w = (if wk_exclusive w \<and> wk_phase w \<noteq> AtWriter \<and> wk_phase w \<noteq> Gone then 1 else 0)"

definition has_admission :: "worker \<Rightarrow> nat" where
  "has_admission w = (case wk_phase w of Filling _ \<Rightarrow> 1 | Aborting _ \<Rightarrow> 1 | _ \<Rightarrow> 0)"

definition worker_ok :: "nat \<Rightarrow> worker \<Rightarrow> bool" where
  "worker_ok cap w =
     (tokens cap w \<le> wanted cap w \<and>
      (wk_phase w \<in> {AtWriter, DropWriter} \<longrightarrow> wk_exclusive w))"

text \<open>A step moves what it takes out of or puts into the channels.\<close>

lemma worker_step_balance:
  assumes "worker_step cap c w a = Some (c', p)" "worker_ok cap w"
  defines "w' \<equiv> w\<lparr>wk_phase := p\<rparr>"
  shows "ch_gate c' + tokens cap w = ch_gate c + tokens cap w'"
    "ch_writer c' + has_writer w = ch_writer c + has_writer w'"
    "ch_admission c' + has_admission w = ch_admission c + has_admission w'"
    "worker_ok cap w'"
    "ch_gate c \<le> cap \<Longrightarrow> ch_gate c' \<le> cap"
    "ch_writer c \<le> 1 \<Longrightarrow> ch_writer c' \<le> 1"
    "ch_admission c \<le> 1 \<Longrightarrow> ch_admission c' \<le> 1"
  using assms
  by (auto simp: worker_step_def tokens_def has_writer_def has_admission_def worker_ok_def
      wanted_def split: phase.splits if_splits)

definition total :: "(worker \<Rightarrow> nat) \<Rightarrow> worker list \<Rightarrow> nat" where
  "total f ws = sum_list (map f ws)"

lemma total_update: "i < length ws \<Longrightarrow> total f (ws[i := w]) + f (ws ! i) = total f ws + f w"
proof (induction ws arbitrary: i)
  case Nil
  then show ?case by simp
next
  case (Cons x ws)
  then show ?case by (cases i) (auto simp: total_def)
qed

lemma total_pair:
  "i < length ws \<Longrightarrow> j < length ws \<Longrightarrow> i \<noteq> j \<Longrightarrow> f (ws ! i) + f (ws ! j) \<le> total f ws"
proof (induction ws arbitrary: i j)
  case Nil
  then show ?case by simp
next
  case (Cons x ws)
  have one: "k < length ws \<Longrightarrow> f (ws ! k) \<le> total f ws" for k
    by (simp add: total_def member_le_sum_list)
  from Cons show ?case
    by (cases i; cases j)
       (auto simp: total_def dest: one intro: trans_le_add2 simp: add.commute member_le_sum_list)
qed

lemma total_one: "i < length ws \<Longrightarrow> f (ws ! i) \<le> total f ws"
  by (simp add: total_def member_le_sum_list)

lemma total_zero: "(\<And>w. w \<in> set ws \<Longrightarrow> f w = 0) \<Longrightarrow> total f ws = 0"
  by (simp add: total_def sum_list_eq_0_iff)

subsection \<open>Lemmas: the invariant\<close>

definition gate_ok :: "gate_state \<Rightarrow> bool" where
  "gate_ok s =
     (ch_gate (gs_channels s) = total (tokens (gs_cap s)) (gs_workers s) \<and>
      ch_writer (gs_channels s) = total has_writer (gs_workers s) \<and>
      ch_admission (gs_channels s) = total has_admission (gs_workers s) \<and>
      ch_gate (gs_channels s) \<le> gs_cap s \<and> ch_writer (gs_channels s) \<le> 1 \<and>
      ch_admission (gs_channels s) \<le> 1 \<and> (\<forall>w \<in> set (gs_workers s). worker_ok (gs_cap s) w))"

lemma gate_step_cases:
  assumes "gate_step s i a = Some s'"
  obtains c p where "i < length (gs_workers s)"
    "worker_step (gs_cap s) (gs_channels s) (gs_workers s ! i) a = Some (c, p)"
    "s' = s\<lparr>gs_channels := c, gs_workers := (gs_workers s)[i := (gs_workers s ! i)\<lparr>wk_phase := p\<rparr>]\<rparr>"
  using assms by (auto simp: gate_step_def Let_def split: if_splits option.splits prod.splits)

lemma gate_step_ok:
  assumes "gate_ok s" "gate_step s i a = Some s'"
  shows "gate_ok s'"
  using assms(2)
proof (cases rule: gate_step_cases)
  case (1 c p)
  have ok: "worker_ok (gs_cap s) (gs_workers s ! i)" using assms(1) 1(1) by (simp add: gate_ok_def)
  note b = worker_step_balance [OF 1(2) ok]
  note t = total_update [OF 1(1), where w = "(gs_workers s ! i)\<lparr>wk_phase := p\<rparr>"]
  have "\<forall>w \<in> set (gs_workers s'). worker_ok (gs_cap s) w"
    using assms(1) b(4) set_update_subset_insert [of "gs_workers s" i] unfolding gate_ok_def 1(3)
    by fastforce
  with assms(1) b(1-3,5-7) t [of "tokens (gs_cap s)"] t [of has_writer] t [of has_admission]
  show ?thesis unfolding gate_ok_def 1(3) by simp
qed

lemma gate_reachable_ok: "gate_reachable cap s \<Longrightarrow> gate_ok s \<and> gs_cap s = cap"
proof (induction rule: gate_reachable.induct)
  case gate_new
  then show ?case by (simp add: gate_ok_def new_gate_def total_def)
next
  case (gate_arrive s x)
  then show ?case
    by (auto simp: gate_ok_def arrive_def total_def tokens_def has_writer_def has_admission_def
        worker_ok_def)
next
  case (gate_more s i a s')
  then have "gs_cap s' = gs_cap s" by (auto elim!: gate_step_cases)
  with gate_more gate_step_ok show ?case by blast
qed

subsection \<open>Properties\<close>

definition in_workspace :: "gate_state \<Rightarrow> nat \<Rightarrow> bool" where
  "in_workspace s i = (i < length (gs_workers s) \<and> wk_phase (gs_workers s ! i) = Inside)"

definition waiting_writer :: "gate_state" where
  "waiting_writer = arrive (arrive (new_gate 2) False) True"

lemma gate_run_reachable: "gate_reachable cap s \<Longrightarrow> gate_run s xs = Some s' \<Longrightarrow> gate_reachable cap s'"
  by (induction s xs rule: gate_run.induct) (auto split: option.splits intro: gate_more)

text \<open>
  C13: an agent with exclusive access that is in the workspace is alone there: whatever the
  interleaving, no other agent, exclusive or not, is inside, and none has a token left over; and
  never more agents are inside than the gate has tokens.
\<close>

theorem exclusive_alone:
  assumes "gate_reachable cap s" "0 < cap" "in_workspace s i" "wk_exclusive (gs_workers s ! i)" "j \<noteq> i"
  shows "\<not> in_workspace s j \<and>
    (j < length (gs_workers s) \<longrightarrow> tokens cap (gs_workers s ! j) = 0) \<and>
    length (filter (\<lambda>w. wk_phase w = Inside) (gs_workers s)) \<le> cap"
proof -
  have ok: "gate_ok s" "gs_cap s = cap" using gate_reachable_ok [OF assms(1)] by simp_all
  have le: "total (tokens cap) (gs_workers s) \<le> cap" using ok by (simp add: gate_ok_def)
  have i: "i < length (gs_workers s)" "tokens cap (gs_workers s ! i) = cap"
    using assms(3,4) by (simp_all add: in_workspace_def tokens_def wanted_def)
  have j: "tokens cap (gs_workers s ! j) = 0" if "j < length (gs_workers s)"
    using total_pair [OF i(1) that, of "tokens cap"] assms(5) i(2) le by simp
  have "\<not> in_workspace s j"
    using j assms(2) by (auto simp: in_workspace_def tokens_def wanted_def split: if_splits)
  moreover have "length (filter (\<lambda>w. wk_phase w = Inside) ws) \<le> total (tokens cap) ws" for ws
    using assms(2) by (induction ws) (auto simp: total_def tokens_def wanted_def)
  ultimately show ?thesis using j le le_trans by blast
qed

theorem exclusive_alone_witness:
  "\<exists>s. gate_run waiting_writer [(1, Proceed), (1, Proceed), (1, Proceed), (1, Proceed), (1, Proceed)] = Some s \<and>
     in_workspace s 1 \<and> \<not> in_workspace s 0"
proof -
  let ?xs = "[(1, Proceed), (1, Proceed), (1, Proceed), (1, Proceed), (1, Proceed)]"
  have v: "case gate_run waiting_writer ?xs of None \<Rightarrow> False
      | Some s \<Rightarrow> in_workspace s 1 \<and> wk_exclusive (gs_workers s ! 1)"
    by code_simp
  then obtain s where s: "gate_run waiting_writer ?xs = Some s" "in_workspace s 1"
      "wk_exclusive (gs_workers s ! 1)" by (auto split: option.splits)
  have "gate_reachable 2 waiting_writer"
    unfolding waiting_writer_def by (intro gate_arrive gate_new)
  from gate_run_reachable [OF this s(1)] have "gate_reachable 2 s" .
  from exclusive_alone [OF this _ s(2,3), of 0] s show ?thesis by auto
qed

lemma step_enabled:
  "i < length (gs_workers s) \<Longrightarrow>
   worker_step (gs_cap s) (gs_channels s) (gs_workers s ! i) Proceed \<noteq> None \<Longrightarrow>
   gate_step s i Proceed \<noteq> None"
  by (auto simp: gate_step_def Let_def split: option.splits)

definition returning :: "phase \<Rightarrow> bool" where
  "returning p = (case p of Aborting _ \<Rightarrow> True | DropWriter \<Rightarrow> True | Inside \<Rightarrow> True
     | Leaving _ \<Rightarrow> True | _ \<Rightarrow> False)"

lemma returning_enabled:
  assumes "gate_ok s" "i < length (gs_workers s)" "returning (wk_phase (gs_workers s ! i))"
  shows "gate_step s i Proceed \<noteq> None"
proof (rule step_enabled [OF assms(2)])
  let ?w = "gs_workers s ! i"
  have "tokens (gs_cap s) ?w \<le> ch_gate (gs_channels s)" "has_writer ?w \<le> ch_writer (gs_channels s)"
    "has_admission ?w \<le> ch_admission (gs_channels s)" "worker_ok (gs_cap s) ?w"
    using assms(1,2) total_one [OF assms(2)] by (simp_all add: gate_ok_def)
  with assms(3) show "worker_step (gs_cap s) (gs_channels s) ?w Proceed \<noteq> None"
    by (auto simp: worker_step_def returning_def tokens_def has_writer_def has_admission_def
        worker_ok_def split: phase.splits if_splits)
qed

lemma filling_enabled:
  assumes "gate_ok s" "0 < gs_cap s" "i < length (gs_workers s)" "wk_phase (gs_workers s ! i) = Filling k"
    "\<And>j. j < length (gs_workers s) \<Longrightarrow> \<not> returning (wk_phase (gs_workers s ! j))"
  shows "gate_step s i Proceed \<noteq> None"
proof (rule step_enabled [OF assms(3)])
  let ?w = "gs_workers s ! i" and ?ws = "gs_workers s"
  have adm: "total has_admission ?ws \<le> 1" "has_admission ?w = 1" using assms(1,4)
    by (simp_all add: gate_ok_def has_admission_def)
  have "tokens (gs_cap s) (?ws ! j) = 0" if "j < length ?ws" "j \<noteq> i" for j
    using total_pair [OF assms(3) that(1), of has_admission] that(2) adm assms(5) [OF that(1)]
    by (auto simp: tokens_def has_admission_def returning_def split: phase.splits)
  moreover have "tokens (gs_cap s) (?w\<lparr>wk_phase := Gone\<rparr>) = 0" by (simp add: tokens_def)
  ultimately have "tokens (gs_cap s) (?ws[i := ?w\<lparr>wk_phase := Gone\<rparr>] ! j) = 0"
    if "j < length ?ws" for j using that by (cases "j = i") simp_all
  then have "total (tokens (gs_cap s)) (?ws[i := ?w\<lparr>wk_phase := Gone\<rparr>]) = 0"
    by (intro total_zero) (metis in_set_conv_nth length_list_update)
  with total_update [OF assms(3), where w = "?w\<lparr>wk_phase := Gone\<rparr>" and f = "tokens (gs_cap s)"]
  have "ch_gate (gs_channels s) = k"
    using assms(1,4) by (simp add: gate_ok_def tokens_def)
  moreover have "0 < ch_admission (gs_channels s)"
    using total_one [OF assms(3), of has_admission] adm(2) assms(1) by (simp add: gate_ok_def)
  moreover have "wanted (gs_cap s) ?w \<le> gs_cap s" using assms(2) by (simp add: wanted_def)
  ultimately show "worker_step (gs_cap s) (gs_channels s) ?w Proceed \<noteq> None"
    using assms(4) by (auto simp: worker_step_def)
qed

lemma gate_live:
  assumes "gate_reachable cap s" "0 < cap" "\<exists>w \<in> set (gs_workers s). wk_phase w \<noteq> Gone"
  shows "\<exists>i. gate_step s i Proceed \<noteq> None"
proof (rule ccontr)
  let ?ws = "gs_workers s"
  assume none: "\<not> ?thesis"
  have ok: "gate_ok s" "gs_cap s = cap" using gate_reachable_ok [OF assms(1)] by simp_all
  note returning = returning_enabled [OF ok(1)]
  have nr: "\<not> returning (wk_phase (?ws ! j))" if "j < length ?ws" for j
    using none returning that by blast
  have nf: "wk_phase (?ws ! j) \<noteq> Filling k" if "j < length ?ws" for j k
    using none filling_enabled [OF ok(1) _ that _ nr] assms(2) ok(2) by blast
  have ph: "wk_phase (?ws ! j) \<in> {AtWriter, AtAdmission, Gone}" if "j < length ?ws" for j
    using nr [OF that] nf [OF that] by (cases "wk_phase (?ws ! j)") (auto simp: returning_def)
  then have "has_admission (?ws ! j) = 0" if "j < length ?ws" for j
    using that by (fastforce simp: has_admission_def)
  then have "total has_admission ?ws = 0" by (intro total_zero) (metis in_set_conv_nth)
  then have na: "wk_phase (?ws ! j) \<noteq> AtAdmission" if "j < length ?ws" for j
    using none step_enabled [OF that] ok(1) by (auto simp: gate_ok_def worker_step_def)
  then have "total has_writer ?ws = 0"
    using ph by (intro total_zero) (fastforce simp: in_set_conv_nth has_writer_def)
  then have "wk_phase (?ws ! j) \<noteq> AtWriter" if "j < length ?ws" for j
    using none step_enabled [OF that] ok(1) by (auto simp: gate_ok_def worker_step_def)
  with ph na assms(3) show False by (metis empty_iff in_set_conv_nth insert_iff)
qed

text \<open>
  The gate never locks up: as long as a worker has not left, some worker has a next step
  that no context has to end for, and no receive of a release or of a withdrawal ever waits; when
  all have left, everything acquired has been returned.
\<close>

theorem gate_progress:
  assumes "gate_reachable cap s" "0 < cap"
  shows "((\<exists>w \<in> set (gs_workers s). wk_phase w \<noteq> Gone) \<longrightarrow> (\<exists>i. gate_step s i Proceed \<noteq> None)) \<and>
    (\<forall>i < length (gs_workers s). returning (wk_phase (gs_workers s ! i)) \<longrightarrow>
       gate_step s i Proceed \<noteq> None) \<and>
    ((\<forall>w \<in> set (gs_workers s). wk_phase w = Gone) \<longrightarrow>
       gs_channels s = \<lparr>ch_gate = 0, ch_writer = 0, ch_admission = 0\<rparr>)"
proof -
  let ?ws = "gs_workers s"
  have ok: "gate_ok s" "gs_cap s = cap" using gate_reachable_ok [OF assms(1)] by simp_all
  note returning = returning_enabled [OF ok(1)]
  have "gs_channels s = \<lparr>ch_gate = 0, ch_writer = 0, ch_admission = 0\<rparr>"
    if "\<forall>w \<in> set ?ws. wk_phase w = Gone"
  proof -
    have "total (tokens cap) ?ws = 0" "total has_writer ?ws = 0" "total has_admission ?ws = 0"
      using that by (auto intro!: total_zero simp: tokens_def has_writer_def has_admission_def)
    with ok show ?thesis by (simp add: gate_ok_def)
  qed
  with gate_live [OF assms] returning show ?thesis by blast
qed

theorem gate_progress_witness:
  "\<exists>i. gate_step waiting_writer i Proceed \<noteq> None"
proof -
  have r: "gate_reachable 2 waiting_writer"
    unfolding waiting_writer_def by (intro gate_arrive gate_new)
  have "\<exists>w \<in> set (gs_workers waiting_writer). wk_phase w \<noteq> Gone"
    by (simp add: waiting_writer_def arrive_def new_gate_def)
  with gate_progress [OF r] show ?thesis by simp
qed

subsection \<open>The gate drains\<close>

text \<open>How many steps a worker may still take; every step of a worker uses up at least one.\<close>

fun phase_left :: "nat \<Rightarrow> phase \<Rightarrow> nat" where
  "phase_left n AtWriter = 2 * n + 6"
| "phase_left n AtAdmission = 2 * n + 5"
| "phase_left n (Filling k) = 2 * n + 4 - k"
| "phase_left n (Aborting k) = k + 2"
| "phase_left n DropWriter = 1"
| "phase_left n Inside = n + 2"
| "phase_left n (Leaving k) = k + 1"
| "phase_left n Gone = 0"

definition steps_left :: "gate_state \<Rightarrow> nat" where
  "steps_left s = total (\<lambda>w. phase_left (wanted (gs_cap s) w) (wk_phase w)) (gs_workers s)"

lemma worker_step_left:
  assumes "worker_step cap c w a = Some (c', p)" "worker_ok cap w"
  shows "phase_left (wanted cap w) p < phase_left (wanted cap w) (wk_phase w)"
  using assms
  by (auto simp: worker_step_def worker_ok_def tokens_def split: phase.splits if_splits)

lemma gate_step_left:
  assumes "gate_ok s" "gate_step s i a = Some s'"
  shows "steps_left s' < steps_left s"
  using assms(2)
proof (cases rule: gate_step_cases)
  case (1 c p)
  let ?f = "\<lambda>w. phase_left (wanted (gs_cap s) w) (wk_phase w)"
  let ?w = "(gs_workers s ! i)\<lparr>wk_phase := p\<rparr>"
  have "worker_ok (gs_cap s) (gs_workers s ! i)" using assms(1) 1(1) by (simp add: gate_ok_def)
  from worker_step_left [OF 1(2) this] have "?f ?w < ?f (gs_workers s ! i)" by (simp add: wanted_def)
  moreover have "steps_left s' = total ?f ((gs_workers s)[i := ?w])" by (simp add: steps_left_def 1(3))
  ultimately show ?thesis
    using total_update [OF 1(1), of ?f ?w] by (simp add: steps_left_def)
qed

lemma gate_run_left:
  "gate_reachable cap s \<Longrightarrow> gate_run s xs = Some s' \<Longrightarrow> length xs + steps_left s' \<le> steps_left s"
proof (induction s xs rule: gate_run.induct)
  case (1 s)
  then show ?case by simp
next
  case (2 s i a xs)
  then obtain s1 where s1: "gate_step s i a = Some s1" "gate_run s1 xs = Some s'"
    by (auto split: option.splits)
  have "gate_reachable cap s1" using 2(2) s1(1) by (rule gate_more)
  with 2(1) s1 have "length xs + steps_left s' \<le> steps_left s1" by blast
  with gate_step_left [OF conjunct1 [OF gate_reachable_ok [OF 2(2)]] s1(1)] show ?case by simp
qed

lemma stuck_gone:
  assumes "gate_reachable cap s" "0 < cap" "\<And>i. gate_step s i Proceed = None"
  shows "\<forall>w \<in> set (gs_workers s). wk_phase w = Gone"
  using gate_live [OF assms(1,2)] assms(3) by auto

lemma gate_run_append:
  "gate_run s (xs @ ys) = (case gate_run s xs of None \<Rightarrow> None | Some s' \<Rightarrow> gate_run s' ys)"
  by (induction s xs rule: gate_run.induct) (auto split: option.split)

lemma gate_run_to_end:
  assumes "gate_reachable cap s" "0 < cap"
  shows "\<exists>xs s'. list_all (\<lambda>x. snd x = Proceed) xs \<and> gate_run s xs = Some s' \<and>
    (\<forall>w \<in> set (gs_workers s'). wk_phase w = Gone)"
  using assms(1)
proof (induction "steps_left s" arbitrary: s rule: less_induct)
  case less
  show ?case
  proof (cases "\<exists>i. gate_step s i Proceed \<noteq> None")
    case False
    then have "\<forall>w \<in> set (gs_workers s). wk_phase w = Gone"
      using stuck_gone [OF less.prems assms(2)] by blast
    then show ?thesis by (intro exI [of _ "[]"]) auto
  next
    case True
    then obtain i s1 where s1: "gate_step s i Proceed = Some s1" by auto
    have "gate_reachable cap s1" using less.prems s1 by (rule gate_more)
    moreover have "steps_left s1 < steps_left s"
      using gate_step_left [OF _ s1] gate_reachable_ok [OF less.prems] by simp
    ultimately obtain xs s' where "list_all (\<lambda>x. snd x = Proceed) xs" "gate_run s1 xs = Some s'"
      "\<forall>w \<in> set (gs_workers s'). wk_phase w = Gone" using less.hyps by blast
    with s1 show ?thesis by (intro exI [of _ "(i, Proceed) # xs"] exI [of _ s']) simp
  qed
qed

text \<open>
  C33: as long as no worker arrives the gate drains: a run from any reachable state has at most
  \<open>steps_left\<close> steps, whoever is scheduled and whichever contexts end; a run in which nobody can
  proceed any more has let everybody through; and letting workers proceed is enough to get there.
\<close>

theorem gate_drains:
  assumes "gate_reachable cap s" "0 < cap"
  shows "(\<forall>xs s'. gate_run s xs = Some s' \<longrightarrow> length xs \<le> steps_left s \<and>
      ((\<forall>i. gate_step s' i Proceed = None) \<longrightarrow> (\<forall>w \<in> set (gs_workers s'). wk_phase w = Gone))) \<and>
    (\<exists>xs s'. list_all (\<lambda>x. snd x = Proceed) xs \<and> gate_run s xs = Some s' \<and>
      (\<forall>w \<in> set (gs_workers s'). wk_phase w = Gone))"
proof (intro conjI allI impI)
  fix xs s'
  assume run: "gate_run s xs = Some s'"
  show "length xs \<le> steps_left s" using gate_run_left [OF assms(1) run] by simp
  assume "\<forall>i. gate_step s' i Proceed = None"
  then show "\<forall>w \<in> set (gs_workers s'). wk_phase w = Gone"
    using stuck_gone [OF gate_run_reachable [OF assms(1) run] assms(2)] by blast
qed (rule gate_run_to_end [OF assms])

theorem gate_drains_witness:
  "\<exists>xs s'. gate_run waiting_writer xs = Some s' \<and> (\<forall>w \<in> set (gs_workers s'). wk_phase w = Gone)"
proof -
  have "gate_reachable 2 waiting_writer"
    unfolding waiting_writer_def by (intro gate_arrive gate_new)
  from conjunct2 [OF gate_drains [OF this zero_less_numeral]] show ?thesis by blast
qed

end
