(* ===== verification/Str_Search.thy ===== *)
theory Str_Search
  imports Go_Prelude
begin

text \<open>
  Search for a substring: \<open>strings.Index\<close> and \<open>strings.Count\<close>, with what the markdown format
  of the plan needs to know of them. The program marks places of a document with markers; a
  marker is found again after an edit of another place because no occurrence begins in one
  piece of the document and ends in the next. \<open>passes m y\<close> says that a piece \<open>y\<close> holds no
  beginning of \<open>m\<close>, whatever follows; \<open>no_straddle\<close> is the case where what follows starts with
  a character that \<open>m\<close> has only at its front.
\<close>

text \<open>\<open>strings.Index\<close>; nothing stands for \<open>-1\<close>.\<close>

fun find_sub :: "string \<Rightarrow> string \<Rightarrow> nat option" where
  "find_sub m [] = (if m = [] then Some 0 else None)"
| "find_sub m (c # s) = (if has_prefix (c # s) m then Some 0 else map_option Suc (find_sub m s))"

text \<open>\<open>strings.Count\<close> for a substring that is not empty: occurrences that do not overlap.\<close>

function count_sub :: "string \<Rightarrow> string \<Rightarrow> nat" where
  "count_sub m [] = 0"
| "count_sub m (c # s) =
     (if has_prefix (c # s) m then Suc (count_sub m (drop (length m - 1) s)) else count_sub m s)"
  by pat_completeness auto
termination
  by (relation "measure (\<lambda>(m, s). length s)") auto

lemma map_option_plus_0 [simp]: "map_option ((+) (0 :: nat)) x = x"
  by (cases x) simp_all

subsection \<open>First occurrences\<close>

lemma has_prefix_Cons [simp]: "has_prefix (c # s) (d # p) \<longleftrightarrow> c = d \<and> has_prefix s p"
  by (simp add: has_prefix_def)

lemma has_prefix_Nil_left [simp]: "has_prefix [] p \<longleftrightarrow> p = []"
  by (auto simp: has_prefix_def)

lemma find_sub_None: "find_sub m s = None \<longleftrightarrow> \<not> contains s m"
  by (induction s) auto

lemma count_sub_0: "m \<noteq> [] \<Longrightarrow> count_sub m s = 0 \<longleftrightarrow> \<not> contains s m"
  by (induction s) auto

lemma count_find: "m \<noteq> [] \<Longrightarrow> count_sub m s = 0 \<longleftrightarrow> find_sub m s = None"
  by (simp add: find_sub_None count_sub_0)

lemma find_sub_Some:
  "find_sub m s = Some i \<Longrightarrow> s = take i s @ m @ drop (i + length m) s \<and> i + length m \<le> length s"
proof (induction s arbitrary: i)
  case Nil
  then show ?case by (auto split: if_splits)
next
  case (Cons c s)
  show ?case
  proof (cases "has_prefix (c # s) m")
    case True
    then obtain r where "c # s = m @ r" by (auto simp: has_prefix_iff)
    moreover from Cons.prems True have "i = 0" by simp
    ultimately show ?thesis by simp
  next
    case False
    with Cons.prems obtain j where "find_sub m s = Some j" "i = Suc j" by auto
    with Cons.IH [of j] show ?thesis by auto
  qed
qed

lemma find_sub_before: "find_sub m s = Some i \<Longrightarrow> m \<noteq> [] \<Longrightarrow> find_sub m (take i s) = None"
proof (induction s arbitrary: i)
  case Nil
  then show ?case by simp
next
  case (Cons c s)
  show ?case
  proof (cases "has_prefix (c # s) m")
    case True
    with Cons.prems show ?thesis by simp
  next
    case False
    with Cons.prems obtain j where j: "find_sub m s = Some j" "i = Suc j" by auto
    have "\<not> has_prefix (take (Suc j) (c # s)) m"
      using False by (metis append.assoc append_take_drop_id has_prefix_iff)
    with Cons.IH [OF j(1) Cons.prems(2)] j(2) show ?thesis by simp
  qed
qed

subsection \<open>Pieces of a document\<close>

definition passes :: "string \<Rightarrow> string \<Rightarrow> bool" where
  "passes m y \<longleftrightarrow> (\<forall>b. find_sub m (y @ b) = map_option (\<lambda>i. length y + i) (find_sub m b) \<and>
                      count_sub m (y @ b) = count_sub m b)"

lemma passes_find: "passes m y \<Longrightarrow> find_sub m (y @ b) = map_option (\<lambda>i. length y + i) (find_sub m b)"
  by (simp add: passes_def)

lemma passes_count: "passes m y \<Longrightarrow> count_sub m (y @ b) = count_sub m b"
  by (simp add: passes_def)

lemma passes_none: "passes m y \<Longrightarrow> count_sub m y = 0"
  using passes_count [of m y "[]"] by simp

lemma passes_Nil [simp]: "passes m []"
  by (simp add: passes_def option.map_ident)

lemma passes_append: "passes m x \<Longrightarrow> passes m y \<Longrightarrow> passes m (x @ y)"
  by (simp add: passes_def option.map_comp o_def add.assoc)

lemma passes_Cons: "\<forall>b. \<not> has_prefix (c # y @ b) m \<Longrightarrow> passes m y \<Longrightarrow> passes m (c # y)"
  by (auto simp: passes_def option.map_comp o_def)

lemma passes_no_head: "c \<notin> set y \<Longrightarrow> passes (c # m) y"
  by (induction y) (auto intro: passes_Cons)

lemma passes_concat: "\<forall>x \<in> set xs. passes m x \<Longrightarrow> passes m (concat xs)"
  by (induction xs) (auto intro: passes_append)

text \<open>What follows starts with a character that occurs in the marker only at its front.\<close>

definition no_straddle :: "string \<Rightarrow> string \<Rightarrow> bool" where
  "no_straddle m b = (b = [] \<or> hd b \<notin> set (tl m))"

lemma prefix_no_straddle:
  assumes "no_straddle m b" "a \<noteq> []"
  shows "has_prefix (a @ b) m = has_prefix a m"
proof
  assume h: "has_prefix (a @ b) m"
  show "has_prefix a m"
  proof (cases "length m \<le> length a")
    case True
    with h show ?thesis by (simp add: has_prefix_def)
  next
    case False
    from h obtain r where "a @ b = m @ r" by (auto simp: has_prefix_iff)
    with False obtain u where u: "m = a @ u" "b = u @ r"
      by (auto simp: append_eq_append_conv2)
    with False have "u \<noteq> []" by auto
    with u assms have "hd b \<in> set (tl m)" "b \<noteq> []" by (auto simp: neq_Nil_conv)
    with assms(1) show ?thesis by (auto simp: no_straddle_def)
  qed
next
  assume "has_prefix a m"
  then show "has_prefix (a @ b) m" by (auto simp: has_prefix_iff)
qed

lemma find_append:
  assumes "no_straddle m b" "m \<noteq> []"
  shows "find_sub m (a @ b) =
    (case find_sub m a of Some i \<Rightarrow> Some i | None \<Rightarrow> map_option (\<lambda>i. length a + i) (find_sub m b))"
proof (induction a)
  case Nil
  then show ?case using assms(2) by simp
next
  case (Cons c a)
  have p: "has_prefix (c # a @ b) m = has_prefix (c # a) m"
    using prefix_no_straddle [OF assms(1), of "c # a"] by simp
  show ?case
    by (cases "find_sub m a"; cases "find_sub m b") (simp_all add: p Cons.IH)
qed

lemma count_append:
  assumes "no_straddle m b" "m \<noteq> []"
  shows "count_sub m (a @ b) = count_sub m a + count_sub m b"
proof (induction "length a" arbitrary: a rule: less_induct)
  case less
  show ?case
  proof (cases a)
    case Nil
    then show ?thesis by simp
  next
    case (Cons c r)
    have p: "has_prefix (c # r @ b) m = has_prefix (c # r) m"
      using prefix_no_straddle [OF assms(1), of "c # r"] by simp
    have l: "has_prefix (c # r) m \<Longrightarrow> length m - 1 \<le> length r"
      by (auto simp: has_prefix_def dest!: arg_cong [where f = length])
    show ?thesis
    proof (cases "has_prefix (c # r) m")
      case True
      with l less [of "drop (length m - 1) r"] Cons p show ?thesis by simp
    next
      case False
      with less [of r] Cons p show ?thesis by simp
    qed
  qed
qed

subsection \<open>The bytes of white space\<close>

definition space_bytes :: "char set" where
  "space_bytes = {c. ascii_space c} \<union>
     {CHR 0xC2, CHR 0x85, CHR 0xA0, CHR 0xE1, CHR 0x9A, CHR 0x80, CHR 0xE2, CHR 0x81, CHR 0x82,
      CHR 0x83, CHR 0x84, CHR 0x86, CHR 0x87, CHR 0x88, CHR 0x89, CHR 0x8A, CHR 0xA8, CHR 0xA9,
      CHR 0xAF, CHR 0x9F, CHR 0xE3}"

lemma space_len_bytes: "set (take (space_len s) s) \<subseteq> space_bytes"
  by (cases s rule: space_len.cases)
    (auto simp: space_bytes_def space2_def space3_def split: list.splits if_splits)

lemma space_len_rev_bytes: "set (take (space_len_rev s) s) \<subseteq> space_bytes"
  by (cases s rule: space_len_rev.cases)
    (auto simp: space_bytes_def space2_def space3_def split: list.splits if_splits)

lemma trim_front_bytes:
  assumes "\<And>s. set (take (f s) s) \<subseteq> space_bytes"
  shows "set s \<subseteq> set (trim_front f s) \<union> space_bytes"
  using assms
proof (induction f s rule: trim_front.induct)
  case (1 f s)
  show ?case
  proof (cases "f s = 0 \<or> s = []")
    case True
    then show ?thesis by (subst trim_front.simps) auto
  next
    case False
    with 1 have "set (drop (f s) s) \<subseteq> set (trim_front f (drop (f s) s)) \<union> space_bytes" by blast
    moreover have "set s = set (take (f s) s) \<union> set (drop (f s) s)"
      by (metis append_take_drop_id set_append)
    moreover have "trim_front f s = trim_front f (drop (f s) s)"
      using False by (subst trim_front.simps) simp
    ultimately show ?thesis using "1.prems" [of s] by auto
  qed
qed

lemma trim_space_bytes: "set s \<subseteq> set (trim_space s) \<union> space_bytes"
  using trim_front_bytes [of space_len s, OF space_len_bytes]
    trim_front_bytes [of space_len_rev "rev (trim_front space_len s)", OF space_len_rev_bytes]
  by (auto simp: trim_space_def)

lemma trim_space_outside: "c \<notin> space_bytes \<Longrightarrow> c \<notin> set (trim_space s) \<Longrightarrow> c \<notin> set s"
  using trim_space_bytes by blast

end
