(* ===== verification/Todo_Markdown.thy ===== *)
theory Todo_Markdown
  imports Todo_Plan Str_Search
begin

text \<open>
  The plan as a section of a markdown file: \<open>internal/feature/todo\<close>, files
  \<open>markdown_format.go\<close> (the document), \<open>parse.go\<close> (documents without a section) and
  \<open>markdown_store.go\<close> (the store). The file is one string; a document has a managed section
  between two markers, a marker with the revision and one with the fingerprint of the goal.

  SHA-256 is the parameter \<open>sha_hex\<close>, from a string to the 64 hexadecimal digits of its digest.
  The file system is a record per operation: whether the context is done, whether the lock is
  taken, whether the file can be read, and how the atomic write ends. A write can fail after
  the rename, when the directory cannot be synced: then the file is replaced and the operation
  reports an error.
\<close>

subsection \<open>Markers\<close>

definition managed_start :: string where
  "managed_start = ''<!-- proton:todos:start -->''"

definition managed_end :: string where
  "managed_end = ''<!-- proton:todos:end -->''"

definition revision_prefix :: string where
  "revision_prefix = ''<!-- proton:todo version=1 revision=''"

definition goal_prefix :: string where
  "goal_prefix = ''<!-- proton:todo-goal sha256=''"

definition goal_unbound :: string where
  "goal_unbound = ''none''"

definition nl :: char where
  "nl = CHR 0x0A"

datatype md_error = SectionCount | SectionOrder | MissingId string | ItemsInvalid todo_error
  | RevisionCount | RevisionMarker | RevisionValue string
  | GoalCount | GoalMarker | GoalValue string
  | MdContext | MdLock | MdRead | MdWrite | MdConflict u64 u64 | MdPatch todo_error

subsection \<open>Documents without a section\<close>

text \<open>The status of a list line, if it is one.\<close>

definition line_status :: "string \<Rightarrow> status option" where
  "line_status t =
     (if has_prefix t ''- [ ] '' then Some StatusPending
      else if has_prefix t ''- [~] '' then Some StatusInProgress
      else if has_prefix t ''- [x] '' \<or> has_prefix t ''- [X] '' then Some StatusCompleted
      else None)"

definition legacy_id :: "(string \<Rightarrow> string) \<Rightarrow> string \<Rightarrow> nat \<Rightarrow> string" where
  "legacy_id sha_hex text k =
     ''legacy-'' @ take 12 (sha_hex (trim_space text)) @ ''-'' @ digits_of k"

text \<open>\<open>seen\<close> are the texts of the items so far, the map \<open>occurrences\<close> of the code.\<close>

fun parse_legacy :: "(string \<Rightarrow> string) \<Rightarrow> string list \<Rightarrow> string list \<Rightarrow> item list" where
  "parse_legacy sha_hex seen [] = []"
| "parse_legacy sha_hex seen (l # ls) =
     (let t = trim_space l in
      case line_status t of
        None \<Rightarrow> parse_legacy sha_hex seen ls
      | Some st \<Rightarrow>
          let text = trim_space (drop 6 t) in
          if text = [] then parse_legacy sha_hex seen ls
          else \<lparr>item_id = legacy_id sha_hex text (Suc (count_list seen text)), item_text = text,
                item_status = st\<rparr> # parse_legacy sha_hex (text # seen) ls)"

definition parse_markdown :: "(string \<Rightarrow> string) \<Rightarrow> string \<Rightarrow> item list" where
  "parse_markdown sha_hex md = parse_legacy sha_hex [] (split_char nl md)"

subsection \<open>The managed section\<close>

definition parse_line :: "string \<Rightarrow> (md_error, item option) result" where
  "parse_line l =
     (let t = trim_space l in
      case line_status t of
        None \<Rightarrow> Inr None
      | Some st \<Rightarrow>
          let rest = trim_space (drop 6 t) in
          if \<not> has_prefix rest ''['' then Inl (MissingId t)
          else (case find_sub '']'' rest of
              None \<Rightarrow> Inl (MissingId t)
            | Some k \<Rightarrow>
                if k \<le> 1 then Inl (MissingId t)
                else Inr (Some \<lparr>item_id = take (k - 1) (drop 1 rest),
                                item_text = trim_space (drop (k + 1) rest), item_status = st\<rparr>)))"

fun parse_lines :: "string list \<Rightarrow> (md_error, item list) result" where
  "parse_lines [] = Inr []"
| "parse_lines (l # ls) =
     (case parse_line l of
        Inl e \<Rightarrow> Inl e
      | Inr r \<Rightarrow>
          (case parse_lines ls of
             Inl e \<Rightarrow> Inl e
           | Inr items \<Rightarrow> Inr (case r of None \<Rightarrow> items | Some it \<Rightarrow> it # items)))"

definition parse_body :: "string \<Rightarrow> (md_error, item list) result" where
  "parse_body body =
     (case parse_lines (split_char nl body) of
        Inl e \<Rightarrow> Inl e
      | Inr items \<Rightarrow>
          (case validate_items items of Some e \<Rightarrow> Inl (ItemsInvalid e) | None \<Rightarrow> Inr items))"

definition parse_document :: "(string \<Rightarrow> string) \<Rightarrow> string \<Rightarrow> (md_error, item list) result" where
  "parse_document sha_hex content =
     (let starts = count_sub managed_start content; ends = count_sub managed_end content in
      if starts = 0 \<and> ends = 0 then Inr (parse_markdown sha_hex content)
      else if starts \<noteq> 1 \<or> ends \<noteq> 1 then Inl SectionCount
      else case (find_sub managed_start content, find_sub managed_end content) of
          (Some s, Some e) \<Rightarrow>
            if e < s then Inl SectionOrder
            else parse_body (take (e - (s + length managed_start))
                                  (drop (s + length managed_start) content))
        | _ \<Rightarrow> Inl SectionOrder)"

definition status_mark :: "status \<Rightarrow> string" where
  "status_mark st =
     (case st of StatusInProgress \<Rightarrow> ''~'' | StatusCompleted \<Rightarrow> ''x'' | _ \<Rightarrow> '' '')"

definition item_line :: "item \<Rightarrow> string" where
  "item_line it =
     ''- ['' @ status_mark (item_status it) @ ''] ['' @ item_id it @ ''] '' @ item_text it"

definition render_managed :: "item list \<Rightarrow> string" where
  "render_managed items = join [nl] (managed_start # map item_line items @ [managed_end])"

definition render_document :: "string \<Rightarrow> item list \<Rightarrow> string" where
  "render_document content items =
     (let sec = render_managed items;
          appended = (if content = [] then sec @ [nl]
            else content @ (if has_suffix content [nl] then [] else [nl]) @ [nl] @ sec @ [nl])
      in case (find_sub managed_start content, find_sub managed_end content) of
          (Some s, Some e) \<Rightarrow>
            if s \<le> e then take s content @ sec @ drop (e + length managed_end) content
            else appended
        | _ \<Rightarrow> appended)"

subsection \<open>The revision and the goal\<close>

text \<open>The trimmed value after the first occurrence of a marker, up to the end of the comment.\<close>

definition marker_value :: "string \<Rightarrow> string \<Rightarrow> string option" where
  "marker_value m content =
     (case find_sub m content of
        None \<Rightarrow> None
      | Some i \<Rightarrow>
          let t = drop (i + length m) content in
          map_option (\<lambda>j. trim_space (take j t)) (find_sub '' -->'' t))"

text \<open>The content with the comment that starts at the first occurrence of \<open>m\<close> replaced.\<close>

definition replace_marker :: "string \<Rightarrow> string \<Rightarrow> string \<Rightarrow> string option" where
  "replace_marker m content marker =
     (case find_sub m content of
        None \<Rightarrow> None
      | Some i \<Rightarrow>
          map_option (\<lambda>j. take i content @ marker @ drop (i + j + 3) content)
            (find_sub ''-->'' (drop i content)))"

text \<open>The content with a line inserted before the managed section.\<close>

definition insert_marker :: "string \<Rightarrow> string \<Rightarrow> string option" where
  "insert_marker content marker =
     map_option (\<lambda>i. take i content @ marker @ [nl] @ drop i content)
       (find_sub managed_start content)"

definition parse_revision :: "string \<Rightarrow> (md_error, u64) result" where
  "parse_revision content =
     (if count_sub revision_prefix content = 0 then Inr 0
      else if count_sub revision_prefix content \<noteq> 1 then Inl RevisionCount
      else case marker_value revision_prefix content of
          None \<Rightarrow> Inl RevisionMarker
        | Some v \<Rightarrow>
            (case parse_uint64 v of None \<Rightarrow> Inl (RevisionValue v) | Some n \<Rightarrow> Inr (of_nat n)))"

definition parse_document_state :: "(string \<Rightarrow> string) \<Rightarrow> string \<Rightarrow> (md_error, u64 \<times> item list) result" where
  "parse_document_state sha_hex content =
     (case parse_revision content of
        Inl e \<Rightarrow> Inl e
      | Inr rv \<Rightarrow>
          (case parse_document sha_hex content of
             Inl e \<Rightarrow> Inl e
           | Inr items \<Rightarrow> Inr (rv, items)))"

definition revision_marker :: "u64 \<Rightarrow> string" where
  "revision_marker rv = revision_prefix @ digits_of (unat rv) @ '' -->''"

definition render_document_state :: "string \<Rightarrow> u64 \<Rightarrow> item list \<Rightarrow> string" where
  "render_document_state content rv items =
     (let rendered = render_document content items; marker = revision_marker rv in
      case replace_marker revision_prefix rendered marker of
        Some r \<Rightarrow> r
      | None \<Rightarrow>
          (case insert_marker rendered marker of
             Some r \<Rightarrow> r
           | None \<Rightarrow> if rendered = [] then marker @ [nl] else rendered @ [nl] @ marker @ [nl]))"

definition goal_fingerprint :: "(string \<Rightarrow> string) \<Rightarrow> string \<Rightarrow> string" where
  "goal_fingerprint sha_hex goal =
     (if trim_space goal = [] then goal_unbound else sha_hex (trim_space goal))"

definition hex_char :: "char \<Rightarrow> bool" where
  "hex_char c = (digit_char c \<or>
     (97 \<le> (of_char c :: nat) \<and> (of_char c :: nat) \<le> 102) \<or>
     (65 \<le> (of_char c :: nat) \<and> (of_char c :: nat) \<le> 70))"

definition fingerprint_ok :: "string \<Rightarrow> bool" where
  "fingerprint_ok v = (list_all hex_char v \<and> length v = 64 \<and> v = to_lower v)"

text \<open>The fingerprint the document is bound to, if there is a marker.\<close>

definition parse_goal_binding :: "string \<Rightarrow> (md_error, string option) result" where
  "parse_goal_binding content =
     (if count_sub goal_prefix content = 0 then Inr None
      else if count_sub goal_prefix content \<noteq> 1 then Inl GoalCount
      else case marker_value goal_prefix content of
          None \<Rightarrow> Inl GoalMarker
        | Some v \<Rightarrow>
            if v = goal_unbound \<or> fingerprint_ok v then Inr (Some v) else Inl (GoalValue v))"

definition render_goal_binding :: "string \<Rightarrow> string \<Rightarrow> string" where
  "render_goal_binding content fp =
     (let marker = goal_prefix @ fp @ '' -->'' in
      case replace_marker goal_prefix content marker of
        Some r \<Rightarrow> r
      | None \<Rightarrow>
          (case insert_marker content marker of
             Some r \<Rightarrow> r
           | None \<Rightarrow>
               if content = [] then marker @ [nl]
               else content @ (if has_suffix content [nl] then [] else [nl]) @ marker @ [nl]))"
subsection \<open>Lemmas: white space\<close>

lemma not_space_bytes [simp]:
  "CHR ''<'' \<notin> space_bytes" "CHR ''-'' \<notin> space_bytes" "CHR '']'' \<notin> space_bytes"
  by (simp_all add: space_bytes_def ascii_space_def)

lemma trim_space_drop_space:
  assumes "trim_space t = t"
  shows "trim_space (CHR '' '' # t) = t"
proof -
  have "space_len t = 0" using trim_space_ends(1) [of t] assms by simp
  then have "trim_front space_len (CHR '' '' # t) = t"
    by (subst trim_front.simps) (simp add: ascii_space_def trim_front_stop)
  moreover have "space_len_rev (rev t) = 0" using trim_space_ends(2) [of t] assms by simp
  ultimately show ?thesis by (simp add: trim_space_def trim_front_stop)
qed

text \<open>A line that starts with a printing character and ends with a trimmed text is trimmed.\<close>

lemma space_len_rev_append:
  assumes "space_len_rev x = 0" "x \<noteq> []"
  shows "space_len_rev (x @ CHR '' '' # y) = 0"
  using assms
  by (cases x rule: space_len_rev.cases)
    (auto simp: ascii_space_def space2_def space3_def split: list.splits if_splits)

lemma trim_space_line:
  assumes "ascii_space c = False" "c = CHR ''-'' \<or> c = CHR ''[''" "trim_space t = t" "t \<noteq> []"
  shows "trim_space (c # p @ CHR '' '' # t) = c # p @ CHR '' '' # t"
proof (rule trim_space_id)
  show "space_len (c # p @ CHR '' '' # t) = 0"
    using assms(1,2) by (auto simp: space2_def space3_def split: list.splits)
  have "space_len_rev (rev t) = 0" using trim_space_ends(2) [of t] assms(3) by simp
  then show "space_len_rev (rev (c # p @ CHR '' '' # t)) = 0"
    using space_len_rev_append [of "rev t" "rev p @ [c]"] assms(4) by simp
qed

subsection \<open>Lemmas: the markers\<close>

definition marker :: "string \<Rightarrow> bool" where
  "marker m = (m \<in> {managed_start, managed_end, revision_prefix, goal_prefix})"

lemmas marker_defs = managed_start_def managed_end_def revision_prefix_def goal_prefix_def

lemma marker_intros [simp]:
  "marker managed_start" "marker managed_end" "marker revision_prefix" "marker goal_prefix"
  by (simp_all add: marker_def)

lemma marker_shape:
  "marker m \<Longrightarrow> \<exists>t. m = CHR ''<'' # t \<and> CHR ''<'' \<notin> set t \<and> nl \<notin> set t"
  by (auto simp: marker_def marker_defs nl_def)

lemma marker_not_Nil [simp]: "marker m \<Longrightarrow> m \<noteq> []"
  by (auto dest: marker_shape)

lemma marker_proton: "marker m \<Longrightarrow> contains m ''<!-- proton:''"
  by (auto simp: marker_def marker_defs)

lemma marker_no_straddle: "marker m \<Longrightarrow> b = [] \<or> hd b = CHR ''<'' \<or> hd b = nl \<Longrightarrow> no_straddle m b"
  using marker_shape [of m] by (auto simp: no_straddle_def)

lemma marker_passes: "marker m \<Longrightarrow> CHR ''<'' \<notin> set y \<Longrightarrow> passes m y"
  using marker_shape [of m] passes_no_head by blast

lemma passes_lt:
  "\<forall>b. \<not> has_prefix (CHR ''<'' # t @ b) (CHR ''<'' # m) \<Longrightarrow> CHR ''<'' \<notin> set t \<Longrightarrow>
    passes (CHR ''<'' # m) (CHR ''<'' # t)"
  by (rule passes_Cons) (auto intro: passes_no_head)

lemma marker_no_prefix: "marker m \<Longrightarrow> marker m' \<Longrightarrow> m \<noteq> m' \<Longrightarrow> \<not> has_prefix (m' @ b) m"
  by (elim disjE | simp add: marker_def marker_defs)+

lemma marker_passes_marker:
  assumes "marker m" "marker m'" "m \<noteq> m'"
  shows "passes m m'"
proof -
  from assms(2) obtain t' where t': "m' = CHR ''<'' # t'" "CHR ''<'' \<notin> set t'"
    using marker_shape by blast
  from assms(1) obtain t where t: "m = CHR ''<'' # t" using marker_shape by blast
  have "\<forall>b. \<not> has_prefix (CHR ''<'' # t' @ b) (CHR ''<'' # t)"
    using marker_no_prefix [OF assms] t t'(1) by simp
  with t t' show ?thesis by (auto intro: passes_lt)
qed

lemma count_marker:
  assumes "marker m" "CHR ''<'' \<notin> set w"
  shows "count_sub m (m @ w @ b) = Suc (count_sub m b)"
proof -
  from assms(1) obtain t where t: "m = CHR ''<'' # t" "CHR ''<'' \<notin> set t" using marker_shape by blast
  have "count_sub m (m @ w @ b) = Suc (count_sub m (w @ b))" using t(1) by simp
  then show ?thesis using passes_count [OF marker_passes [OF assms]] by simp
qed

lemma find_marker:
  assumes "marker m" "find_sub m a = None"
  shows "find_sub m (a @ m @ b) = Some (length a)"
proof -
  from assms(1) obtain t where t: "m = CHR ''<'' # t" using marker_shape by blast
  then have "find_sub m (m @ b) = Some 0" by simp
  moreover have "no_straddle m (m @ b)" using assms(1) t by (intro marker_no_straddle) auto
  ultimately show ?thesis using find_append [of m "m @ b" a] assms t by simp
qed

lemma find_close: "CHR '' '' \<notin> set d \<Longrightarrow> find_sub '' -->'' (d @ '' -->'' @ b) = Some (length d)"
  using passes_find [OF passes_no_head [of "CHR '' ''" d "''-->''"], of "'' -->'' @ b"] by simp

lemma marker_value_hit:
  assumes "marker m" "find_sub m a = None" "CHR '' '' \<notin> set d"
  shows "marker_value m (a @ m @ d @ '' -->'' @ b) = Some (trim_space d)"
  using find_marker [OF assms(1,2), of "d @ '' -->'' @ b"] find_close [OF assms(3), of b]
  by (simp add: marker_value_def)

text \<open>A value is not touched by an edit elsewhere.\<close>

lemma close_in_piece:
  assumes "find_sub '' -->'' (t @ z) = Some j" "z = [] \<or> hd z = CHR ''<''"
    "CHR ''<'' \<notin> set (take j (t @ z))"
  shows "find_sub '' -->'' t = Some j"
proof (cases "find_sub '' -->'' t")
  case None
  have "no_straddle '' -->'' z" using assms(2) by (auto simp: no_straddle_def)
  with None assms(1) obtain k where k: "find_sub '' -->'' z = Some k" "j = length t + k"
    using find_append [of "'' -->''" z t] by auto
  then obtain z' where z: "z = CHR ''<'' # z'" using assms(2) by (cases z) auto
  with k(1) have "0 < k" by (auto split: if_splits)
  with k(2) z have "CHR ''<'' \<in> set (take j (t @ z))" by (cases k) auto
  with assms(3) show ?thesis by blast
next
  case (Some i)
  have "no_straddle '' -->'' z" using assms(2) by (auto simp: no_straddle_def)
  with Some assms(1) show ?thesis using find_append [of "'' -->''" z t] by simp
qed

lemma marker_value_frame:
  assumes m: "marker m" "passes m x" "passes m y"
    and v: "marker_value m (a @ x @ b) = Some v" "CHR ''<'' \<notin> set v"
    and x: "x @ b = [] \<or> hd (x @ b) = CHR ''<''"
    and y: "y @ b = [] \<or> hd (y @ b) = CHR ''<'' \<or> hd (y @ b) = nl"
  shows "marker_value m (a @ y @ b) = Some v"
proof -
  have sx: "no_straddle m (x @ b)" using m(1) x by (intro marker_no_straddle) auto
  have sy: "no_straddle m (y @ b)" using m(1) y by (intro marker_no_straddle) auto
  note fx = find_append [OF sx marker_not_Nil [OF m(1)], of a]
  note fy = find_append [OF sy marker_not_Nil [OF m(1)], of a]
  show ?thesis
  proof (cases "find_sub m a")
    case None
    with v(1) fx fy passes_find [OF m(2), of b] passes_find [OF m(3), of b] show ?thesis
      by (auto simp: marker_value_def Let_def split: option.splits)
  next
    case (Some i)
    let ?t = "drop (i + length m) a"
    have i: "i + length m \<le> length a" using find_sub_Some [OF Some] by simp
    with Some fx v(1) obtain j where j: "find_sub '' -->'' (?t @ x @ b) = Some j"
        "v = trim_space (take j (?t @ x @ b))"
      by (auto simp: marker_value_def Let_def split: option.splits)
    have "CHR ''<'' \<notin> set (take j (?t @ x @ b))"
      using v(2) unfolding j(2) by (rule trim_space_outside [OF not_space_bytes(1)])
    with close_in_piece [OF j(1)] x have f: "find_sub '' -->'' ?t = Some j" by blast
    then have l: "j \<le> length ?t" using find_sub_Some [OF f] by simp
    have "no_straddle '' -->'' (y @ b)" using y by (auto simp: no_straddle_def nl_def)
    with f have "find_sub '' -->'' (?t @ y @ b) = Some j"
      using find_append [of "'' -->''" "y @ b" ?t] by simp
    with Some fy i j(2) l show ?thesis by (simp add: marker_value_def Let_def)
  qed
qed

lemma find_comment_end:
  assumes "marker m" "CHR ''-'' \<notin> set w" "m = revision_prefix \<or> m = goal_prefix"
  shows "find_sub ''-->'' (m @ w @ '' -->'' @ b) = Some (length m + length w + 1)"
proof -
  have "find_sub ''-->'' (m @ z) = map_option (\<lambda>i. length m + i) (find_sub ''-->'' z)" for z
    using assms(3) by (auto simp: marker_defs option.map_comp o_def)
  moreover have "find_sub ''-->'' (w @ '' -->'' @ b) = Some (length w + 1)"
    using passes_find [OF passes_no_head [OF assms(2), of "''->''"], of "'' -->'' @ b"] by simp
  ultimately show ?thesis by simp
qed

lemma marker_split:
  assumes m: "marker m" "m = revision_prefix \<or> m = goal_prefix"
    and v: "marker_value m c = Some v" "CHR ''<'' \<notin> set v" "CHR ''-'' \<notin> set v"
  obtains a w b where "c = a @ (m @ w @ '' -->'') @ b" "find_sub m a = None" "trim_space w = v"
    "CHR ''<'' \<notin> set w" "\<And>mk. replace_marker m c mk = Some (a @ mk @ b)"
proof -
  from v(1) obtain i j where i: "find_sub m c = Some i"
      and j: "find_sub '' -->'' (drop (i + length m) c) = Some j"
      and w: "v = trim_space (take j (drop (i + length m) c))"
    by (auto simp: marker_value_def Let_def split: option.splits)
  define a where "a = take i c"
  define w where "w = take j (drop (i + length m) c)"
  define b where "b = drop (j + 4) (drop (i + length m) c)"
  have t: "drop (i + length m) c = w @ '' -->'' @ b"
    using find_sub_Some [OF j] unfolding w_def b_def by (simp add: numeral_eq_Suc)
  have c: "c = a @ m @ w @ '' -->'' @ b" and la: "length a = i"
    using find_sub_Some [OF i] t by (auto simp: a_def)
  have nw: "CHR ''<'' \<notin> set w" "CHR ''-'' \<notin> set w"
    using trim_space_outside [of _ w] v(2,3) w by (auto simp: w_def)
  have r: "replace_marker m c mk = Some (a @ mk @ b)" for mk
  proof -
    define e where "e = length m + length w + 1"
    have "drop i c = m @ w @ '' -->'' @ b" "take i c = a" using c la by simp_all
    moreover have "find_sub ''-->'' (m @ w @ '' -->'' @ b) = Some e"
      unfolding e_def by (rule find_comment_end [OF m(1) nw(2) m(2)])
    moreover have "drop (i + e + 3) c = b" using c la by (simp add: e_def)
    ultimately show ?thesis using i unfolding replace_marker_def by simp
  qed
  have na: "find_sub m a = None" using find_sub_before [OF i] m(1) by (simp add: a_def)
  have c': "c = a @ (m @ w @ '' -->'') @ b" by (subst c) simp
  have tv: "trim_space w = v" using \<open>v = _\<close> by (simp add: w_def)
  show ?thesis by (rule that [OF c' na tv nw(1) r])
qed

text \<open>An edit that replaces \<open>x\<close> by \<open>y\<close> before \<open>b\<close>, away from every occurrence of \<open>m\<close>.\<close>

definition elsewhere :: "string \<Rightarrow> string \<Rightarrow> string \<Rightarrow> string \<Rightarrow> bool" where
  "elsewhere m x y b \<longleftrightarrow> passes m x \<and> passes m y \<and> (x @ b = [] \<or> hd (x @ b) = CHR ''<'') \<and>
     (y @ b = [] \<or> hd (y @ b) = CHR ''<'' \<or> hd (y @ b) = nl)"

lemma count_elsewhere:
  assumes "marker m" "elsewhere m x y b"
  shows "count_sub m (a @ x @ b) = count_sub m a + count_sub m b"
    "count_sub m (a @ y @ b) = count_sub m a + count_sub m b"
proof -
  have "no_straddle m (x @ b)" "no_straddle m (y @ b)"
    using assms by (auto simp: elsewhere_def intro!: marker_no_straddle)
  then show "count_sub m (a @ x @ b) = count_sub m a + count_sub m b"
    "count_sub m (a @ y @ b) = count_sub m a + count_sub m b"
    using assms by (simp_all add: count_append passes_count elsewhere_def)
qed

lemma value_elsewhere:
  "marker m \<Longrightarrow> elsewhere m x y b \<Longrightarrow> marker_value m (a @ x @ b) = Some v \<Longrightarrow> CHR ''<'' \<notin> set v \<Longrightarrow>
    marker_value m (a @ y @ b) = Some v"
  unfolding elsewhere_def by (elim conjE) (rule marker_value_frame)

definition plain_value :: "string \<Rightarrow> bool" where
  "plain_value v = (CHR ''<'' \<notin> set v \<and> CHR ''-'' \<notin> set v \<and> CHR '' '' \<notin> set v)"

lemma digits_plain: "list_all digit_char v \<Longrightarrow> plain_value v"
  by (auto simp: plain_value_def list_all_iff digit_char_def)

lemma parse_uint64_plain: "parse_uint64 v = Some n \<Longrightarrow> plain_value v"
  by (rule digits_plain) (simp add: parse_uint64_def split: if_splits)

lemma fingerprint_plain: "v = goal_unbound \<or> fingerprint_ok v \<Longrightarrow> plain_value v"
  by (auto simp: plain_value_def fingerprint_ok_def hex_char_def digit_char_def list_all_iff
      goal_unbound_def)

lemma parse_revision_elsewhere:
  assumes "parse_revision (a @ x @ b) = Inr r" "elsewhere revision_prefix x y b"
  shows "parse_revision (a @ y @ b) = Inr r"
proof (cases "count_sub revision_prefix (a @ x @ b) = 0")
  case True
  with assms(1) count_elsewhere [OF marker_intros(3) assms(2), of a] show ?thesis
    by (simp add: parse_revision_def)
next
  case False
  with assms(1) obtain v n where v: "count_sub revision_prefix (a @ x @ b) = 1"
      "marker_value revision_prefix (a @ x @ b) = Some v" "parse_uint64 v = Some n" "r = of_nat n"
    by (auto simp: parse_revision_def split: if_splits option.splits)
  have "marker_value revision_prefix (a @ y @ b) = Some v"
    using value_elsewhere [OF marker_intros(3) assms(2) v(2)] parse_uint64_plain [OF v(3)]
    by (simp add: plain_value_def)
  with v count_elsewhere [OF marker_intros(3) assms(2), of a] show ?thesis
    by (simp add: parse_revision_def)
qed

lemma parse_goal_elsewhere:
  assumes "parse_goal_binding (a @ x @ b) = Inr r" "elsewhere goal_prefix x y b"
  shows "parse_goal_binding (a @ y @ b) = Inr r"
proof (cases "count_sub goal_prefix (a @ x @ b) = 0")
  case True
  with assms(1) count_elsewhere [OF marker_intros(4) assms(2), of a] show ?thesis
    by (simp add: parse_goal_binding_def)
next
  case False
  with assms(1) obtain v where v: "count_sub goal_prefix (a @ x @ b) = 1"
      "marker_value goal_prefix (a @ x @ b) = Some v" "v = goal_unbound \<or> fingerprint_ok v"
      "r = Some v"
    by (auto simp: parse_goal_binding_def split: if_splits option.splits)
  have "marker_value goal_prefix (a @ y @ b) = Some v"
    using value_elsewhere [OF marker_intros(4) assms(2) v(2)] fingerprint_plain [OF v(3)]
    by (simp add: plain_value_def)
  with v count_elsewhere [OF marker_intros(4) assms(2), of a] show ?thesis
    by (simp add: parse_goal_binding_def)
qed

text \<open>A comment written by the program.\<close>

definition comment :: "string \<Rightarrow> string \<Rightarrow> string" where
  "comment m d = m @ d @ '' -->''"

lemma revision_marker_comment: "revision_marker rv = comment revision_prefix (digits_of (unat rv))"
  by (simp add: revision_marker_def comment_def)

lemma comment_hd [simp]: "marker m \<Longrightarrow> hd (comment m d @ b) = CHR ''<''"
  using marker_shape [of m] by (auto simp: comment_def)

lemma comment_passes:
  assumes "marker m" "marker m'" "m \<noteq> m'" "CHR ''<'' \<notin> set d"
  shows "passes m (comment m' d)"
  using assms unfolding comment_def
  by (intro passes_append marker_passes_marker marker_passes) auto

lemma count_comment:
  assumes "marker m" "CHR ''<'' \<notin> set d"
  shows "count_sub m (a @ comment m d @ b) = count_sub m a + Suc (count_sub m b)"
proof -
  have "no_straddle m (comment m d @ b)" using assms by (intro marker_no_straddle) auto
  moreover have "count_sub m (comment m d @ b) = Suc (count_sub m b)"
    using count_marker [OF assms(1), of "d @ '' -->''" b] assms(2) by (simp add: comment_def)
  ultimately show ?thesis using assms(1) by (simp add: count_append)
qed

lemma value_comment:
  assumes "marker m" "count_sub m a = 0" "CHR '' '' \<notin> set d"
  shows "marker_value m (a @ comment m d @ b) = Some (trim_space d)"
  using marker_value_hit [OF assms(1) _ assms(3), of a b] assms(1,2)
  by (simp add: comment_def count_find)

subsection \<open>Lemmas: the managed section\<close>

text \<open>An item that a line of the section can hold: its text is trimmed, its id has no line break.\<close>

definition storable :: "item \<Rightarrow> bool" where
  "storable it = (item_ok it \<and> trim_space (item_text it) = item_text it \<and> nl \<notin> set (item_id it))"

lemma valid_id_chars: "valid_id (trim_space i) \<Longrightarrow> CHR ''<'' \<notin> set i \<and> CHR '']'' \<notin> set i"
proof -
  assume "valid_id (trim_space i)"
  then have "CHR ''<'' \<notin> set (trim_space i)" "CHR '']'' \<notin> set (trim_space i)"
    by (auto simp: valid_id_def list_all_iff id_char_def letter_char_def ascii_upper_def
        digit_char_def)
  then show ?thesis using trim_space_outside not_space_bytes by blast
qed

lemma storable_facts:
  assumes "storable it"
  shows "nl \<notin> set (item_id it)" "CHR '']'' \<notin> set (item_id it)" "CHR ''<'' \<notin> set (item_id it)"
    "item_id it \<noteq> []" "item_text it \<noteq> []" "trim_space (item_text it) = item_text it"
    "nl \<notin> set (item_text it)" "\<not> contains (item_text it) ''<!-- proton:''"
    "status_valid (item_status it)"
proof -
  have ok: "valid_id (trim_space (item_id it))" "trim_space (item_text it) \<noteq> []"
      "\<not> unsafe_text (item_text it)"
    using assms unfolding storable_def item_ok_def by blast+
  show "nl \<notin> set (item_id it)" "trim_space (item_text it) = item_text it"
      "status_valid (item_status it)"
    using assms by (simp_all add: storable_def item_ok_def)
  show "CHR '']'' \<notin> set (item_id it)" "CHR ''<'' \<notin> set (item_id it)"
    using valid_id_chars [OF ok(1)] by simp_all
  show "item_id it \<noteq> []" "item_text it \<noteq> []" using ok(1,2) by auto
  show "nl \<notin> set (item_text it)" using ok(3) by (auto simp: unsafe_text_def contains_any_iff nl_def)
  show "\<not> contains (item_text it) ''<!-- proton:''" using ok(3) unfolding unsafe_text_def by blast
qed

lemma contains_trans: "contains s m \<Longrightarrow> contains m p \<Longrightarrow> contains s p"
  unfolding contains_iff by (metis append.assoc)

lemma item_line_passes:
  assumes "storable it" "marker m"
  shows "passes m (item_line it @ [nl])"
proof -
  note f = storable_facts [OF assms(1)]
  have "\<not> contains (item_text it) m"
    using contains_trans [OF _ marker_proton [OF assms(2)]] f(8) by blast
  then have t: "find_sub m (item_text it) = None" "count_sub m (item_text it) = 0"
    using assms(2) by (simp_all add: find_sub_None count_sub_0)
  have p: "passes m (item_text it @ [nl])"
    unfolding passes_def
  proof
    fix b
    have "no_straddle m (nl # b)" using assms(2) by (intro marker_no_straddle) auto
    moreover have "passes m [nl]" using assms(2) by (rule marker_passes) (simp add: nl_def)
    then have "find_sub m (nl # b) = map_option Suc (find_sub m b)" "count_sub m (nl # b) = count_sub m b"
      using passes_find [of m "[nl]" b] passes_count [of m "[nl]" b] by simp_all
    ultimately show "find_sub m ((item_text it @ [nl]) @ b) =
        map_option (\<lambda>i. length (item_text it @ [nl]) + i) (find_sub m b) \<and>
      count_sub m ((item_text it @ [nl]) @ b) = count_sub m b"
      using t assms(2) by (simp add: find_append count_append option.map_comp o_def)
  qed
  have q: "passes m (''- ['' @ status_mark (item_status it) @ ''] ['' @ item_id it @ ''] '')"
    using assms(2) f(3) by (intro marker_passes) (auto simp: status_mark_def split: status.splits)
  show ?thesis using passes_append [OF q p] by (simp add: item_line_def)
qed

lemma parse_item_line:
  assumes "storable it"
  shows "parse_line (item_line it) = Inr (Some it)"
proof -
  note f = storable_facts [OF assms]
  define rest where "rest = CHR ''['' # (item_id it @ '']'') @ CHR '' '' # item_text it"
  have "trim_space (CHR ''-'' # ('' ['' @ status_mark (item_status it) @ ''] ['' @ item_id it @ '']'') @
      CHR '' '' # item_text it) =
    CHR ''-'' # ('' ['' @ status_mark (item_status it) @ ''] ['' @ item_id it @ '']'') @
      CHR '' '' # item_text it"
    by (rule trim_space_line) (use f in \<open>simp_all add: ascii_space_def\<close>)
  then have l: "trim_space (item_line it) = item_line it" by (simp add: item_line_def)
  have r: "trim_space rest = rest"
    unfolding rest_def by (rule trim_space_line) (use f in \<open>simp_all add: ascii_space_def\<close>)
  have s: "line_status (item_line it) = Some (item_status it)" "drop 6 (item_line it) = rest"
    using f(9)
    by (auto simp: item_line_def rest_def status_mark_def line_status_def status_valid_def
        numeral_eq_Suc split: status.split)
  have k: "find_sub '']'' rest = Some (Suc (length (item_id it)))"
    using passes_find [OF passes_no_head [of "CHR '']''" "CHR ''['' # item_id it" "[]"],
        of "CHR '']'' # CHR '' '' # item_text it"] f(2) by (simp add: rest_def)
  have "trim_space (CHR '' '' # item_text it) = item_text it"
    using f(6) by (rule trim_space_drop_space)
  then show ?thesis
    using f(4) unfolding parse_line_def l s(1) Let_def s(2) r k
    by (simp add: rest_def)
qed

lemma item_line_one: "storable it \<Longrightarrow> nl \<notin> set (item_line it)"
  using storable_facts [of it]
  by (auto simp: item_line_def status_mark_def nl_def split: status.splits)

definition section_body :: "item list \<Rightarrow> string" where
  "section_body items = nl # concat (map (\<lambda>it. item_line it @ [nl]) items)"

lemma join_lines: "join [x] (ls @ [e]) = concat (map (\<lambda>l. l @ [x]) ls) @ e"
proof (induction ls)
  case Nil
  then show ?case by simp
next
  case (Cons l ls)
  then show ?case by (cases "ls @ [e]") simp_all
qed

lemma render_managed_section:
  "render_managed items = managed_start @ section_body items @ managed_end"
  using join_lines [of nl "managed_start # map item_line items" managed_end]
  by (simp add: render_managed_def section_body_def o_def)

lemma parse_line_Nil: "parse_line [] = Inr None"
  by (simp add: parse_line_def line_status_def)

lemma parse_lines_items:
  "list_all storable items \<Longrightarrow> parse_lines (map item_line items @ [[]]) = Inr items"
  by (induction items) (simp_all add: parse_item_line parse_line_Nil)

lemma parse_section_body:
  assumes "list_all storable items" "validate_items items = None"
  shows "parse_body (section_body items) = Inr items"
proof -
  have "section_body items = join [nl] ([] # map item_line items @ [[]])"
    using join_lines [of nl "[] # map item_line items" "[]"]
    by (simp add: section_body_def o_def)
  then have "split_char nl (section_body items) = [] # map item_line items @ [[]]"
    using assms(1) by (simp only:, subst split_char_join) (auto simp: list_all_iff item_line_one)
  then show ?thesis
    using parse_lines_items [OF assms(1)] assms(2)
    by (simp add: parse_body_def parse_line_Nil)
qed

text \<open>A document around one managed section: no marker of the section in \<open>P\<close> and \<open>Q\<close>.\<close>

definition surrounds :: "string \<Rightarrow> string \<Rightarrow> bool" where
  "surrounds P Q = (count_sub managed_start P = 0 \<and> count_sub managed_end P = 0 \<and>
     count_sub managed_start Q = 0 \<and> count_sub managed_end Q = 0)"

lemma section_body_passes: "list_all storable items \<Longrightarrow> marker m \<Longrightarrow> passes m (section_body items)"
proof -
  assume a: "list_all storable items" "marker m"
  have "passes m [nl]" using a(2) by (rule marker_passes) (simp add: nl_def)
  moreover have "passes m (concat (map (\<lambda>it. item_line it @ [nl]) items))"
    using a by (intro passes_concat) (auto simp: list_all_iff item_line_passes)
  ultimately show ?thesis unfolding section_body_def using passes_append by fastforce
qed

lemma section_passes:
  assumes "list_all storable items" "m = revision_prefix \<or> m = goal_prefix"
  shows "passes m (render_managed items)"
proof -
  have "marker m" using assms(2) by auto
  moreover have "m \<noteq> managed_start" "m \<noteq> managed_end" using assms(2) by (auto simp: marker_defs)
  ultimately show ?thesis
    unfolding render_managed_section
    by (intro passes_append marker_passes_marker section_body_passes assms(1)) simp_all
qed

lemma section_hd [simp]: "hd (render_managed items @ b) = CHR ''<''"
  by (simp add: render_managed_section managed_start_def)

lemma markers_differ [simp]: "managed_start \<noteq> managed_end" "managed_end \<noteq> managed_start"
  by (simp_all add: marker_defs)

lemma count_lt_append:
  "marker m \<Longrightarrow> hd b = CHR ''<'' \<Longrightarrow> count_sub m (a @ b) = count_sub m a + count_sub m b"
  by (rule count_append) (auto intro: marker_no_straddle)

lemma count_marker_now: "marker m \<Longrightarrow> count_sub m (m @ b) = Suc (count_sub m b)"
  using count_marker [of m "[]" b] by simp

lemma marker_hd: "marker m \<Longrightarrow> hd (m @ b) = CHR ''<''" "marker m \<Longrightarrow> hd m = CHR ''<''"
  using marker_shape [of m] by auto

lemma parse_document_surrounds:
  assumes "list_all storable items" "validate_items items = None" "surrounds P Q"
  shows "parse_document sha_hex (P @ render_managed items @ Q) = Inr items"
proof -
  let ?S = managed_start and ?E = managed_end and ?B = "section_body items"
  note c = assms(3) [unfolded surrounds_def]
  note pb = section_body_passes [OF assms(1)]
  have ps: "passes ?E ?S" "passes ?S ?E" by (rule marker_passes_marker; simp)+
  have d: "P @ render_managed items @ Q = P @ ?S @ ?B @ ?E @ Q"
    by (simp add: render_managed_section)
  have s1: "count_sub ?S (P @ ?S @ ?B @ ?E @ Q) = 1"
    using c by (simp add: count_lt_append marker_hd count_marker_now passes_none [OF pb] passes_count [OF ps(2)])
  have e1: "count_sub ?E (P @ ?S @ ?B @ ?E @ Q) = 1"
    using c by (simp add: count_lt_append marker_hd count_marker_now passes_none [OF pb] passes_count [OF ps(1)]
      passes_count [OF pb])
  have fs: "find_sub ?S (P @ ?S @ ?B @ ?E @ Q) = Some (length P)"
    using c by (intro find_marker) (simp_all flip: count_find)
  have "count_sub ?E (P @ ?S @ ?B) = count_sub ?E P + count_sub ?E ((?S @ ?B) @ [])"
    by (simp add: count_lt_append marker_hd)
  also have "\<dots> = 0"
    using c passes_count [OF passes_append [OF ps(1) pb [of ?E]], of "[]"] by simp
  finally have "find_sub ?E (P @ ?S @ ?B) = None" by (simp flip: count_find)
  then have fe: "find_sub ?E (P @ ?S @ ?B @ ?E @ Q) = Some (length P + length ?S + length ?B)"
    using find_marker [of ?E "P @ ?S @ ?B" Q] by simp
  show ?thesis
    unfolding d parse_document_def s1 e1 fs fe Let_def
    by (simp add: parse_section_body [OF assms(1,2)])
qed

subsection \<open>Lemmas: rendering the section\<close>

lemma parse_document_split:
  assumes "parse_document sha_hex c = Inr old"
  shows "(find_sub managed_start c = None \<and> count_sub managed_start c = 0 \<and>
      count_sub managed_end c = 0) \<or>
    (\<exists>a B b s e. c = a @ (managed_start @ B @ managed_end) @ b \<and> surrounds a b \<and>
      find_sub managed_start c = Some s \<and> find_sub managed_end c = Some e \<and> s \<le> e \<and>
      take s c = a \<and> drop (e + length managed_end) c = b)"
proof (cases "count_sub managed_start c = 0 \<and> count_sub managed_end c = 0")
  case True
  then show ?thesis using count_find [of managed_start c] by simp
next
  case False
  let ?S = managed_start and ?E = managed_end
  from assms False have n: "count_sub ?S c = 1" "count_sub ?E c = 1"
    by (auto simp: parse_document_def Let_def split: if_splits)
  with assms obtain s e where f: "find_sub ?S c = Some s" "find_sub ?E c = Some e" "s \<le> e"
    by (auto simp: parse_document_def Let_def split: if_splits option.splits)
  define a r where "a = take s c" and "r = drop (s + length ?S) c"
  have c: "c = a @ ?S @ r" and la: "length a = s"
    using find_sub_Some [OF f(1)] by (simp_all add: a_def r_def)
  have ps: "passes ?E ?S" by (rule marker_passes_marker) simp_all
  have fe: "find_sub ?E (a @ ?S @ r) = (case find_sub ?E a of Some i \<Rightarrow> Some i
      | None \<Rightarrow> map_option (\<lambda>i. length a + i) (map_option (\<lambda>i. length ?S + i) (find_sub ?E r)))"
    unfolding passes_find [OF ps, symmetric]
    by (rule find_append) (auto intro: marker_no_straddle simp: marker_hd)
  have "find_sub ?E a = None"
  proof (cases "find_sub ?E a")
    case (Some i)
    with fe f(2) c have "i = e" by simp
    with find_sub_Some [OF Some] f(3) la have "length ?E = 0" by simp
    then show ?thesis by (simp add: marker_defs)
  qed simp
  with fe f(2) c obtain k where k: "find_sub ?E r = Some k" "e = s + length ?S + k"
    using la by auto
  define B b where "B = take k r" and "b = drop (k + length ?E) r"
  have r: "r = B @ ?E @ b" and lB: "length B = k"
    using find_sub_Some [OF k(1)] by (simp_all add: B_def b_def)
  have cs: "c = a @ ?S @ B @ ?E @ b" using c r by simp
  have "count_sub ?S c = count_sub ?S a + Suc (count_sub ?S B + count_sub ?S b)"
    unfolding cs using passes_count [OF marker_passes_marker, of ?S ?E b]
    by (simp add: count_lt_append marker_hd count_marker_now)
  moreover have "count_sub ?E c = count_sub ?E a + (count_sub ?E B + Suc (count_sub ?E b))"
    unfolding cs using passes_count [OF ps, of "B @ ?E @ b"]
    by (simp add: count_lt_append marker_hd count_marker_now)
  ultimately have "surrounds a b" using n by (simp add: surrounds_def)
  moreover have "drop (e + length ?E) c = b"
    unfolding cs using k(2) la lB by simp
  moreover have "take s c = a" by (simp add: a_def)
  moreover have "c = a @ (?S @ B @ ?E) @ b" by (subst cs) simp
  ultimately show ?thesis using f by blast
qed

lemma surrounds_plain:
  assumes "count_sub managed_start c = 0" "count_sub managed_end c = 0"
    "set u \<subseteq> {nl}" "set w \<subseteq> {nl}"
  shows "surrounds (c @ u) w"
proof -
  have "CHR ''<'' \<notin> set w" "CHR ''<'' \<notin> set u" using assms(3,4) by (auto simp: nl_def)
  then have "passes m w" "passes m u" if "marker m" for m using that marker_passes by blast+
  then have z: "count_sub m w = 0" "count_sub m u = 0" if "marker m" for m
    using that passes_none by blast+
  have "u = [] \<or> hd u = nl" using assms(3) by (cases u) auto
  then have "count_sub m (c @ u) = count_sub m c" if "marker m" for m
    using that z(2) [OF that] count_append [of m u c] by (auto intro: marker_no_straddle)
  with assms z show ?thesis by (simp add: surrounds_def)
qed

text \<open>Rendering the plan replaces the section, or appends one.\<close>

lemma render_document_edit:
  assumes "parse_document sha_hex c = Inr old"
  obtains (appended) u where "set u \<subseteq> {nl}"
      "render_document c items = c @ u @ render_managed items @ [nl]" "surrounds (c @ u) [nl]"
  | (replaced) a B b where "c = a @ (managed_start @ B @ managed_end) @ b" "surrounds a b"
      "render_document c items = a @ render_managed items @ b"
  using parse_document_split [OF assms]
proof (elim disjE conjE exE)
  assume h: "find_sub managed_start c = None" "count_sub managed_start c = 0" "count_sub managed_end c = 0"
  define u where "u = (if c = [] then [] else if has_suffix c [nl] then [nl] else [nl, nl])"
  have "render_document c items = c @ u @ render_managed items @ [nl]"
    using h(1) by (simp add: render_document_def u_def Let_def)
  moreover have "set u \<subseteq> {nl}" by (simp add: u_def)
  ultimately show thesis using surrounds_plain [OF h(2,3), of u "[nl]"] by (intro appended) auto
next
  fix a B b s e
  assume h: "c = a @ (managed_start @ B @ managed_end) @ b" "surrounds a b"
    "find_sub managed_start c = Some s" "find_sub managed_end c = Some e" "s \<le> e"
    "take s c = a" "drop (e + length managed_end) c = b"
  have "render_document c items = a @ render_managed items @ b"
    unfolding render_document_def Let_def h(3,4) using h(5-7) by simp
  then show thesis by (rule replaced [OF h(1,2)])
qed

lemma passes_before:
  assumes "marker m" "count_sub m B = 0" "passes m z" "z \<noteq> []" "hd z = CHR ''<''"
  shows "passes m (B @ z)"
  unfolding passes_def
proof
  fix b
  have "no_straddle m (z @ b)" using assms by (intro marker_no_straddle) auto
  moreover have "find_sub m B = None" using assms(1,2) by (simp add: count_find)
  ultimately show "find_sub m ((B @ z) @ b) = map_option (\<lambda>i. length (B @ z) + i) (find_sub m b) \<and>
      count_sub m ((B @ z) @ b) = count_sub m b"
    using assms(1,2) passes_find [OF assms(3), of b] passes_count [OF assms(3), of b]
    by (simp add: find_append count_append option.map_comp o_def add.assoc)
qed

text \<open>
  A comment of the program is kept, unless it stands inside the section that is replaced; then
  the document has none after it.
\<close>

lemma old_section_elsewhere:
  assumes m: "m = revision_prefix \<or> m = goal_prefix" and it: "list_all storable items"
    and n: "count_sub m (a @ (managed_start @ B @ managed_end) @ b) \<le> 1"
  shows "elsewhere m (managed_start @ B @ managed_end) (render_managed items) b \<or>
    count_sub m (a @ render_managed items @ b) = 0"
proof -
  have mk: "marker m" "m \<noteq> managed_start" "m \<noteq> managed_end"
    using m by (auto simp: marker_def) (auto simp: marker_defs)
  have ps: "passes m managed_start" "passes m managed_end"
    using mk marker_passes_marker by simp_all
  have sec: "passes m (render_managed items)" by (rule section_passes [OF it m])
  show ?thesis
  proof (cases "count_sub m B = 0")
    case True
    have "passes m (managed_start @ B @ managed_end)"
      by (intro passes_append [OF ps(1)] passes_before [OF mk(1) True ps(2)]) (simp_all add: marker_hd)
    with sec show ?thesis by (simp add: elsewhere_def marker_hd)
  next
    case False
    have "count_sub m (a @ (managed_start @ B @ managed_end) @ b) =
        count_sub m a + (count_sub m B + count_sub m b)"
      using mk(1) passes_count [OF ps(1)] passes_count [OF ps(2)]
      by (simp add: count_lt_append marker_hd)
    with n False have "count_sub m a = 0" "count_sub m b = 0" by simp_all
    then have "count_sub m (a @ render_managed items @ b) = 0"
      using mk(1) passes_count [OF sec] by (simp add: count_lt_append)
    then show ?thesis by blast
  qed
qed

lemma appended_elsewhere:
  assumes "m = revision_prefix \<or> m = goal_prefix" "list_all storable items" "set u \<subseteq> {nl}"
  shows "elsewhere m [] (u @ render_managed items @ [nl]) []"
proof -
  have mk: "marker m" using assms(1) by auto
  have "passes m u" "passes m [nl]"
    using mk assms(3) by (auto intro!: marker_passes simp: nl_def)
  then have "passes m (u @ render_managed items @ [nl])"
    by (intro passes_append section_passes assms)
  moreover have "hd (u @ render_managed items @ [nl]) = CHR ''<'' \<or>
      hd (u @ render_managed items @ [nl]) = nl"
    using assms(3) by (cases u) auto
  ultimately show ?thesis by (simp add: elsewhere_def)
qed

lemma parse_goal_count: "parse_goal_binding c = Inr g \<Longrightarrow> count_sub goal_prefix c \<le> 1"
  by (auto simp: parse_goal_binding_def split: if_splits)

lemma parse_revision_count: "parse_revision c = Inr r \<Longrightarrow> count_sub revision_prefix c \<le> 1"
  by (auto simp: parse_revision_def split: if_splits)

lemma render_document_readable:
  assumes "parse_document sha_hex c = Inr old" "parse_revision c = Inr r"
    "parse_goal_binding c = Inr g" "list_all storable items"
  obtains P Q r' g' where "render_document c items = P @ render_managed items @ Q" "surrounds P Q"
    "parse_revision (render_document c items) = Inr r'"
    "parse_goal_binding (render_document c items) = Inr g'" "g' = g \<or> g' = None"
proof (cases rule: render_document_edit [OF assms(1), of items, case_names appended replaced])
  case (appended u)
  have e: "elsewhere m [] (u @ render_managed items @ [nl]) []"
    if "m = revision_prefix \<or> m = goal_prefix" for m
    by (rule appended_elsewhere [OF that assms(4) appended(1)])
  have "parse_revision (c @ (u @ render_managed items @ [nl]) @ []) = Inr r"
    using assms(2) by (intro parse_revision_elsewhere [OF _ e]) simp_all
  moreover have "parse_goal_binding (c @ (u @ render_managed items @ [nl]) @ []) = Inr g"
    using assms(3) by (intro parse_goal_elsewhere [OF _ e]) simp_all
  ultimately show ?thesis
    using appended(2,3) by (intro that [of "c @ u" "[nl]" r g]) simp_all
next
  case (replaced a B b)
  let ?x = "managed_start @ B @ managed_end" and ?y = "render_managed items"
  have "\<exists>r'. parse_revision (a @ ?y @ b) = Inr r'"
    using old_section_elsewhere [OF disjI1 [OF refl] assms(4)
        parse_revision_count [OF assms(2), unfolded replaced(1)]]
  proof
    assume "elsewhere revision_prefix ?x ?y b"
    with assms(2) show ?thesis unfolding replaced(1) using parse_revision_elsewhere by blast
  qed (simp add: parse_revision_def)
  moreover have "\<exists>g'. parse_goal_binding (a @ ?y @ b) = Inr g' \<and> (g' = g \<or> g' = None)"
    using old_section_elsewhere [OF disjI2 [OF refl] assms(4)
        parse_goal_count [OF assms(3), unfolded replaced(1)]]
  proof
    assume "elsewhere goal_prefix ?x ?y b"
    with assms(3) show ?thesis unfolding replaced(1) using parse_goal_elsewhere by blast
  qed (simp add: parse_goal_binding_def)
  ultimately show ?thesis
    using that [of a b] replaced(2,3) by auto
qed

subsection \<open>Lemmas: writing a comment\<close>

text \<open>A comment of the program stands before or after the section, never across its border.\<close>

lemma comment_beside_section:
  assumes m: "marker m" "passes m sec" "hd sec = CHR ''<''" "sec \<noteq> []"
    and c: "P @ sec @ Q = a @ x @ b" "find_sub m a = None" "x = m @ w" "CHR ''<'' \<notin> set w"
  shows "(\<exists>P2. P = a @ x @ P2 \<and> b = P2 @ sec @ Q) \<or> (\<exists>Q1. a = P @ sec @ Q1 \<and> Q = Q1 @ x @ b)"
proof -
  have f: "find_sub m (a @ x @ b) = Some (length a)"
    using find_marker [OF m(1) c(2), of "w @ b"] by (simp add: c(3))
  have "no_straddle m (sec @ Q)" using m by (intro marker_no_straddle) auto
  then have g: "find_sub m (P @ sec @ Q) = (case find_sub m P of Some i \<Rightarrow> Some i
      | None \<Rightarrow> map_option (\<lambda>i. length P + i) (map_option (\<lambda>i. length sec + i) (find_sub m Q)))"
    unfolding passes_find [OF m(2), symmetric] using m(1) by (simp add: find_append)
  show ?thesis
  proof (cases "find_sub m P")
    case None
    with f g c(1) have "length (P @ sec) \<le> length a" by (cases "find_sub m Q") simp_all
    moreover have "(P @ sec) @ Q = a @ x @ b" using c(1) by simp
    ultimately obtain us where "a = (P @ sec) @ us" "Q = us @ x @ b"
      unfolding append_eq_append_conv2 by auto
    then show ?thesis by auto
  next
    case (Some i)
    with f g c(1) have "length a = i" by simp
    with find_sub_Some [OF Some] marker_not_Nil [OF m(1)] have l: "length a < length P"
      by (cases m) auto
    have "P @ sec @ Q = (a @ x) @ b" using c(1) by simp
    then consider (whole) us where "P = (a @ x) @ us" "us @ sec @ Q = b"
      | (cut) us where "P @ us = a @ x" "sec @ Q = us @ b"
      unfolding append_eq_append_conv2 by blast
    then show ?thesis
    proof cases
      case whole
      then show ?thesis by auto
    next
      case (cut us)
      from cut(1) l obtain u where u: "P = a @ u" "u @ us = x"
        unfolding append_eq_append_conv2 by auto
      with l have "u \<noteq> []" by auto
      show ?thesis
      proof (cases us)
        case Nil
        with cut u show ?thesis by auto
      next
        case (Cons d us')
        with cut(2) m(3,4) have "d = CHR ''<''" by (cases sec) auto
        moreover have "CHR ''<'' \<notin> set (tl x)"
          using marker_shape [OF m(1)] c(3,4) by auto
        then have "CHR ''<'' \<notin> set us" using u(2) \<open>u \<noteq> []\<close> by (cases u) auto
        ultimately show ?thesis using Cons by simp
      qed
    qed
  qed
qed

definition write_marker :: "string \<Rightarrow> string \<Rightarrow> string \<Rightarrow> string option" where
  "write_marker m c d =
     (case replace_marker m c (comment m d) of Some r \<Rightarrow> Some r
      | None \<Rightarrow> insert_marker c (comment m d))"

lemma insert_surrounds:
  assumes "surrounds P Q" "CHR ''<'' \<notin> set d" "m = revision_prefix \<or> m = goal_prefix"
  shows "surrounds (P @ comment m d @ [nl]) Q"
proof -
  have "count_sub m' (P @ comment m d @ [nl]) = count_sub m' P"
    if "m' = managed_start \<or> m' = managed_end" for m'
  proof -
    have mk: "marker m'" "marker m" "m' \<noteq> m" using that assms(3) by (auto simp: marker_def) (auto simp: marker_defs)
    have "passes m' (comment m d @ [nl])"
      using mk assms(2) by (intro passes_append comment_passes marker_passes) (simp_all add: nl_def)
    with mk show ?thesis by (simp add: count_lt_append passes_none)
  qed
  with assms(1) show ?thesis by (simp add: surrounds_def)
qed

lemma comment_elsewhere:
  assumes "marker m'" "marker m" "m' \<noteq> m" "CHR ''<'' \<notin> set w" "CHR ''<'' \<notin> set d"
  shows "elsewhere m' (comment m w) (comment m d) b"
  using assms comment_passes by (simp add: elsewhere_def)

lemma write_marker_edit:
  assumes m: "m = revision_prefix \<or> m = goal_prefix" and it: "list_all storable items"
    and c: "c = P @ render_managed items @ Q" "surrounds P Q"
    and r: "count_sub m c = 0 \<or> (count_sub m c = 1 \<and> (\<exists>v. marker_value m c = Some v \<and> plain_value v))"
    and d: "CHR ''<'' \<notin> set d" "CHR '' '' \<notin> set d"
  obtains a x y b P' Q' where "c = a @ x @ b" "write_marker m c d = Some (a @ y @ b)"
    "a @ y @ b = P' @ render_managed items @ Q'" "surrounds P' Q'"
    "\<And>m'. marker m' \<Longrightarrow> m' \<noteq> m \<Longrightarrow> elsewhere m' x y b"
    "count_sub m (a @ y @ b) = 1" "marker_value m (a @ y @ b) = Some (trim_space d)"
proof -
  let ?sec = "render_managed items"
  have mk: "marker m" using m by auto
  have ps: "passes m ?sec" by (rule section_passes [OF it m])
  show thesis
  proof (cases "count_sub m c = 0")
    case True
    have "find_sub managed_start P = None"
      using c(2) count_find [of managed_start P] by (simp add: surrounds_def)
    then have fs: "find_sub managed_start c = Some (length P)"
      using find_marker [of managed_start P "section_body items @ managed_end @ Q"] c(1)
      by (simp add: render_managed_section)
    have cnt: "count_sub m P = 0" "count_sub m Q = 0"
      using True mk unfolding c(1) by (simp_all add: count_lt_append passes_count [OF ps])
    let ?y = "comment m d @ [nl]"
    have w: "write_marker m c d = Some (P @ ?y @ ?sec @ Q)"
      using True mk fs c(1) by (simp add: write_marker_def replace_marker_def insert_marker_def count_find)
    have e: "elsewhere m' [] ?y (?sec @ Q)" if "marker m'" "m' \<noteq> m" for m'
    proof -
      have "passes m' [nl]" using that(1) by (rule marker_passes) (simp add: nl_def)
      then have "passes m' ?y" by (rule passes_append [OF comment_passes [OF that(1) mk that(2) d(1)]])
      then show ?thesis using mk by (simp add: elsewhere_def)
    qed
    have "passes m [nl]" using mk by (rule marker_passes) (simp add: nl_def)
    then have "count_sub m (nl # ?sec @ Q) = 0"
      using passes_count [of m "[nl]" "?sec @ Q"] passes_count [OF ps] cnt by simp
    then have "count_sub m (P @ ?y @ ?sec @ Q) = 1"
      using count_comment [OF mk d(1), of P "nl # ?sec @ Q"] cnt by simp
    moreover have "marker_value m (P @ ?y @ ?sec @ Q) = Some (trim_space d)"
      using value_comment [OF mk cnt(1) d(2), of "nl # ?sec @ Q"] by simp
    ultimately show thesis
      using c(1) w e insert_surrounds [OF c(2) d(1) m]
      by (intro that [of P "[]" "?sec @ Q" ?y "P @ ?y" Q]) simp_all
  next
    case False
    with r obtain v where v: "count_sub m c = 1" "marker_value m c = Some v" "plain_value v" by blast
    obtain a w b where s: "c = a @ (m @ w @ '' -->'') @ b" "find_sub m a = None"
        "CHR ''<'' \<notin> set w" "\<And>mk. replace_marker m c mk = Some (a @ mk @ b)"
      using marker_split [OF mk m v(2)] v(3) unfolding plain_value_def by metis
    let ?x = "comment m w" and ?y = "comment m d"
    have cx: "c = a @ ?x @ b" using s(1) by (simp add: comment_def)
    have w: "write_marker m c d = Some (a @ ?y @ b)" by (simp add: write_marker_def s(4))
    have e: "elsewhere m' ?x ?y b" if "marker m'" "m' \<noteq> m" for m'
      using comment_elsewhere [OF that(1) mk that(2) s(3) d(1)] .
    have ca: "count_sub m a = 0" using s(2) mk by (simp add: count_find)
    then have "count_sub m b = 0" using v(1) count_comment [OF mk s(3), of a b] cx by simp
    then have n: "count_sub m (a @ ?y @ b) = 1" using ca count_comment [OF mk d(1), of a b] by simp
    have mv: "marker_value m (a @ ?y @ b) = Some (trim_space d)" by (rule value_comment [OF mk ca d(2)])
    have cnt: "count_sub m' (u @ ?x @ t) = count_sub m' u + count_sub m' t"
        "count_sub m' (u @ ?y @ t) = count_sub m' u + count_sub m' t"
      if "m' = managed_start \<or> m' = managed_end" for m' u t
    proof -
      have k: "marker m'" "m' \<noteq> m" using that m by (auto simp: marker_def) (auto simp: marker_defs)
      have "elsewhere m' ?x ?y t" by (rule comment_elsewhere [OF k(1) mk k(2) s(3) d(1)])
      then show "count_sub m' (u @ ?x @ t) = count_sub m' u + count_sub m' t"
        "count_sub m' (u @ ?y @ t) = count_sub m' u + count_sub m' t"
        using count_elsewhere [OF k(1)] by blast+
    qed
    have "?sec \<noteq> []" by (simp add: render_managed_section managed_start_def)
    moreover have "hd ?sec = CHR ''<''" using section_hd [of items "[]"] by simp
    ultimately have "(\<exists>P2. P = a @ ?x @ P2 \<and> b = P2 @ ?sec @ Q) \<or>
        (\<exists>Q1. a = P @ ?sec @ Q1 \<and> Q = Q1 @ ?x @ b)"
      using mk ps c(1) [unfolded cx, symmetric] s(2) s(3)
      by (intro comment_beside_section [where w = "w @ '' -->''"]) (simp_all add: comment_def)
    then show thesis
    proof (elim disjE exE conjE)
      fix P2 assume h: "P = a @ ?x @ P2" "b = P2 @ ?sec @ Q"
      have "surrounds (a @ ?y @ P2) Q"
        using c(2) cnt [of _ a P2] by (simp add: surrounds_def h(1))
      then show thesis using that [OF cx w _ _ e n mv, of "a @ ?y @ P2" Q] h by simp
    next
      fix Q1 assume h: "a = P @ ?sec @ Q1" "Q = Q1 @ ?x @ b"
      have "surrounds P (Q1 @ ?y @ b)"
        using c(2) cnt [of _ Q1 b] by (simp add: surrounds_def h(2))
      then show thesis using that [OF cx w _ _ e n mv, of P "Q1 @ ?y @ b"] h by simp
    qed
  qed
qed

subsection \<open>Lemmas: the document written is read back\<close>

lemma space_len_outside: "c \<notin> space_bytes \<Longrightarrow> space_len (c # r) = 0"
  by (auto simp: space_bytes_def space2_def space3_def split: list.splits)

lemma space_len_rev_outside: "c \<notin> space_bytes \<Longrightarrow> space_len_rev (c # r) = 0"
  by (auto simp: space_bytes_def space2_def space3_def split: list.splits)

lemma trim_space_none: "set s \<inter> space_bytes = {} \<Longrightarrow> trim_space s = s"
proof (rule trim_space_id)
  assume a: "set s \<inter> space_bytes = {}"
  show "space_len s = 0" using a by (cases s) (auto simp: space_len_outside simp del: space_len.simps(2))
  show "space_len_rev (rev s) = 0"
    using a by (cases s rule: rev_cases) (auto simp: space_len_rev_outside simp del: space_len_rev.simps(2))
qed

lemma trim_digits: "list_all digit_char s \<Longrightarrow> trim_space s = s"
  by (rule trim_space_none) (auto simp: list_all_iff digit_char_def space_bytes_def ascii_space_def)

lemma trim_fingerprint: "v = goal_unbound \<or> fingerprint_ok v \<Longrightarrow> trim_space v = v"
  by (rule trim_space_none)
    (auto simp: list_all_iff fingerprint_ok_def hex_char_def digit_char_def space_bytes_def
      ascii_space_def goal_unbound_def)

text \<open>The plan of a document that other components read: revision, items, goal.\<close>

definition reads_as :: "(string \<Rightarrow> string) \<Rightarrow> string \<Rightarrow> u64 \<Rightarrow> item list \<Rightarrow> string option \<Rightarrow> bool" where
  "reads_as sha_hex c rv items g =
     (parse_document_state sha_hex c = Inr (rv, items) \<and> parse_goal_binding c = Inr g)"

definition managed :: "item list \<Rightarrow> string \<Rightarrow> bool" where
  "managed items c = (\<exists>P Q. c = P @ render_managed items @ Q \<and> surrounds P Q)"

lemma reads_as_parts:
  "reads_as sha_hex c rv items g \<longleftrightarrow>
     parse_revision c = Inr rv \<and> parse_document sha_hex c = Inr items \<and> parse_goal_binding c = Inr g"
  by (auto simp: reads_as_def parse_document_state_def split: sum.split)

lemma revision_value: "parse_revision c = Inr r \<Longrightarrow>
    count_sub revision_prefix c = 0 \<or>
    (count_sub revision_prefix c = 1 \<and> (\<exists>v. marker_value revision_prefix c = Some v \<and> plain_value v))"
  using parse_uint64_plain
  by (auto simp: parse_revision_def split: if_splits option.splits)

lemma goal_value: "parse_goal_binding c = Inr g \<Longrightarrow>
    count_sub goal_prefix c = 0 \<or>
    (count_sub goal_prefix c = 1 \<and> (\<exists>v. marker_value goal_prefix c = Some v \<and> plain_value v))"
  using fingerprint_plain
  by (auto simp: parse_goal_binding_def split: if_splits option.splits)

lemma render_document_state_write:
  "write_marker revision_prefix (render_document c items) (digits_of (unat rv)) = Some r \<Longrightarrow>
    render_document_state c rv items = r"
  by (auto simp: render_document_state_def write_marker_def revision_marker_comment Let_def
      split: option.splits)

lemma render_goal_binding_write:
  "write_marker goal_prefix c fp = Some r \<Longrightarrow> render_goal_binding c fp = r"
  by (auto simp: render_goal_binding_def write_marker_def comment_def Let_def split: option.splits)

lemma state_written:
  assumes "reads_as sha_hex c rv0 old g" "list_all storable items" "validate_items items = None"
  shows "\<exists>g'. reads_as sha_hex (render_document_state c rv items) rv items g' \<and> (g' = g \<or> g' = None) \<and>
    managed items (render_document_state c rv items)"
proof -
  note r = assms(1) [unfolded reads_as_parts]
  from r obtain P Q r' g' where D: "render_document c items = P @ render_managed items @ Q" "surrounds P Q"
      "parse_revision (render_document c items) = Inr r'"
      "parse_goal_binding (render_document c items) = Inr g'" "g' = g \<or> g' = None"
    using render_document_readable [of sha_hex c old rv0 g items] assms(2) by metis
  let ?d = "digits_of (unat rv)"
  have ds: "list_all digit_char ?d" using digits_of_digits by blast
  have dp: "CHR ''<'' \<notin> set ?d" "CHR '' '' \<notin> set ?d"
    using digits_plain [OF ds] by (simp_all add: plain_value_def)
  obtain a x y b P' Q' where W: "render_document c items = a @ x @ b"
      "write_marker revision_prefix (render_document c items) ?d = Some (a @ y @ b)"
      "a @ y @ b = P' @ render_managed items @ Q'" "surrounds P' Q'"
      "\<And>m'. marker m' \<Longrightarrow> m' \<noteq> revision_prefix \<Longrightarrow> elsewhere m' x y b"
      "count_sub revision_prefix (a @ y @ b) = 1"
      "marker_value revision_prefix (a @ y @ b) = Some (trim_space ?d)"
    using write_marker_edit [OF disjI1 [OF refl] assms(2) D(1,2) revision_value [OF D(3)] dp] by metis
  have e: "render_document_state c rv items = a @ y @ b"
    by (rule render_document_state_write [OF W(2)])
  have "parse_revision (a @ y @ b) = Inr rv"
    using W(6,7) trim_digits [OF ds] parse_uint64_digits [of "unat rv"] unsigned_less [of rv, where ?'a = nat]
    by (simp add: parse_revision_def)
  moreover have "parse_goal_binding (a @ y @ b) = Inr g'"
    using D(4) unfolding W(1)
    by (rule parse_goal_elsewhere) (rule W(5), simp, simp add: marker_defs)
  moreover have "parse_document sha_hex (a @ y @ b) = Inr items"
    unfolding W(3) by (rule parse_document_surrounds [OF assms(2,3) W(4)])
  ultimately show ?thesis unfolding e using D(5) W(3,4) by (auto simp: reads_as_parts managed_def)
qed

lemma goal_written:
  assumes "reads_as sha_hex c rv items g" "managed items c" "list_all storable items"
    "validate_items items = None" "fp = goal_unbound \<or> fingerprint_ok fp"
  shows "reads_as sha_hex (render_goal_binding c fp) rv items (Some fp)"
proof -
  note r = assms(1) [unfolded reads_as_parts]
  from assms(2) obtain P Q where D: "c = P @ render_managed items @ Q" "surrounds P Q"
    by (auto simp: managed_def)
  have gv: "count_sub goal_prefix c = 0 \<or>
    (count_sub goal_prefix c = 1 \<and> (\<exists>v. marker_value goal_prefix c = Some v \<and> plain_value v))"
    using r goal_value by blast
  have dp: "CHR ''<'' \<notin> set fp" "CHR '' '' \<notin> set fp"
    using fingerprint_plain [OF assms(5)] by (simp_all add: plain_value_def)
  obtain a x y b P' Q' where W: "c = a @ x @ b" "write_marker goal_prefix c fp = Some (a @ y @ b)"
      "a @ y @ b = P' @ render_managed items @ Q'" "surrounds P' Q'"
      "\<And>m'. marker m' \<Longrightarrow> m' \<noteq> goal_prefix \<Longrightarrow> elsewhere m' x y b"
      "count_sub goal_prefix (a @ y @ b) = 1"
      "marker_value goal_prefix (a @ y @ b) = Some (trim_space fp)"
    using write_marker_edit [OF disjI2 [OF refl] assms(3) D gv dp] by metis
  have e: "render_goal_binding c fp = a @ y @ b" by (rule render_goal_binding_write [OF W(2)])
  have "parse_revision (a @ x @ b) = Inr rv" using r W(1) by simp
  then have "parse_revision (a @ y @ b) = Inr rv"
    by (rule parse_revision_elsewhere) (rule W(5), simp, simp add: marker_defs)
  moreover have "parse_goal_binding (a @ y @ b) = Inr (Some fp)"
    using W(6,7) trim_fingerprint [OF assms(5)] assms(5) by (simp add: parse_goal_binding_def)
  moreover have "parse_document sha_hex (a @ y @ b) = Inr items"
    unfolding W(3) by (rule parse_document_surrounds [OF assms(3,4) W(4)])
  ultimately show ?thesis unfolding e by (simp add: reads_as_parts)
qed

end
