(* ===== verification/Todo_File.thy ===== *)
theory Todo_File
  imports Todo_Markdown
begin

text \<open>
  The plan's store over a markdown file: \<open>internal/feature/todo/markdown_store.go\<close>, with what
  \<open>atomic.go\<close> and the lock can do to an operation. The state is the file and the snapshot in
  memory; an operation holds the mutex and the file lock, so it is one step. What the operating
  system does is the record \<open>md_io\<close>, chosen per operation. Every other program that follows the
  protocol of the lock is another operation on the same file; \<open>md_file\<close> may also change between
  operations in any other way, since every operation reads it anew.

  What holds: an operation on the file does what the operation on the store in memory does
  (Todo-Plan), the file reads back as the snapshot that is returned, and a failed operation
  leaves the file whole.
\<close>

subsection \<open>The store\<close>

datatype write_end = WriteDone | WriteFailed | WriteUnsynced

record md_io =
  io_ctx :: bool
  io_lock_fails :: bool
  io_read_fails :: bool
  io_write :: write_end

record md_store =
  md_file :: "string option"
  md_mem :: snapshot

text \<open>A missing file is an empty document.\<close>

definition md_content :: "string option \<Rightarrow> string" where
  "md_content f = (case f of None \<Rightarrow> [] | Some c \<Rightarrow> c)"

definition read_markdown :: "(string \<Rightarrow> string) \<Rightarrow> md_io \<Rightarrow> string option \<Rightarrow>
    (md_error, u64 \<times> item list \<times> string) result" where
  "read_markdown sha_hex io f =
     (if io_read_fails io then Inl MdRead
      else case parse_document_state sha_hex (md_content f) of
          Inl e \<Rightarrow> Inl e
        | Inr (rv, items) \<Rightarrow>
            (case parse_goal_binding (md_content f) of
               Inl e \<Rightarrow> Inl e
             | Inr _ \<Rightarrow> Inr (rv, items, md_content f)))"

definition md_open :: "(string \<Rightarrow> string) \<Rightarrow> md_io \<Rightarrow> string option \<Rightarrow> (md_error, md_store) result" where
  "md_open sha_hex io f =
     (if io_ctx io then Inl MdContext
      else case read_markdown sha_hex io f of
          Inl e \<Rightarrow> Inl e
        | Inr (rv, items, _) \<Rightarrow>
            (case new_store_with_revision rv items of
               Inl e \<Rightarrow> Inl (ItemsInvalid e)
             | Inr m \<Rightarrow> Inr \<lparr>md_file = f, md_mem = m\<rparr>))"

definition set_snapshot :: "md_store \<Rightarrow> u64 \<Rightarrow> item list \<Rightarrow> md_store" where
  "set_snapshot s rv items = s\<lparr>md_mem := \<lparr>snap_revision = rv, snap_items = items\<rparr>\<rparr>"

text \<open>
  \<open>writeAtomic\<close> and \<open>setSnapshot\<close>: the snapshot in memory moves only when the write is
  reported as done.
\<close>

definition install :: "md_io \<Rightarrow> md_store \<Rightarrow> string \<Rightarrow> u64 \<Rightarrow> item list \<Rightarrow> md_store \<times> md_error option" where
  "install io s next rv items =
     (case io_write io of
        WriteFailed \<Rightarrow> (s, Some MdWrite)
      | WriteUnsynced \<Rightarrow> (s\<lparr>md_file := Some next\<rparr>, Some MdWrite)
      | WriteDone \<Rightarrow> (set_snapshot (s\<lparr>md_file := Some next\<rparr>) rv items, None))"

text \<open>State, snapshot, error; the snapshot is the zero value beside an error of the write.\<close>

type_synonym md_result = "md_store \<times> snapshot \<times> md_error option"

definition md_commit :: "md_io \<Rightarrow> md_store \<Rightarrow> string \<Rightarrow> u64 \<Rightarrow> item list \<Rightarrow> md_result" where
  "md_commit io s next rv items =
     (case install io s next rv items of
        (s', None) \<Rightarrow> (s', md_mem s', None)
      | (s', Some e) \<Rightarrow> (s', empty_snapshot, Some e))"

definition md_current :: "md_store \<Rightarrow> u64 \<Rightarrow> item list \<Rightarrow> md_result" where
  "md_current s rv items = (let s' = set_snapshot s rv items in (s', md_mem s', None))"

definition md_replace :: "(string \<Rightarrow> string) \<Rightarrow> md_io \<Rightarrow> md_store \<Rightarrow> item list \<Rightarrow> md_result" where
  "md_replace sha_hex io s items =
     (if io_ctx io then (s, empty_snapshot, Some MdContext)
      else case validate_items items of
          Some e \<Rightarrow> (s, empty_snapshot, Some (ItemsInvalid e))
        | None \<Rightarrow>
            if io_lock_fails io then (s, empty_snapshot, Some MdLock)
            else (case read_markdown sha_hex io (md_file s) of
                Inl e \<Rightarrow> (s, empty_snapshot, Some e)
              | Inr (rv, disk, c) \<Rightarrow>
                  if disk = items then md_current s rv disk
                  else md_commit io s (render_document_state c (rv + 1) items) (rv + 1) items))"

definition md_reload :: "(string \<Rightarrow> string) \<Rightarrow> md_io \<Rightarrow> md_store \<Rightarrow> md_result" where
  "md_reload sha_hex io s =
     (if io_ctx io then (s, empty_snapshot, Some MdContext)
      else if io_lock_fails io then (s, empty_snapshot, Some MdLock)
      else case read_markdown sha_hex io (md_file s) of
          Inl e \<Rightarrow> (s, empty_snapshot, Some e)
        | Inr (rv, disk, _) \<Rightarrow> md_current s rv disk)"

text \<open>The items kept for a goal: none when the plan was bound to another one.\<close>

definition items_for_goal :: "string option \<Rightarrow> string \<Rightarrow> item list \<Rightarrow> item list" where
  "items_for_goal current target disk =
     (if current \<noteq> None \<and> target \<noteq> goal_unbound \<and> current \<noteq> Some target then [] else disk)"

definition md_bind_goal :: "(string \<Rightarrow> string) \<Rightarrow> md_io \<Rightarrow> md_store \<Rightarrow> string \<Rightarrow>
    md_store \<times> snapshot \<times> bool \<times> md_error option" where
  "md_bind_goal sha_hex io s goal =
     (if io_ctx io then (s, empty_snapshot, False, Some MdContext)
      else if io_lock_fails io then (s, empty_snapshot, False, Some MdLock)
      else let target = goal_fingerprint sha_hex goal in
        case read_markdown sha_hex io (md_file s) of
          Inl e \<Rightarrow> (s, empty_snapshot, False, Some e)
        | Inr (rv, disk, c) \<Rightarrow>
            (case parse_goal_binding c of
               Inl e \<Rightarrow> (s, empty_snapshot, False, Some e)
             | Inr current \<Rightarrow>
                 if current = Some target \<or> (current = None \<and> target = goal_unbound)
                 then (case md_current s rv disk of (s', sn, e) \<Rightarrow> (s', sn, False, e))
                 else let items = items_for_goal current target disk in
                   (case md_commit io s
                        (render_goal_binding (render_document_state c (rv + 1) items) target)
                        (rv + 1) items of
                      (s', sn, None) \<Rightarrow> (s', sn, True, None)
                    | (s', sn, Some e) \<Rightarrow> (s', sn, False, Some e))))"

text \<open>State, before, after, error.\<close>

definition md_compare_and_patch :: "(string \<Rightarrow> string) \<Rightarrow> md_io \<Rightarrow> md_store \<Rightarrow> u64 \<Rightarrow> operation list \<Rightarrow>
    md_store \<times> snapshot \<times> snapshot \<times> md_error option" where
  "md_compare_and_patch sha_hex io s expected xs =
     (if io_ctx io then (s, empty_snapshot, empty_snapshot, Some MdContext)
      else if io_lock_fails io then (s, empty_snapshot, empty_snapshot, Some MdLock)
      else case read_markdown sha_hex io (md_file s) of
          Inl e \<Rightarrow> (s, empty_snapshot, empty_snapshot, Some e)
        | Inr (rv, disk, c) \<Rightarrow>
            let before = \<lparr>snap_revision = rv, snap_items = disk\<rparr> in
            if rv \<noteq> expected
            then (set_snapshot s rv disk, before, before, Some (MdConflict expected rv))
            else (case apply_patch disk xs of
                Inl e \<Rightarrow> (s, before, empty_snapshot, Some (MdPatch e))
              | Inr next \<Rightarrow>
                  (case (if disk = next then md_current s rv disk
                         else md_commit io s (render_document_state c (rv + 1) next) (rv + 1) next) of
                     (s', after, e) \<Rightarrow> (s', before, after, e))))"

definition md_compare_and_replace :: "(string \<Rightarrow> string) \<Rightarrow> md_io \<Rightarrow> md_store \<Rightarrow> u64 \<Rightarrow> item list \<Rightarrow> md_result" where
  "md_compare_and_replace sha_hex io s expected items =
     (if io_ctx io then (s, empty_snapshot, Some MdContext)
      else case validate_items items of
          Some e \<Rightarrow> (s, empty_snapshot, Some (ItemsInvalid e))
        | None \<Rightarrow>
            if io_lock_fails io then (s, empty_snapshot, Some MdLock)
            else (case read_markdown sha_hex io (md_file s) of
                Inl e \<Rightarrow> (s, empty_snapshot, Some e)
              | Inr (rv, disk, c) \<Rightarrow>
                  if rv \<noteq> expected
                  then (set_snapshot s rv disk, \<lparr>snap_revision = rv, snap_items = disk\<rparr>,
                        Some (MdConflict expected rv))
                  else if disk = items then md_current s rv disk
                  else md_commit io s (render_document_state c (rv + 1) items) (rv + 1) items))"

subsection \<open>Lemmas: what is read can be written\<close>

definition trimmed :: "item \<Rightarrow> bool" where
  "trimmed it = (trim_space (item_text it) = item_text it \<and> nl \<notin> set (item_id it))"

lemma storable_iff: "storable it \<longleftrightarrow> item_ok it \<and> trimmed it"
  by (auto simp: storable_def trimmed_def)

lemma valid_trimmed_storable:
  "validate_items items = None \<Longrightarrow> list_all trimmed items \<Longrightarrow> list_all storable items"
  by (simp add: validate_items_None storable_iff list_all_iff)

lemma valid_id_one_line: "valid_id i \<Longrightarrow> nl \<notin> set i"
  by (auto simp: valid_id_def list_all_iff id_char_def letter_char_def ascii_upper_def
      digit_char_def nl_def)

lemma nth_storable: "list_all P xs \<Longrightarrow> p < length xs \<Longrightarrow> P (xs ! p)"
  by (simp add: list_all_length)

lemma list_all_update: "list_all P xs \<Longrightarrow> P x \<Longrightarrow> list_all P (xs[p := x])"
  by (auto simp: list_all_iff dest!: set_update_subset_insert [THEN subsetD])

lemma apply_op_trimmed:
  assumes "list_all trimmed items" "apply_op idx items x = Inr next"
  shows "list_all trimmed next"
proof (cases "find_item items (trim_space (op_id x))")
  case None
  with assms show ?thesis
    by (auto simp: apply_op_def Let_def trimmed_def valid_id_one_line
        split: if_splits patch_op.splits option.splits)
next
  case (Some p)
  then have "p < length items" by (auto dest: find_item_Some)
  with assms(1) have "trimmed (items ! p)" by (rule nth_storable)
  moreover have "list_all trimmed (take p items @ drop (Suc p) items)"
    using assms(1) by (auto simp: list_all_iff dest: in_set_takeD in_set_dropD)
  ultimately show ?thesis
    using assms Some
    by (auto simp: apply_op_def Let_def trimmed_def intro!: list_all_update
        split: if_splits patch_op.splits option.splits)
qed

lemma apply_ops_trimmed:
  "list_all trimmed items \<Longrightarrow> apply_ops idx items xs = Inr next \<Longrightarrow> list_all trimmed next"
  by (induction idx items xs rule: apply_ops.induct)
    (auto split: option.splits sum.splits dest: apply_op_trimmed)

lemma apply_patch_trimmed:
  "list_all trimmed items \<Longrightarrow> apply_patch items xs = Inr next \<Longrightarrow> list_all trimmed next"
  by (auto simp: apply_patch_def apply_ops_trimmed split: if_splits option.splits)

lemma apply_patch_storable:
  "list_all trimmed items \<Longrightarrow> apply_patch items xs = Inr next \<Longrightarrow>
    list_all storable next \<and> validate_items next = None"
  using apply_patch_valid apply_patch_trimmed valid_trimmed_storable by blast

lemma nl_outer: "nl \<notin> set l \<Longrightarrow> nl \<notin> set (trim_space l)"
  using set_trim_space by blast

lemma parse_line_trimmed:
  assumes "parse_line l = Inr (Some it)" "nl \<notin> set l"
  shows "trimmed it"
proof -
  let ?r = "trim_space (drop 6 (trim_space l))"
  have "nl \<notin> set (drop 6 (trim_space l))"
    using nl_outer [OF assms(2)] by (auto dest: in_set_dropD)
  then have "nl \<notin> set ?r" by (rule nl_outer)
  moreover from assms(1) obtain k where "item_id it = take (k - 1) (drop 1 ?r)"
      "item_text it = trim_space (drop (k + 1) ?r)"
    by (auto simp: parse_line_def Let_def split: option.splits if_splits)
  ultimately show ?thesis by (auto simp: trimmed_def dest: in_set_takeD in_set_dropD)
qed

lemma parse_lines_trimmed:
  "\<forall>l \<in> set ls. nl \<notin> set l \<Longrightarrow> parse_lines ls = Inr items \<Longrightarrow> list_all trimmed items"
  by (induction ls arbitrary: items)
    (auto split: sum.splits option.splits dest: parse_line_trimmed)

lemma split_char_lines: "\<forall>l \<in> set (split_char x s). x \<notin> set l"
proof (induction s)
  case Nil
  then show ?case by simp
next
  case (Cons c s)
  then show ?case by (cases "split_char x s") auto
qed

lemma digits_of_one_line: "nl \<notin> set (digits_of k)"
  using digits_of_digits [of k] by (auto simp: list_all_iff digit_char_def nl_def)

text \<open>What the program relies on in \<open>hex.EncodeToString\<close> of a SHA-256 digest.\<close>

definition digest_ok :: "(string \<Rightarrow> string) \<Rightarrow> bool" where
  "digest_ok sha_hex = (\<forall>t. fingerprint_ok (sha_hex t))"

lemma legacy_trimmed:
  assumes "digest_ok sha_hex"
  shows "list_all trimmed (parse_legacy sha_hex seen ls)"
proof -
  have "nl \<notin> set (sha_hex t)" for t
  proof -
    have "list_all hex_char (sha_hex t)" using assms by (simp add: digest_ok_def fingerprint_ok_def)
    then show ?thesis by (auto simp: hex_char_def digit_char_def list_all_iff nl_def)
  qed
  then have "nl \<notin> set (legacy_id sha_hex t k)" for t k
    using digits_of_one_line [of k] by (auto simp: legacy_id_def nl_def dest: in_set_takeD)
  then show ?thesis
    by (induction sha_hex seen ls rule: parse_legacy.induct)
      (auto simp: Let_def trimmed_def split: option.splits)
qed

lemma parse_document_trimmed:
  assumes "digest_ok sha_hex" "parse_document sha_hex c = Inr items"
  shows "list_all trimmed items"
proof -
  have "list_all trimmed items" if "parse_body b = Inr items" for b
    using that parse_lines_trimmed [OF split_char_lines [of nl b]]
    by (auto simp: parse_body_def split: sum.splits option.splits)
  with assms(2) show ?thesis
    by (auto simp: parse_document_def parse_markdown_def legacy_trimmed [OF assms(1)] Let_def
        split: if_splits option.splits)
qed

subsection \<open>Lemmas: one operation\<close>

text \<open>The file holds a plan the store can work with.\<close>

definition plan_file :: "(string \<Rightarrow> string) \<Rightarrow> string option \<Rightarrow> u64 \<Rightarrow> item list \<Rightarrow> string option \<Rightarrow> bool" where
  "plan_file sha_hex f rv items g =
     (reads_as sha_hex (md_content f) rv items g \<and> validate_items items = None)"

lemma md_content_Some [simp]: "md_content (Some c) = c"
  by (simp add: md_content_def)

lemma read_markdown_Inr:
  "read_markdown sha_hex io f = Inr (rv, items, c) \<longleftrightarrow>
     \<not> io_read_fails io \<and> c = md_content f \<and> (\<exists>g. reads_as sha_hex c rv items g)"
  by (auto simp: read_markdown_def reads_as_def split: sum.splits)

lemma read_markdown_reads:
  "reads_as sha_hex (md_content f) rv items g \<Longrightarrow> \<not> io_read_fails io \<Longrightarrow>
    read_markdown sha_hex io f = Inr (rv, items, md_content f)"
  unfolding read_markdown_Inr by blast

lemma reads_as_unique:
  "reads_as sha_hex c rv items g \<Longrightarrow> reads_as sha_hex c rv' items' g' \<Longrightarrow> rv = rv' \<and> items = items' \<and> g = g'"
  by (simp add: reads_as_def)

lemma reads_as_trimmed:
  "digest_ok sha_hex \<Longrightarrow> reads_as sha_hex c rv items g \<Longrightarrow> list_all trimmed items"
  unfolding reads_as_parts using parse_document_trimmed by blast

lemma reads_as_storable:
  "digest_ok sha_hex \<Longrightarrow> plan_file sha_hex f rv items g \<Longrightarrow> list_all storable items"
  unfolding plan_file_def by (elim conjE) (rule valid_trimmed_storable, simp, rule reads_as_trimmed)

lemma md_commit_cases:
  assumes "md_commit io s c rv items = (s', sn, e)"
  shows "(e = None \<and> io_write io = WriteDone \<and> md_file s' = Some c \<and> md_mem s' = sn \<and>
        sn = \<lparr>snap_revision = rv, snap_items = items\<rparr>) \<or>
    (e = Some MdWrite \<and> sn = empty_snapshot \<and> md_mem s' = md_mem s \<and>
      (md_file s' = md_file s \<or> (io_write io = WriteUnsynced \<and> md_file s' = Some c)))"
  using assms
  by (auto simp: md_commit_def install_def set_snapshot_def split: write_end.splits)

lemma md_current_simps [simp]:
  "md_current s rv items =
     (s\<lparr>md_mem := \<lparr>snap_revision = rv, snap_items = items\<rparr>\<rparr>,
      \<lparr>snap_revision = rv, snap_items = items\<rparr>, None)"
  by (simp add: md_current_def set_snapshot_def)

lemma set_snapshot_simps [simp]:
  "md_file (set_snapshot s rv items) = md_file s"
  "md_mem (set_snapshot s rv items) = \<lparr>snap_revision = rv, snap_items = items\<rparr>"
  by (simp_all add: set_snapshot_def)

lemma state_plan:
  assumes "reads_as sha_hex (md_content f) rv0 old g" "list_all storable items"
    "validate_items items = None"
  shows "\<exists>g'. plan_file sha_hex (Some (render_document_state (md_content f) rv items)) rv items g' \<and>
    (g' = g \<or> g' = None)"
  using state_written [OF assms] assms(3) by (auto simp: plan_file_def)

lemma goal_plan:
  assumes "reads_as sha_hex (md_content f) rv0 old g" "list_all storable items"
    "validate_items items = None" "fp = goal_unbound \<or> fingerprint_ok fp"
  shows "plan_file sha_hex
    (Some (render_goal_binding (render_document_state (md_content f) rv items) fp)) rv items (Some fp)"
proof -
  from state_written [OF assms(1-3), of rv] obtain g' where
    "reads_as sha_hex (render_document_state (md_content f) rv items) rv items g'"
    "managed items (render_document_state (md_content f) rv items)" by blast
  from goal_written [OF this assms(2-4)] assms(3) show ?thesis by (simp add: plan_file_def)
qed

lemma items_for_goal_ok:
  "list_all storable disk \<Longrightarrow> validate_items disk = None \<Longrightarrow>
    list_all storable (items_for_goal g target disk) \<and> validate_items (items_for_goal g target disk) = None"
  by (auto simp: items_for_goal_def validate_items_def)

text \<open>An operation on the file, as one step.\<close>

datatype md_op = MdReplace "item list" | MdReload | MdBind string
  | MdPatchOp u64 "operation list" | MdSwap u64 "item list"

definition md_step :: "(string \<Rightarrow> string) \<Rightarrow> md_io \<Rightarrow> md_op \<Rightarrow> md_store \<Rightarrow> md_store \<times> md_error option" where
  "md_step sha_hex io x s =
     (case x of
        MdReplace items \<Rightarrow> (case md_replace sha_hex io s items of (s', _, e) \<Rightarrow> (s', e))
      | MdReload \<Rightarrow> (case md_reload sha_hex io s of (s', _, e) \<Rightarrow> (s', e))
      | MdBind goal \<Rightarrow> (case md_bind_goal sha_hex io s goal of (s', _, _, e) \<Rightarrow> (s', e))
      | MdPatchOp rv xs \<Rightarrow> (case md_compare_and_patch sha_hex io s rv xs of (s', _, _, e) \<Rightarrow> (s', e))
      | MdSwap rv items \<Rightarrow> (case md_compare_and_replace sha_hex io s rv items of (s', _, e) \<Rightarrow> (s', e)))"

text \<open>The lists of items given to the store have trimmed texts and ids of one line.\<close>

fun op_trimmed :: "md_op \<Rightarrow> bool" where
  "op_trimmed (MdReplace items) = list_all trimmed items"
| "op_trimmed (MdSwap rv items) = list_all trimmed items"
| "op_trimmed _ = True"

text \<open>What an operation does to the file: nothing, or a new plan at the next revision.\<close>

lemma md_step_file:
  assumes sha: "digest_ok sha_hex"
    and f: "plan_file sha_hex (md_file s) rv items g" and x: "op_trimmed x"
    and st: "md_step sha_hex io x s = (s', e)"
  shows "md_file s' = md_file s \<or>
    (((e = None \<and> io_write io = WriteDone) \<or> (e = Some MdWrite \<and> io_write io = WriteUnsynced)) \<and>
      (\<exists>items' g'. plan_file sha_hex (md_file s') (rv + 1) items' g'))"
proof -
  have r: "reads_as sha_hex (md_content (md_file s)) rv items g" using f by (simp add: plan_file_def)
  have tr: "list_all trimmed items" by (rule reads_as_trimmed [OF sha r])
  have st0: "list_all storable items" by (rule reads_as_storable [OF sha f])
  have rd: "read_markdown sha_hex io (md_file s) =
      (if io_read_fails io then Inl MdRead else Inr (rv, items, md_content (md_file s)))"
    using read_markdown_reads [OF r] by (simp add: read_markdown_def)
  let ?c = "md_content (md_file s)"
  have commit: "md_file t = md_file s \<or> (((e = None \<and> io_write io = WriteDone) \<or> (e = Some MdWrite \<and> io_write io = WriteUnsynced)) \<and>
      (\<exists>items' g'. plan_file sha_hex (md_file t) (rv + 1) items' g'))"
    if "md_commit io s c (rv + 1) new = (t, sn, e)" "plan_file sha_hex (Some c) (rv + 1) new g'"
    for t c new sn g'
    using md_commit_cases [OF that(1)] that(2) by fastforce
  have plan: "\<exists>g'. plan_file sha_hex (Some (render_document_state ?c (rv + 1) new)) (rv + 1) new g'"
    if "list_all trimmed new" "validate_items new = None" for new
    using state_plan [OF r valid_trimmed_storable [OF that(2,1)] that(2)] by blast
  show ?thesis
  proof (cases x)
    case (MdReplace new)
    with st have "md_file s' = md_file s \<or> (validate_items new = None \<and>
        (\<exists>sn. md_commit io s (render_document_state ?c (rv + 1) new) (rv + 1) new = (s', sn, e)))"
      by (auto simp: md_step_def md_replace_def rd split: if_splits option.splits prod.splits)
    moreover have "list_all trimmed new" using MdReplace x by simp
    ultimately show ?thesis using commit plan [of new] by blast
  next
    case MdReload
    with st show ?thesis
      by (auto simp: md_step_def md_reload_def rd split: if_splits prod.splits)
  next
    case (MdBind goal)
    let ?t = "goal_fingerprint sha_hex goal"
    let ?new = "items_for_goal g ?t items"
    let ?d = "render_goal_binding (render_document_state ?c (rv + 1) ?new) ?t"
    have pg: "parse_goal_binding ?c = Inr g" using r by (simp add: reads_as_def)
    from st MdBind have "md_file s' = md_file s \<or> (\<exists>sn. md_commit io s ?d (rv + 1) ?new = (s', sn, e))"
      by (auto simp: md_step_def md_bind_goal_def rd pg Let_def split: if_splits option.splits prod.splits)
    moreover have "?t = goal_unbound \<or> fingerprint_ok ?t"
      using sha by (simp add: goal_fingerprint_def digest_ok_def)
    then have "plan_file sha_hex (Some ?d) (rv + 1) ?new (Some ?t)"
      using items_for_goal_ok [OF st0, of g ?t] f by (intro goal_plan [OF r]) (auto simp: plan_file_def)
    ultimately show ?thesis using commit by blast
  next
    case (MdPatchOp exp xs)
    with st have "md_file s' = md_file s \<or> (\<exists>new. apply_patch items xs = Inr new \<and>
        (\<exists>sn. md_commit io s (render_document_state ?c (rv + 1) new) (rv + 1) new = (s', sn, e)))"
      by (auto simp: md_step_def md_compare_and_patch_def rd Let_def
          split: if_splits sum.splits prod.splits)
    with apply_patch_storable [OF tr] show ?thesis
      using commit state_plan [OF r] by blast
  next
    case (MdSwap exp new)
    with st have "md_file s' = md_file s \<or> (validate_items new = None \<and>
        (\<exists>sn. md_commit io s (render_document_state ?c (rv + 1) new) (rv + 1) new = (s', sn, e)))"
      by (auto simp: md_step_def md_compare_and_replace_def rd split: if_splits option.splits prod.splits)
    moreover have "list_all trimmed new" using MdSwap x by simp
    ultimately show ?thesis using commit plan [of new] by blast
  qed
qed

subsection \<open>The store as the repository of status reconciliation\<close>

text \<open>
  \<open>ReconcileStatus\<close> sees the snapshot in memory and patches the file. Its state here is the
  store together with what the operating system will do, which other clients may change along
  with the file; of the errors it only tells a conflict from the others.
\<close>

fun md_todo_error :: "md_error \<Rightarrow> todo_error" where
  "md_todo_error (MdConflict _ _) = RevisionConflict"
| "md_todo_error (MdPatch e) = e"
| "md_todo_error _ = RepositoryError"

definition md_snapshot :: "md_io \<times> md_store \<Rightarrow> snapshot" where
  "md_snapshot r = md_mem (snd r)"

definition md_patch :: "(string \<Rightarrow> string) \<Rightarrow> md_io \<times> md_store \<Rightarrow> u64 \<Rightarrow> operation list \<Rightarrow>
    (md_io \<times> md_store) \<times> patch_result" where
  "md_patch sha_hex r rv xs =
     (case md_compare_and_patch sha_hex (fst r) (snd r) rv xs of
        (s', before, after, e) \<Rightarrow> ((fst r, s'), before, after, map_option md_todo_error e))"

lemma parse_revision_error: "parse_revision c = Inl e \<Longrightarrow> md_todo_error e = RepositoryError"
  by (auto simp: parse_revision_def split: if_splits option.splits)

lemma parse_goal_error: "parse_goal_binding c = Inl e \<Longrightarrow> md_todo_error e = RepositoryError"
  by (auto simp: parse_goal_binding_def split: if_splits option.splits)

lemma parse_lines_error: "parse_lines ls = Inl e \<Longrightarrow> md_todo_error e = RepositoryError"
proof (induction ls)
  case Nil
  then show ?case by simp
next
  case (Cons l ls)
  have "md_todo_error e' = RepositoryError" if "parse_line l = Inl e'" for e'
    using that by (auto simp: parse_line_def Let_def split: option.splits if_splits)
  with Cons show ?case by (auto split: sum.splits)
qed

lemma parse_document_error: "parse_document sha_hex c = Inl e \<Longrightarrow> md_todo_error e = RepositoryError"
  by (auto simp: parse_document_def parse_body_def Let_def parse_lines_error
      split: if_splits option.splits sum.splits)

lemma read_markdown_error: "read_markdown sha_hex io f = Inl e \<Longrightarrow> md_todo_error e = RepositoryError"
  by (auto simp: read_markdown_def parse_document_state_def split: if_splits sum.splits
      dest: parse_revision_error parse_document_error parse_goal_error)

lemma md_patch_success:
  assumes "md_compare_and_patch sha_hex io s rv xs = (s', b, a, None)"
  shows "md_mem s' = a \<and> apply_patch (snap_items b) xs = Inr (snap_items a)"
proof -
  from assms obtain disk c new where h: "apply_patch disk xs = Inr new"
      "b = \<lparr>snap_revision = rv, snap_items = disk\<rparr>"
      "(if disk = new then md_current s rv disk else md_commit io s c (rv + 1) new) = (s', a, None)"
    by (auto simp: md_compare_and_patch_def Let_def split: if_splits sum.splits prod.splits)
  show ?thesis
  proof (cases "disk = new")
    case True
    with h show ?thesis by auto
  next
    case False
    with h(3) md_commit_cases [of io s c "rv + 1" new s' a None] h(1,2) show ?thesis by auto
  qed
qed

lemma md_patch_conflict:
  assumes "md_compare_and_patch sha_hex io s rv xs = (s', b, a, Some e)"
    "md_todo_error e = RevisionConflict"
  obtains rv' disk c where "read_markdown sha_hex io (md_file s) = Inr (rv', disk, c)"
    "md_file s' = md_file s" "md_mem s' = \<lparr>snap_revision = rv', snap_items = disk\<rparr>" "rv' \<noteq> rv"
proof -
  have w: "e = MdWrite" if "md_commit io t c rv' new = (s', w, Some e)" for t c rv' new w
    using md_commit_cases [OF that] by auto
  have p: "e' \<noteq> RevisionConflict" if "apply_patch disk xs = Inl e'" for disk e'
    using that apply_patch_error by metis
  have r: "read_markdown sha_hex io (md_file s) \<noteq> Inl e"
    using assms(2) read_markdown_error by fastforce
  from assms(1) r obtain rv' disk c where rd: "read_markdown sha_hex io (md_file s) = Inr (rv', disk, c)"
    using assms(2)
    by (auto simp: md_compare_and_patch_def split: if_splits sum.splits)
  have "rv' \<noteq> rv"
  proof
    assume "rv' = rv"
    with assms rd have "(\<exists>e'. apply_patch disk xs = Inl e' \<and> e = MdPatch e') \<or> e = MdWrite"
      by (auto simp: md_compare_and_patch_def Let_def dest: w split: if_splits sum.splits prod.splits)
    with assms(2) p show False by auto
  qed
  moreover from this assms rd have "s' = set_snapshot s rv' disk"
    by (auto simp: md_compare_and_patch_def Let_def split: if_splits)
  ultimately show ?thesis using that rd by simp
qed

lemma md_patch_again:
  assumes "md_patch sha_hex r rv xs = (r', b, a, Some RevisionConflict)"
  shows "md_patch sha_hex r' (snap_revision (md_snapshot r')) ys \<noteq> (r'', b', a', Some RevisionConflict)"
proof
  assume again: "md_patch sha_hex r' (snap_revision (md_snapshot r')) ys = (r'', b', a', Some RevisionConflict)"
  obtain io s where r: "r = (io, s)" by (cases r)
  from assms r obtain s' e where 1: "md_compare_and_patch sha_hex io s rv xs = (s', b, a, Some e)"
      "md_todo_error e = RevisionConflict" "r' = (io, s')"
    by (auto simp: md_patch_def split: prod.splits)
  from md_patch_conflict [OF 1(1,2)] obtain rv' disk c where
    2: "read_markdown sha_hex io (md_file s') = Inr (rv', disk, c)" "snap_revision (md_mem s') = rv'"
    by (metis snapshot.select_convs(1))
  from again 1(3) obtain s'' e' where
    3: "md_compare_and_patch sha_hex io s' (snap_revision (md_mem s')) ys = (s'', b', a', Some e')"
      "md_todo_error e' = RevisionConflict"
    by (auto simp: md_patch_def md_snapshot_def split: prod.splits)
  from md_patch_conflict [OF this] 2 show False by (metis Pair_inject sum.inject(2))
qed

interpretation md_repository: patch_repository md_snapshot "md_patch sha_hex" for sha_hex
proof
  show "md_patch sha_hex r' (snap_revision (md_snapshot r')) ys \<noteq> (r'', b', a', Some RevisionConflict)"
    if "md_patch sha_hex r rv xs = (r', b, a, Some RevisionConflict)" for r rv xs r' b a ys r'' b' a'
    using that by (rule md_patch_again)
  show "md_snapshot r' = a \<and> apply_patch (snap_items b) xs = Inr (snap_items a)"
    if "md_patch sha_hex r rv xs = (r', b, a, None)" for r rv xs r' b a
    using that md_patch_success
    by (fastforce simp: md_patch_def md_snapshot_def split: prod.splits)
qed

subsection \<open>Properties\<close>


text \<open>The plan files of a run of operations, each with what the operating system does to it.\<close>

definition md_run :: "(string \<Rightarrow> string) \<Rightarrow> (md_io \<times> md_op) list \<Rightarrow> md_store \<Rightarrow> md_store" where
  "md_run sha_hex xs s = foldl (\<lambda>t (io, x). fst (md_step sha_hex io x t)) s xs"

lemma md_run_simps [simp]:
  "md_run sha_hex [] s = s"
  "md_run sha_hex ((io, x) # xs) s = md_run sha_hex xs (fst (md_step sha_hex io x s))"
  by (simp_all add: md_run_def)

lemma md_run_plan:
  assumes "digest_ok sha_hex" "plan_file sha_hex (md_file s) rv items g"
    "list_all (\<lambda>(io, x). op_trimmed x) xs"
  shows "\<exists>k items' g'. k \<le> length xs \<and> (k = 0 \<longrightarrow> md_file (md_run sha_hex xs s) = md_file s) \<and>
    plan_file sha_hex (md_file (md_run sha_hex xs s)) (rv + of_nat k) items' g'"
  using assms(2,3)
proof (induction xs arbitrary: s rv items g)
  case Nil
  then show ?case by auto
next
  case (Cons y xs)
  obtain io x where y: "y = (io, x)" by (cases y)
  obtain s1 e where s1: "md_step sha_hex io x s = (s1, e)" by (cases "md_step sha_hex io x s")
  have run: "md_run sha_hex (y # xs) s = md_run sha_hex xs s1" by (simp add: y s1)
  have ok: "op_trimmed x" "list_all (\<lambda>(io, x). op_trimmed x) xs" using Cons.prems(2) y by simp_all
  have "md_file s1 = md_file s \<or> (\<exists>items' g'. plan_file sha_hex (md_file s1) (rv + 1) items' g')"
    using md_step_file [OF assms(1) Cons.prems(1) ok(1) s1] by blast
  then show ?case
  proof (elim disjE exE)
    assume "md_file s1 = md_file s"
    with Cons.IH [of s1 rv items g] Cons.prems(1) ok(2) obtain k items' g' where
      "k \<le> length xs" "k = 0 \<longrightarrow> md_file (md_run sha_hex xs s1) = md_file s"
      "plan_file sha_hex (md_file (md_run sha_hex xs s1)) (rv + of_nat k) items' g'" by auto
    then show ?thesis unfolding run by (intro exI [of _ k] exI [of _ items'] exI [of _ g']) simp
  next
    fix items1 g1
    assume "plan_file sha_hex (md_file s1) (rv + 1) items1 g1"
    with Cons.IH [OF this ok(2)] obtain k items' g' where
      "k \<le> length xs" "plan_file sha_hex (md_file (md_run sha_hex xs s1)) (rv + 1 + of_nat k) items' g'"
      by blast
    then show ?thesis unfolding run
      by (intro exI [of _ "Suc k"] exI [of _ items'] exI [of _ g']) (simp add: add.assoc)
  qed
qed



text \<open>
  C36: The store over a file refines the store in memory. With an operating system that does not
  fail, \<open>CompareAndPatch\<close> on a file that reads as the snapshot \<open>sn\<close> gives the same before and
  the same verdict as \<open>CompareAndPatch\<close> of the store in memory on \<open>sn\<close>; afterwards the file
  reads as the state of that store, and after a success the snapshot returned and the one in
  memory are that state too.
\<close>

theorem md_patch_refines:
  assumes "digest_ok sha_hex" "\<not> io_ctx io" "\<not> io_lock_fails io" "\<not> io_read_fails io"
    and "io_write io = WriteDone"
    and "plan_file sha_hex (md_file s) (snap_revision sn) (snap_items sn) g"
    and "md_compare_and_patch sha_hex io s expected xs = (s', before, after, e)"
    and "compare_and_patch False False sn expected xs = (sn', b, a, e')"
  shows "before = b \<and> (e = None \<longleftrightarrow> e' = None) \<and>
    (\<exists>g'. plan_file sha_hex (md_file s') (snap_revision sn') (snap_items sn') g') \<and>
    (e = None \<longrightarrow> after = a \<and> md_mem s' = sn')"
proof -
  have r: "reads_as sha_hex (md_content (md_file s)) (snap_revision sn) (snap_items sn) g"
    using assms(6) by (simp add: plan_file_def)
  note rd = read_markdown_reads [OF r assms(4)]
  have sn: "\<lparr>snap_revision = snap_revision sn, snap_items = snap_items sn\<rparr> = sn" by simp
  note op = assms(7) [unfolded md_compare_and_patch_def, simplified assms(2,3) rd Let_def, simplified]
  note mem = assms(8) [unfolded compare_and_patch_def, simplified]
  show ?thesis
  proof (cases "snap_revision sn = expected")
    case False
    with op mem assms(6) show ?thesis by auto
  next
    case True
    show ?thesis
    proof (cases "apply_patch (snap_items sn) xs")
      case (Inl err)
      with True op mem assms(6) show ?thesis by auto
    next
      case (Inr new)
      have ok: "list_all storable new" "validate_items new = None"
        using apply_patch_storable [OF reads_as_trimmed [OF assms(1) r] Inr] by simp_all
      show ?thesis
      proof (cases "snap_items sn = new")
        case True
        with Inr \<open>snap_revision sn = expected\<close> op mem assms(6) show ?thesis
          by (auto simp: commit_items_def)
      next
        case False
        obtain t w err where c: "md_commit io s (render_document_state (md_content (md_file s))
            (snap_revision sn + 1) new) (snap_revision sn + 1) new = (t, w, err)"
          by (cases "md_commit io s (render_document_state (md_content (md_file s))
            (snap_revision sn + 1) new) (snap_revision sn + 1) new")
        note cc = md_commit_cases [OF c]
        have "err = None" using cc assms(5) c by (auto simp: md_commit_def install_def)
        with cc have t: "w = \<lparr>snap_revision = snap_revision sn + 1, snap_items = new\<rparr>" "md_mem t = w"
            "md_file t = Some (render_document_state (md_content (md_file s)) (snap_revision sn + 1) new)"
          by simp_all
        have "s' = t \<and> before = sn \<and> after = w \<and> e = None"
          using op c False Inr True \<open>err = None\<close> by (auto intro!: snapshot.equality)
        moreover have "sn' = w \<and> b = sn \<and> a = w \<and> e' = None"
          using mem False Inr True t(1) by (auto simp: commit_items_def Let_def)
        moreover have "\<exists>g'. plan_file sha_hex (md_file t) (snap_revision w) (snap_items w) g'"
          using state_plan [OF r ok, of "snap_revision sn + 1"] t(1,3) by auto
        ultimately show ?thesis using t(2) by simp
      qed
    qed
  qed
qed

text \<open>
  What binding the plan to a goal does. A successful \<open>BindGoal\<close> leaves the file bound to the
  fingerprint of the goal, except that an unbound plan stays unbound while there is no goal. The
  items are kept unless the plan was bound to something else and the new goal is not empty; the
  snapshot returned is what the file now reads as, and \<open>changed\<close> says whether the revision moved.
\<close>

theorem bind_goal_exact:
  assumes "digest_ok sha_hex" "plan_file sha_hex (md_file s) rv items g"
    and "md_bind_goal sha_hex io s goal = (s', sn, changed, None)"
    and "target = goal_fingerprint sha_hex goal"
  shows "plan_file sha_hex (md_file s') (snap_revision sn) (snap_items sn)
      (if g = None \<and> target = goal_unbound then None else Some target) \<and>
    snap_items sn = (if g \<noteq> None \<and> target \<noteq> goal_unbound \<and> g \<noteq> Some target then [] else items) \<and>
    snap_revision sn = (if changed then rv + 1 else rv) \<and>
    md_mem s' = sn \<and>
    (changed \<longleftrightarrow> g \<noteq> Some target \<and> \<not> (g = None \<and> target = goal_unbound))"
proof -
  have r: "reads_as sha_hex (md_content (md_file s)) rv items g" "validate_items items = None"
    using assms(2) by (simp_all add: plan_file_def)
  have pg: "parse_goal_binding (md_content (md_file s)) = Inr g" using r by (simp add: reads_as_def)
  have io: "\<not> io_ctx io" "\<not> io_lock_fails io" "\<not> io_read_fails io"
    using assms(3) by (auto simp: md_bind_goal_def read_markdown_def Let_def split: if_splits)
  note rd = read_markdown_reads [OF r(1) io(3)]
  note op = assms(3) [unfolded md_bind_goal_def, simplified io rd Let_def assms(4) [symmetric], simplified, simplified pg, simplified]
  show ?thesis
  proof (cases "g = Some target \<or> (g = None \<and> target = goal_unbound)")
    case True
    with op assms(2) show ?thesis by (auto simp: items_for_goal_def)
  next
    case False
    let ?new = "items_for_goal g target items"
    let ?d = "render_goal_binding (render_document_state (md_content (md_file s)) (rv + 1) ?new) target"
    obtain t w err where c: "md_commit io s ?d (rv + 1) ?new = (t, w, err)"
      by (cases "md_commit io s ?d (rv + 1) ?new")
    have tg: "target = goal_unbound \<or> fingerprint_ok target"
      using assms(1) by (simp add: assms(4) goal_fingerprint_def digest_ok_def)
    have "list_all storable ?new" "validate_items ?new = None"
      using items_for_goal_ok [OF reads_as_storable [OF assms(1,2)] r(2)] by simp_all
    from goal_plan [OF r(1) this tg]
    have p: "plan_file sha_hex (Some ?d) (rv + 1) ?new (Some target)" .
    from op c False have "err = None" "s' = t" "sn = w" "changed"
      by (auto split: option.splits)
    with md_commit_cases [OF c] p False show ?thesis by (auto simp: items_for_goal_def)
  qed
qed

text \<open>
  Status reconciliation settles on the file as well. Whatever other clients and the operating
  system do between its calls, when \<open>ReconcileStatus\<close> over the markdown store returns without
  an error the snapshot it returns is the store's, and the task is absent from it or has the
  wanted status; and without interference it never gives up with a conflict, even when the
  snapshot in memory was older than the file.
\<close>

theorem reconcile_file_settles:
  assumes "reconcile_status md_snapshot (md_patch sha_hex) env i st r = (r', sn, changed, err)"
  shows "(err = None \<longrightarrow> sn = md_snapshot r' \<and>
      (case find_item (snap_items sn) (trim_space i) of
         None \<Rightarrow> \<not> changed | Some p \<Rightarrow> item_status (snap_items sn ! p) = st)) \<and>
    (env = (\<lambda>_ x. x) \<longrightarrow> err \<noteq> Some RevisionConflict)"
proof (intro conjI impI)
  assume "err = None"
  with assms md_repository.reconcile_settles [of sha_hex env i st r r' sn changed]
  show "sn = md_snapshot r'" "case find_item (snap_items sn) (trim_space i) of
      None \<Rightarrow> \<not> changed | Some p \<Rightarrow> item_status (snap_items sn ! p) = st" by auto
next
  assume "env = (\<lambda>_ x. x)"
  with assms have "reconcile_status md_snapshot (md_patch sha_hex) (\<lambda>_ x. x) i st r =
      (r', sn, changed, err)" by simp
  then show "err \<noteq> Some RevisionConflict" by (rule md_repository.reconcile_quiet)
qed

subsection \<open>Witnesses\<close>

definition sample_digest :: "string \<Rightarrow> string" where
  "sample_digest t = replicate 64 CHR ''a''"

definition quiet :: md_io where
  "quiet = \<lparr>io_ctx = False, io_lock_fails = False, io_read_fails = False, io_write = WriteDone\<rparr>"

definition no_file :: md_store where
  "no_file = \<lparr>md_file = None, md_mem = empty_snapshot\<rparr>"

definition one_item :: "item list" where
  "one_item = [\<lparr>item_id = ''a1'', item_text = ''do it'', item_status = StatusInProgress\<rparr>]"

lemma sample_digest_ok: "digest_ok sample_digest"
proof -
  have "fingerprint_ok (replicate 64 CHR ''a'')" by code_simp
  then show ?thesis by (simp add: digest_ok_def sample_digest_def)
qed

lemma one_item_ok: "list_all storable one_item" "validate_items one_item = None" "list_all trimmed one_item"
  by code_simp+

lemma empty_reads: "parse_document_state sha_hex [] = Inr (0, [])" "parse_goal_binding [] = Inr None"
  by (simp_all add: parse_document_state_def parse_revision_def parse_document_def parse_markdown_def
      line_status_def parse_goal_binding_def)

lemma no_file_plan: "plan_file sample_digest (md_file no_file) 0 [] None"
  by (simp add: plan_file_def reads_as_def md_content_def no_file_def empty_reads validate_items_def)

lemma no_file_read: "read_markdown sha_hex quiet (md_file no_file) = Inr (0, [], [])"
  by (simp add: read_markdown_def no_file_def md_content_def empty_reads quiet_def)




definition add_op :: operation where
  "add_op = \<lparr>op_op = PatchAdd, op_id = ''a1'', op_text = '' do it '', op_status = StatusInProgress\<rparr>"

theorem md_patch_refines_witness:
  "\<exists>s' before after g'. md_compare_and_patch sample_digest quiet no_file 0 [add_op] =
      (s', before, after, None) \<and>
    md_mem s' = \<lparr>snap_revision = 1, snap_items = one_item\<rparr> \<and> plan_file sample_digest (md_file s') 1 one_item g'"
proof -
  have mem: "compare_and_patch False False empty_snapshot 0 [add_op] =
      (\<lparr>snap_revision = 1, snap_items = one_item\<rparr>, empty_snapshot,
       \<lparr>snap_revision = 1, snap_items = one_item\<rparr>, None)"
    by code_simp
  obtain s' before after e where op:
    "md_compare_and_patch sample_digest quiet no_file 0 [add_op] = (s', before, after, e)"
    by (metis prod.exhaust)
  have pf: "plan_file sample_digest (md_file no_file) (snap_revision empty_snapshot)
      (snap_items empty_snapshot) None"
    using no_file_plan by (simp add: empty_snapshot_def)
  from md_patch_refines [OF sample_digest_ok _ _ _ _ pf op mem] op show ?thesis
    by (auto simp: quiet_def)
qed

theorem bind_goal_exact_witness:
  "\<exists>s' sn. md_bind_goal sample_digest quiet no_file ''ship it'' = (s', sn, True, None) \<and>
    plan_file sample_digest (md_file s') (snap_revision sn) (snap_items sn) (Some (replicate 64 CHR ''a''))"
proof -
  have t: "goal_fingerprint sample_digest ''ship it'' = replicate 64 CHR ''a''" by code_simp
  have u: "replicate 64 CHR ''a'' \<noteq> goal_unbound" by code_simp
  obtain s' sn where op: "md_bind_goal sample_digest quiet no_file ''ship it'' = (s', sn, True, None)"
    using t u no_file_read [of sample_digest]
    by (simp add: md_bind_goal_def empty_reads md_commit_def install_def quiet_def Let_def)
  from bind_goal_exact [OF sample_digest_ok no_file_plan op refl] t u op show ?thesis by auto
qed

text \<open>A store whose snapshot is older than the file, which is gone: the task is given up.\<close>

theorem reconcile_file_settles_witness:
  "case reconcile_status md_snapshot (md_patch sample_digest) (\<lambda>_ x. x) ''a1'' StatusCompleted
       (quiet, no_file\<lparr>md_mem := \<lparr>snap_revision = 7, snap_items = one_item\<rparr>\<rparr>) of
     (r', sn, changed, err) \<Rightarrow> err = None \<and> \<not> changed \<and> sn = md_snapshot r' \<and> snap_items sn = []"
proof -
  let ?s = "no_file\<lparr>md_mem := \<lparr>snap_revision = 7, snap_items = one_item\<rparr>\<rparr>"
  have t: "trim_space ''a1'' = ''a1''" "valid_id ''a1''" by code_simp+
  have f: "find_item one_item ''a1'' = Some 0" "item_status (one_item ! 0) \<noteq> StatusCompleted"
    by code_simp+
  have p: "md_patch sample_digest (quiet, ?s) 7 xs =
      ((quiet, no_file), empty_snapshot, empty_snapshot, Some RevisionConflict)" for xs
    using no_file_read [of sample_digest]
    by (simp add: md_patch_def md_compare_and_patch_def quiet_def no_file_def set_snapshot_def
        empty_snapshot_def Let_def)
  have r: "reconcile_status md_snapshot (md_patch sample_digest) (\<lambda>_ x. x) ''a1'' StatusCompleted
      (quiet, ?s) = ((quiet, no_file), empty_snapshot, False, None)"
    using t f p by (simp add: reconcile_status_def reconcile_status_attempts_def numeral_3_eq_3 Let_def
        status_valid_def md_snapshot_def no_file_def empty_snapshot_def)
  have "empty_snapshot = md_snapshot (quiet, no_file)" using reconcile_file_settles [OF r] by simp
  moreover have "snap_items empty_snapshot = []" by (simp add: empty_snapshot_def)
  ultimately show ?thesis unfolding r by simp
qed

subsection \<open>What the format loses\<close>

text \<open>
  \<open>ValidateItems\<close> checks the trimmed id and text, and the store writes them as they are. A
  text with an outer space is therefore never equal to what is read back, so replacing the plan
  by the same items moves the revision each time; and an id that ends with a line break is
  accepted and written, after which the file cannot be read by any operation.
\<close>

theorem outer_space_not_stored:
  "(let it = \<lparr>item_id = ''a'', item_text = '' go'', item_status = StatusPending\<rparr> in
      validate_items [it] = None \<and> parse_line (item_line it) \<noteq> Inr (Some it)) \<and>
   (let it = \<lparr>item_id = [CHR ''a'', nl], item_text = ''go'', item_status = StatusPending\<rparr> in
      validate_items [it] = None \<and>
      \<not> is_ok (parse_document sample_digest (render_document_state [] 1 [it])) \<and>
      snd (md_step sample_digest quiet (MdReplace [it]) no_file) = None)"
proof -
  define it where "it = \<lparr>item_id = [CHR ''a'', nl], item_text = ''go'', item_status = StatusPending\<rparr>"
  have a: "validate_items [it] = None" unfolding it_def by code_simp
  have b: "\<not> is_ok (parse_document sample_digest (render_document_state [] 1 [it]))"
    unfolding it_def by code_simp
  have "snd (md_step sample_digest quiet (MdReplace [it]) no_file) = None"
    using a no_file_read [of sample_digest]
    by (simp add: md_step_def md_replace_def md_commit_def install_def quiet_def)
  moreover have "let it = \<lparr>item_id = ''a'', item_text = '' go'', item_status = StatusPending\<rparr> in
      validate_items [it] = None \<and> parse_line (item_line it) \<noteq> Inr (Some it)" by code_simp
  ultimately show ?thesis using a b unfolding it_def Let_def by blast
qed

end
