(* ===== verification/Turn_Guards.thy ===== *)
theory Turn_Guards
  imports Tool_Semantics Str_Util
begin

text \<open>
  The guards of one turn of the model: \<open>internal/engine/turn\<close>, the files \<open>progress_guard.go\<close>
  (repetition without progress), \<open>safety_budget.go\<close> (calls in a turn), \<open>tool_result_budget.go\<close>
  (bytes of results), \<open>verification.go\<close>, \<open>grounding.go\<close> and \<open>goal_completion.go\<close>. Each observes the
  executed calls of a round. JSON and hashing are functions of \<open>turn_env\<close>: the command of a
  shell call, the hash of a call (\<open>None\<close> where its arguments do not parse), the hash of a
  result, the string member \<open>action\<close>, the counts in a plan's output. Error texts are not modelled.
\<close>

record turn_env =
  te_command :: command_decoder
  te_call_hash :: "tool_call \<Rightarrow> string option"
  te_result_hash :: "tool_result \<Rightarrow> string option"
  te_action :: "string \<Rightarrow> string"

datatype suppression = NotSuppressed | NoProgress | PermissionRetry | TerminalFailure
  | RetryBudgetExhausted

record executed_call =
  ex_call :: tool_call
  ex_result :: tool_result
  ex_error :: bool
  ex_suppressed :: bool
  ex_reason :: suppression
  ex_repeat :: int
  ex_retryable :: bool

type_synonym definitions = "string \<rightharpoonup> tool_definition"

text \<open>The later of two definitions of one name counts.\<close>

definition by_name :: "tool_definition list \<Rightarrow> definitions" where
  "by_name ds = map_of (rev (map (\<lambda>d. (def_name d, d)) ds))"

subsection \<open>The progress guard\<close>

record observation =
  ob_epoch :: u64
  ob_result_hash :: string
  ob_count :: int
  ob_failure :: bool
  ob_retryable :: bool
  ob_code :: "error_code option"
  ob_payload :: "failure option"

record progress_guard =
  pg_max_identical :: int
  pg_max_retryable :: int
  pg_max_stalled :: int
  pg_stalled :: int
  pg_epoch :: u64
  pg_observations :: "string \<rightharpoonup> observation"
  pg_definitions :: definitions

definition new_progress_guard :: "tool_definition list \<Rightarrow> int \<Rightarrow> progress_guard" where
  "new_progress_guard ds n =
     \<lparr>pg_max_identical = n, pg_max_retryable = 3, pg_max_stalled = 3, pg_stalled = 0, pg_epoch = 0,
      pg_observations = Map.empty, pg_definitions = by_name ds\<rparr>"

definition should_synthesize :: "progress_guard \<Rightarrow> bool \<Rightarrow> progress_guard \<times> bool" where
  "should_synthesize g stalled =
     (if \<not> stalled then (g\<lparr>pg_stalled := 0\<rparr>, False)
      else let g' = g\<lparr>pg_stalled := pg_stalled g + 1\<rparr> in
        (g', pg_max_stalled g' \<le> 0 \<or> pg_max_stalled g' \<le> pg_stalled g'))"

definition observe_external_progress :: "progress_guard \<Rightarrow> progress_guard" where
  "observe_external_progress g = g\<lparr>pg_epoch := pg_epoch g + 1, pg_stalled := 0\<rparr>"

definition should_track :: "call_semantics \<Rightarrow> tool_result \<Rightarrow> bool" where
  "should_track s r =
     (if res_failure r \<noteq> None then True
      else if mutation_domain (sem_safety s) = DomainTaskState then True
      else sem_mutability s = MutabilityReadOnly)"

definition advances_epoch :: "call_semantics \<Rightarrow> bool" where
  "advances_epoch s =
     (sem_mutability s \<noteq> MutabilityReadOnly \<and> mutation_domain (sem_safety s) \<noteq> DomainTaskState)"

definition potentially_mutating :: "turn_env \<Rightarrow> tool_definition \<Rightarrow> tool_call \<Rightarrow> bool" where
  "potentially_mutating env d c =
     (effective_call_mutability (te_command env) d (call_arguments c) \<noteq> MutabilityReadOnly)"

definition first_observation :: "u64 \<Rightarrow> string \<Rightarrow> tool_result \<Rightarrow> observation" where
  "first_observation epoch rh r =
     (case res_failure r of
        None \<Rightarrow> \<lparr>ob_epoch = epoch, ob_result_hash = rh, ob_count = 1, ob_failure = False,
                 ob_retryable = False, ob_code = None, ob_payload = None\<rparr>
      | Some f \<Rightarrow> \<lparr>ob_epoch = epoch, ob_result_hash = rh, ob_count = 1, ob_failure = True,
                   ob_retryable = fail_retryable f, ob_code = Some (fail_code f),
                   ob_payload = Some f\<rparr>)"

text \<open>\<open>observe\<close>: the guard, and stalled and tracked, or nothing where a hash cannot be taken.\<close>

definition observe :: "turn_env \<Rightarrow> progress_guard \<Rightarrow> executed_call \<Rightarrow>
    progress_guard \<times> (bool \<times> bool) option" where
  "observe env g x =
     (case pg_definitions g (call_name (ex_call x)) of
        None \<Rightarrow> (g, Some (False, False))
      | Some d \<Rightarrow>
          let s = effective_call_semantics (te_command env) d (call_arguments (ex_call x)) in
          if \<not> ex_error x \<and> advances_epoch s
          then (g\<lparr>pg_epoch := pg_epoch g + 1\<rparr>, Some (False, False))
          else if \<not> should_track s (ex_result x) then (g, Some (False, False))
          else (case (te_call_hash env (ex_call x), te_result_hash env (ex_result x)) of
              (Some ch, Some rh) \<Rightarrow>
                (case pg_observations g ch of
                   Some o1 \<Rightarrow>
                     if ob_epoch o1 \<noteq> pg_epoch g \<or> ob_result_hash o1 \<noteq> rh
                     then (g\<lparr>pg_observations :=
                              (pg_observations g)(ch \<mapsto> first_observation (pg_epoch g) rh (ex_result x))\<rparr>,
                           Some (False, True))
                     else let o2 = o1\<lparr>ob_count := ob_count o1 + 1,
                              ob_payload := (if res_failure (ex_result x) \<noteq> None
                                then res_failure (ex_result x) else ob_payload o1)\<rparr>;
                            limit = (case res_failure (ex_result x) of
                                Some f \<Rightarrow> if fail_retryable f then pg_max_retryable g
                                          else pg_max_identical g
                              | None \<Rightarrow> pg_max_identical g)
                       in (g\<lparr>pg_observations := (pg_observations g)(ch \<mapsto> o2)\<rparr>,
                           Some (0 < limit \<and> limit \<le> ob_count o2, True))
                 | None \<Rightarrow>
                     (g\<lparr>pg_observations :=
                        (pg_observations g)(ch \<mapsto> first_observation (pg_epoch g) rh (ex_result x))\<rparr>,
                      Some (False, True)))
            | _ \<Rightarrow> (g, None)))"

fun observe_loop :: "turn_env \<Rightarrow> progress_guard \<Rightarrow> executed_call list \<Rightarrow> bool \<Rightarrow> bool \<Rightarrow>
    progress_guard \<times> bool option" where
  "observe_loop env g [] tracked stalled =
     (case should_synthesize g (tracked \<and> stalled) of (g', b) \<Rightarrow> (g', Some b))"
| "observe_loop env g (x # xs) tracked stalled =
     (if ex_suppressed x then observe_loop env g xs True stalled
      else case observe env g x of
          (g', None) \<Rightarrow> (g', None)
        | (g', Some (st, tr)) \<Rightarrow> observe_loop env g' xs (tracked \<or> tr) (stalled \<and> st))"

definition observe_round :: "turn_env \<Rightarrow> progress_guard \<Rightarrow> executed_call list \<Rightarrow>
    progress_guard \<times> bool option" where
  "observe_round env g xs =
     (if pg_max_identical g \<le> 0 then (g, Some False)
      else if xs = [] then (case should_synthesize g False of (g', b) \<Rightarrow> (g', Some b))
      else observe_loop env g xs False True)"

text \<open>Whether what was observed of a call is enough to suppress it.\<close>

definition worn_out :: "progress_guard \<Rightarrow> observation \<Rightarrow> bool" where
  "worn_out g o1 =
     (if ob_failure o1 \<and> \<not> ob_retryable o1 then 1 \<le> ob_count o1
      else if ob_failure o1 \<and> ob_retryable o1
      then 0 < pg_max_retryable g \<and> pg_max_retryable g \<le> ob_count o1
      else pg_max_identical g \<le> ob_count o1)"

definition suppression_reason :: "observation \<Rightarrow> suppression" where
  "suppression_reason o1 =
     (if ob_failure o1 \<and> \<not> ob_retryable o1
      then (if ob_code o1 = Some CodePermissionDenied then PermissionRetry else TerminalFailure)
      else if ob_failure o1 \<and> ob_retryable o1 then RetryBudgetExhausted
      else NoProgress)"

definition no_progress_failure :: failure where
  "no_progress_failure =
     \<lparr>fail_code = CodeNoProgress,
      fail_message = ''identical tool call was suppressed after repeated no-progress results'',
      fail_diagnostic = ''choose materially different arguments or another tool instead of repeating this operation'',
      fail_retryable = False, fail_recovery = None, fail_evidence = None\<rparr>"

definition suppressed_call :: "tool_call \<Rightarrow> observation \<Rightarrow> executed_call" where
  "suppressed_call c o1 =
     (let f = (case ob_payload o1 of Some f \<Rightarrow> f | None \<Rightarrow> no_progress_failure) in
      \<lparr>ex_call = c,
       ex_result = empty_result\<lparr>res_call_id := call_id c, res_tool_name := call_name c,
         res_denied := (fail_code f = CodePermissionDenied), res_failure := Some f\<rparr>,
       ex_error = False, ex_suppressed = True, ex_reason = suppression_reason o1,
       ex_repeat = ob_count o1, ex_retryable = ob_retryable o1\<rparr>)"

text \<open>\<open>suppress\<close>: an error where the arguments do not parse, else the suppressed call, if any.\<close>

definition suppress :: "turn_env \<Rightarrow> progress_guard \<Rightarrow> tool_call \<Rightarrow> executed_call option option" where
  "suppress env g c =
     (if pg_max_identical g \<le> 0 then Some None
      else case te_call_hash env c of
          None \<Rightarrow> None
        | Some ch \<Rightarrow>
            (case pg_observations g ch of
               None \<Rightarrow> Some None
             | Some o1 \<Rightarrow>
                 if ob_epoch o1 \<noteq> pg_epoch g \<or> \<not> worn_out g o1 then Some None
                 else Some (Some (suppressed_call c o1))))"

subsection \<open>The safety budget\<close>

record safety_budget =
  sb_total :: int
  sb_stagnant :: int
  sb_max_stagnant :: int
  sb_emergency :: int

definition new_safety_budget :: "int \<Rightarrow> int \<Rightarrow> safety_budget" where
  "new_safety_budget stagnant emergency =
     \<lparr>sb_total = 0, sb_stagnant = 0, sb_max_stagnant = stagnant, sb_emergency = emergency\<rparr>"

definition execution_advances :: "turn_env \<Rightarrow> tool_definition \<Rightarrow> executed_call \<Rightarrow> bool" where
  "execution_advances env d x =
     (if ex_suppressed x \<or> ex_error x \<or> res_failure (ex_result x) \<noteq> None \<or> res_denied (ex_result x)
      then False
      else if def_kind d = KindTask then False
      else if def_kind d = KindAgent
      then to_lower (te_action env (call_arguments (ex_call x))) \<in> {''spawn'', ''resume'', ''cancel''}
      else True)"

definition advances :: "turn_env \<Rightarrow> definitions \<Rightarrow> executed_call \<Rightarrow> bool" where
  "advances env defs x =
     (case defs (call_name (ex_call x)) of None \<Rightarrow> False | Some d \<Rightarrow> execution_advances env d x)"

definition observe_budget :: "turn_env \<Rightarrow> definitions \<Rightarrow> safety_budget \<Rightarrow> executed_call list \<Rightarrow>
    safety_budget \<times> bool" where
  "observe_budget env defs b xs =
     (if xs = [] then (b, False)
      else let progressed = list_ex (advances env defs) xs in
        (b\<lparr>sb_total := sb_total b + int (length xs),
           sb_stagnant := (if progressed then 0 else sb_stagnant b + int (length xs))\<rparr>, progressed))"

definition exhausted :: "safety_budget \<Rightarrow> bool" where
  "exhausted b =
     ((0 < sb_max_stagnant b \<and> sb_max_stagnant b \<le> sb_stagnant b) \<or>
      (0 < sb_emergency b \<and> sb_emergency b \<le> sb_total b))"

definition remaining_hard_limit :: "safety_budget \<Rightarrow> int" where
  "remaining_hard_limit b =
     (if sb_emergency b \<le> 0 then 0 else max 0 (sb_emergency b - sb_total b))"

definition should_warn :: "safety_budget \<Rightarrow> bool \<Rightarrow> bool" where
  "should_warn b warned =
     (if warned \<or> sb_max_stagnant b \<le> 0 \<or> sb_stagnant b \<le> 0 then False
      else sb_max_stagnant b * 3 \<le> sb_stagnant b * 5)"

datatype exhausted_reason = NotExhausted | EmergencyToolCeiling | StagnantToolBudget

definition budget_reason :: "safety_budget \<Rightarrow> exhausted_reason" where
  "budget_reason b =
     (if 0 < sb_emergency b \<and> sb_emergency b \<le> sb_total b then EmergencyToolCeiling
      else if 0 < sb_max_stagnant b \<and> sb_max_stagnant b \<le> sb_stagnant b then StagnantToolBudget
      else NotExhausted)"

subsection \<open>The result budget\<close>

definition tool_budget_marker :: string where
  "tool_budget_marker = ''[tool output truncated by turn budget]''"

record result_budget =
  rb_per_round :: int
  rb_per_turn :: int
  rb_turn_used :: int

definition new_result_budget :: "int \<Rightarrow> int \<Rightarrow> result_budget" where
  "new_result_budget per_round per_turn =
     \<lparr>rb_per_round = per_round, rb_per_turn = per_turn, rb_turn_used = 0\<rparr>"

definition direct_bytes :: "tool_result \<Rightarrow> nat" where
  "direct_bytes r =
     length (res_output r) + length (res_stdout r) + length (res_stderr r) + length (res_structured r)"

definition evidence_of :: "tool_result \<Rightarrow> recovery_evidence option" where
  "evidence_of r = (case res_failure r of None \<Rightarrow> None | Some f \<Rightarrow> fail_evidence f)"

definition evidence_bytes :: "tool_result \<Rightarrow> nat" where
  "evidence_bytes r =
     (case evidence_of r of None \<Rightarrow> 0
      | Some e \<Rightarrow> length (ev_output e) + length (ev_structured e))"

definition result_text_bytes :: "tool_result \<Rightarrow> nat" where
  "result_text_bytes r = direct_bytes r + evidence_bytes r"

definition output_too_large :: failure where
  "output_too_large =
     \<lparr>fail_code = CodeOutputTooLarge,
      fail_message = ''structured tool output exceeds the remaining turn result budget; request a smaller page or narrower result'',
      fail_diagnostic = [], fail_retryable = False, fail_recovery = None, fail_evidence = None\<rparr>"

text \<open>The failure \<open>f\<close> of \<open>r\<close> has the evidence \<open>e\<close>.\<close>

definition truncate_evidence :: "tool_result \<Rightarrow> failure \<Rightarrow> recovery_evidence \<Rightarrow> int \<Rightarrow> tool_result" where
  "truncate_evidence r f e allowed =
     (let structured = int (length (ev_structured e)) in
      if allowed < structured
      then r\<lparr>res_failure := Some (f\<lparr>fail_evidence := Some (e\<lparr>ev_structured := [],
               ev_output := truncate_bytes_with_marker [] allowed tool_budget_marker,
               ev_sha256 := [], ev_truncated := True\<rparr>)\<rparr>), res_truncated := True\<rparr>
      else if allowed - structured < int (length (ev_output e))
      then r\<lparr>res_failure := Some (f\<lparr>fail_evidence := Some (e\<lparr>
               ev_output := truncate_bytes_with_marker (ev_output e) (allowed - structured)
                 tool_budget_marker,
               ev_sha256 := [], ev_truncated := True\<rparr>)\<rparr>), res_truncated := True\<rparr>
      else r)"

definition text_source :: "tool_result \<Rightarrow> string" where
  "text_source r =
     (if res_output r \<noteq> [] then res_output r
      else if res_stderr r = [] then res_stdout r
      else if res_stdout r = [] then res_stderr r
      else res_stdout r @ [newline] @ res_stderr r)"

definition truncate_direct :: "tool_result \<Rightarrow> int \<Rightarrow> tool_result" where
  "truncate_direct r allowed =
     (let source = text_source r;
          r1 = r\<lparr>res_stdout := [], res_stderr := [],
                 res_stdout_truncated := (res_stdout_truncated r \<or> 0 < res_stdout_bytes r),
                 res_stderr_truncated := (res_stderr_truncated r \<or> 0 < res_stderr_bytes r),
                 res_truncated := True\<rparr>;
          structured = int (length (res_structured r)) in
      if 0 < structured then
        (if allowed < structured
         then r1\<lparr>res_structured := [],
                 res_output := truncate_bytes_with_marker [] allowed tool_budget_marker,
                 res_failure := (if res_failure r = None then Some output_too_large else res_failure r)\<rparr>
         else r1\<lparr>res_output := (if allowed - structured < int (length source)
                  then truncate_bytes_with_marker source (allowed - structured) tool_budget_marker
                  else source)\<rparr>)
      else r1\<lparr>res_structured := [],
              res_output := truncate_bytes_with_marker source allowed tool_budget_marker\<rparr>)"

definition truncate_payload :: "tool_result \<Rightarrow> int \<Rightarrow> tool_result" where
  "truncate_payload r allowed =
     (case (res_failure r, evidence_of r) of
        (Some f, Some e) \<Rightarrow> if direct_bytes r = 0 then truncate_evidence r f e allowed
                           else truncate_direct r allowed
      | _ \<Rightarrow> truncate_direct r allowed)"

definition allowance :: "result_budget \<Rightarrow> int \<Rightarrow> int \<Rightarrow> int" where
  "allowance b round_used n =
     (let a1 = (if 0 < rb_per_round b then min n (max 0 (rb_per_round b - round_used)) else n)
      in if 0 < rb_per_turn b then min a1 (max 0 (rb_per_turn b - rb_turn_used b)) else a1)"

text \<open>One call of the round: the budget, the bytes used in the round, the call.\<close>

definition apply_call :: "result_budget \<Rightarrow> int \<Rightarrow> executed_call \<Rightarrow> result_budget \<times> int \<times> executed_call" where
  "apply_call b round_used x =
     (let n = int (result_text_bytes (ex_result x)) in
      if n = 0 then (b, round_used, x)
      else let allowed = allowance b round_used n;
               r = (if allowed < n then truncate_payload (ex_result x) allowed else ex_result x);
               consumed = min (int (result_text_bytes r)) allowed
        in (b\<lparr>rb_turn_used := rb_turn_used b + consumed\<rparr>, round_used + consumed,
            x\<lparr>ex_result := r\<rparr>))"

fun apply_calls :: "result_budget \<Rightarrow> int \<Rightarrow> executed_call list \<Rightarrow> result_budget \<times> executed_call list" where
  "apply_calls b used [] = (b, [])"
| "apply_calls b used (x # xs) =
     (case apply_call b used x of
        (b', used', x') \<Rightarrow> (case apply_calls b' used' xs of (b'', ys) \<Rightarrow> (b'', x' # ys)))"

definition apply_round :: "result_budget \<Rightarrow> executed_call list \<Rightarrow> result_budget \<times> executed_call list" where
  "apply_round b xs = apply_calls b 0 xs"

subsection \<open>Verification\<close>

record verification_state =
  vs_mutated :: bool
  vs_verified :: bool
  vs_verifier :: string

definition no_verification :: verification_state where
  "no_verification = \<lparr>vs_mutated = False, vs_verified = False, vs_verifier = []\<rparr>"

definition verification_call :: "turn_env \<Rightarrow> tool_call \<Rightarrow> string option" where
  "verification_call env c =
     (if call_name c \<noteq> ''bash'' then None
      else case te_command env (call_arguments c) of
          None \<Rightarrow> None
        | Some command \<Rightarrow> verification_command command)"

definition succeeded :: "executed_call \<Rightarrow> bool" where
  "succeeded x = (\<not> ex_error x \<and> \<not> res_denied (ex_result x) \<and> res_failure (ex_result x) = None)"

definition may_mutate :: "turn_env \<Rightarrow> definitions \<Rightarrow> executed_call \<Rightarrow> bool" where
  "may_mutate env defs x =
     (case defs (call_name (ex_call x)) of None \<Rightarrow> True
      | Some d \<Rightarrow> potentially_mutating env d (ex_call x))"

definition verify_one :: "turn_env \<Rightarrow> definitions \<Rightarrow> verification_state \<Rightarrow> executed_call \<Rightarrow>
    verification_state" where
  "verify_one env defs s x =
     (if \<not> succeeded x then s
      else case verification_call env (ex_call x) of
          Some v \<Rightarrow> if vs_mutated s then s\<lparr>vs_verified := True, vs_verifier := v\<rparr> else s
        | None \<Rightarrow>
            if may_mutate env defs x
            then s\<lparr>vs_mutated := True, vs_verified := False, vs_verifier := []\<rparr> else s)"

definition observe_verification :: "turn_env \<Rightarrow> tool_definition list \<Rightarrow> verification_state \<Rightarrow>
    executed_call list \<Rightarrow> verification_state" where
  "observe_verification env ds s xs = foldl (verify_one env (by_name ds)) s xs"

subsection \<open>Grounding\<close>

record grounding =
  gr_evidence :: evidence_kind
  gr_grounded :: bool
  gr_misses :: int

definition new_grounding :: "evidence_kind \<Rightarrow> grounding" where
  "new_grounding e = \<lparr>gr_evidence = e, gr_grounded = (e = EvidenceNone), gr_misses = 0\<rparr>"

definition grounding_pending :: "grounding \<Rightarrow> bool" where
  "grounding_pending s = (gr_evidence s \<noteq> EvidenceNone \<and> \<not> gr_grounded s)"

definition filter_definitions :: "grounding \<Rightarrow> tool_definition list \<Rightarrow> tool_definition list" where
  "filter_definitions s ds =
     (if \<not> grounding_pending s then ds else filter (\<lambda>d. def_evidence d = gr_evidence s) ds)"

definition record_miss :: "grounding \<Rightarrow> grounding \<times> bool" where
  "record_miss s =
     (if \<not> grounding_pending s then (s, False)
      else (s\<lparr>gr_misses := gr_misses s + 1\<rparr>, 2 \<le> gr_misses s + 1))"

definition gives_evidence :: "turn_env \<Rightarrow> definitions \<Rightarrow> evidence_kind \<Rightarrow> executed_call \<Rightarrow> bool" where
  "gives_evidence env defs k x =
     (case defs (call_name (ex_call x)) of None \<Rightarrow> False
      | Some d \<Rightarrow> effective_call_evidence (te_command env) d (call_arguments (ex_call x)) = k \<and>
          \<not> ex_suppressed x \<and> succeeded x)"

definition observe_grounding :: "turn_env \<Rightarrow> tool_definition list \<Rightarrow> grounding \<Rightarrow> executed_call list \<Rightarrow>
    grounding \<times> bool" where
  "observe_grounding env ds s xs =
     (if grounding_pending s \<and> list_ex (gives_evidence env (by_name ds) (gr_evidence s)) xs
      then (s\<lparr>gr_grounded := True, gr_misses := 0\<rparr>, True) else (s, False))"

subsection \<open>Goal completion\<close>

record plan_progress =
  pp_observed :: bool
  pp_total :: int
  pp_pending :: int
  pp_in_progress :: int
  pp_completed :: int

text \<open>
  What a plan's output holds: nothing usable, the four counts, or the statuses of its items.
  The parameter reads it off the JSON.
\<close>

datatype plan_output = PlanUnreadable | PlanCounts int int int int | PlanItems "string list"

definition count_status :: "string \<Rightarrow> string list \<Rightarrow> int" where
  "count_status s xs = int (length (filter (\<lambda>x. trim_space x = s) xs))"

definition observe_snapshot :: "plan_output \<Rightarrow> plan_progress \<Rightarrow> plan_progress" where
  "observe_snapshot out p =
     (case out of
        PlanUnreadable \<Rightarrow> p
      | PlanCounts t pe ip co \<Rightarrow>
          \<lparr>pp_observed = True, pp_total = t, pp_pending = pe, pp_in_progress = ip, pp_completed = co\<rparr>
      | PlanItems xs \<Rightarrow>
          \<lparr>pp_observed = True, pp_total = int (length xs),
           pp_pending = count_status ''pending'' xs,
           pp_in_progress = count_status ''in_progress'' xs,
           pp_completed = count_status ''completed'' xs\<rparr>)"

fun observe_plan :: "(string \<Rightarrow> plan_output) \<Rightarrow> plan_progress \<Rightarrow> executed_call list \<Rightarrow> plan_progress" where
  "observe_plan read p [] = p"
| "observe_plan read p (x # xs) =
     (if call_name (ex_call x) \<noteq> ''todo'' \<or> \<not> succeeded x \<or> res_structured (ex_result x) = []
      then observe_plan read p xs
      else observe_plan read (observe_snapshot (read (res_structured (ex_result x))) p) xs)"

definition plan_complete :: "plan_progress \<Rightarrow> bool" where
  "plan_complete p =
     (pp_observed p \<and> 0 < pp_total p \<and> pp_pending p = 0 \<and> pp_in_progress p = 0 \<and>
      pp_completed p = pp_total p)"

definition plan_incomplete :: "plan_progress \<Rightarrow> bool" where
  "plan_incomplete p = (pp_observed p \<and> 0 < pp_total p \<and> \<not> plan_complete p)"

definition goal_completed :: "string \<Rightarrow> plan_progress \<Rightarrow> verification_state \<Rightarrow> bool" where
  "goal_completed goal p v =
     (trim_space goal \<noteq> [] \<and> plan_complete p \<and> (\<not> vs_mutated v \<or> vs_verified v))"

subsection \<open>Lemmas: the budgets\<close>

definition spent :: "turn_env \<Rightarrow> definitions \<Rightarrow> int \<Rightarrow> int \<Rightarrow> executed_call list list \<Rightarrow> safety_budget" where
  "spent env defs stagnant emergency rounds =
     foldl (\<lambda>b xs. fst (observe_budget env defs b xs)) (new_safety_budget stagnant emergency) rounds"

text \<open>The calls of the rounds since the last one that made progress.\<close>

definition stagnant_calls :: "turn_env \<Rightarrow> definitions \<Rightarrow> executed_call list list \<Rightarrow> executed_call list" where
  "stagnant_calls env defs rounds =
     concat (takeWhile (\<lambda>xs. \<not> list_ex (advances env defs) xs) (rev rounds))"

lemma spent_counts:
  "spent env defs s e rounds =
     \<lparr>sb_total = int (length (concat rounds)),
      sb_stagnant = int (length (stagnant_calls env defs rounds)),
      sb_max_stagnant = s, sb_emergency = e\<rparr>"
proof (induction rounds rule: rev_induct)
  case Nil
  then show ?case by (simp add: spent_def new_safety_budget_def stagnant_calls_def)
next
  case (snoc xs rounds)
  have "spent env defs s e (rounds @ [xs]) = fst (observe_budget env defs (spent env defs s e rounds) xs)"
    by (simp add: spent_def)
  then show ?case
    unfolding snoc by (cases "xs = []") (auto simp: observe_budget_def stagnant_calls_def Let_def)
qed

lemma truncate_direct_bytes:
  assumes "0 \<le> allowed"
  shows "int (direct_bytes (truncate_direct r allowed)) \<le> allowed"
    "evidence_bytes (truncate_direct r allowed) = evidence_bytes r"
proof -
  note len = length_truncate_marker [of _ _ tool_budget_marker]
  show "int (direct_bytes (truncate_direct r allowed)) \<le> allowed"
    using len [of "[]" allowed] len [of "text_source r" allowed] assms
      len [of "text_source r" "allowed - int (length (res_structured r))"]
    by (auto simp: truncate_direct_def direct_bytes_def Let_def nat_le_iff)
  show "evidence_bytes (truncate_direct r allowed) = evidence_bytes r"
    by (auto simp: truncate_direct_def evidence_bytes_def evidence_of_def output_too_large_def Let_def)
qed

lemma truncate_evidence_bytes:
  assumes "0 \<le> allowed" "res_failure r = Some f" "fail_evidence f = Some e"
  shows "int (evidence_bytes (truncate_evidence r f e allowed)) \<le> allowed"
    "direct_bytes (truncate_evidence r f e allowed) = direct_bytes r"
proof -
  note len = length_truncate_marker [of _ _ tool_budget_marker]
  show "int (evidence_bytes (truncate_evidence r f e allowed)) \<le> allowed"
    using len [of "[]" allowed] len [of "ev_output e" "allowed - int (length (ev_structured e))"] assms
    by (auto simp: truncate_evidence_def evidence_bytes_def evidence_of_def Let_def nat_le_iff)
  show "direct_bytes (truncate_evidence r f e allowed) = direct_bytes r"
    by (auto simp: truncate_evidence_def direct_bytes_def Let_def)
qed

text \<open>A result whose text is in one place: its streams, or the evidence of its failure.\<close>

definition in_one_place :: "tool_result \<Rightarrow> bool" where
  "in_one_place r = (direct_bytes r = 0 \<or> evidence_bytes r = 0)"

lemma truncate_payload_bytes:
  assumes "0 \<le> allowed" "in_one_place r" "result_text_bytes r \<noteq> 0"
  shows "int (result_text_bytes (truncate_payload r allowed)) \<le> allowed"
proof (cases "direct_bytes r = 0")
  case True
  with assms(3) have "evidence_bytes r \<noteq> 0" by (simp add: result_text_bytes_def)
  then obtain e f where "evidence_of r = Some e" "res_failure r = Some f" "fail_evidence f = Some e"
    by (auto simp: evidence_bytes_def evidence_of_def split: option.splits)
  with True truncate_evidence_bytes [OF assms(1), of r f e] show ?thesis
    by (simp add: truncate_payload_def result_text_bytes_def)
next
  case False
  with assms(2) have "evidence_bytes r = 0" by (simp add: in_one_place_def)
  with False truncate_direct_bytes [OF assms(1), of r] show ?thesis
    by (auto simp: truncate_payload_def result_text_bytes_def split: option.splits)
qed

definition text_bytes :: "executed_call list \<Rightarrow> int" where
  "text_bytes xs = sum_list (map (\<lambda>x. int (result_text_bytes (ex_result x))) xs)"

lemma allowance_bounds:
  "0 \<le> n \<Longrightarrow> 0 \<le> allowance b used n \<and> allowance b used n \<le> n \<and>
   (0 < rb_per_round b \<longrightarrow> allowance b used n \<le> max 0 (rb_per_round b - used)) \<and>
   (0 < rb_per_turn b \<longrightarrow> allowance b used n \<le> max 0 (rb_per_turn b - rb_turn_used b))"
  by (auto simp: allowance_def Let_def)

text \<open>A call without text is passed over; any other uses up part of its allowance.\<close>

lemma apply_call_cases:
  assumes "apply_call b used x = (b', used', x')"
  obtains (none) "b' = b" "used' = used" "x' = x" "result_text_bytes (ex_result x) = 0"
  | (some) m where "b' = b\<lparr>rb_turn_used := rb_turn_used b + m\<rparr>" "used' = used + m" "0 \<le> m"
      "m \<le> allowance b used (int (result_text_bytes (ex_result x)))"
      "in_one_place (ex_result x) \<longrightarrow> int (result_text_bytes (ex_result x')) = m"
proof (cases "result_text_bytes (ex_result x) = 0")
  case True
  with assms none show ?thesis by (simp add: apply_call_def)
next
  case False
  define n where "n = int (result_text_bytes (ex_result x))"
  define a where "a = allowance b used n"
  define r where "r = (if a < n then truncate_payload (ex_result x) a else ex_result x)"
  define m where "m = min (int (result_text_bytes r)) a"
  have eq: "b' = b\<lparr>rb_turn_used := rb_turn_used b + m\<rparr>" "used' = used + m" "ex_result x' = r"
    using assms False unfolding m_def r_def a_def n_def by (auto simp: apply_call_def Let_def)
  have a: "0 \<le> a" "a \<le> n" using allowance_bounds [of n b used] by (simp_all add: a_def n_def)
  have "int (result_text_bytes r) \<le> a" if "in_one_place (ex_result x)"
    using truncate_payload_bytes [OF a(1) that False] by (simp add: r_def n_def)
  then have "in_one_place (ex_result x) \<longrightarrow> int (result_text_bytes (ex_result x')) = m"
    using eq(3) by (simp add: m_def)
  moreover have "0 \<le> m" "m \<le> a" using a(1) by (simp_all add: m_def)
  ultimately show ?thesis using some eq(1,2) by (simp add: a_def n_def)
qed

lemma apply_call_bounds:
  assumes "apply_call b used x = (b', used', x')"
  shows "rb_per_round b' = rb_per_round b \<and> rb_per_turn b' = rb_per_turn b \<and> used \<le> used' \<and>
    rb_turn_used b' - rb_turn_used b = used' - used \<and>
    (0 < rb_per_round b \<longrightarrow> used \<le> rb_per_round b \<longrightarrow> used' \<le> rb_per_round b) \<and>
    (0 < rb_per_turn b \<longrightarrow> rb_turn_used b \<le> rb_per_turn b \<longrightarrow> rb_turn_used b' \<le> rb_per_turn b) \<and>
    (in_one_place (ex_result x) \<longrightarrow> int (result_text_bytes (ex_result x')) = used' - used)"
  using assms
proof (cases rule: apply_call_cases)
  case none
  then show ?thesis by simp
next
  case (some m)
  with allowance_bounds [of "int (result_text_bytes (ex_result x))" b used] show ?thesis by auto
qed

lemma apply_calls_bounds:
  assumes "apply_calls b used xs = (b', ys)" "0 < rb_per_round b \<longrightarrow> used \<le> rb_per_round b"
    "0 < rb_per_turn b \<longrightarrow> rb_turn_used b \<le> rb_per_turn b"
  shows "length ys = length xs \<and> rb_turn_used b \<le> rb_turn_used b' \<and>
    (0 < rb_per_turn b \<longrightarrow> rb_turn_used b' \<le> rb_per_turn b) \<and>
    (0 < rb_per_round b \<longrightarrow> used + (rb_turn_used b' - rb_turn_used b) \<le> rb_per_round b) \<and>
    (list_all (\<lambda>x. in_one_place (ex_result x)) xs \<longrightarrow>
       text_bytes ys = rb_turn_used b' - rb_turn_used b)"
  using assms
proof (induction xs arbitrary: b used b' ys)
  case Nil
  then show ?case by (auto simp: text_bytes_def)
next
  case (Cons x xs)
  obtain b1 u1 x1 where c: "apply_call b used x = (b1, u1, x1)" by (metis prod_cases3)
  obtain b2 zs where cs: "apply_calls b1 u1 xs = (b2, zs)" by (meson prod.exhaust)
  have eq: "b' = b2" "ys = x1 # zs" using Cons.prems(1) c cs by simp_all
  note one = apply_call_bounds [OF c]
  have "0 < rb_per_round b1 \<longrightarrow> u1 \<le> rb_per_round b1"
    "0 < rb_per_turn b1 \<longrightarrow> rb_turn_used b1 \<le> rb_per_turn b1"
    using one Cons.prems(2,3) by simp_all
  note IH = Cons.IH [OF cs this]
  have tb: "text_bytes ys = int (result_text_bytes (ex_result x1)) + text_bytes zs"
    by (simp add: eq(2) text_bytes_def)
  show ?case using IH one unfolding eq tb [unfolded eq(2)] by auto
qed

subsection \<open>Lemmas: verification\<close>

definition mutates :: "turn_env \<Rightarrow> definitions \<Rightarrow> executed_call \<Rightarrow> bool" where
  "mutates env defs x =
     (succeeded x \<and> verification_call env (ex_call x) = None \<and> may_mutate env defs x)"

definition verifies :: "turn_env \<Rightarrow> executed_call \<Rightarrow> bool" where
  "verifies env x = (succeeded x \<and> verification_call env (ex_call x) \<noteq> None)"

lemma verify_one_state:
  "vs_mutated (verify_one env defs s x) = (vs_mutated s \<or> mutates env defs x)"
  "vs_verified (verify_one env defs s x) =
     (if mutates env defs x then False else vs_verified s \<or> (vs_mutated s \<and> verifies env x))"
  by (auto simp: verify_one_def mutates_def verifies_def split: option.splits)

text \<open>A verifier after the last mutation, of which there is one.\<close>

definition checked :: "turn_env \<Rightarrow> definitions \<Rightarrow> executed_call list \<Rightarrow> bool" where
  "checked env defs xs =
     (\<exists>as v bs. xs = as @ v # bs \<and> list_ex (mutates env defs) as \<and> verifies env v \<and>
        \<not> list_ex (mutates env defs) bs)"

lemma verifies_not_mutates: "verifies env x \<Longrightarrow> \<not> mutates env defs x"
  by (simp add: verifies_def mutates_def)

lemma checked_snoc:
  "checked env defs (xs @ [x]) =
     (if mutates env defs x then False
      else checked env defs xs \<or> (list_ex (mutates env defs) xs \<and> verifies env x))"
proof
  assume "checked env defs (xs @ [x])"
  then obtain as v bs where s: "xs @ [x] = as @ v # bs" "list_ex (mutates env defs) as" "verifies env v"
      "\<not> list_ex (mutates env defs) bs" by (auto simp: checked_def)
  show "if mutates env defs x then False
      else checked env defs xs \<or> (list_ex (mutates env defs) xs \<and> verifies env x)"
  proof (cases bs rule: rev_exhaust)
    case Nil
    with s show ?thesis using verifies_not_mutates by auto
  next
    case (snoc bs' b)
    with s(1) have "xs = as @ v # bs'" "x = b" by auto
    with s(2-4) snoc show ?thesis by (auto simp: checked_def)
  qed
next
  assume r: "if mutates env defs x then False
      else checked env defs xs \<or> (list_ex (mutates env defs) xs \<and> verifies env x)"
  then have nm: "\<not> mutates env defs x" by (auto split: if_splits)
  from r nm consider "checked env defs xs" | "list_ex (mutates env defs) xs" "verifies env x" by auto
  then show "checked env defs (xs @ [x])"
  proof cases
    case 1
    then obtain as v bs where "xs = as @ v # bs" "list_ex (mutates env defs) as" "verifies env v"
      "\<not> list_ex (mutates env defs) bs" by (auto simp: checked_def)
    with nm have "xs @ [x] = as @ v # (bs @ [x])" "\<not> list_ex (mutates env defs) (bs @ [x])" by auto
    with \<open>list_ex (mutates env defs) as\<close> \<open>verifies env v\<close> show ?thesis
      unfolding checked_def by blast
  next
    case 2
    then show ?thesis unfolding checked_def by (intro exI [of _ xs] exI [of _ x] exI [of _ "[]"]) simp
  qed
qed

lemma verification_history:
  "vs_mutated (observe_verification env ds no_verification xs) = list_ex (mutates env (by_name ds)) xs \<and>
   vs_verified (observe_verification env ds no_verification xs) = checked env (by_name ds) xs"
proof (induction xs rule: rev_induct)
  case Nil
  then show ?case by (simp add: observe_verification_def no_verification_def checked_def)
next
  case (snoc x xs)
  have "observe_verification env ds no_verification (xs @ [x]) =
      verify_one env (by_name ds) (observe_verification env ds no_verification xs) x"
    by (simp add: observe_verification_def)
  with snoc show ?case by (simp add: verify_one_state checked_snoc)
qed

subsection \<open>Lemmas: what the progress guard counts\<close>

text \<open>
  The calls observed, newest first, read as the guard is meant to read them: how often the call
  with hash \<open>h\<close> has in a row given the same result since the last call that may have changed
  something.
\<close>

datatype outcome = Fine | Retryable | Final

definition outcome_of :: "tool_result \<Rightarrow> outcome" where
  "outcome_of r = (case res_failure r of None \<Rightarrow> Fine
     | Some f \<Rightarrow> if fail_retryable f then Retryable else Final)"

datatype observed = Changing | Untracked | Tracked string string outcome

definition classify :: "turn_env \<Rightarrow> definitions \<Rightarrow> executed_call \<Rightarrow> observed" where
  "classify env defs x =
     (case defs (call_name (ex_call x)) of None \<Rightarrow> Untracked
      | Some d \<Rightarrow>
          let s = effective_call_semantics (te_command env) d (call_arguments (ex_call x)) in
          if \<not> ex_error x \<and> advances_epoch s then Changing
          else if \<not> should_track s (ex_result x) then Untracked
          else (case (te_call_hash env (ex_call x), te_result_hash env (ex_result x)) of
              (Some ch, Some rh) \<Rightarrow> Tracked ch rh (outcome_of (ex_result x))
            | _ \<Rightarrow> Untracked))"

fun streak :: "string \<Rightarrow> observed list \<Rightarrow> (outcome \<times> string \<times> int) option" where
  "streak h [] = None"
| "streak h (Changing # xs) = None"
| "streak h (Untracked # xs) = streak h xs"
| "streak h (Tracked ch rh oc # xs) =
     (if ch \<noteq> h then streak h xs
      else case streak h xs of
          Some (oc', r, n) \<Rightarrow> if r = rh then Some (oc', rh, n + 1) else Some (oc, rh, 1)
        | None \<Rightarrow> Some (oc, rh, 1))"

text \<open>How often a result of this kind is let happen; \<open>n\<close> for one that is no failure.\<close>

fun tolerated :: "int \<Rightarrow> outcome \<Rightarrow> int" where
  "tolerated n Fine = n"
| "tolerated n Retryable = 3"
| "tolerated n Final = 1"

text \<open>What the guard remembers of a call in the present epoch.\<close>

definition ob_outcome :: "observation \<Rightarrow> outcome" where
  "ob_outcome o1 = (if \<not> ob_failure o1 then Fine else if ob_retryable o1 then Retryable else Final)"

definition remembered :: "progress_guard \<Rightarrow> string \<Rightarrow> (outcome \<times> string \<times> int) option" where
  "remembered g h =
     (case pg_observations g h of None \<Rightarrow> None
      | Some o1 \<Rightarrow> if ob_epoch o1 = pg_epoch g
                  then Some (ob_outcome o1, ob_result_hash o1, ob_count o1) else None)"

definition epochs_ok :: "progress_guard \<Rightarrow> bool" where
  "epochs_ok g = (\<forall>h o1. pg_observations g h = Some o1 \<longrightarrow> unat (ob_epoch o1) \<le> unat (pg_epoch g))"

lemma first_observation_simps [simp]:
  "ob_epoch (first_observation e rh r) = e" "ob_result_hash (first_observation e rh r) = rh"
  "ob_count (first_observation e rh r) = 1"
  "ob_outcome (first_observation e rh r) = outcome_of r"
  by (simp_all add: first_observation_def ob_outcome_def outcome_of_def split: option.splits)

lemma next_epoch: "unat (e :: u64) < 2 ^ 64 - 1 \<Longrightarrow> unat (e + 1) = Suc (unat e)"
  by (simp add: unat_word_ariths)

lemma classify_Changing:
  "classify env defs x = Changing \<longleftrightarrow>
   (\<exists>d. defs (call_name (ex_call x)) = Some d \<and> \<not> ex_error x \<and>
      advances_epoch (effective_call_semantics (te_command env) d (call_arguments (ex_call x))))"
  by (auto simp: classify_def Let_def split: option.splits)

lemma classify_Tracked:
  "classify env defs x = Tracked ch rh oc \<longleftrightarrow>
   (\<exists>d. defs (call_name (ex_call x)) = Some d \<and>
      (ex_error x \<or>
       \<not> advances_epoch (effective_call_semantics (te_command env) d (call_arguments (ex_call x)))) \<and>
      should_track (effective_call_semantics (te_command env) d (call_arguments (ex_call x))) (ex_result x) \<and>
      te_call_hash env (ex_call x) = Some ch \<and> te_result_hash env (ex_result x) = Some rh \<and>
      oc = outcome_of (ex_result x))"
  by (auto simp: classify_def Let_def split: option.splits)

lemma observe_Changing:
  "classify env (pg_definitions g) x = Changing \<Longrightarrow>
   observe env g x = (g\<lparr>pg_epoch := pg_epoch g + 1\<rparr>, Some (False, False))"
  unfolding classify_Changing by (auto simp: observe_def Let_def)

lemma observe_Untracked:
  "classify env (pg_definitions g) x = Untracked \<Longrightarrow> observe env g x = (g', Some b) \<Longrightarrow> g' = g"
  by (auto simp: observe_def classify_def Let_def split: option.splits if_splits)

lemma observe_Tracked:
  assumes "classify env (pg_definitions g) x = Tracked ch rh oc" "observe env g x = (g', Some b)"
  shows "\<exists>o1. g' = g\<lparr>pg_observations := (pg_observations g)(ch \<mapsto> o1)\<rparr> \<and> ob_epoch o1 = pg_epoch g \<and>
    Some (ob_outcome o1, ob_result_hash o1, ob_count o1) =
      (case remembered g ch of
         Some (oc', r, n) \<Rightarrow> if r = rh then Some (oc', rh, n + 1) else Some (oc, rh, 1)
       | None \<Rightarrow> Some (oc, rh, 1))"
proof -
  from assms(1) obtain d where d: "pg_definitions g (call_name (ex_call x)) = Some d"
    "ex_error x \<or>
       \<not> advances_epoch (effective_call_semantics (te_command env) d (call_arguments (ex_call x)))"
    "should_track (effective_call_semantics (te_command env) d (call_arguments (ex_call x))) (ex_result x)"
    "te_call_hash env (ex_call x) = Some ch" "te_result_hash env (ex_result x) = Some rh"
    "oc = outcome_of (ex_result x)"
    unfolding classify_Tracked by blast
  show ?thesis
  proof (cases "pg_observations g ch")
    case None
    with assms(2) d show ?thesis by (auto simp: observe_def Let_def remembered_def)
  next
    case (Some o1)
    show ?thesis
    proof (cases "ob_epoch o1 \<noteq> pg_epoch g \<or> ob_result_hash o1 \<noteq> rh")
      case True
      with assms(2) d Some show ?thesis by (auto simp: observe_def Let_def remembered_def)
    next
      case False
      let ?o2 = "o1\<lparr>ob_count := ob_count o1 + 1, ob_payload := (if res_failure (ex_result x) \<noteq> None
          then res_failure (ex_result x) else ob_payload o1)\<rparr>"
      have "g' = g\<lparr>pg_observations := (pg_observations g)(ch \<mapsto> ?o2)\<rparr>"
        using assms(2) d Some False by (auto simp: observe_def Let_def)
      moreover have "remembered g ch = Some (ob_outcome o1, rh, ob_count o1)"
        using Some False by (simp add: remembered_def)
      ultimately show ?thesis using False by (intro exI [of _ ?o2]) (simp add: ob_outcome_def)
    qed
  qed
qed

lemma observe_counts:
  assumes "observe env g x = (g', Some b)" "epochs_ok g" "unat (pg_epoch g) < 2 ^ 64 - 1"
    "\<And>h. remembered g h = streak h hist"
  shows "epochs_ok g' \<and> unat (pg_epoch g') \<le> Suc (unat (pg_epoch g)) \<and>
    pg_definitions g' = pg_definitions g \<and> pg_max_identical g' = pg_max_identical g \<and>
    pg_max_retryable g' = pg_max_retryable g \<and>
    (\<forall>h. remembered g' h = streak h (classify env (pg_definitions g) x # hist))"
proof (cases "classify env (pg_definitions g) x")
  case Changing
  have g': "g' = g\<lparr>pg_epoch := pg_epoch g + 1\<rparr>" using assms(1) observe_Changing [OF Changing] by simp
  have e: "unat (pg_epoch g + 1) = Suc (unat (pg_epoch g))" using assms(3) by (rule next_epoch)
  have "remembered g' h = None" for h
  proof (cases "pg_observations g h")
    case None
    then show ?thesis by (simp add: remembered_def g')
  next
    case (Some o1)
    then have "unat (ob_epoch o1) \<le> unat (pg_epoch g)" using assms(2) by (auto simp: epochs_ok_def)
    then have "ob_epoch o1 \<noteq> pg_epoch g + 1" using e by auto
    with Some show ?thesis by (simp add: remembered_def g')
  qed
  moreover have "epochs_ok g'" using assms(2) e by (auto simp: epochs_ok_def g' intro: le_SucI)
  ultimately show ?thesis using Changing e by (simp add: g')
next
  case Untracked
  from observe_Untracked [OF this assms(1)] Untracked assms(2,4) show ?thesis by simp
next
  case (Tracked ch rh oc)
  from observe_Tracked [OF this assms(1)] obtain o1 where
    g': "g' = g\<lparr>pg_observations := (pg_observations g)(ch \<mapsto> o1)\<rparr>" and o1: "ob_epoch o1 = pg_epoch g"
      "Some (ob_outcome o1, ob_result_hash o1, ob_count o1) =
        (case remembered g ch of
           Some (oc', r, n) \<Rightarrow> if r = rh then Some (oc', rh, n + 1) else Some (oc, rh, 1)
         | None \<Rightarrow> Some (oc, rh, 1))"
    by blast
  have "epochs_ok g'" using assms(2) o1(1) by (auto simp: epochs_ok_def g')
  moreover have "remembered g' h = streak h (Tracked ch rh oc # hist)" for h
  proof (cases "ch = h")
    case True
    then have "remembered g' h = Some (ob_outcome o1, ob_result_hash o1, ob_count o1)"
      using o1 by (simp add: remembered_def g')
    with True show ?thesis unfolding o1(2) assms(4) by (simp cong: option.case_cong)
  next
    case False
    then have "remembered g' h = remembered g h"
      by (auto simp: remembered_def g' split: option.split)
    with False assms(4) show ?thesis by simp
  qed
  ultimately show ?thesis using Tracked by (simp add: g')
qed

text \<open>A turn's calls observed one after the other, where every hash can be taken.\<close>

fun observe_all :: "turn_env \<Rightarrow> progress_guard \<Rightarrow> executed_call list \<Rightarrow> progress_guard option" where
  "observe_all env g [] = Some g"
| "observe_all env g (x # xs) =
     (case observe env g x of (g', None) \<Rightarrow> None | (g', Some _) \<Rightarrow> observe_all env g' xs)"

lemma observe_all_snoc:
  "observe_all env g (xs @ [x]) =
     (case observe_all env g xs of None \<Rightarrow> None
      | Some g1 \<Rightarrow> (case observe env g1 x of (g', None) \<Rightarrow> None | (g', Some _) \<Rightarrow> Some g'))"
  by (induction xs arbitrary: g) (auto split: prod.splits option.splits)

lemma observe_all_counts:
  assumes "observe_all env (new_progress_guard ds n) xs = Some g" "length xs < 2 ^ 64"
  shows "epochs_ok g \<and> unat (pg_epoch g) \<le> length xs \<and> pg_definitions g = by_name ds \<and>
    pg_max_identical g = n \<and> pg_max_retryable g = 3 \<and>
    (\<forall>h. remembered g h = streak h (rev (map (classify env (by_name ds)) xs)))"
  using assms
proof (induction xs arbitrary: g rule: rev_induct)
  case Nil
  then show ?case by (auto simp: new_progress_guard_def epochs_ok_def remembered_def)
next
  case (snoc x xs)
  from snoc.prems(1) obtain g1 b where g1: "observe_all env (new_progress_guard ds n) xs = Some g1"
      "observe env g1 x = (g, Some b)"
    by (auto simp: observe_all_snoc split: option.splits prod.splits)
  have "length xs < 2 ^ 64" using snoc.prems(2) by simp
  note IH = snoc.IH [OF g1(1) this]
  then have "unat (pg_epoch g1) < 2 ^ 64 - 1" using snoc.prems(2) by simp
  from observe_counts [OF g1(2) _ this, of "rev (map (classify env (by_name ds)) xs)"] IH
  show ?case by auto
qed

subsection \<open>Properties\<close>

text \<open>Tools, calls and an environment to evaluate the guards on.\<close>

definition sample_te :: turn_env where
  "sample_te = \<lparr>te_command = (\<lambda>a. Some a), te_call_hash = (\<lambda>c. Some (call_name c @ call_arguments c)),
     te_result_hash = (\<lambda>r. Some (res_output r)), te_action = (\<lambda>a. a)\<rparr>"

definition no_safety :: safety_contract where
  "no_safety = \<lparr>mutation_domain = DomainNone, mutation_safety = SafetyNone,
     checkpoint_policy = CheckpointNone, boundary = BoundaryNone\<rparr>"

definition sample_tool_named :: "string \<Rightarrow> kind \<Rightarrow> tool_definition" where
  "sample_tool_named n k = \<lparr>def_name = n, def_description = ''d'', def_kind = k,
     def_mutability = MutabilityUnspecified, def_safety = no_safety,
     def_timeout = TimeoutServiceDefault, def_evidence = EvidenceNone, def_detail_key = [],
     def_semantics = None\<rparr>"

definition sample_tools :: "tool_definition list" where
  "sample_tools = [sample_tool_named ''bash'' KindBash, sample_tool_named ''read'' KindRead,
     sample_tool_named ''edit'' KindEdit, sample_tool_named ''m'' KindMCP]"

definition ran :: "string \<Rightarrow> string \<Rightarrow> tool_result \<Rightarrow> executed_call" where
  "ran n a r = \<lparr>ex_call = \<lparr>call_id = ''c'', call_name = n, call_arguments = a\<rparr>, ex_result = r,
     ex_error = False, ex_suppressed = False, ex_reason = NotSuppressed, ex_repeat = 0,
     ex_retryable = False\<rparr>"

text \<open>
  The progress guard counts what it is meant to count. After any sequence of calls it
  suppresses a call exactly when, since the last call that may have changed something, the same
  call has given the same result in a row as often as is tolerated: \<open>n\<close> times a result, three times
  a failure that may be retried, once any other failure. The suppressed call is the one asked
  for, and reports that number.
\<close>

theorem guard_suppresses_streaks:
  assumes "observe_all env (new_progress_guard ds n) xs = Some g" "length xs < 2 ^ 64" "0 < n"
    "te_call_hash env c = Some h"
  shows "suppress env g c \<noteq> None \<and>
    ((\<exists>x. suppress env g c = Some (Some x)) \<longleftrightarrow>
       (\<exists>oc r k. streak h (rev (map (classify env (by_name ds)) xs)) = Some (oc, r, k) \<and>
          tolerated n oc \<le> k)) \<and>
    (\<forall>x. suppress env g c = Some (Some x) \<longrightarrow> ex_suppressed x \<and> ex_call x = c \<and>
       (\<exists>oc r. streak h (rev (map (classify env (by_name ds)) xs)) = Some (oc, r, ex_repeat x)))"
proof -
  let ?hist = "rev (map (classify env (by_name ds)) xs)"
  have g: "pg_max_identical g = n" "pg_max_retryable g = 3" "remembered g h = streak h ?hist"
    using observe_all_counts [OF assms(1,2)] by simp_all
  have worn: "worn_out g o1 \<longleftrightarrow> tolerated n (ob_outcome o1) \<le> ob_count o1" for o1
    using g(1,2) by (simp add: worn_out_def ob_outcome_def)
  show ?thesis
  proof (cases "pg_observations g h")
    case None
    then have "streak h ?hist = None" unfolding g(3) [symmetric] by (simp add: remembered_def)
    moreover have "suppress env g c = Some None" using None assms(3,4) g(1) by (simp add: suppress_def)
    ultimately show ?thesis by simp
  next
    case (Some o1)
    show ?thesis
    proof (cases "ob_epoch o1 = pg_epoch g")
      case True
      then have "streak h ?hist = Some (ob_outcome o1, ob_result_hash o1, ob_count o1)"
        unfolding g(3) [symmetric] using Some by (simp add: remembered_def)
      moreover have "suppress env g c = Some (if worn_out g o1 then Some (suppressed_call c o1) else None)"
        using Some True assms(3,4) g(1) by (simp add: suppress_def)
      ultimately show ?thesis unfolding worn by (auto simp: suppressed_call_def Let_def split: if_splits)
    next
      case False
      then have "streak h ?hist = None"
        unfolding g(3) [symmetric] using Some by (simp add: remembered_def)
      moreover have "suppress env g c = Some None"
        using Some False assms(3,4) g(1) by (simp add: suppress_def)
      ultimately show ?thesis by simp
    qed
  qed
qed

theorem guard_suppresses_streaks_witness:
  "\<exists>g x. observe_all sample_te (new_progress_guard sample_tools 2)
       [ran ''edit'' ''f'' empty_result, ran ''read'' ''f'' empty_result, ran ''read'' ''f'' empty_result] =
       Some g \<and>
     suppress sample_te g \<lparr>call_id = ''d'', call_name = ''read'', call_arguments = ''f''\<rparr> = Some (Some x)"
proof -
  let ?xs = "[ran ''edit'' ''f'' empty_result, ran ''read'' ''f'' empty_result, ran ''read'' ''f'' empty_result]"
  let ?c = "\<lparr>call_id = ''d'', call_name = ''read'', call_arguments = ''f''\<rparr>"
  have "observe_all sample_te (new_progress_guard sample_tools 2) ?xs \<noteq> None" by code_simp
  then obtain g where g: "observe_all sample_te (new_progress_guard sample_tools 2) ?xs = Some g" by auto
  have h: "te_call_hash sample_te ?c = Some ''readf''" by code_simp
  have "streak ''readf'' (rev (map (classify sample_te (by_name sample_tools)) ?xs)) = Some (Fine, [], 2)"
    by code_simp
  with guard_suppresses_streaks [OF g _ _ h] g show ?thesis by auto
qed

text \<open>
  After any rounds the safety budget is exhausted exactly when the calls of the turn have
  reached the emergency ceiling, or the calls since the last round that made progress have
  reached the stagnation limit; the reason it gives is the first of the two that holds, and what
  it says is left up to the ceiling is what is left.
\<close>

theorem safety_budget_exact:
  "let b = spent env defs limit ceiling rounds; total = int (length (concat rounds));
       stagnant = int (length (stagnant_calls env defs rounds)) in
   exhausted b = (0 < ceiling \<and> ceiling \<le> total \<or> 0 < limit \<and> limit \<le> stagnant) \<and>
   budget_reason b = (if 0 < ceiling \<and> ceiling \<le> total then EmergencyToolCeiling
                      else if 0 < limit \<and> limit \<le> stagnant then StagnantToolBudget
                      else NotExhausted) \<and>
   remaining_hard_limit b = (if 0 < ceiling then max 0 (ceiling - total) else 0)"
  by (auto simp: Let_def spent_counts exhausted_def budget_reason_def remaining_hard_limit_def)

text \<open>
  C35: whatever the round's results, the bytes charged to the turn never exceed the turn's budget,
  and the bytes charged in the round never exceed the round's; where each result has its text in
  one place, in its streams or in the evidence of its failure, the bytes charged are the bytes
  that are passed on.
\<close>

theorem result_budget_kept:
  assumes "apply_round b xs = (b', ys)" "0 < rb_per_turn b \<longrightarrow> rb_turn_used b \<le> rb_per_turn b"
  shows "length ys = length xs \<and> (0 < rb_per_turn b \<longrightarrow> rb_turn_used b' \<le> rb_per_turn b) \<and>
    (0 < rb_per_round b \<longrightarrow> rb_turn_used b' - rb_turn_used b \<le> rb_per_round b) \<and>
    (list_all (\<lambda>x. in_one_place (ex_result x)) xs \<longrightarrow>
       text_bytes ys = rb_turn_used b' - rb_turn_used b \<and>
       (0 < rb_per_round b \<longrightarrow> text_bytes ys \<le> rb_per_round b))"
  using apply_calls_bounds [OF assms(1) [unfolded apply_round_def] _ assms(2)] by auto

theorem result_budget_kept_witness:
  "\<exists>b' ys. apply_round (new_result_budget 50 0)
       [ran ''read'' ''f'' (empty_result\<lparr>res_output := replicate 80 CHR ''a''\<rparr>)] = (b', ys) \<and>
     text_bytes ys \<le> 50"
proof -
  let ?xs = "[ran ''read'' ''f'' (empty_result\<lparr>res_output := replicate 80 CHR ''a''\<rparr>)]"
  obtain b' ys where r: "apply_round (new_result_budget 50 0) ?xs = (b', ys)" by (meson prod.exhaust)
  have o1: "list_all (\<lambda>x. in_one_place (ex_result x)) ?xs" by code_simp
  from result_budget_kept [OF r] o1 r show ?thesis by (auto simp: new_result_budget_def)
qed

definition evidence_result :: tool_result where
  "evidence_result = empty_result\<lparr>res_output := ''ab'', res_failure := Some (no_progress_failure\<lparr>
     fail_evidence := Some \<lparr>ev_action = RecoveryRefreshResource, ev_tool = ''read'',
       ev_output = replicate 40 CHR ''a'', ev_structured = [], ev_sha256 = [], ev_truncated = False\<rparr>\<rparr>)\<rparr>"

text \<open>
  A failed result that has both output and recovery evidence is cut in its output only, so
  more bytes are passed on than the round allows and more than are charged.
\<close>

theorem evidence_escapes_budget:
  "apply_round (new_result_budget 10 0) [ran ''read'' ''f'' evidence_result] =
     ((new_result_budget 10 0)\<lparr>rb_turn_used := 10\<rparr>,
      [ran ''read'' ''f'' (evidence_result\<lparr>res_truncated := True\<rparr>)]) \<and>
   text_bytes [ran ''read'' ''f'' (evidence_result\<lparr>res_truncated := True\<rparr>)] = 42"
proof -
  have "is_ascii ''ab''" by code_simp
  then have "truncate_bytes_with_marker ''ab'' 10 tool_budget_marker = ''ab''"
    by (simp add: truncate_marker_short ascii_valid_utf8)
  then have r: "truncate_payload evidence_result 10 = evidence_result\<lparr>res_truncated := True\<rparr>"
    by (simp add: truncate_payload_def evidence_result_def evidence_of_def direct_bytes_def
        truncate_direct_def text_source_def empty_result_def)
  have n: "result_text_bytes evidence_result = 42"
    "result_text_bytes (evidence_result\<lparr>res_truncated := True\<rparr>) = 42" by code_simp+
  have "allowance (new_result_budget 10 0) 0 42 = 10" by code_simp
  with r n show ?thesis
    by (simp add: apply_round_def apply_call_def ran_def text_bytes_def new_result_budget_def Let_def)
qed


definition long_mutation :: "executed_call list" where
  "long_mutation = [ran ''m'' ''{}'' (empty_result\<lparr>res_structured := replicate 20 CHR ''1''\<rparr>)]"

definition finished_plan :: plan_progress where
  "finished_plan = \<lparr>pp_observed = True, pp_total = 1, pp_pending = 0, pp_in_progress = 0,
     pp_completed = 1\<rparr>"

text \<open>
  The budget for results is applied before the turn looks at them, and turns a structured
  result that is too long into a failure: a call that succeeded and may have changed the
  workspace is then not counted as a change, and a goal whose plan is complete is accepted
  without verification.
\<close>

theorem truncation_hides_mutation:
  "let after = (\<lambda>xs. observe_verification sample_te sample_tools no_verification xs) in
   vs_mutated (after long_mutation) \<and> \<not> goal_completed ''goal'' finished_plan (after long_mutation) \<and>
   \<not> vs_mutated (after (snd (apply_round (new_result_budget 10 0) long_mutation))) \<and>
   goal_completed ''goal'' finished_plan
     (after (snd (apply_round (new_result_budget 10 0) long_mutation)))"
proof -
  let ?r = "empty_result\<lparr>res_structured := replicate 20 CHR ''1''\<rparr>"
  have n: "result_text_bytes ?r = 20" "allowance (new_result_budget 10 0) 0 20 = 10" by code_simp+
  have f: "res_failure (truncate_payload ?r 10) = Some output_too_large"
    by (simp add: truncate_payload_def evidence_of_def truncate_direct_def empty_result_def)
  have cut: "snd (apply_round (new_result_budget 10 0) long_mutation) =
      [ran ''m'' ''{}'' (truncate_payload ?r 10)]"
    using n by (simp add: long_mutation_def apply_round_def apply_call_def ran_def Let_def)
  have "vs_mutated (observe_verification sample_te sample_tools no_verification
      (snd (apply_round (new_result_budget 10 0) long_mutation))) = False"
    unfolding cut using f
    by (simp add: observe_verification_def verify_one_def succeeded_def ran_def no_verification_def)
  moreover have "vs_mutated (observe_verification sample_te sample_tools no_verification long_mutation)"
    "\<not> goal_completed ''goal'' finished_plan
       (observe_verification sample_te sample_tools no_verification long_mutation)"
    "trim_space ''goal'' \<noteq> []" "plan_complete finished_plan"
    by code_simp+
  ultimately show ?thesis by (simp add: Let_def goal_completed_def)
qed

end
