(* ===== verification/Workspace_Paths.thy ===== *)
theory Workspace_Paths
  imports Path_Clean Glob_Match
begin

text \<open>
  The boundary of the workspace: \<open>internal/core/workspace\<close> (\<open>workspace.go\<close>,
  \<open>additional_roots.go\<close>, \<open>root_ops.go\<close>) and \<open>internal/base/pathutil\<close>, with what they use of
  \<open>path/filepath\<close> on a Unix system. Every tool that touches a file goes through these checks.

  The file system is a record of functions: the working directory, \<open>Lstat\<close>, \<open>Stat\<close>,
  \<open>EvalSymlinks\<close>, and for the walk that pins directories what is found, created and opened below
  a pinned directory. A path that is cleaned is its components; the loops that go up with
  \<open>filepath.Dir\<close> until the parent is the path itself walk down the list of the components,
  the last one first.
\<close>

subsection \<open>Paths\<close>

definition path_string :: "bool \<Rightarrow> string list \<Rightarrow> string" where
  "path_string rooted cs =
     (if rooted then slash # join [slash] cs else if cs = [] then ''.'' else join [slash] cs)"

text \<open>\<open>filepath.Join\<close> of two elements, \<open>filepath.Abs\<close>.\<close>

definition join_path :: "string \<Rightarrow> string \<Rightarrow> string" where
  "join_path a b =
     (if a = [] \<and> b = [] then [] else if a = [] then clean_path b else clean_path (a @ [slash] @ b))"

text \<open>\<open>filepath.Rel\<close>: nothing where there is no relative path.\<close>

fun strip_common :: "string list \<Rightarrow> string list \<Rightarrow> string list \<times> string list" where
  "strip_common (b # bs) (t # ts) = (if b = t then strip_common bs ts else (b # bs, t # ts))"
| "strip_common [] ts = ([], ts)"
| "strip_common bs [] = (bs, [])"

definition rel_path :: "string \<Rightarrow> string \<Rightarrow> string option" where
  "rel_path base targ =
     (if is_abs base \<noteq> is_abs targ then None
      else case strip_common (clean_comps base) (clean_comps targ) of
          (bs, ts) \<Rightarrow>
            if bs \<noteq> [] \<and> hd bs = ''..'' then None
            else Some (path_string False (replicate (length bs) ''..'' @ ts)))"

definition is_within :: "string \<Rightarrow> string \<Rightarrow> bool" where
  "is_within root p =
     (case rel_path root p of
        None \<Rightarrow> False
      | Some r \<Rightarrow> r = ''.'' \<or> (r \<noteq> ''..'' \<and> \<not> has_prefix r ''../''))"

subsection \<open>The file system\<close>

datatype lstat_result = LFound | LMissing | LFailed

datatype stat_result = SDir | SFile | SMissing | SDenied | SFailed

datatype component = CompDir | CompSymlink | CompOther | CompMissing | CompFailed

datatype opened = OpenedSame | OpenedOther | OpenFailed

record fs =
  fs_cwd :: "string option"
  fs_lstat :: "string \<Rightarrow> lstat_result"
  fs_stat :: "string \<Rightarrow> stat_result"
  fs_real :: "string \<Rightarrow> string option"
  fs_component :: "string list \<Rightarrow> string \<Rightarrow> component"
  fs_created :: "string list \<Rightarrow> string \<Rightarrow> component option"
  fs_opened :: "string list \<Rightarrow> string \<Rightarrow> opened"
  fs_root_opens :: bool

definition abs_path :: "fs \<Rightarrow> string \<Rightarrow> string option" where
  "abs_path fs p =
     (if is_abs p then Some (clean_path p) else map_option (\<lambda>d. join_path d p) (fs_cwd fs))"

datatype ws_error = WsContext | WsOutside | WsInternal | WsProtected | WsIO | WsInvalid
  | WsNotFound | WsDenied | WsSymlink | WsNotDirectory | WsChanged

text \<open>
  The nearest ancestor of an absolute path that exists, and the components below it that are
  missing; the first argument is the list of the components, the last one first.
\<close>

fun ancestor_from :: "fs \<Rightarrow> string list \<Rightarrow> string list \<Rightarrow> (ws_error, string \<times> string list) result" where
  "ancestor_from fs [] missing =
     (case fs_lstat fs (path_string True []) of
        LFound \<Rightarrow> Inr (path_string True [], missing)
      | _ \<Rightarrow> Inl WsIO)"
| "ancestor_from fs (c # up) missing =
     (case fs_lstat fs (path_string True (rev (c # up))) of
        LFound \<Rightarrow> Inr (path_string True (rev (c # up)), missing)
      | LMissing \<Rightarrow> ancestor_from fs up (c # missing)
      | LFailed \<Rightarrow> Inl WsIO)"

definition nearest_existing_ancestor :: "fs \<Rightarrow> string \<Rightarrow> (ws_error, string) result" where
  "nearest_existing_ancestor fs p =
     map_sum id fst (ancestor_from fs (rev (clean_comps p)) [])"

definition canonical :: "fs \<Rightarrow> string \<Rightarrow> string option" where
  "canonical fs p =
     (case abs_path fs p of
        None \<Rightarrow> None
      | Some a \<Rightarrow>
          (case ancestor_from fs (rev (clean_comps a)) [] of
             Inl _ \<Rightarrow> None
           | Inr (anc, missing) \<Rightarrow>
               map_option (\<lambda>r. clean_path (foldl join_path r missing)) (fs_real fs anc)))"

text \<open>\<open>Same\<close> and \<open>Within\<close> of \<open>pathutil\<close>; None is an error.\<close>

definition same_path :: "fs \<Rightarrow> string \<Rightarrow> string \<Rightarrow> bool option" where
  "same_path fs p q =
     (case (canonical fs p, canonical fs q) of
        (Some a, Some b) \<Rightarrow> Some (a = b)
      | _ \<Rightarrow> None)"

definition path_within :: "fs \<Rightarrow> string \<Rightarrow> string \<Rightarrow> bool option" where
  "path_within fs p root =
     (case (canonical fs p, canonical fs root) of
        (Some a, Some r) \<Rightarrow>
          map_option (\<lambda>rel. rel = ''.'' \<or> rel \<noteq> ''..'' \<and> \<not> has_prefix rel ''../'') (rel_path r a)
      | _ \<Rightarrow> None)"

subsection \<open>The workspace\<close>

record protected_path =
  pr_absolute :: string
  pr_pattern :: string
  pr_glob :: bool

record workspace =
  ws_root :: string
  ws_raw_root :: string
  ws_roots :: "string list"
  ws_protected :: "protected_path list"
  ws_read_roots :: "string list"
  ws_internal :: "string list"

definition compile_protected :: "fs \<Rightarrow> string \<Rightarrow> string \<Rightarrow> (ws_error, protected_path) result" where
  "compile_protected fs root raw =
     (let t = trim_space raw in
      if t = [] then Inl WsInvalid
      else if contains_any t ''*?['' then
        (let cleaned = (if is_abs t then clean_path t else t);
             outside = (is_abs t \<and> \<not> has_prefix cleaned (root @ [slash]) \<and> cleaned \<noteq> root);
             pattern = (if is_abs t then trim_prefix cleaned (root @ [slash]) else t)
         in if outside then Inl WsInvalid
            else Inr \<lparr>pr_absolute = [], pr_pattern = clean_path pattern, pr_glob = True\<rparr>)
      else case abs_path fs (if is_abs t then t else join_path root t) of
          None \<Rightarrow> Inl WsInvalid
        | Some a \<Rightarrow>
            if \<not> is_within root (clean_path a) then Inl WsInvalid
            else Inr \<lparr>pr_absolute = clean_path a, pr_pattern = [], pr_glob = False\<rparr>)"

fun compile_all :: "fs \<Rightarrow> string \<Rightarrow> string list \<Rightarrow> (ws_error, protected_path list) result" where
  "compile_all fs root [] = Inr []"
| "compile_all fs root (p # ps) =
     (case compile_protected fs root p of
        Inl e \<Rightarrow> Inl e
      | Inr x \<Rightarrow> (case compile_all fs root ps of Inl e \<Rightarrow> Inl e | Inr xs \<Rightarrow> Inr (x # xs)))"

definition new_workspace :: "fs \<Rightarrow> string \<Rightarrow> string list \<Rightarrow> (ws_error, workspace) result" where
  "new_workspace fs root prot =
     (if trim_space root = [] then Inl WsInvalid
      else case abs_path fs root of
          None \<Rightarrow> Inl WsInvalid
        | Some a \<Rightarrow>
            (case fs_real fs a of
               None \<Rightarrow> Inl WsInvalid
             | Some r \<Rightarrow>
                 if fs_stat fs r \<noteq> SDir then Inl WsInvalid
                 else (case compile_all fs r prot of
                     Inl e \<Rightarrow> Inl e
                   | Inr ps \<Rightarrow>
                       Inr \<lparr>ws_root = clean_path r, ws_raw_root = clean_path a, ws_roots = [],
                            ws_protected = ps, ws_read_roots = [], ws_internal = []\<rparr>)))"

definition add_read_root :: "fs \<Rightarrow> workspace \<Rightarrow> string \<Rightarrow> (ws_error, workspace) result" where
  "add_read_root fs w dir =
     (let d = trim_space dir in
      if d = [] then Inr w
      else case abs_path fs d of
          None \<Rightarrow> Inl WsIO
        | Some a \<Rightarrow>
            if fs_stat fs a \<noteq> SDir then Inl WsInvalid
            else (case fs_real fs a of
                None \<Rightarrow> Inl WsIO
              | Some r \<Rightarrow>
                  Inr (w\<lparr>ws_read_roots :=
                    append_new (append_new (ws_read_roots w) (clean_path a)) (clean_path r)\<rparr>)))"

definition add_root :: "fs \<Rightarrow> workspace \<Rightarrow> string \<Rightarrow> (ws_error, workspace) result" where
  "add_root fs w dir =
     (let d = trim_space dir in
      if d = [] \<or> \<not> is_abs d then Inl WsInvalid
      else let a = clean_path d in
        if fs_stat fs a \<noteq> SDir then Inl WsInvalid
        else (case fs_real fs a of
            None \<Rightarrow> Inl WsInvalid
          | Some r \<Rightarrow> Inr (w\<lparr>ws_roots := append_new (append_new (ws_roots w) a) (clean_path r)\<rparr>)))"

definition workspace_roots :: "workspace \<Rightarrow> string list" where
  "workspace_roots w =
     foldl (\<lambda>out r. if r = ws_root w \<or> r = ws_raw_root w then out else append_new out r)
       [ws_root w] (ws_roots w)"

definition reserve_internal :: "fs \<Rightarrow> workspace \<Rightarrow> string \<Rightarrow> (ws_error, workspace) result" where
  "reserve_internal fs w p =
     (case abs_path fs p of
        None \<Rightarrow> Inl WsIO
      | Some a \<Rightarrow>
          (case canonical fs (clean_path a) of
             None \<Rightarrow> Inl WsIO
           | Some c \<Rightarrow>
               Inr (w\<lparr>ws_internal := append_new (append_new (ws_internal w) (clean_path a)) c\<rparr>)))"

definition is_internal_path :: "fs \<Rightarrow> workspace \<Rightarrow> string \<Rightarrow> (ws_error, bool) result" where
  "is_internal_path fs w p =
     (case abs_path fs p of
        None \<Rightarrow> Inl WsIO
      | Some a \<Rightarrow>
          (case canonical fs (clean_path a) of
             None \<Rightarrow> Inl WsIO
           | Some c \<Rightarrow>
               Inr (list_ex (\<lambda>r. is_within r (clean_path a) \<or> is_within r c) (ws_internal w))))"

definition additional_root_for :: "workspace \<Rightarrow> string \<Rightarrow> string option" where
  "additional_root_for w p = find (\<lambda>r. is_within r p) (ws_roots w)"

definition within_primary :: "workspace \<Rightarrow> string \<Rightarrow> bool" where
  "within_primary w p =
     (is_within (ws_root w) p \<or> (ws_raw_root w \<noteq> [] \<and> is_within (ws_raw_root w) p) \<or>
      additional_root_for w p \<noteq> None)"

definition within_read_root :: "workspace \<Rightarrow> string \<Rightarrow> bool" where
  "within_read_root w p = list_ex (\<lambda>r. is_within r p) (ws_read_roots w)"

definition protects :: "workspace \<Rightarrow> string \<Rightarrow> protected_path \<Rightarrow> bool" where
  "protects w p e =
     (if pr_glob e then
        (case (case rel_path (ws_root w) p of
                 Some r \<Rightarrow> Some r
               | None \<Rightarrow> if ws_raw_root w \<noteq> [] then rel_path (ws_raw_root w) p else None) of
           None \<Rightarrow> False
         | Some r \<Rightarrow>
             glob_match (pr_pattern e) r \<or>
             (has_prefix (pr_pattern e) ''**/'' \<and> glob_match (trim_prefix (pr_pattern e) ''**/'') r))
      else is_within (pr_absolute e) p)"

definition is_protected :: "workspace \<Rightarrow> string \<Rightarrow> bool" where
  "is_protected w p = list_ex (protects w (clean_path p)) (ws_protected w)"

text \<open>What the checks ask of the place a link leads to; \<open>inside\<close> is the region it must be in.\<close>

definition check_target :: "fs \<Rightarrow> workspace \<Rightarrow> (string \<Rightarrow> bool) \<Rightarrow> string \<Rightarrow> ws_error option" where
  "check_target fs w inside p =
     (case nearest_existing_ancestor fs p of
        Inl e \<Rightarrow> Some e
      | Inr anc \<Rightarrow>
          (case fs_real fs anc of
             None \<Rightarrow> Some WsIO
           | Some r \<Rightarrow>
               if \<not> inside r then Some WsOutside
               else (case is_internal_path fs w r of
                   Inl e \<Rightarrow> Some e
                 | Inr True \<Rightarrow> Some WsInternal
                 | Inr False \<Rightarrow> if is_protected w r then Some WsProtected else None)))"

definition check_symlink :: "fs \<Rightarrow> workspace \<Rightarrow> string \<Rightarrow> ws_error option" where
  "check_symlink fs w p = check_target fs w (within_primary w) p"

definition check_symlink_root :: "fs \<Rightarrow> workspace \<Rightarrow> string \<Rightarrow> string \<Rightarrow> ws_error option" where
  "check_symlink_root fs w p root =
     check_target fs w (\<lambda>r. is_within root r \<or> within_primary w r \<or> within_read_root w r) p"

definition check_inside :: "fs \<Rightarrow> workspace \<Rightarrow> string \<Rightarrow> ws_error option" where
  "check_inside fs w p =
     (if \<not> within_primary w (clean_path p) then Some WsOutside
      else case is_internal_path fs w p of
          Inl e \<Rightarrow> Some e
        | Inr True \<Rightarrow> Some WsInternal
        | Inr False \<Rightarrow> if is_protected w p then Some WsProtected else check_symlink fs w p)"

definition check_absolute :: "fs \<Rightarrow> bool \<Rightarrow> workspace \<Rightarrow> string \<Rightarrow> ws_error option" where
  "check_absolute fs ctx w p =
     (if \<not> is_abs p then Some WsOutside
      else if ctx then Some WsContext else check_inside fs w (clean_path p))"

definition check_absolute_read :: "fs \<Rightarrow> bool \<Rightarrow> workspace \<Rightarrow> string \<Rightarrow> ws_error option" where
  "check_absolute_read fs ctx w p =
     (if ctx then Some WsContext
      else if \<not> is_abs p then Some WsOutside
      else let c = clean_path p in
        if within_primary w c then check_inside fs w c
        else case find (\<lambda>r. is_within r c) (ws_read_roots w) of
            None \<Rightarrow> Some WsOutside
          | Some r \<Rightarrow> if is_protected w c then Some WsProtected else check_symlink_root fs w c r)"

definition resolve_path :: "fs \<Rightarrow> bool \<Rightarrow> workspace \<Rightarrow> string \<Rightarrow> (ws_error, string) result" where
  "resolve_path fs ctx w input =
     (if ctx then Inl WsContext
      else if trim_space input = [] then Inl WsOutside
      else case abs_path fs (if is_abs input then input else join_path (ws_root w) input) of
          None \<Rightarrow> Inl WsIO
        | Some a \<Rightarrow>
            (case check_inside fs w (clean_path a) of Some e \<Rightarrow> Inl e | None \<Rightarrow> Inr (clean_path a)))"

text \<open>A relative path that is not in the workspace is looked for in the read roots.\<close>

definition read_candidate :: "fs \<Rightarrow> workspace \<Rightarrow> string \<Rightarrow> string" where
  "read_candidate fs w input =
     (let c = join_path (ws_root w) input; there = (\<lambda>p. fs_stat fs p \<in> {SDir, SFile}) in
      if there c then c
      else case find (\<lambda>r. there (join_path r input)) (ws_read_roots w) of
          Some r \<Rightarrow> join_path r input
        | None \<Rightarrow> c)"

definition resolve_read :: "fs \<Rightarrow> bool \<Rightarrow> workspace \<Rightarrow> string \<Rightarrow> (ws_error, string) result" where
  "resolve_read fs ctx w input =
     (if ctx then Inl WsContext
      else if trim_space input = [] then Inl WsOutside
      else case abs_path fs (if is_abs input then input else read_candidate fs w input) of
          None \<Rightarrow> Inl WsIO
        | Some a \<Rightarrow>
            (case check_absolute_read fs ctx w (clean_path a) of
               Some e \<Rightarrow> Inl e
             | None \<Rightarrow> Inr (clean_path a)))"

definition resolve_existing_read :: "fs \<Rightarrow> bool \<Rightarrow> workspace \<Rightarrow> string \<Rightarrow> (ws_error, string) result" where
  "resolve_existing_read fs ctx w input =
     (case resolve_read fs ctx w input of
        Inl e \<Rightarrow> Inl e
      | Inr p \<Rightarrow>
          (case fs_stat fs p of
             SMissing \<Rightarrow> Inl WsNotFound
           | SDenied \<Rightarrow> Inl WsDenied
           | SFailed \<Rightarrow> Inl WsIO
           | _ \<Rightarrow> Inr p))"

text \<open>
  \<open>NearestExistingReadAncestor\<close>: the components of the cleaned input, the last one first; where
  the loop ends at the root or at the dot the answer is the dot.
\<close>

fun read_ancestor_from :: "fs \<Rightarrow> bool \<Rightarrow> workspace \<Rightarrow> bool \<Rightarrow> string list \<Rightarrow> (ws_error, string) result" where
  "read_ancestor_from fs ctx w rooted [] =
     (case resolve_existing_read fs ctx w (path_string rooted []) of
        Inr _ \<Rightarrow> Inr (path_string rooted [])
      | Inl e \<Rightarrow> if e = WsNotFound then Inr ''.'' else Inl e)"
| "read_ancestor_from fs ctx w rooted (c # up) =
     (case resolve_existing_read fs ctx w (path_string rooted (rev (c # up))) of
        Inr _ \<Rightarrow> Inr (path_string rooted (rev (c # up)))
      | Inl e \<Rightarrow> if e = WsNotFound then read_ancestor_from fs ctx w rooted up else Inl e)"

definition nearest_existing_read_ancestor :: "fs \<Rightarrow> bool \<Rightarrow> workspace \<Rightarrow> string \<Rightarrow> (ws_error, string) result" where
  "nearest_existing_read_ancestor fs ctx w input =
     (let c = trim_space input in read_ancestor_from fs ctx w (is_abs c) (rev (clean_comps c)))"

definition rel_read :: "workspace \<Rightarrow> string \<Rightarrow> string option" where
  "rel_read w p =
     (let c = clean_path p in
      if is_within (ws_root w) c then rel_path (ws_root w) c
      else if ws_raw_root w \<noteq> [] \<and> is_within (ws_raw_root w) c then rel_path (ws_raw_root w) c
      else case additional_root_for w c of
          Some r \<Rightarrow> rel_path r c
        | None \<Rightarrow>
            (case find (\<lambda>r. is_within r c) (ws_read_roots w) of
               Some r \<Rightarrow> rel_path r c
             | None \<Rightarrow> rel_path (ws_root w) c))"

subsection \<open>Opening files\<close>

text \<open>
  \<open>OpenReadFile\<close>: the root that is pinned and the path that is opened below it. That the root
  cannot be opened is \<open>fs_root_opens\<close>; the open itself is left to the operating system.
\<close>

definition open_read_file :: "fs \<Rightarrow> bool \<Rightarrow> workspace \<Rightarrow> string \<Rightarrow> (ws_error, string \<times> string) result" where
  "open_read_file fs ctx w p =
     (case check_absolute_read fs ctx w p of
        Some e \<Rightarrow> Inl e
      | None \<Rightarrow>
          let c = clean_path p;
              root = (if is_within (ws_root w) c then Some (ws_root w)
                else if ws_raw_root w \<noteq> [] \<and> is_within (ws_raw_root w) c then Some (ws_raw_root w)
                else find (\<lambda>r. is_within r c) (ws_read_roots w)) in
          (case root of
             None \<Rightarrow> Inl WsOutside
           | Some r \<Rightarrow>
               (case rel_path r c of
                  None \<Rightarrow> Inl WsIO
                | Some rel \<Rightarrow> if fs_root_opens fs then Inr (r, rel) else Inl WsIO)))"

text \<open>
  \<open>OpenParentNoSymlinks\<close>: the directories that are pinned one below the other, as components
  below the root, and the name of the file.
\<close>

definition found_component :: "fs \<Rightarrow> bool \<Rightarrow> string list \<Rightarrow> string \<Rightarrow> component" where
  "found_component fs create pinned c =
     (if fs_component fs pinned c = CompMissing \<and> create
      then (case fs_created fs pinned c of None \<Rightarrow> CompFailed | Some k \<Rightarrow> k)
      else fs_component fs pinned c)"

fun pin_from :: "fs \<Rightarrow> bool \<Rightarrow> bool \<Rightarrow> string list \<Rightarrow> string list \<Rightarrow> (ws_error, string list) result" where
  "pin_from fs ctx create pinned [] = Inr pinned"
| "pin_from fs ctx create pinned (c # cs) =
     (if c = [] \<or> c = ''.'' then pin_from fs ctx create pinned cs
      else if c = ''..'' then Inl WsOutside
      else if ctx then Inl WsContext
      else case found_component fs create pinned c of
          CompDir \<Rightarrow>
            (case fs_opened fs pinned c of
               OpenedSame \<Rightarrow> pin_from fs ctx create (pinned @ [c]) cs
             | OpenedOther \<Rightarrow> Inl WsChanged
             | OpenFailed \<Rightarrow> Inl WsIO)
        | CompSymlink \<Rightarrow> Inl WsSymlink
        | CompOther \<Rightarrow> Inl WsNotDirectory
        | CompMissing \<Rightarrow> Inl WsNotFound
        | CompFailed \<Rightarrow> Inl WsIO)"

definition open_parent :: "fs \<Rightarrow> bool \<Rightarrow> workspace \<Rightarrow> string \<Rightarrow> bool \<Rightarrow> (ws_error, string list \<times> string) result" where
  "open_parent fs ctx w p create =
     (if ctx then Inl WsContext
      else if \<not> is_abs p then Inl WsOutside
      else case check_absolute fs ctx w (clean_path p) of
          Some e \<Rightarrow> Inl e
        | None \<Rightarrow>
            (case rel_path (ws_root w) (clean_path p) of
               None \<Rightarrow> Inl WsIO
             | Some rel \<Rightarrow>
                 if rel = ''.'' \<or> rel = ''..'' \<or> has_prefix rel ''../'' then Inl WsOutside
                 else if \<not> fs_root_opens fs then Inl WsIO
                 else (case pin_from fs ctx create [] (butlast (clean_comps rel)) of
                     Inl e \<Rightarrow> Inl e
                   | Inr pinned \<Rightarrow> Inr (pinned, last (clean_comps rel)))))"

subsection \<open>Lemmas: components\<close>

lemma split_char_snoc: "split_char x (a @ x # b) = split_char x a @ split_char x b"
proof (induction a)
  case Nil
  then show ?case by simp
next
  case (Cons c a)
  then show ?case by (cases "split_char x a") auto
qed

lemma fold_plain: "list_all plain_comp cs \<Longrightarrow> foldl (clean_step r) st cs = rev cs @ st"
proof (induction cs arbitrary: st)
  case Nil
  then show ?case by simp
next
  case (Cons c cs)
  then have "clean_step r st c = c # st" by (auto simp: plain_comp_def)
  with Cons show ?case by (simp del: clean_step.simps)
qed

lemma clean_path_string: "clean_path p = path_string (is_abs p) (clean_comps p)"
proof (cases "p = []")
  case True
  then show ?thesis by (simp add: clean_path_def path_string_def is_abs_def clean_comps_def has_prefix_def)
next
  case False
  have "join [slash] cs = [] \<longleftrightarrow> cs = [] \<or> cs = [[]]" for cs
    by (cases cs; cases "tl cs") auto
  moreover have "clean_comps p \<noteq> [[]]"
  proof
    assume h: "clean_comps p = [[]]"
    obtain n xs where "clean_comps p = replicate n ''..'' @ xs" "\<forall>c \<in> set xs. plain_comp c"
      by (rule clean_comps_shape)
    with h show False by (cases n) (auto simp: plain_comp_def append_eq_Cons_conv)
  qed
  ultimately show ?thesis
    using False by (auto simp: clean_path_def path_string_def is_abs_def Let_def)
qed

lemma slash_prefix [simp]: "has_prefix (slash # s) [slash]"
  by (simp add: has_prefix_def)

lemma is_abs_path_string [simp]: "is_abs (path_string True cs)"
  by (simp add: is_abs_def path_string_def)

lemma plain_split: "list_all plain_comp cs \<Longrightarrow> cs \<noteq> [] \<Longrightarrow> split_char slash (join [slash] cs) = cs"
  by (rule split_char_join) (auto simp: list_all_iff plain_comp_def)

lemma clean_comps_rooted [simp]:
  assumes "list_all plain_comp cs"
  shows "clean_comps (path_string True cs) = cs"
proof -
  have "foldl (clean_step True) [] (split_char slash (join [slash] cs)) = rev cs"
    using fold_plain [OF assms] plain_split [OF assms] by (cases "cs = []") simp_all
  then show ?thesis by (simp add: clean_comps_def path_string_def)
qed

lemma plain_first: "plain_comp w \<Longrightarrow> \<not> has_prefix (join [slash] (w # ws)) [slash]"
  by (cases w; cases ws) (auto simp: plain_comp_def has_prefix_def)

lemma clean_comps_relative:
  assumes "list_all plain_comp cs"
  shows "clean_comps (path_string False cs) = cs"
proof (cases cs)
  case Nil
  then show ?thesis by (simp add: clean_comps_def path_string_def)
next
  case (Cons w ws)
  with assms have "split_char slash (join [slash] (w # ws)) = w # ws" by (intro plain_split) auto
  with Cons assms show ?thesis
    using fold_plain [of "w # ws" False "[]"] plain_first [of w ws]
    by (simp add: clean_comps_def path_string_def del: clean_step.simps)
qed

lemma abs_plain: "is_abs p \<Longrightarrow> list_all plain_comp (clean_comps p)"
  using clean_comps_shape [of p] by (metis append_Nil list_all_iff replicate_0)

lemma clean_path_abs [simp]: "is_abs p \<Longrightarrow> is_abs (clean_path p)"
  by (simp add: clean_path_string)

lemma clean_comps_clean [simp]: "is_abs p \<Longrightarrow> clean_comps (clean_path p) = clean_comps p"
  by (simp add: clean_path_string abs_plain)

lemma clean_path_idem [simp]: "is_abs p \<Longrightarrow> clean_path (clean_path p) = clean_path p"
  using clean_path_string [of "clean_path p"] clean_path_string [of p] abs_plain [of p] by simp

text \<open>One path is below another: its components begin with those of the other.\<close>

definition below :: "string \<Rightarrow> string \<Rightarrow> bool" where
  "below root p = (is_abs p \<and> (\<exists>r. clean_comps p = clean_comps root @ r))"

lemma strip_common_split:
  "strip_common bs ts = (b, t) \<Longrightarrow> \<exists>c. bs = c @ b \<and> ts = c @ t \<and> (b = [] \<or> t = [] \<or> hd b \<noteq> hd t)"
proof (induction bs ts rule: strip_common.induct)
  case (1 x bs y ts)
  show ?case
  proof (cases "x = y")
    case True
    with 1 obtain c where "bs = c @ b" "ts = c @ t" "b = [] \<or> t = [] \<or> hd b \<noteq> hd t" by auto
    with True show ?thesis by (intro exI [of _ "x # c"]) simp
  next
    case False
    with 1 show ?thesis by auto
  qed
qed auto

lemma strip_common_append [simp]: "strip_common bs (bs @ r) = ([], r)"
  by (induction bs) simp_all

lemma up_not_inside:
  "\<not> (let r = path_string False (replicate (Suc n) ''..'' @ t) in
      r = ''.'' \<or> (r \<noteq> ''..'' \<and> \<not> has_prefix r ''../''))"
proof (cases "replicate n ''..'' @ t")
  case Nil
  then show ?thesis by (simp add: path_string_def)
next
  case (Cons w ws)
  then show ?thesis by (simp add: path_string_def slash_def has_prefix_def)
qed

lemma down_inside:
  assumes "list_all plain_comp t"
  shows "path_string False t = ''.'' \<or>
    (path_string False t \<noteq> ''..'' \<and> \<not> has_prefix (path_string False t) ''../'')"
proof (cases t)
  case Nil
  then show ?thesis by (simp add: path_string_def)
next
  case (Cons w ws)
  with assms have w: "plain_comp w" by simp
  have "join [slash] (w # ws) \<noteq> ''..''"
    using w by (cases ws) (auto simp: plain_comp_def slash_def append_eq_Cons_conv)
  moreover have "\<not> has_prefix (join [slash] (w # ws)) ''../''"
  proof
    assume "has_prefix (join [slash] (w # ws)) ''../''"
    then obtain r where r: "join [slash] (w # ws) = ''..'' @ slash # r"
      by (auto simp: has_prefix_iff slash_def)
    show False
    proof (cases ws)
      case Nil
      with r w show False by (auto simp: plain_comp_def)
    next
      case (Cons v vs)
      with r have e: "w @ slash # join [slash] (v # vs) = ''..'' @ slash # r" by simp
      have n: "slash \<notin> set w" "slash \<notin> set ''..''" using w by (auto simp: plain_comp_def slash_def)
      have "w # split_char slash (join [slash] (v # vs)) = split_char slash (w @ slash # join [slash] (v # vs))"
        by (rule split_char_append [OF n(1), symmetric])
      also have "\<dots> = split_char slash (''..'' @ slash # r)" by (rule arg_cong [OF e])
      also have "\<dots> = ''..'' # split_char slash r" by (rule split_char_append [OF n(2)])
      finally have "w # split_char slash (join [slash] (v # vs)) = ''..'' # split_char slash r" .
      then have "w = ''..''" by (rule list.inject [THEN iffD1, THEN conjunct1])
      with w show False by (simp add: plain_comp_def)
    qed
  qed
  ultimately show ?thesis using Cons by (simp add: path_string_def)
qed

lemma is_within_below: "is_abs root \<Longrightarrow> is_abs p \<Longrightarrow> is_within root p = below root p"
proof -
  assume a: "is_abs root" "is_abs p"
  obtain b t where s: "strip_common (clean_comps root) (clean_comps p) = (b, t)" by fastforce
  from strip_common_split [OF s] obtain c where
    c: "clean_comps root = c @ b" "clean_comps p = c @ t" "b = [] \<or> t = [] \<or> hd b \<noteq> hd t" by blast
  have pl: "list_all plain_comp b" "list_all plain_comp t"
    using abs_plain [OF a(1)] abs_plain [OF a(2)] c by simp_all
  show ?thesis
  proof (cases b)
    case Nil
    then have "rel_path root p = Some (path_string False t)" using s a by (simp add: rel_path_def)
    then have "is_within root p" using down_inside [OF pl(2)] by (simp add: is_within_def)
    moreover have "below root p" using c a Nil by (simp add: below_def)
    ultimately show ?thesis by blast
  next
    case (Cons w ws)
    have "\<nexists>r. clean_comps p = clean_comps root @ r" using c Cons by (cases t) auto
    moreover have "w \<noteq> ''..''" using pl(1) Cons by (simp add: plain_comp_def)
    then have "rel_path root p = Some (path_string False (replicate (Suc (length ws)) ''..'' @ t))"
      using s a Cons by (simp add: rel_path_def)
    then have "\<not> is_within root p"
      using up_not_inside [of "length ws" t] by (simp add: is_within_def Let_def)
    ultimately show ?thesis by (simp add: below_def)
  qed
qed

subsection \<open>Lemmas: where a path leads\<close>

text \<open>
  What the checks rely on in \<open>filepath.EvalSymlinks\<close> and in the working directory: the result
  for an absolute path is absolute.
\<close>

definition fs_ok :: "fs \<Rightarrow> bool" where
  "fs_ok fs = ((\<forall>p r. is_abs p \<longrightarrow> fs_real fs p = Some r \<longrightarrow> is_abs r) \<and>
     (\<forall>d. fs_cwd fs = Some d \<longrightarrow> is_abs d))"

lemma is_abs_append [simp]: "is_abs a \<Longrightarrow> is_abs (a @ b)"
  by (auto simp: is_abs_def has_prefix_iff)

lemma join_path_abs [simp]: "is_abs a \<Longrightarrow> is_abs (join_path a b)"
  by (auto simp: join_path_def is_abs_def [of "[]"] has_prefix_def)

lemma abs_path_abs: "fs_ok fs \<Longrightarrow> abs_path fs p = Some a \<Longrightarrow> is_abs a"
  by (auto simp: abs_path_def fs_ok_def split: if_splits)

lemma abs_path_id [simp]: "is_abs p \<Longrightarrow> abs_path fs p = Some (clean_path p)"
  by (simp add: abs_path_def)

lemma clean_comps_join:
  assumes "is_abs a" "plain_comp c"
  shows "clean_comps (join_path a c) = clean_comps a @ [c]"
proof -
  have "a \<noteq> []" using assms(1) by (auto simp: is_abs_def has_prefix_def)
  have "slash \<notin> set c" using assms(2) by (simp add: plain_comp_def)
  have "has_prefix (a @ slash # c) [slash] = has_prefix a [slash]"
    using assms(1) is_abs_append [OF assms(1)] by (simp add: is_abs_def)
  moreover have "split_char slash (a @ slash # c) = split_char slash a @ [c]"
    by (simp add: split_char_snoc split_char_none \<open>slash \<notin> set c\<close>)
  moreover have "clean_step r st c = c # st" for r st using assms(2) by (auto simp: plain_comp_def)
  ultimately have "clean_comps (a @ slash # c) = clean_comps a @ [c]"
    by (simp add: clean_comps_def del: clean_step.simps)
  then show ?thesis using \<open>a \<noteq> []\<close> assms(1) by (simp add: join_path_def)
qed

lemma clean_comps_join_all:
  "is_abs a \<Longrightarrow> list_all plain_comp cs \<Longrightarrow>
    is_abs (foldl join_path a cs) \<and> clean_comps (foldl join_path a cs) = clean_comps a @ cs"
  by (induction cs arbitrary: a) (simp_all add: clean_comps_join)

lemma ancestor_from_split:
  "ancestor_from fs rcs missing = Inr (anc, low) \<Longrightarrow>
    \<exists>up m. rev rcs = up @ m \<and> low = m @ missing \<and> anc = path_string True up \<and> fs_lstat fs anc = LFound"
proof (induction fs rcs missing rule: ancestor_from.induct)
  case (1 fs missing)
  then show ?case by (auto split: lstat_result.splits)
next
  case (2 fs c up missing)
  show ?case
  proof (cases "fs_lstat fs (path_string True (rev (c # up)))")
    case LFound
    with 2 show ?thesis by (auto intro!: exI [of _ "rev up @ [c]"])
  next
    case LMissing
    with "2.IH" "2.prems" obtain up' m where
      "rev up = up' @ m" "low = m @ c # missing" "anc = path_string True up'" "fs_lstat fs anc = LFound"
      by auto
    then show ?thesis by (intro exI [of _ up'] exI [of _ "m @ [c]"]) simp
  next
    case LFailed
    with 2 show ?thesis by simp
  qed
qed

lemma join_all_abs: "is_abs a \<Longrightarrow> is_abs (foldl join_path a cs)"
  by (induction cs arbitrary: a) simp_all

lemma canonical_abs:
  assumes "fs_ok fs" "canonical fs p = Some c"
  shows "is_abs c"
proof -
  from assms(2) obtain a anc low r where a: "ancestor_from fs a [] = Inr (anc, low)"
      "fs_real fs anc = Some r" "c = clean_path (foldl join_path r low)"
    by (auto simp: canonical_def split: option.splits sum.splits)
  from ancestor_from_split [OF a(1)] have "is_abs anc" using is_abs_path_string by blast
  then have "is_abs r" using assms(1) a(2) unfolding fs_ok_def by blast
  with a(3) join_all_abs show ?thesis by simp
qed

text \<open>An absolute path, its nearest ancestor that exists, and where it leads.\<close>

lemma canonical_target:
  assumes "fs_ok fs" "is_abs p" "nearest_existing_ancestor fs p = Inr anc" "fs_real fs anc = Some r"
  shows "\<exists>q m. canonical fs p = Some q \<and> is_abs r \<and> is_abs q \<and> clean_comps q = clean_comps r @ m \<and>
    clean_path q = q \<and> (fs_lstat fs (clean_path p) = LFound \<longrightarrow> anc = clean_path p \<and> m = [])"
proof -
  from assms(3) obtain low where a: "ancestor_from fs (rev (clean_comps p)) [] = Inr (anc, low)"
    by (cases "ancestor_from fs (rev (clean_comps p)) []") (auto simp: nearest_existing_ancestor_def)
  from ancestor_from_split [OF a] obtain up where
    s: "clean_comps p = up @ low" "anc = path_string True up" by auto
  have pl: "list_all plain_comp up" "list_all plain_comp low"
    using abs_plain [OF assms(2)] s(1) by simp_all
  have r: "is_abs r" using assms(1,4) s(2) is_abs_path_string [of up] unfolding fs_ok_def by blast
  define q where "q = clean_path (foldl join_path r low)"
  have q: "is_abs q" "clean_comps q = clean_comps r @ low" "clean_path q = q"
    using clean_comps_join_all [OF r pl(2)] by (simp_all add: q_def)
  have "canonical fs p = Some q" using assms(2,4) a by (simp add: canonical_def q_def)
  moreover have "anc = clean_path p \<and> low = []" if f: "fs_lstat fs (clean_path p) = LFound"
  proof -
    have cp: "clean_path p = path_string True (clean_comps p)"
      using clean_path_string [of p] assms(2) by simp
    have "ancestor_from fs (rev (clean_comps p)) [] = Inr (clean_path p, [])"
      using f unfolding cp by (cases "rev (clean_comps p)") (auto simp: rev_swap)
    with a show ?thesis by simp
  qed
  ultimately show ?thesis using q r by blast
qed

definition ws_wf :: "workspace \<Rightarrow> bool" where
  "ws_wf w = (is_abs (ws_root w) \<and> (ws_raw_root w = [] \<or> is_abs (ws_raw_root w)) \<and>
     list_all is_abs (ws_roots w) \<and> list_all is_abs (ws_read_roots w) \<and>
     list_all is_abs (ws_internal w))"

definition primary_roots :: "workspace \<Rightarrow> string list" where
  "primary_roots w = ws_root w # (if ws_raw_root w = [] then [] else [ws_raw_root w]) @ ws_roots w"

lemma primary_abs: "ws_wf w \<Longrightarrow> list_all is_abs (primary_roots w)"
  by (auto simp: ws_wf_def primary_roots_def)

lemma within_primary_below:
  assumes "ws_wf w" "is_abs p"
  shows "within_primary w p \<longleftrightarrow> (\<exists>r \<in> set (primary_roots w). below r p)"
proof -
  have "is_within r p = below r p" if "r \<in> set (primary_roots w)" for r
    using primary_abs [OF assms(1)] that assms(2) by (simp add: list_all_iff is_within_below)
  then show ?thesis
    by (auto simp: within_primary_def primary_roots_def additional_root_for_def find_None_iff)
qed

lemma within_read_below:
  "ws_wf w \<Longrightarrow> is_abs p \<Longrightarrow> within_read_root w p \<longleftrightarrow> (\<exists>r \<in> set (ws_read_roots w). below r p)"
  by (auto simp: within_read_root_def list_ex_iff ws_wf_def list_all_iff is_within_below)

lemma below_append:
  "below root r \<Longrightarrow> is_abs q \<Longrightarrow> clean_comps q = clean_comps r @ m \<Longrightarrow> below root q"
  by (auto simp: below_def)

text \<open>What passes the check of the place a link leads to.\<close>

lemma check_target_None:
  assumes "check_target fs w inside p = None"
  obtains anc r where "nearest_existing_ancestor fs p = Inr anc" "fs_real fs anc = Some r" "inside r"
    "is_internal_path fs w r = Inr False" "\<not> is_protected w r"
proof -
  have "\<exists>anc r. nearest_existing_ancestor fs p = Inr anc \<and> fs_real fs anc = Some r \<and> inside r \<and>
      is_internal_path fs w r = Inr False \<and> \<not> is_protected w r"
    using assms by (auto simp: check_target_def split: sum.splits option.splits if_splits bool.splits)
  then show ?thesis using that by blast
qed

lemma internal_False:
  assumes "is_internal_path fs w p = Inr False" "is_abs p" "ws_wf w" "canonical fs (clean_path p) = Some q" "is_abs q"
  shows "\<forall>i \<in> set (ws_internal w). \<not> below i p \<and> \<not> below i q"
proof
  fix i assume i: "i \<in> set (ws_internal w)"
  then have "is_abs i" using assms(3) by (auto simp: ws_wf_def list_all_iff)
  with i assms show "\<not> below i p \<and> \<not> below i q"
    by (auto simp: is_internal_path_def list_ex_iff is_within_below below_def)
qed

lemma canonical_clean: "is_abs p \<Longrightarrow> canonical fs (clean_path p) = canonical fs p"
  by (simp add: canonical_def)

lemma nearest_clean:
  "is_abs p \<Longrightarrow> nearest_existing_ancestor fs (clean_path p) = nearest_existing_ancestor fs p"
  by (simp add: nearest_existing_ancestor_def)

subsection \<open>Lemmas: the checks\<close>

text \<open>
  What a path that passes has: it is in the region, and so is where it leads; neither is in
  Protonman's own state; it is not protected, and where it exists its target is not.
\<close>

definition confined :: "fs \<Rightarrow> workspace \<Rightarrow> string list \<Rightarrow> string \<Rightarrow> bool" where
  "confined fs w roots p =
     (is_abs p \<and> clean_path p = p \<and> \<not> is_protected w p \<and> (\<exists>r \<in> set roots. below r p) \<and>
      (\<exists>q. canonical fs p = Some q \<and> (\<exists>r \<in> set roots. below r q) \<and>
        (fs_lstat fs p = LFound \<longrightarrow> \<not> is_protected w q)))"

lemma is_protected_clean: "is_abs p \<Longrightarrow> is_protected w (clean_path p) = is_protected w p"
  by (simp add: is_protected_def)

lemma confined_target:
  assumes "fs_ok fs" "ws_wf w" "is_abs p" "clean_path p = p" "\<not> is_protected w p"
    and "\<exists>r \<in> set roots. below r p" "check_target fs w inside p = None"
    and "\<And>r. is_abs r \<Longrightarrow> inside r \<Longrightarrow> \<exists>x \<in> set roots. below x r"
  shows "confined fs w roots p"
proof -
  obtain anc r where t: "nearest_existing_ancestor fs p = Inr anc" "fs_real fs anc = Some r" "inside r"
      "\<not> is_protected w r"
    using check_target_None [OF assms(7)] by blast
  from canonical_target [OF assms(1,3) t(1,2)] obtain q m where
    q: "canonical fs p = Some q" "is_abs r" "is_abs q" "clean_comps q = clean_comps r @ m" "clean_path q = q"
      "fs_lstat fs p = LFound \<longrightarrow> m = []"
    unfolding assms(4) by blast
  obtain x where x: "x \<in> set roots" "below x r" using assms(8) [OF q(2) t(3)] by blast
  have "\<not> is_protected w q" if "fs_lstat fs p = LFound"
  proof -
    have "clean_path r = q" using q that clean_path_string [of r] clean_path_string [of q] by simp
    with t(4) q(2) is_protected_clean [of r w] show ?thesis by simp
  qed
  with assms q(1) x(1) below_append [OF x(2) q(3,4)] show ?thesis
    unfolding confined_def by blast
qed

lemma check_inside_None:
  assumes "fs_ok fs" "ws_wf w" "is_abs p" "clean_path p = p" "check_inside fs w p = None"
  shows "confined fs w (primary_roots w) p" "is_internal_path fs w p = Inr False"
proof -
  from assms(5) have c: "within_primary w p" "is_internal_path fs w p = Inr False" "\<not> is_protected w p"
      "check_target fs w (within_primary w) p = None"
    using assms(4)
    by (auto simp: check_inside_def check_symlink_def split: if_splits sum.splits bool.splits)
  show "is_internal_path fs w p = Inr False" by (rule c(2))
  show "confined fs w (primary_roots w) p"
    using confined_target [OF assms(1-4) c(3) _ c(4), of "primary_roots w"] c(1)
      within_primary_below [OF assms(2)] assms(3) by blast
qed

lemma confined_more: "confined fs w rs p \<Longrightarrow> set rs \<subseteq> set rs' \<Longrightarrow> confined fs w rs' p"
  unfolding confined_def by blast

lemma check_read_None:
  assumes "fs_ok fs" "ws_wf w" "is_abs p" "clean_path p = p" "check_absolute_read fs ctx w p = None"
  shows "confined fs w (primary_roots w @ ws_read_roots w) p"
proof (cases "within_primary w p")
  case True
  with assms have "check_inside fs w p = None"
    by (auto simp: check_absolute_read_def split: if_splits)
  from check_inside_None(1) [OF assms(1-4) this] show ?thesis by (rule confined_more) simp
next
  case False
  with assms obtain r where r: "find (\<lambda>r. is_within r p) (ws_read_roots w) = Some r" "\<not> is_protected w p"
      "check_target fs w (\<lambda>x. is_within r x \<or> within_primary w x \<or> within_read_root w x) p = None"
    by (auto simp: check_absolute_read_def check_symlink_root_def Let_def split: if_splits option.splits)
  from r(1) have m: "r \<in> set (ws_read_roots w)" "is_within r p" by (auto simp: find_Some_iff)
  then have ra: "is_abs r" using assms(2) by (auto simp: ws_wf_def list_all_iff)
  have "below r p" using m(2) ra assms(3) by (simp add: is_within_below)
  moreover have "\<exists>x \<in> set (primary_roots w @ ws_read_roots w). below x q"
    if "is_abs q" "is_within r q \<or> within_primary w q \<or> within_read_root w q" for q
    using that m(1) ra within_primary_below [OF assms(2) that(1)] within_read_below [OF assms(2) that(1)]
      is_within_below [OF ra that(1)] by auto
  ultimately show ?thesis
    using confined_target [OF assms(1-4) r(2) _ r(3), of "primary_roots w @ ws_read_roots w"] m(1) by auto
qed

subsection \<open>Properties\<close>

text \<open>
  C40: The workspace keeps its roots absolute: the constructor makes such a workspace, and
  registering further roots, read roots and internal paths keeps it.
\<close>

theorem workspace_roots_absolute:
  assumes "fs_ok fs"
  shows "(new_workspace fs dir prot = Inr w0 \<longrightarrow> ws_wf w0) \<and>
    (ws_wf w \<longrightarrow> (add_root fs w dir = Inr w1 \<longrightarrow> ws_wf w1) \<and>
      (add_read_root fs w dir = Inr w2 \<longrightarrow> ws_wf w2) \<and>
      (reserve_internal fs w dir = Inr w3 \<longrightarrow> ws_wf w3))"
proof (intro conjI impI)
  have real: "is_abs p \<Longrightarrow> fs_real fs p = Some r \<Longrightarrow> is_abs r" for p r
    using assms by (auto simp: fs_ok_def)
  have new: "list_all is_abs xs \<Longrightarrow> is_abs a \<Longrightarrow> list_all is_abs (append_new xs a)" for xs a
    by (simp add: list_all_iff)
  note can = canonical_abs [OF assms]
  show "ws_wf w0" if n: "new_workspace fs dir prot = Inr w0"
  proof -
    from n obtain a r ps where "abs_path fs dir = Some a" "fs_real fs a = Some r"
        "w0 = \<lparr>ws_root = clean_path r, ws_raw_root = clean_path a, ws_roots = [],
          ws_protected = ps, ws_read_roots = [], ws_internal = []\<rparr>"
      by (auto simp: new_workspace_def split: if_splits option.splits sum.splits)
    moreover from this have "is_abs a" "is_abs r" using abs_path_abs [OF assms] real by blast+
    ultimately show ?thesis by (simp add: ws_wf_def)
  qed
  assume w: "ws_wf w"
  show "ws_wf w1" if n: "add_root fs w dir = Inr w1"
  proof -
    from n obtain a r where "is_abs a" "fs_real fs (clean_path a) = Some r"
        "w1 = w\<lparr>ws_roots := append_new (append_new (ws_roots w) (clean_path a)) (clean_path r)\<rparr>"
      by (auto simp: add_root_def Let_def split: if_splits option.splits)
    moreover from this have "is_abs r" using real clean_path_abs by blast
    ultimately show ?thesis using w by (simp add: ws_wf_def new)
  qed
  show "ws_wf w2" if n: "add_read_root fs w dir = Inr w2"
  proof (cases "trim_space dir = []")
    case True
    with n w show ?thesis by (simp add: add_read_root_def)
  next
    case False
    with n obtain a r where "abs_path fs (trim_space dir) = Some a" "fs_real fs a = Some r"
        "w2 = w\<lparr>ws_read_roots := append_new (append_new (ws_read_roots w) (clean_path a)) (clean_path r)\<rparr>"
      by (auto simp: add_read_root_def Let_def split: if_splits option.splits)
    moreover from this have "is_abs a" "is_abs r" using abs_path_abs [OF assms] real by blast+
    ultimately show ?thesis using w by (simp add: ws_wf_def new)
  qed
  show "ws_wf w3" if n: "reserve_internal fs w dir = Inr w3"
  proof -
    from n obtain a c where "abs_path fs dir = Some a" "canonical fs (clean_path a) = Some c"
        "w3 = w\<lparr>ws_internal := append_new (append_new (ws_internal w) (clean_path a)) c\<rparr>"
      by (auto simp: reserve_internal_def split: option.splits)
    moreover from this have "is_abs a" "is_abs c" using abs_path_abs [OF assms] can by blast+
    ultimately show ?thesis using w by (simp add: ws_wf_def new)
  qed
qed

text \<open>
  C14: Resolved paths stay in the workspace. A path that \<open>Resolve\<close> returns is absolute and
  cleaned, and lies below the primary root or an additional one; so does the place it leads to
  once the links of its existing part are followed; neither is in Protonman's own state; and it
  is not protected, nor is, when it exists, the file it leads to.
\<close>

theorem resolve_confined:
  assumes "fs_ok fs" "ws_wf w" "resolve_path fs ctx w input = Inr p"
  shows "confined fs w (primary_roots w) p \<and>
    (\<exists>q. canonical fs p = Some q \<and> (\<forall>i \<in> set (ws_internal w). \<not> below i p \<and> \<not> below i q))"
proof -
  from assms(3) obtain a where a: "abs_path fs (if is_abs input then input else join_path (ws_root w) input) = Some a"
      "check_inside fs w (clean_path a) = None" "p = clean_path a"
    by (auto simp: resolve_path_def split: if_splits option.splits)
  have "is_abs a" using abs_path_abs [OF assms(1) a(1)] .
  then have p: "is_abs p" "clean_path p = p" "check_inside fs w p = None" using a by simp_all
  note c = check_inside_None [OF assms(1,2) p]
  obtain q where q: "canonical fs p = Some q" using c(1) by (auto simp: confined_def)
  have "is_abs q" using c(1) q by (auto simp: confined_def below_def)
  with internal_False [OF c(2) p(1) assms(2), of q] q p(2) c(1) show ?thesis by auto
qed

text \<open>
  Read paths stay in what may be read. A path that \<open>ResolveRead\<close> returns lies below a root or
  a read root, and so does the place it leads to; it is not protected, nor is, when it exists,
  the file it leads to.
\<close>

theorem resolve_read_confined:
  assumes "fs_ok fs" "ws_wf w" "resolve_read fs ctx w input = Inr p"
  shows "confined fs w (primary_roots w @ ws_read_roots w) p"
proof -
  from assms(3) obtain a where a: "abs_path fs (if is_abs input then input else read_candidate fs w input) = Some a"
      "check_absolute_read fs ctx w (clean_path a) = None" "p = clean_path a"
    by (auto simp: resolve_read_def split: if_splits option.splits)
  have "is_abs a" using abs_path_abs [OF assms(1) a(1)] .
  with a check_read_None [OF assms(1,2)] show ?thesis by simp
qed

lemma pin_from_plain:
  "list_all plain_comp cs \<Longrightarrow> pin_from fs ctx create pinned cs = Inr out \<Longrightarrow>
    out = pinned @ cs \<and>
    (\<forall>i < length cs. found_component fs create (pinned @ take i cs) (cs ! i) = CompDir \<and>
       fs_opened fs (pinned @ take i cs) (cs ! i) = OpenedSame)"
proof (induction cs arbitrary: pinned)
  case Nil
  then show ?case by simp
next
  case (Cons c cs)
  from Cons.prems(1) have c: "c \<noteq> []" "c \<noteq> ''.''" "c \<noteq> ''..''" by (simp_all add: plain_comp_def)
  with Cons.prems(2) have h: "found_component fs create pinned c = CompDir"
      "fs_opened fs pinned c = OpenedSame" "pin_from fs ctx create (pinned @ [c]) cs = Inr out"
    by (auto split: if_splits component.splits opened.splits)
  with Cons.IH [OF _ h(3)] Cons.prems(1) have
    r: "out = (pinned @ [c]) @ cs" "\<forall>i < length cs.
      found_component fs create ((pinned @ [c]) @ take i cs) (cs ! i) = CompDir \<and>
      fs_opened fs ((pinned @ [c]) @ take i cs) (cs ! i) = OpenedSame" by simp_all
  show ?case
  proof (intro conjI allI impI)
    show "out = pinned @ c # cs" using r(1) by simp
    fix i assume i: "i < length (c # cs)"
    show "found_component fs create (pinned @ take i (c # cs)) ((c # cs) ! i) = CompDir"
      using h r(2) i by (cases i) auto
    show "fs_opened fs (pinned @ take i (c # cs)) ((c # cs) ! i) = OpenedSame"
      using h r(2) i by (cases i) auto
  qed
qed

lemma open_parent_rel:
  assumes "ws_wf w" "open_parent fs ctx w p create = Inr (dirs, base)"
  obtains t where "is_abs p" "clean_comps p = clean_comps (ws_root w) @ t" "t \<noteq> []"
    "check_inside fs w (clean_path p) = None" "pin_from fs ctx create [] (butlast t) = Inr dirs"
    "base = last t"
proof -
  from assms(2) have p: "is_abs p" "check_absolute fs ctx w (clean_path p) = None"
    by (auto simp: open_parent_def split: if_splits option.splits)
  have root: "is_abs (ws_root w)" using assms(1) by (simp add: ws_wf_def)
  from assms(2) p obtain rel where r: "rel_path (ws_root w) (clean_path p) = Some rel"
      "rel \<noteq> ''.''" "rel \<noteq> ''..''" "\<not> has_prefix rel ''../''"
      "pin_from fs ctx create [] (butlast (clean_comps rel)) = Inr dirs" "base = last (clean_comps rel)"
    by (auto simp: open_parent_def split: if_splits option.splits sum.splits)
  then have "is_within (ws_root w) (clean_path p)" by (simp add: is_within_def)
  then obtain t where t: "clean_comps p = clean_comps (ws_root w) @ t"
    using root p(1) by (auto simp: is_within_below below_def)
  have pl: "list_all plain_comp t" using abs_plain [OF p(1)] t by simp
  have "rel = path_string False t" using r(1) root p(1) t by (simp add: rel_path_def)
  then have "clean_comps rel = t" "t \<noteq> []" using clean_comps_relative [OF pl] r(2) by (auto simp: path_string_def)
  then show ?thesis
    using that [OF p(1) t] r(5,6) p by (simp add: check_absolute_def split: if_splits)
qed

text \<open>
  C21: The directory that is opened for a change is the one that was checked. When
  \<open>OpenParentNoSymlinks\<close> returns, the path passed the checks of the workspace, it is the primary
  root followed by the directories that were pinned and the name returned, and each of these
  directories was found below the one pinned before as a directory, not a link, and was the same
  after it was opened.
\<close>

theorem open_parent_confined:
  assumes "fs_ok fs" "ws_wf w" "open_parent fs ctx w p create = Inr (dirs, base)"
  shows "confined fs w (primary_roots w) (clean_path p) \<and>
    clean_comps p = clean_comps (ws_root w) @ dirs @ [base] \<and>
    (\<forall>i < length dirs. found_component fs create (take i dirs) (dirs ! i) = CompDir \<and>
       fs_opened fs (take i dirs) (dirs ! i) = OpenedSame)"
proof -
  obtain t where t: "is_abs p" "clean_comps p = clean_comps (ws_root w) @ t" "t \<noteq> []"
      "check_inside fs w (clean_path p) = None" "pin_from fs ctx create [] (butlast t) = Inr dirs"
      "base = last t"
    by (rule open_parent_rel [OF assms(2,3)])
  have "list_all plain_comp t" using abs_plain [OF t(1)] t(2) by simp
  then have pl: "list_all plain_comp (butlast t)" by (auto simp: list_all_iff dest: in_set_butlastD)
  from pin_from_plain [OF pl t(5)] have d: "dirs = butlast t"
    "\<forall>i < length dirs. found_component fs create (take i dirs) (dirs ! i) = CompDir \<and>
       fs_opened fs (take i dirs) (dirs ! i) = OpenedSame" by auto
  have "confined fs w (primary_roots w) (clean_path p)"
    using check_inside_None(1) [OF assms(1,2) _ _ t(4)] t(1) by simp
  with t(2,3,6) d show ?thesis by simp
qed

text \<open>
  A further root is checked but cannot be used. Below a root registered with \<open>AddRoot\<close>, and
  not below the primary one, no file can be opened for a change; and unless the path is also
  below the unresolved spelling of the primary root or below a read root, none can be opened for
  reading: both functions look for the root to pin without the list the checks look in.
\<close>

theorem additional_root_unusable:
  assumes "ws_wf w" "is_abs p" "\<not> below (ws_root w) p"
  shows "\<not> is_ok (open_parent fs ctx w p create) \<and>
    ((ws_raw_root w = [] \<or> \<not> below (ws_raw_root w) p) \<and> (\<forall>r \<in> set (ws_read_roots w). \<not> below r p) \<longrightarrow>
      \<not> is_ok (open_read_file fs ctx w p))"
proof (intro conjI impI notI)
  assume "is_ok (open_parent fs ctx w p create)"
  then obtain dirs base where "open_parent fs ctx w p create = Inr (dirs, base)" by (auto elim: is_okE)
  from open_parent_rel [OF assms(1) this] assms(2,3) show False by (auto simp: below_def)
next
  assume h: "(ws_raw_root w = [] \<or> \<not> below (ws_raw_root w) p) \<and> (\<forall>r \<in> set (ws_read_roots w). \<not> below r p)"
    and ok: "is_ok (open_read_file fs ctx w p)"
  have a: "is_abs (ws_root w)" "ws_raw_root w \<noteq> [] \<Longrightarrow> is_abs (ws_raw_root w)"
      "\<And>r. r \<in> set (ws_read_roots w) \<Longrightarrow> is_abs r"
    using assms(1) by (auto simp: ws_wf_def list_all_iff)
  have b: "below r (clean_path p) = below r p" for r using assms(2) by (simp add: below_def)
  have n: "\<not> is_within (ws_root w) (clean_path p)"
      "ws_raw_root w = [] \<or> \<not> is_within (ws_raw_root w) (clean_path p)"
      "find (\<lambda>r. is_within r (clean_path p)) (ws_read_roots w) = None"
    using h a assms(2,3) b by (auto simp: is_within_below find_None_iff)
  with ok show False
    by (auto simp: open_read_file_def Let_def split: option.splits)
qed

subsection \<open>Witnesses\<close>

text \<open>
  A file system with the directories \<open>/w\<close>, \<open>/w/secret\<close>, \<open>/x\<close> and a link \<open>/w/link\<close> to
  \<open>/w/secret\<close>; everything that can be opened is.
\<close>

definition small_fs :: fs where
  "small_fs =
     \<lparr>fs_cwd = Some ''/w'',
      fs_lstat = (\<lambda>p. if p \<in> {''/'', ''/w'', ''/w/secret'', ''/w/link'', ''/x''} then LFound else LMissing),
      fs_stat = (\<lambda>p. if p \<in> {''/'', ''/w'', ''/w/secret'', ''/w/link'', ''/x''} then SDir else SMissing),
      fs_real = (\<lambda>p. if p = ''/w/link'' then Some ''/w/secret'' else Some p),
      fs_component = (\<lambda>ds c. if ds = [] \<and> c = ''secret'' then CompDir
        else if ds = [] \<and> c = ''link'' then CompSymlink else CompMissing),
      fs_created = (\<lambda>ds c. Some CompDir),
      fs_opened = (\<lambda>ds c. OpenedSame),
      fs_root_opens = True\<rparr>"

definition small_ws :: workspace where
  "small_ws =
     \<lparr>ws_root = ''/w'', ws_raw_root = ''/w'', ws_roots = [''/x''],
      ws_protected = [\<lparr>pr_absolute = ''/w/secret/key'', pr_pattern = [], pr_glob = False\<rparr>],
      ws_read_roots = [], ws_internal = [''/w/state'']\<rparr>"

lemma small_fs_ok: "fs_ok small_fs"
  by (auto simp: fs_ok_def small_fs_def is_abs_def has_prefix_def slash_def)

lemma small_ws_wf: "ws_wf small_ws"
  by code_simp

definition start_ws :: workspace where
  "start_ws = small_ws\<lparr>ws_roots := [], ws_internal := []\<rparr>"

theorem workspace_roots_absolute_witness:
  "new_workspace small_fs ''/w'' [''secret/key''] = Inr start_ws \<and> ws_wf start_ws \<and>
   add_root small_fs start_ws ''/x'' = Inr (start_ws\<lparr>ws_roots := [''/x'']\<rparr>) \<and>
   ws_wf (start_ws\<lparr>ws_roots := [''/x'']\<rparr>)"
proof -
  have a: "new_workspace small_fs ''/w'' [''secret/key''] = Inr start_ws" by code_simp
  have b: "add_root small_fs start_ws ''/x'' = Inr (start_ws\<lparr>ws_roots := [''/x'']\<rparr>)" by code_simp
  have c: "ws_wf start_ws" using workspace_roots_absolute [OF small_fs_ok] a by blast
  moreover have "ws_wf (start_ws\<lparr>ws_roots := [''/x'']\<rparr>)"
    using workspace_roots_absolute [OF small_fs_ok] b c by blast
  ultimately show ?thesis using a b by blast
qed

theorem resolve_confined_witness:
  "resolve_path small_fs False small_ws ''secret/../a/./b'' = Inr ''/w/a/b'' \<and>
   confined small_fs small_ws (primary_roots small_ws) ''/w/a/b''"
proof -
  have r: "resolve_path small_fs False small_ws ''secret/../a/./b'' = Inr ''/w/a/b''" by code_simp
  with resolve_confined [OF small_fs_ok small_ws_wf r] show ?thesis by blast
qed

theorem resolve_read_confined_witness:
  "resolve_read small_fs False small_ws ''/x/f'' = Inr ''/x/f'' \<and>
   confined small_fs small_ws (primary_roots small_ws @ ws_read_roots small_ws) ''/x/f''"
proof -
  have r: "resolve_read small_fs False small_ws ''/x/f'' = Inr ''/x/f''" by code_simp
  with resolve_read_confined [OF small_fs_ok small_ws_wf r] show ?thesis by blast
qed

theorem open_parent_confined_witness:
  "open_parent small_fs False small_ws ''/w/secret/new/f'' True = Inr ([''secret'', ''new''], ''f'') \<and>
   clean_comps ''/w/secret/new/f'' = clean_comps (ws_root small_ws) @ [''secret'', ''new''] @ [''f'']"
proof -
  have r: "open_parent small_fs False small_ws ''/w/secret/new/f'' True = Inr ([''secret'', ''new''], ''f'')"
    by code_simp
  with open_parent_confined [OF small_fs_ok small_ws_wf r] show ?thesis by blast
qed

theorem additional_root_unusable_witness:
  "resolve_path small_fs False small_ws ''/x/f'' = Inr ''/x/f'' \<and>
   \<not> is_ok (open_parent small_fs False small_ws ''/x/f'' True) \<and>
   \<not> is_ok (open_read_file small_fs False small_ws ''/x/f'')"
proof -
  have c: "clean_comps ''/w'' = [''w'']" "clean_comps ''/x/f'' = [''x'', ''f'']" by code_simp+
  have b: "\<not> below (ws_root small_ws) ''/x/f''" "\<not> below (ws_raw_root small_ws) ''/x/f''"
    by (simp_all add: below_def small_ws_def c)
  have a: "is_abs ''/x/f''" by code_simp
  have "resolve_path small_fs False small_ws ''/x/f'' = Inr ''/x/f''" by code_simp
  moreover have "ws_read_roots small_ws = []" by (simp add: small_ws_def)
  ultimately show ?thesis
    using additional_root_unusable [OF small_ws_wf a b(1), of small_fs False True] b(2) by simp
qed

text \<open>
  Only the existing part of a path is compared with what is protected once links are
  followed. A protected file that does not exist yet can be named through a link to its
  directory: the path resolves, although the place it leads to is the protected one.
\<close>

theorem protected_through_link:
  "resolve_path small_fs False small_ws ''link/key'' = Inr ''/w/link/key'' \<and>
   canonical small_fs ''/w/link/key'' = Some ''/w/secret/key'' \<and>
   is_protected small_ws ''/w/secret/key'' \<and>
   resolve_path small_fs False small_ws ''secret/key'' = Inl WsProtected"
  by code_simp

end
