(* ===== verification/Workspace_Guard.thy ===== *)
theory Workspace_Guard
  imports Workspace_Paths "HOL-Library.AList"
begin

text \<open>
  What keeps a tool from overwriting work it does not own: \<open>internal/core/workspace\<close>,
  \<open>mutation_guard.go\<close> (the guard over \<open>git status\<close> and the files the session has written),
  \<open>managed_file.go\<close> (generated and vendored files), and the gate of \<open>AcquireMutation\<close>. The
  output of \<open>git\<close> is an argument; the session is the map from a root to the paths it owns.
\<close>

subsection \<open>The working tree\<close>

definition nul :: char where
  "nul = CHR 0x00"

definition add_dirty :: "string \<Rightarrow> string list \<Rightarrow> string list" where
  "add_dirty p dirty = (if p \<noteq> ''.'' \<and> p \<noteq> [] then append_new dirty p else dirty)"

text \<open>
  The records of \<open>git status --porcelain=v1 -z\<close>: two letters of status, a space and a path; after
  a rename or a copy the next field is the path before.
\<close>

fun parse_records :: "string list \<Rightarrow> string list \<Rightarrow> string list" where
  "parse_records dirty [] = dirty"
| "parse_records dirty (r # rs) =
     (if length r < 4 then parse_records dirty rs
      else let d = add_dirty (clean_path (drop 3 r)) dirty in
        case rs of
          [] \<Rightarrow> parse_records d rs
        | orig # rs' \<Rightarrow>
            if contains_any (take 2 r) ''RC'' \<and> orig \<noteq> []
            then parse_records (add_dirty (clean_path orig) d) rs' else parse_records d rs)"

definition parse_git_porcelain :: "string \<Rightarrow> string list" where
  "parse_git_porcelain out = parse_records [] (split_char nul out)"

text \<open>What \<open>git\<close> did: the output, or the standard error of a run that failed.\<close>

datatype git_run = GitOutput string | GitFailed string

definition git_dirty_paths :: "git_run \<Rightarrow> string list option" where
  "git_dirty_paths g =
     (case g of
        GitOutput out \<Rightarrow> Some (parse_git_porcelain out)
      | GitFailed err \<Rightarrow> if contains (to_lower err) ''not a git repository'' then Some [] else None)"

subsection \<open>The guard\<close>

datatype guard_result = GuardPasses | GuardUnavailable | GuardRefuses string

type_synonym mutation_session = "(string \<times> string list) list"

definition owned_paths :: "mutation_session \<Rightarrow> string \<Rightarrow> string list" where
  "owned_paths s root = (case map_of s root of None \<Rightarrow> [] | Some ps \<Rightarrow> ps)"

text \<open>The path below the root, unless it is the root or leads out of it.\<close>

definition inner_path :: "string \<Rightarrow> string \<Rightarrow> string option" where
  "inner_path root p =
     (case rel_path root (clean_path p) of
        None \<Rightarrow> None
      | Some r \<Rightarrow>
          if r = ''.'' \<or> has_prefix r ''../'' \<or> r = ''..'' then None else Some (clean_path r))"

fun guard_paths :: "string \<Rightarrow> string list \<Rightarrow> string list \<Rightarrow> string list \<Rightarrow> guard_result" where
  "guard_paths root dirty owned [] = GuardPasses"
| "guard_paths root dirty owned (p # ps) =
     (case inner_path root p of
        None \<Rightarrow> guard_paths root dirty owned ps
      | Some r \<Rightarrow>
          if r \<notin> set dirty \<or> r \<in> set owned then guard_paths root dirty owned ps else GuardRefuses r)"

definition guard_whole_file_mutation :: "git_run \<Rightarrow> mutation_session option \<Rightarrow> workspace \<Rightarrow> string list \<Rightarrow> guard_result" where
  "guard_whole_file_mutation g session w ps =
     (case session of
        None \<Rightarrow> GuardPasses
      | Some s \<Rightarrow>
          if ps = [] then GuardPasses
          else case git_dirty_paths g of
              None \<Rightarrow> GuardUnavailable
            | Some dirty \<Rightarrow>
                if dirty = [] then GuardPasses
                else let root = clean_path (ws_root w) in
                  guard_paths root dirty (owned_paths s root) ps)"

fun add_owned :: "string \<Rightarrow> string list \<Rightarrow> string list \<Rightarrow> string list" where
  "add_owned root owned [] = owned"
| "add_owned root owned (p # ps) =
     (case inner_path root p of
        None \<Rightarrow> add_owned root owned ps
      | Some r \<Rightarrow> add_owned root (append_new owned r) ps)"

definition mark_mutation_owned :: "mutation_session option \<Rightarrow> workspace \<Rightarrow> string list \<Rightarrow> mutation_session option" where
  "mark_mutation_owned session w ps =
     (case session of
        None \<Rightarrow> None
      | Some s \<Rightarrow>
          if ps = [] then Some s
          else let root = clean_path (ws_root w) in
            Some (AList.update root (add_owned root (owned_paths s root) ps) s))"

subsection \<open>The gate of mutations\<close>

text \<open>
  One mutation at a time: \<open>acquire_mutation\<close> waits (nothing) while the gate is held; the
  function it returns gives the gate back the first time it is called.
\<close>

record mutation_gate =
  mg_held :: bool

definition acquire_mutation :: "mutation_gate \<Rightarrow> mutation_gate option" where
  "acquire_mutation g = (if mg_held g then None else Some (g\<lparr>mg_held := True\<rparr>))"

definition release_mutation :: "bool \<Rightarrow> mutation_gate \<Rightarrow> bool \<times> mutation_gate" where
  "release_mutation released g = (True, if released then g else g\<lparr>mg_held := False\<rparr>)"

subsection \<open>Managed files\<close>

datatype managed_kind = ManagedRegular | ManagedGenerated | ManagedVendored | ManagedDependency
  | ManagedLockfile

definition base_path :: "string \<Rightarrow> string" where
  "base_path p =
     (let t = rev (dropWhile (\<lambda>c. c = slash) (rev p)) in
      if p = [] then ''.'' else if t = [] then [slash] else last (split_char slash t))"

fun managed_dir :: "string list \<Rightarrow> managed_kind option" where
  "managed_dir [] = None"
| "managed_dir (c # cs) =
     (if c = ''vendor'' then Some ManagedVendored
      else if c = ''node_modules'' then Some ManagedDependency else managed_dir cs)"

definition lockfiles :: "string list" where
  "lockfiles = [''package-lock.json'', ''npm-shrinkwrap.json'', ''pnpm-lock.yaml'', ''yarn.lock'',
     ''cargo.lock'', ''composer.lock'', ''poetry.lock'', ''uv.lock'', ''go.sum'']"

definition classify_managed_path :: "string \<Rightarrow> managed_kind" where
  "classify_managed_path p =
     (let lower = to_lower (clean_path (trim_space p)); base = base_path lower in
      case managed_dir (butlast (split_char slash lower)) of
        Some k \<Rightarrow> k
      | None \<Rightarrow>
          if base \<in> set lockfiles then ManagedLockfile
          else if has_suffix base ''.pb.go'' \<or> has_suffix base ''.gen.go'' \<or>
            has_suffix base ''_generated.go'' \<or> contains base ''.generated.''
          then ManagedGenerated else ManagedRegular)"

definition has_generated_header :: "string \<Rightarrow> bool" where
  "has_generated_header content =
     (let text = to_lower (take 4096 content) in
      contains text ''generated'' \<and> contains text ''do not edit'')"

subsection \<open>Lemmas\<close>

lemma inner_path_iff:
  assumes "is_abs root" "is_abs p"
  shows "inner_path root p = Some r \<longleftrightarrow>
    (\<exists>t. t \<noteq> [] \<and> clean_comps p = clean_comps root @ t \<and> r = join [slash] t)"
proof (cases "below root p")
  case True
  then obtain t where t: "clean_comps p = clean_comps root @ t" by (auto simp: below_def)
  have pl: "list_all plain_comp t" using abs_plain [OF assms(2)] t by simp
  have r: "rel_path root (clean_path p) = Some (path_string False t)"
    using assms t by (simp add: rel_path_def)
  show ?thesis
  proof (cases "t = []")
    case True
    with t r show ?thesis by (simp add: inner_path_def path_string_def)
  next
    case False
    then have ps: "path_string False t = join [slash] t" by (simp add: path_string_def)
    have na: "\<not> is_abs (join [slash] t)"
      using pl False plain_first by (cases t) (auto simp: is_abs_def)
    have c: "clean_comps (join [slash] t) = t" using clean_comps_relative [OF pl] ps by simp
    have "clean_path (join [slash] t) = join [slash] t"
      using clean_path_string [of "join [slash] t"] na c False by (simp add: path_string_def)
    moreover have "join [slash] t \<noteq> ''.''"
      using c False by (auto simp: clean_comps_def slash_def has_prefix_def)
    moreover note down_inside [OF pl] 
    ultimately have "inner_path root p = Some (join [slash] t)"
      using r ps by (simp add: inner_path_def)
    with t False show ?thesis by auto
  qed
next
  case False
  then have "\<not> is_within root (clean_path p)"
    using assms is_within_below [of root "clean_path p"] by (simp add: below_def)
  then have "inner_path root p = None"
    by (auto simp: inner_path_def is_within_def split: option.splits)
  moreover have "\<nexists>t. clean_comps p = clean_comps root @ t" using False assms(2) by (simp add: below_def)
  ultimately show ?thesis by simp
qed

lemma guard_paths_passes:
  "guard_paths root dirty owned ps = GuardPasses \<longleftrightarrow>
    (\<forall>p \<in> set ps. \<forall>r. inner_path root p = Some r \<longrightarrow> r \<notin> set dirty \<or> r \<in> set owned)"
  by (induction ps) (auto split: option.splits)

lemma guard_paths_refuses:
  "guard_paths root dirty owned ps = GuardRefuses r \<Longrightarrow>
    r \<in> set dirty \<and> r \<notin> set owned \<and> (\<exists>p \<in> set ps. inner_path root p = Some r)"
  by (induction ps) (auto split: option.splits if_splits)

lemma guard_paths_available: "guard_paths root dirty owned ps \<noteq> GuardUnavailable"
  by (induction ps) (auto split: option.splits)

lemma add_owned_set:
  "set (add_owned root owned ps) = set owned \<union> {r. \<exists>p \<in> set ps. inner_path root p = Some r}"
  by (induction ps arbitrary: owned) (auto split: option.splits)

lemma owned_after_mark:
  "owned_paths (AList.update root ps s) r = (if r = root then ps else owned_paths s r)"
  by (simp add: owned_paths_def update_conv')

subsection \<open>Properties\<close>


text \<open>
  A session may go on writing what it has written. After \<open>MarkMutationOwned\<close> the guard does
  not refuse the same paths, whatever the working tree looks like then; what was owned stays
  owned, and nothing changes under other roots.
\<close>

theorem owned_then_passes:
  assumes "mark_mutation_owned (Some s) w ps = Some s'"
  shows "guard_whole_file_mutation g (Some s') w ps \<in> {GuardPasses, GuardUnavailable} \<and>
    set (owned_paths s root) \<subseteq> set (owned_paths s' root) \<and>
    (root \<noteq> clean_path (ws_root w) \<longrightarrow> owned_paths s' root = owned_paths s root)"
proof (cases "ps = []")
  case True
  with assms show ?thesis by (simp add: mark_mutation_owned_def guard_whole_file_mutation_def)
next
  case False
  let ?r = "clean_path (ws_root w)"
  have s': "s' = AList.update ?r (add_owned ?r (owned_paths s ?r) ps) s"
    using assms False by (simp add: mark_mutation_owned_def Let_def)
  have own: "owned_paths s' ?r = add_owned ?r (owned_paths s ?r) ps"
    unfolding s' by (simp add: owned_after_mark)
  have "guard_paths ?r dirty (owned_paths s' ?r) ps = GuardPasses" for dirty
    unfolding guard_paths_passes own add_owned_set by auto
  then have "guard_whole_file_mutation g (Some s') w ps \<in> {GuardPasses, GuardUnavailable}"
    using False by (auto simp: guard_whole_file_mutation_def Let_def split: option.split)
  then show ?thesis unfolding s' by (auto simp: owned_after_mark add_owned_set)
qed

text \<open>What \<open>git\<close> prints: one entry per changed path, with the path before a rename or a copy.\<close>

record git_entry =
  ge_status :: string
  ge_path :: string
  ge_before :: "string option"

definition entry_ok :: "git_entry \<Rightarrow> bool" where
  "entry_ok e =
     (length (ge_status e) = 2 \<and> ge_path e \<noteq> [] \<and> nul \<notin> set (ge_status e) \<and> nul \<notin> set (ge_path e) \<and>
      (case ge_before e of
         None \<Rightarrow> \<not> contains_any (ge_status e) ''RC''
       | Some p \<Rightarrow> contains_any (ge_status e) ''RC'' \<and> p \<noteq> [] \<and> nul \<notin> set p))"

definition entry_fields :: "git_entry \<Rightarrow> string list" where
  "entry_fields e =
     (ge_status e @ '' '' @ ge_path e) # (case ge_before e of None \<Rightarrow> [] | Some p \<Rightarrow> [p])"

definition git_output :: "git_entry list \<Rightarrow> string" where
  "git_output es = concat (map (\<lambda>f. f @ [nul]) (concat (map entry_fields es)))"

definition entry_paths :: "git_entry \<Rightarrow> string set" where
  "entry_paths e = {ge_path e} \<union> (case ge_before e of None \<Rightarrow> {} | Some p \<Rightarrow> {p})"

lemma clean_path_not_Nil: "clean_path p \<noteq> []"
  by (auto simp: clean_path_def Let_def)

lemma set_add_dirty: "set (add_dirty (clean_path p) d) = set d \<union> ({clean_path p} - {''.''})"
  using clean_path_not_Nil [of p] by (auto simp: add_dirty_def)

lemma parse_entry:
  assumes "entry_ok e" "rest \<noteq> []"
  shows "parse_records d (entry_fields e @ rest) =
    parse_records (foldl (\<lambda>d p. add_dirty (clean_path p) d) d
      (ge_path e # (case ge_before e of None \<Rightarrow> [] | Some p \<Rightarrow> [p]))) rest"
proof -
  have f: "\<not> length (ge_status e @ '' '' @ ge_path e) < 4"
      "drop 3 (ge_status e @ '' '' @ ge_path e) = ge_path e"
      "take 2 (ge_status e @ '' '' @ ge_path e) = ge_status e"
    using assms(1) by (auto simp: entry_ok_def)
  obtain r rs where r: "rest = r # rs" using assms(2) by (cases rest) auto
  show ?thesis
  proof (cases "ge_before e")
    case None
    with assms(1) have "\<not> contains_any (ge_status e) ''RC''" by (simp add: entry_ok_def)
    with None f show ?thesis by (simp add: entry_fields_def r)
  next
    case (Some p)
    with assms(1) have "contains_any (ge_status e) ''RC''" "p \<noteq> []" by (simp_all add: entry_ok_def)
    with Some f show ?thesis by (simp add: entry_fields_def)
  qed
qed

lemma parse_entries:
  "list_all entry_ok es \<Longrightarrow>
    set (parse_records d (concat (map entry_fields es) @ [[]])) =
      set d \<union> (clean_path ` (\<Union>e \<in> set es. entry_paths e) - {''.''})"
proof (induction es arbitrary: d)
  case Nil
  then show ?case by simp
next
  case (Cons e es)
  have "parse_records d (concat (map entry_fields (e # es)) @ [[]]) =
    parse_records (foldl (\<lambda>d p. add_dirty (clean_path p) d) d
      (ge_path e # (case ge_before e of None \<Rightarrow> [] | Some p \<Rightarrow> [p])))
      (concat (map entry_fields es) @ [[]])"
    using parse_entry [of e "concat (map entry_fields es) @ [[]]" d] Cons.prems by simp
  with Cons show ?case
    by (cases "ge_before e") (auto simp: set_add_dirty entry_paths_def)
qed

text \<open>
  The state of the working tree is read completely. For any list of changes \<open>git\<close> reports,
  with paths of any characters but the zero byte and with renames and copies anywhere among
  them, the paths taken as dirty are exactly the paths of the entries and the paths before a
  rename or copy, cleaned.
\<close>

theorem porcelain_parsed:
  assumes "list_all entry_ok es"
  shows "set (parse_git_porcelain (git_output es)) =
    clean_path ` (\<Union>e \<in> set es. entry_paths e) - {''.''}"
proof -
  let ?fs = "concat (map entry_fields es)"
  have n: "\<forall>f \<in> set ?fs. nul \<notin> set f"
    using assms by (auto simp: list_all_iff entry_fields_def entry_ok_def nul_def split: option.splits)
  have "split_char nul (concat (map (\<lambda>f. f @ [nul]) fs)) = fs @ [[]]" if "\<forall>f \<in> set fs. nul \<notin> set f" for fs
    using that by (induction fs) (simp_all add: split_char_append del: split_char.simps(2))
  with n parse_entries [OF assms, of "[]"] show ?thesis
    by (simp add: parse_git_porcelain_def git_output_def)
qed

text \<open>
  The paths of \<open>git status\<close> are relative to the top of the repository, also when \<open>git\<close> runs in a
  directory below it. In a workspace that is such a directory no path is ever found dirty: with
  \<open>sub/a.go\<close> changed in the repository \<open>/r\<close>, the workspace \<open>/r/sub\<close> lets \<open>/r/sub/a.go\<close> be
  overwritten, while the workspace \<open>/r\<close> refuses.
\<close>

theorem subdirectory_unguarded:
  "let out = GitOutput (git_output [\<lparr>ge_status = '' M'', ge_path = ''sub/a.go'', ge_before = None\<rparr>]) in
     guard_whole_file_mutation out (Some []) (small_ws\<lparr>ws_root := ''/r/sub''\<rparr>) [''/r/sub/a.go''] = GuardPasses \<and>
     guard_whole_file_mutation out (Some []) (small_ws\<lparr>ws_root := ''/r''\<rparr>) [''/r/sub/a.go''] =
       GuardRefuses ''sub/a.go''"
  by code_simp

subsection \<open>Witnesses\<close>

definition tree_changes :: "git_entry list" where
  "tree_changes = [\<lparr>ge_status = ''R '', ge_path = ''b.go'', ge_before = Some ''a.go''\<rparr>,
     \<lparr>ge_status = ''??'', ge_path = ''dir/./x'', ge_before = None\<rparr>]"

theorem porcelain_parsed_witness:
  "set (parse_git_porcelain (git_output tree_changes)) = {''a.go'', ''b.go'', ''dir/x''}"
proof -
  have ok: "list_all entry_ok tree_changes" by code_simp
  have c: "clean_path ''a.go'' = ''a.go''" "clean_path ''b.go'' = ''b.go''" "clean_path ''dir/./x'' = ''dir/x''"
    by code_simp+
  show ?thesis
    unfolding porcelain_parsed [OF ok]
    by (auto simp: tree_changes_def entry_paths_def c)
qed


theorem owned_then_passes_witness:
  "\<exists>s'. mark_mutation_owned (Some []) small_ws [''/w/b.go''] = Some s' \<and>
     guard_whole_file_mutation (GitOutput (git_output tree_changes)) (Some s') small_ws [''/w/b.go''] = GuardPasses"
proof -
  let ?g = "GitOutput (git_output tree_changes)"
  have m: "mark_mutation_owned (Some []) small_ws [''/w/b.go''] = Some [(''/w'', [''b.go''])]" by code_simp
  obtain dirty where "git_dirty_paths ?g = Some dirty" by (simp add: git_dirty_paths_def)
  then have "guard_whole_file_mutation ?g (Some [(''/w'', [''b.go''])]) small_ws [''/w/b.go''] \<noteq> GuardUnavailable"
    by (simp add: guard_whole_file_mutation_def guard_paths_available Let_def split: option.split)
  with owned_then_passes [OF m, of ?g] m show ?thesis by blast
qed

end
