(* ===== verification/Line_Text.thy ===== *)
theory Line_Text
  imports Str_Search Str_Util
begin

text \<open>
  Lines and line endings, as the edit tools use them: \<open>strings.ReplaceAll\<close> between CRLF and LF,
  \<open>strings.Trim\<close> with a set of characters, and the search for the first index of a range.
\<close>

definition carriage :: char where
  "carriage = CHR 0x0D"

lemma newline_carriage [simp]: "newline \<noteq> carriage" "carriage \<noteq> newline"
  by (simp_all add: newline_def carriage_def)

text \<open>\<open>strings.ReplaceAll(s, CRLF, LF)\<close> and \<open>strings.ReplaceAll(s, LF, CRLF)\<close>.\<close>

function replace_crlf :: "string \<Rightarrow> string" where
  "replace_crlf [] = []"
| "replace_crlf (c # s) =
     (if c = carriage \<and> s \<noteq> [] \<and> hd s = newline then newline # replace_crlf (tl s)
      else c # replace_crlf s)"
  by pat_completeness auto
termination
  by (relation "measure length") auto

definition to_crlf :: "string \<Rightarrow> string" where
  "to_crlf s = concat (map (\<lambda>c. if c = newline then [carriage, newline] else [c]) s)"

text \<open>\<open>strings.Trim(s, cutset)\<close>, \<open>strings.TrimRight\<close>.\<close>

definition trim_right_set :: "char list \<Rightarrow> string \<Rightarrow> string" where
  "trim_right_set cs s = rev (dropWhile (\<lambda>c. c \<in> set cs) (rev s))"

definition trim_set :: "char list \<Rightarrow> string \<Rightarrow> string" where
  "trim_set cs s = trim_right_set cs (dropWhile (\<lambda>c. c \<in> set cs) s)"

subsection \<open>Line endings\<close>

definition crlf :: string where
  "crlf = [carriage, newline]"

lemma crlf_Cons: "has_prefix (c # s) crlf \<longleftrightarrow> c = carriage \<and> s \<noteq> [] \<and> hd s = newline"
  by (cases s) (auto simp: crlf_def)

lemma no_carriage_no_crlf: "carriage \<notin> set s \<Longrightarrow> replace_crlf s = s"
  by (induction s rule: replace_crlf.induct) auto

lemma replace_crlf_id: "\<not> contains s crlf \<Longrightarrow> replace_crlf s = s"
  by (induction s rule: replace_crlf.induct) (auto simp: crlf_Cons)

lemma replace_crlf_Nil_iff [simp]: "replace_crlf s = [] \<longleftrightarrow> s = []"
  by (cases s) simp_all

lemma length_replace_crlf: "length (replace_crlf s) \<le> length s"
  by (induction s rule: replace_crlf.induct) (auto simp: le_SucI order.trans)

lemma replace_crlf_append:
  "\<not> (x \<noteq> [] \<and> last x = carriage \<and> y \<noteq> [] \<and> hd y = newline) \<Longrightarrow>
   replace_crlf (x @ y) = replace_crlf x @ replace_crlf y"
proof (induction x rule: replace_crlf.induct)
  case 1
  then show ?case by simp
next
  case (2 c s)
  show ?case
  proof (cases "c = carriage \<and> s \<noteq> [] \<and> hd s = newline")
    case True
    then obtain t where s: "s = newline # t" by (cases s) auto
    from 2(3) have "\<not> (t \<noteq> [] \<and> last t = carriage \<and> y \<noteq> [] \<and> hd y = newline)"
      by (auto simp: s)
    with 2(1) [OF True] s True show ?thesis by simp
  next
    case False
    have "\<not> (s \<noteq> [] \<and> last s = carriage \<and> y \<noteq> [] \<and> hd y = newline)" using 2(3) by auto
    from 2(2) [OF False this] False 2(3) show ?thesis by (cases s) auto
  qed
qed

lemma replace_to_crlf: "carriage \<notin> set s \<Longrightarrow> replace_crlf (to_crlf s) = s"
  by (induction s) (auto simp: to_crlf_def)

text \<open>A line: no line feed, and no carriage return that would pair with one after the line.\<close>

definition plain_line :: "string \<Rightarrow> bool" where
  "plain_line l \<longleftrightarrow> newline \<notin> set l \<and> (l \<noteq> [] \<longrightarrow> last l \<noteq> carriage)"

lemma plain_line_Nil [simp]: "plain_line []"
  by (simp add: plain_line_def)

lemma replace_crlf_line: "newline \<notin> set l \<Longrightarrow> replace_crlf l = l"
  by (rule replace_crlf_id) (auto simp: contains_iff crlf_def)

lemma replace_crlf_lines: "list_all plain_line ls \<Longrightarrow> replace_crlf (join [newline] ls) = join [newline] ls"
proof (induction ls rule: induct_list012)
  case (3 l m ls)
  have "replace_crlf (l @ newline # join [newline] (m # ls)) =
      replace_crlf l @ replace_crlf (newline # join [newline] (m # ls))"
    by (rule replace_crlf_append) (use 3(3) in \<open>auto simp: plain_line_def\<close>)
  with 3 show ?case by (simp add: replace_crlf_line plain_line_def)
qed (auto simp: replace_crlf_line plain_line_def)

lemma split_lines: "ls \<noteq> [] \<Longrightarrow> list_all plain_line ls \<Longrightarrow> split_char newline (join [newline] ls) = ls"
  by (rule split_char_join) (auto simp: list_all_iff plain_line_def)

lemma join_snoc: "ls \<noteq> [] \<Longrightarrow> join sep (ls @ [l]) = join sep ls @ sep @ l"
  by (induction ls rule: induct_list012) auto

lemma join_append: "xs \<noteq> [] \<Longrightarrow> ys \<noteq> [] \<Longrightarrow> join sep (xs @ ys) = join sep xs @ sep @ join sep ys"
proof (induction xs rule: induct_list012)
  case (2 x)
  then show ?case by (cases ys) auto
qed auto

lemma trim_set_id:
  "s \<noteq> [] \<Longrightarrow> hd s \<notin> set cs \<Longrightarrow> last s \<notin> set cs \<Longrightarrow> trim_set cs s = s"
proof -
  assume a: "s \<noteq> []" "hd s \<notin> set cs" "last s \<notin> set cs"
  have d: "dropWhile (\<lambda>c. c \<in> set cs) t = t" if "t \<noteq> []" "hd t \<notin> set cs" for t
    using that by (cases t) auto
  from a have "dropWhile (\<lambda>c. c \<in> set cs) s = s" "dropWhile (\<lambda>c. c \<in> set cs) (rev s) = rev s"
    by (simp_all add: d hd_rev)
  then show ?thesis by (simp add: trim_set_def trim_right_set_def)
qed

subsection \<open>The first index of a range\<close>

lemma find_upt_Some:
  "find P [a..<b] = Some i \<longleftrightarrow> a \<le> i \<and> i < b \<and> P i \<and> (\<forall>j. a \<le> j \<and> j < i \<longrightarrow> \<not> P j)"
proof
  assume "find P [a..<b] = Some i"
  then obtain k where k: "k < b - a" "P (a + k)" "i = a + k" "\<forall>j < k. \<not> P (a + j)"
    by (auto simp: find_Some_iff)
  have "\<not> P j" if "a \<le> j" "j < i" for j
    using k(4) [rule_format, of "j - a"] that k(3) by simp
  with k show "a \<le> i \<and> i < b \<and> P i \<and> (\<forall>j. a \<le> j \<and> j < i \<longrightarrow> \<not> P j)" by auto
next
  assume "a \<le> i \<and> i < b \<and> P i \<and> (\<forall>j. a \<le> j \<and> j < i \<longrightarrow> \<not> P j)"
  then show "find P [a..<b] = Some i"
    by (auto simp: find_Some_iff intro!: exI [of _ "i - a"])
qed

lemma find_upt_None: "find P [a..<b] = None \<longleftrightarrow> (\<forall>i. a \<le> i \<and> i < b \<longrightarrow> \<not> P i)"
  by (auto simp: find_None_iff)

end
