(* ===== verification/Patch_Text.thy ===== *)
theory Patch_Text
  imports Line_Text
begin

text \<open>
  Patches in text form: \<open>parsePatch\<close>, \<open>parseUpdateOperation\<close> and \<open>derivePatchedContent\<close> of
  \<open>internal/adapter/out/tool/builtin/apply_patch.go\<close>. The loops over line indices are
  recursions over the lines that are left; the number of the line comes along, since the errors
  name it. The file an update is applied to is a list of lines.
\<close>

datatype patch_operation_kind = PkUnknown | PkAdd | PkDelete | PkUpdate

fun patch_kind_string :: "patch_operation_kind \<Rightarrow> string" where
  "patch_kind_string PkAdd = ''add''"
| "patch_kind_string PkDelete = ''delete''"
| "patch_kind_string PkUpdate = ''update''"
| "patch_kind_string PkUnknown = ''unknown''"

record patch_chunk =
  ck_context :: string
  ck_has_context :: bool
  ck_old :: "string list"
  ck_new :: "string list"
  ck_eof :: bool

record patch_operation =
  po_kind :: patch_operation_kind
  po_path :: string
  po_move :: string
  po_content :: string
  po_chunks :: "patch_chunk list"

datatype patch_error = NoBeginPatch | NoEndPatch | NoOperation
  | AddPathMissing nat | AddEmpty nat | DeletePathMissing nat | UpdatePathMissing nat
  | MovePathMissing nat | HunkStart nat | LinePrefix nat | HunkEmpty nat | NoHunk nat
  | InvalidOperation nat

definition add_header :: string where "add_header = ''*** Add File: ''"
definition delete_header :: string where "delete_header = ''*** Delete File: ''"
definition update_header :: string where "update_header = ''*** Update File: ''"
definition move_header :: string where "move_header = ''*** Move to: ''"

definition is_patch_header :: "string \<Rightarrow> bool" where
  "is_patch_header l =
     (has_prefix l add_header \<or> has_prefix l delete_header \<or> has_prefix l update_header)"

text \<open>The lines of a hunk: the chunk, how many lines it has, the next line and its number.\<close>

fun chunk_lines :: "patch_chunk \<Rightarrow> nat \<Rightarrow> nat \<Rightarrow> string list \<Rightarrow>
    (patch_error, patch_chunk \<times> nat \<times> nat \<times> string list) result" where
  "chunk_lines ck count n [] = Inr (ck, count, n, [])"
| "chunk_lines ck count n (l # ls) =
     (if has_prefix l ''@@'' \<or> is_patch_header l then Inr (ck, count, n, l # ls)
      else if l = ''*** End of File'' then Inr (ck\<lparr>ck_eof := True\<rparr>, count, Suc n, ls)
      else if l = [] then
        chunk_lines (ck\<lparr>ck_old := ck_old ck @ [[]], ck_new := ck_new ck @ [[]]\<rparr>) (Suc count) (Suc n) ls
      else if hd l = CHR '' '' then
        chunk_lines (ck\<lparr>ck_old := ck_old ck @ [tl l], ck_new := ck_new ck @ [tl l]\<rparr>) (Suc count) (Suc n) ls
      else if hd l = CHR ''-'' then chunk_lines (ck\<lparr>ck_old := ck_old ck @ [tl l]\<rparr>) (Suc count) (Suc n) ls
      else if hd l = CHR ''+'' then chunk_lines (ck\<lparr>ck_new := ck_new ck @ [tl l]\<rparr>) (Suc count) (Suc n) ls
      else Inl (LinePrefix n))"

definition new_chunk :: "string \<Rightarrow> patch_chunk" where
  "new_chunk l =
     (let c = trim_prefix (trim_prefix l ''@@'') '' '' in
      \<lparr>ck_context = c, ck_has_context = (c \<noteq> []), ck_old = [], ck_new = [], ck_eof = False\<rparr>)"

lemma chunk_lines_length:
  "chunk_lines ck k n ls = Inr (ck', k', n', rest) \<Longrightarrow> length rest \<le> length ls"
  by (induction ck k n ls rule: chunk_lines.induct) (auto split: if_splits)

function parse_chunks :: "patch_chunk list \<Rightarrow> nat \<Rightarrow> string list \<Rightarrow>
    (patch_error, patch_chunk list \<times> nat \<times> string list) result" where
  "parse_chunks cks n [] = Inr (cks, n, [])"
| "parse_chunks cks n (l # ls) =
     (if is_patch_header l then Inr (cks, n, l # ls)
      else if trim_space l = [] then parse_chunks cks (Suc n) ls
      else if \<not> has_prefix l ''@@'' then Inl (HunkStart n)
      else case chunk_lines (new_chunk l) 0 (Suc n) ls of
          Inl e \<Rightarrow> Inl e
        | Inr (ck, count, m, rest) \<Rightarrow>
            if count = 0 then Inl (HunkEmpty m) else parse_chunks (cks @ [ck]) m rest)"
  by pat_completeness auto
termination
  by (relation "measure (\<lambda>(cks, n, ls). length ls)") (auto dest!: chunk_lines_length simp: less_Suc_eq_le)

lemma parse_chunks_length:
  "parse_chunks cks n ls = Inr (cks', n', rest) \<Longrightarrow> length rest \<le> length ls"
proof (induction cks n ls rule: parse_chunks.induct)
  case (2 cks n l ls)
  show ?case
  proof (cases "is_patch_header l \<or> trim_space l = [] \<or> \<not> has_prefix l ''@@''")
    case True
    with 2 show ?thesis by (auto split: if_splits)
  next
    case False
    with "2.prems" obtain ck count m r where
      r: "chunk_lines (new_chunk l) 0 (Suc n) ls = Inr (ck, count, m, r)" "count \<noteq> 0"
        "parse_chunks (cks @ [ck]) m r = Inr (cks', n', rest)"
      by (auto split: if_splits sum.splits)
    from False r have "length rest \<le> length r" by (intro "2.IH"(2)) auto
    with chunk_lines_length [OF r(1)] show ?thesis by simp
  qed
qed auto

definition parse_update :: "nat \<Rightarrow> string \<Rightarrow> string list \<Rightarrow>
    (patch_error, patch_operation \<times> nat \<times> string list) result" where
  "parse_update n l ls =
     (let path = trim_space (trim_prefix l update_header);
          moved = (ls \<noteq> [] \<and> has_prefix (hd ls) move_header);
          dest = (if moved then trim_space (trim_prefix (hd ls) move_header) else []);
          body = (if moved then tl ls else ls);
          m = (if moved then Suc (Suc n) else Suc n) in
      if path = [] then Inl (UpdatePathMissing n)
      else if moved \<and> dest = [] then Inl (MovePathMissing (Suc n))
      else case parse_chunks [] m body of
          Inl e \<Rightarrow> Inl e
        | Inr (cks, k, rest) \<Rightarrow>
            if cks = [] then Inl (NoHunk n)
            else Inr (\<lparr>po_kind = PkUpdate, po_path = path, po_move = dest, po_content = [],
                po_chunks = cks\<rparr>, k, rest))"

lemma parse_update_length:
  "parse_update n l ls = Inr (po, k, rest) \<Longrightarrow> length rest \<le> length ls"
  by (auto simp: parse_update_def Let_def split: if_splits sum.splits dest!: parse_chunks_length)

function parse_operations :: "patch_operation list \<Rightarrow> nat \<Rightarrow> string list \<Rightarrow>
    (patch_error, patch_operation list) result" where
  "parse_operations acc n [] = Inr acc"
| "parse_operations acc n (l # ls) =
     (if has_prefix l add_header then
        (let path = trim_space (trim_prefix l add_header);
             content = takeWhile (\<lambda>x. has_prefix x ''+'') ls in
         if path = [] then Inl (AddPathMissing n)
         else if content = [] then Inl (AddEmpty (Suc n))
         else parse_operations
           (acc @ [\<lparr>po_kind = PkAdd, po_path = path, po_move = [],
              po_content = join [newline] (map tl content) @ [newline], po_chunks = []\<rparr>])
           (Suc n + length content) (dropWhile (\<lambda>x. has_prefix x ''+'') ls))
      else if has_prefix l delete_header then
        (let path = trim_space (trim_prefix l delete_header) in
         if path = [] then Inl (DeletePathMissing n)
         else parse_operations
           (acc @ [\<lparr>po_kind = PkDelete, po_path = path, po_move = [], po_content = [], po_chunks = []\<rparr>])
           (Suc n) ls)
      else if has_prefix l update_header then
        (case parse_update n l ls of
           Inl e \<Rightarrow> Inl e
         | Inr (po, k, rest) \<Rightarrow> parse_operations (acc @ [po]) k rest)
      else Inl (InvalidOperation n))"
  by pat_completeness auto
termination
  by (relation "measure (\<lambda>(acc, n, ls). length ls)")
    (auto dest!: parse_update_length simp: length_dropWhile_le less_Suc_eq_le)

definition parse_patch :: "string \<Rightarrow> (patch_error, patch_operation list) result" where
  "parse_patch input =
     (let lines = split_char newline (trim_set [newline] (replace_crlf input)) in
      if length lines < 2 \<or> trim_space (hd lines) \<noteq> ''*** Begin Patch'' then Inl NoBeginPatch
      else if trim_space (last lines) \<noteq> ''*** End Patch'' then Inl NoEndPatch
      else case parse_operations [] 2 (butlast (tl lines)) of
          Inl e \<Rightarrow> Inl e
        | Inr ops \<Rightarrow> if ops = [] then Inl NoOperation else Inr ops)"

subsection \<open>Applying the chunks of an update\<close>

datatype derive_error = ContextMissing string | LinesMissing "string list"

definition find_line :: "string list \<Rightarrow> string \<Rightarrow> nat \<Rightarrow> nat option" where
  "find_line lines target start = find (\<lambda>i. lines ! i = target) [start..<length lines]"

definition find_sequence :: "string list \<Rightarrow> string list \<Rightarrow> nat \<Rightarrow> bool \<Rightarrow> nat option" where
  "find_sequence lines pat start eof =
     (if pat = [] then Some (length lines)
      else find (\<lambda>i. (eof \<longrightarrow> i + length pat = length lines) \<and> take (length pat) (drop i lines) = pat)
        [start..<Suc (length lines) - length pat])"

definition replace_lines :: "'a list \<Rightarrow> nat \<Rightarrow> nat \<Rightarrow> 'a list \<Rightarrow> 'a list" where
  "replace_lines lines start count vs = take start lines @ vs @ drop (start + count) lines"

fun apply_chunks :: "nat \<Rightarrow> string list \<Rightarrow> patch_chunk list \<Rightarrow> (derive_error, string list) result" where
  "apply_chunks cursor lines [] = Inr lines"
| "apply_chunks cursor lines (ck # cks) =
     (case (if ck_has_context ck then map_option Suc (find_line lines (ck_context ck) cursor)
            else Some cursor) of
        None \<Rightarrow> Inl (ContextMissing (ck_context ck))
      | Some cur \<Rightarrow>
          if ck_old ck = [] then
            (let lines' = lines @ ck_new ck in apply_chunks (length lines') lines' cks)
          else case find_sequence lines (ck_old ck) cur (ck_eof ck) of
              None \<Rightarrow> Inl (LinesMissing (ck_old ck))
            | Some start \<Rightarrow>
                apply_chunks (start + length (ck_new ck))
                  (replace_lines lines start (length (ck_old ck)) (ck_new ck)) cks)"

definition file_lines :: "string \<Rightarrow> string list" where
  "file_lines original =
     (let lines = split_char newline (replace_crlf original) in
      if last lines = [] then butlast lines else lines)"

definition derive_patched :: "string \<Rightarrow> patch_chunk list \<Rightarrow> (derive_error, string) result" where
  "derive_patched original cks =
     map_sum id (\<lambda>ls. join [newline] ls @ [newline]) (apply_chunks 0 (file_lines original) cks)"

subsection \<open>What the chunks of an update mean\<close>

text \<open>
  A chunk stands at the first place its old lines are found at, from the line after its context
  on, or from where the chunk before ended; with the mark for the end of the file only the last
  lines count. \<open>edits cks ls out\<close> says that the lines \<open>ls\<close> with the chunks put in place are \<open>out\<close>.
\<close>

definition stands_at :: "patch_chunk \<Rightarrow> string list \<Rightarrow> nat \<Rightarrow> bool" where
  "stands_at ck ls i \<longleftrightarrow> take (length (ck_old ck)) (drop i ls) = ck_old ck \<and>
     (ck_eof ck \<longrightarrow> i + length (ck_old ck) = length ls)"

definition after_context :: "patch_chunk \<Rightarrow> string list \<Rightarrow> string list \<Rightarrow> bool" where
  "after_context ck pre rest \<longleftrightarrow>
     (if ck_has_context ck then \<exists>p. pre = p @ [ck_context ck] \<and> ck_context ck \<notin> set p else pre = [])"

inductive edits :: "patch_chunk list \<Rightarrow> string list \<Rightarrow> string list \<Rightarrow> bool" where
  edits_end: "edits [] ls ls"
| edits_append: "ck_old ck = [] \<Longrightarrow> after_context ck pre rest \<Longrightarrow> edits cks [] out \<Longrightarrow>
    edits (ck # cks) (pre @ rest) (pre @ rest @ ck_new ck @ out)"
| edits_replace: "ck_old ck \<noteq> [] \<Longrightarrow> after_context ck pre (mid @ ck_old ck @ post) \<Longrightarrow>
    (ck_eof ck \<Longrightarrow> post = []) \<Longrightarrow>
    \<forall>i < length mid. \<not> stands_at ck (mid @ ck_old ck @ post) i \<Longrightarrow>
    edits cks post out \<Longrightarrow>
    edits (ck # cks) (pre @ mid @ ck_old ck @ post) (pre @ mid @ ck_new ck @ out)"

inductive_cases edits_NilE: "edits [] ls out"
inductive_cases edits_ConsE: "edits (ck # cks) ls out"

lemma find_line_after:
  assumes "c \<le> length ls"
  shows "(case find_line ls t c of
      None \<Rightarrow> t \<notin> set (drop c ls)
    | Some i \<Rightarrow> \<exists>p r. drop c ls = p @ t # r \<and> t \<notin> set p \<and> i = c + length p)"
proof (cases "find_line ls t c")
  case None
  have "ls ! i \<noteq> t" if "c \<le> i" "i < length ls" for i
    using None that by (auto simp: find_line_def find_upt_None)
  then show ?thesis using None by (auto simp: in_set_conv_nth)
next
  case (Some i)
  then have i: "c \<le> i" "i < length ls" "ls ! i = t" "\<forall>j. c \<le> j \<and> j < i \<longrightarrow> ls ! j \<noteq> t"
    by (auto simp: find_line_def find_upt_Some)
  let ?p = "take (i - c) (drop c ls)"
  have "drop c ls = ?p @ t # drop (Suc i) ls"
    using i(1-3) by (metis Cons_nth_drop_Suc add_diff_inverse_nat append_take_drop_id drop_drop le_add_diff_inverse2 not_less)
  moreover have "t \<notin> set ?p"
    using i by (auto simp: in_set_conv_nth)
  moreover have "i = c + length ?p" using i assms by simp
  ultimately show ?thesis unfolding Some option.case by blast
qed

lemma find_sequence_stands:
  assumes "ck_old ck \<noteq> []" "c \<le> length ls"
  shows "(case find_sequence ls (ck_old ck) c (ck_eof ck) of
      None \<Rightarrow> \<forall>i. \<not> stands_at ck (drop c ls) i
    | Some k \<Rightarrow> \<exists>mid post. drop c ls = mid @ ck_old ck @ post \<and> (ck_eof ck \<longrightarrow> post = []) \<and>
        (\<forall>i < length mid. \<not> stands_at ck (drop c ls) i) \<and> k = c + length mid)"
proof -
  let ?m = "length (ck_old ck)"
  let ?P = "\<lambda>i. (ck_eof ck \<longrightarrow> i + ?m = length ls) \<and> take ?m (drop i ls) = ck_old ck"
  have st: "stands_at ck (drop c ls) i \<longleftrightarrow> ?P (c + i)" for i
    using assms(2) by (auto simp: stands_at_def add.commute)
  have lim: "i < Suc (length ls) - ?m" if "?P i" for i
  proof -
    from that have "length (take ?m (drop i ls)) = ?m" by simp
    with assms(1) show ?thesis by (cases "ck_old ck") auto
  qed
  show ?thesis
  proof (cases "find_sequence ls (ck_old ck) c (ck_eof ck)")
    case None
    then have "\<forall>j. c \<le> j \<and> j < Suc (length ls) - ?m \<longrightarrow> \<not> ?P j"
      using assms(1) by (simp add: find_sequence_def find_upt_None)
    then have "\<not> ?P (c + i)" for i using lim [of "c + i"] le_add1 by blast
    with None st show ?thesis by simp
  next
    case (Some k)
    then have k: "c \<le> k" "?P k" "\<forall>j. c \<le> j \<and> j < k \<longrightarrow> \<not> ?P j"
      using assms(1) by (auto simp: find_sequence_def find_upt_Some)
    let ?mid = "take (k - c) (drop c ls)"
    have lk: "k + ?m \<le> length ls" using lim [OF k(2)] assms(1) by (cases "ck_old ck") auto
    have "drop k ls = ck_old ck @ drop (k + ?m) ls"
      using k(2) by (metis add.commute append_take_drop_id drop_drop)
    then have "drop c ls = ?mid @ ck_old ck @ drop (k + ?m) ls"
      using k(1) by (metis append_take_drop_id drop_drop le_add_diff_inverse2)
    moreover have "length ?mid = k - c" using lk by simp
    moreover have "\<forall>i < k - c. \<not> stands_at ck (drop c ls) i" using k(3) st by simp
    moreover have "ck_eof ck \<longrightarrow> drop (k + ?m) ls = []" using k(2) by simp
    ultimately show ?thesis unfolding Some option.case using k(1) by (metis le_add_diff_inverse)
  qed
qed

lemma first_split_unique:
  "p @ t # r = q @ t # s \<Longrightarrow> t \<notin> set p \<Longrightarrow> t \<notin> set q \<Longrightarrow> p = q \<and> r = s"
proof (induction p arbitrary: q)
  case Nil
  then show ?case by (cases q) auto
next
  case (Cons a p)
  then show ?case by (cases q) auto
qed

lemma after_context_unique:
  assumes "pre @ rest = pre2 @ rest2" "after_context ck pre rest" "after_context ck pre2 rest2"
  shows "pre = pre2 \<and> rest = rest2"
proof (cases "ck_has_context ck")
  case True
  with assms(2,3) obtain p q where p: "pre = p @ [ck_context ck]" "ck_context ck \<notin> set p"
      "pre2 = q @ [ck_context ck]" "ck_context ck \<notin> set q"
    by (auto simp: after_context_def)
  with assms(1) first_split_unique [of p "ck_context ck" rest q rest2] show ?thesis by simp
next
  case False
  with assms show ?thesis by (simp add: after_context_def)
qed

lemma after_context_any: "after_context ck pre r1 \<Longrightarrow> after_context ck pre r2"
  by (simp add: after_context_def)

lemma context_step:
  assumes "c \<le> length ls"
  shows "(case (if ck_has_context ck then map_option Suc (find_line ls (ck_context ck) c) else Some c) of
      None \<Rightarrow> \<not> (\<exists>pre rest. drop c ls = pre @ rest \<and> after_context ck pre rest)
    | Some d \<Rightarrow> c \<le> d \<and> d \<le> length ls \<and> after_context ck (take (d - c) (drop c ls)) (drop d ls))"
proof (cases "ck_has_context ck")
  case False
  with assms show ?thesis by (auto simp: after_context_def)
next
  case True
  let ?t = "ck_context ck"
  show ?thesis
  proof (cases "find_line ls ?t c")
    case None
    with find_line_after [OF assms, of ?t] have "?t \<notin> set (drop c ls)" by simp
    then have "\<not> (\<exists>pre rest. drop c ls = pre @ rest \<and> after_context ck pre rest)"
      using True by (auto simp: after_context_def)
    with None True show ?thesis by simp
  next
    case (Some i)
    with find_line_after [OF assms, of ?t] obtain p r where
      p: "drop c ls = p @ ?t # r" "?t \<notin> set p" "i = c + length p" by auto
    have "Suc i \<le> length ls" using arg_cong [OF p(1), of length] p(3) assms by simp
    moreover have "take (Suc i - c) (drop c ls) = p @ [?t]" using p by simp
    ultimately show ?thesis using p Some True by (simp add: after_context_def)
  qed
qed

lemma edits_append_iff:
  assumes "ck_old ck = []" "after_context ck pre rest"
  shows "edits (ck # cks) (pre @ rest) out \<longleftrightarrow> (\<exists>o3. edits cks [] o3 \<and> out = pre @ rest @ ck_new ck @ o3)"
proof
  assume "edits (ck # cks) (pre @ rest) out"
  then show "\<exists>o3. edits cks [] o3 \<and> out = pre @ rest @ ck_new ck @ o3"
    by (rule edits_ConsE) (use assms(1) in auto)
qed (use edits_append [OF assms] in blast)

lemma edits_replace_iff:
  assumes "ck_old ck \<noteq> []" "after_context ck pre (mid @ ck_old ck @ post)" "ck_eof ck \<longrightarrow> post = []"
    "\<forall>i < length mid. \<not> stands_at ck (mid @ ck_old ck @ post) i"
  shows "edits (ck # cks) (pre @ mid @ ck_old ck @ post) out \<longleftrightarrow>
    (\<exists>o3. edits cks post o3 \<and> out = pre @ mid @ ck_new ck @ o3)"
proof
  assume "edits (ck # cks) (pre @ mid @ ck_old ck @ post) out"
  then show "\<exists>o3. edits cks post o3 \<and> out = pre @ mid @ ck_new ck @ o3"
  proof (rule edits_ConsE)
    fix pre2 mid2 post2 o3
    assume a: "pre @ mid @ ck_old ck @ post = pre2 @ mid2 @ ck_old ck @ post2"
      "out = pre2 @ mid2 @ ck_new ck @ o3"
      "after_context ck pre2 (mid2 @ ck_old ck @ post2)" "ck_eof ck \<Longrightarrow> post2 = []"
      "\<forall>i < length mid2. \<not> stands_at ck (mid2 @ ck_old ck @ post2) i" "edits cks post2 o3"
    from after_context_unique [OF a(1) assms(2) a(3)]
    have b: "pre = pre2" "mid @ ck_old ck @ post = mid2 @ ck_old ck @ post2" by auto
    have "stands_at ck (mid @ ck_old ck @ post) (length mid2)"
      using a(4) unfolding b(2) by (auto simp: stands_at_def)
    moreover have "stands_at ck (mid @ ck_old ck @ post) (length mid)"
      using assms(3) by (auto simp: stands_at_def)
    ultimately have "length mid = length mid2"
      using a(5) assms(4) unfolding b(2) by (metis linorder_neqE_nat)
    with b(2) have "mid2 = mid" "post2 = post" by auto
    with a b(1) show ?thesis by blast
  qed (use assms(1) in simp)
qed (use edits_replace [OF assms(1,2)] assms(3,4) in blast)

lemma edits_none:
  assumes "ck_old ck \<noteq> []" "after_context ck pre rest" "\<forall>i. \<not> stands_at ck rest i"
  shows "\<not> edits (ck # cks) (pre @ rest) out"
proof
  assume "edits (ck # cks) (pre @ rest) out"
  then show False
  proof (rule edits_ConsE)
    fix pre2 mid2 post2 o3
    assume a: "pre @ rest = pre2 @ mid2 @ ck_old ck @ post2"
      "after_context ck pre2 (mid2 @ ck_old ck @ post2)" "ck_eof ck \<Longrightarrow> post2 = []"
    from after_context_unique [OF a(1) assms(2) a(2)] have "rest = mid2 @ ck_old ck @ post2" by simp
    with a(3) assms(3) [rule_format, of "length mid2"] show False by (auto simp: stands_at_def)
  qed (use assms(1) in simp)
qed

text \<open>
  The function does what the relation says, in both directions: it answers exactly when the
  chunks can be put in place, with the lines that are then there.
\<close>

lemma apply_chunks_edits:
  assumes "c \<le> length ls"
  shows "apply_chunks c ls cks = Inr out \<longleftrightarrow> (\<exists>o2. edits cks (drop c ls) o2 \<and> out = take c ls @ o2)"
  using assms
proof (induction cks arbitrary: c ls)
  case Nil
  then show ?case by (auto intro: edits_end elim!: edits_NilE)
next
  case (Cons ck cks)
  let ?cur = "if ck_has_context ck then map_option Suc (find_line ls (ck_context ck) c) else Some c"
  note ctx = context_step [OF Cons.prems, of ck]
  show ?case
  proof (cases ?cur)
    case None
    with ctx have "\<not> (\<exists>pre rest. drop c ls = pre @ rest \<and> after_context ck pre rest)" by simp
    then have "\<not> edits (ck # cks) (drop c ls) o2" for o2 by (auto elim!: edits_ConsE)
    with None show ?thesis by simp
  next
    case (Some d)
    with ctx have d: "c \<le> d" "d \<le> length ls" by auto
    obtain pre where pre: "drop c ls = pre @ drop d ls" "after_context ck pre (drop d ls)"
        "take d ls = take c ls @ pre"
    proof
      show "after_context ck (take (d - c) (drop c ls)) (drop d ls)" using Some ctx by auto
    qed (use d(1) in \<open>metis append_take_drop_id drop_drop le_add_diff_inverse2\<close>,
        use d(1) in \<open>metis le_add_diff_inverse take_add\<close>)
    show ?thesis
    proof (cases "ck_old ck = []")
      case True
      have e: "edits (ck # cks) (drop c ls) o2 \<longleftrightarrow>
          (\<exists>o3. edits cks [] o3 \<and> o2 = drop c ls @ ck_new ck @ o3)" for o2
        unfolding pre(1) using edits_append_iff [OF True pre(2)] by simp
      have app: "take c ls @ drop c ls @ x = ls @ x" for x by (metis append.assoc append_take_drop_id)
      show ?thesis
        using Cons.IH [of "length (ls @ ck_new ck)" "ls @ ck_new ck"] Some True
        by (auto simp: Let_def e app)
    next
      case False
      note fs = find_sequence_stands [OF False d(2)]
      show ?thesis
      proof (cases "find_sequence ls (ck_old ck) d (ck_eof ck)")
        case None
        with fs have "\<forall>i. \<not> stands_at ck (drop d ls) i" by simp
        with edits_none [OF False pre(2)] have "\<not> edits (ck # cks) (drop c ls) o2" for o2
          unfolding pre(1) by blast
        with None Some False show ?thesis by simp
      next
        case k: (Some k)
        with fs obtain mid post where
          m: "drop d ls = mid @ ck_old ck @ post" "ck_eof ck \<longrightarrow> post = []"
            "\<forall>i < length mid. \<not> stands_at ck (drop d ls) i" "k = d + length mid" by auto
        have tkk: "take k ls = take d ls @ mid" using m(1,4) by (simp add: take_add)
        have "drop (k + length (ck_old ck)) ls = drop (length mid + length (ck_old ck)) (drop d ls)"
          using m(4) by (simp add: add.commute add.left_commute)
        then have post: "drop (k + length (ck_old ck)) ls = post" using m(1) by simp
        let ?ls = "take d ls @ mid @ ck_new ck @ post"
        have ls: "replace_lines ls k (length (ck_old ck)) (ck_new ck) = ?ls"
          using tkk post by (simp add: replace_lines_def)
        have cut: "drop (k + length (ck_new ck)) ?ls = post" "k + length (ck_new ck) \<le> length ?ls"
          "take (k + length (ck_new ck)) ?ls = take d ls @ mid @ ck_new ck"
          using d(2) m(4) by simp_all
        have "apply_chunks (k + length (ck_new ck)) ?ls cks = Inr out \<longleftrightarrow>
            (\<exists>o3. edits cks post o3 \<and> out = (take d ls @ mid @ ck_new ck) @ o3)"
          using Cons.IH [OF cut(2)] by (simp only: cut(1,3))
        moreover have "edits (ck # cks) (drop c ls) o2 \<longleftrightarrow>
            (\<exists>o3. edits cks post o3 \<and> o2 = pre @ mid @ ck_new ck @ o3)" for o2
          using edits_replace_iff [OF False, of pre mid post cks o2] pre(1,2) m by simp
        ultimately show ?thesis using Some k False ls pre(3) by auto
      qed
    qed
  qed
qed

subsection \<open>Writing a patch\<close>

text \<open>
  The language of patches from the other side: a patch is a list of items, an update has hunks of
  kept, deleted and inserted lines, and \<open>render_patch\<close> is its text.
\<close>

datatype diff_line = Keep string | Del string | Ins string

record hunk =
  hk_context :: string
  hk_body :: "diff_line list"
  hk_eof :: bool

datatype patch_item = AddItem string "string list" | DeleteItem string
  | UpdateItem string "string option" "hunk list"

fun old_side :: "diff_line list \<Rightarrow> string list" where
  "old_side [] = []"
| "old_side (Keep l # ds) = l # old_side ds"
| "old_side (Del l # ds) = l # old_side ds"
| "old_side (Ins l # ds) = old_side ds"

fun new_side :: "diff_line list \<Rightarrow> string list" where
  "new_side [] = []"
| "new_side (Keep l # ds) = l # new_side ds"
| "new_side (Del l # ds) = new_side ds"
| "new_side (Ins l # ds) = l # new_side ds"

fun render_line :: "diff_line \<Rightarrow> string" where
  "render_line (Keep l) = '' '' @ l"
| "render_line (Del l) = ''-'' @ l"
| "render_line (Ins l) = ''+'' @ l"

definition chunk_of :: "hunk \<Rightarrow> patch_chunk" where
  "chunk_of h = \<lparr>ck_context = hk_context h, ck_has_context = (hk_context h \<noteq> []),
     ck_old = old_side (hk_body h), ck_new = new_side (hk_body h), ck_eof = hk_eof h\<rparr>"

definition render_hunk :: "hunk \<Rightarrow> string list" where
  "render_hunk h =
     (''@@'' @ (if hk_context h = [] then [] else '' '' @ hk_context h)) # map render_line (hk_body h) @
     (if hk_eof h then [''*** End of File''] else [])"

fun item_op :: "patch_item \<Rightarrow> patch_operation" where
  "item_op (AddItem p ls) = \<lparr>po_kind = PkAdd, po_path = p, po_move = [],
     po_content = join [newline] ls @ [newline], po_chunks = []\<rparr>"
| "item_op (DeleteItem p) = \<lparr>po_kind = PkDelete, po_path = p, po_move = [], po_content = [],
     po_chunks = []\<rparr>"
| "item_op (UpdateItem p q hs) = \<lparr>po_kind = PkUpdate, po_path = p,
     po_move = (case q of None \<Rightarrow> [] | Some d \<Rightarrow> d), po_content = [], po_chunks = map chunk_of hs\<rparr>"

fun render_item :: "patch_item \<Rightarrow> string list" where
  "render_item (AddItem p ls) = (add_header @ p) # map ((#) (CHR ''+'')) ls"
| "render_item (DeleteItem p) = [delete_header @ p]"
| "render_item (UpdateItem p q hs) = (update_header @ p) #
     (case q of None \<Rightarrow> [] | Some d \<Rightarrow> [move_header @ d]) @ concat (map render_hunk hs)"

definition render_patch :: "patch_item list \<Rightarrow> string" where
  "render_patch items =
     join [newline] (''*** Begin Patch'' # concat (map render_item items) @ [''*** End Patch''])"

definition path_ok :: "string \<Rightarrow> bool" where
  "path_ok p \<longleftrightarrow> p \<noteq> [] \<and> plain_line p \<and> trim_space p = p"

fun diff_text :: "diff_line \<Rightarrow> string" where
  "diff_text (Keep l) = l"
| "diff_text (Del l) = l"
| "diff_text (Ins l) = l"

definition hunk_ok :: "hunk \<Rightarrow> bool" where
  "hunk_ok h \<longleftrightarrow> plain_line (hk_context h) \<and> hk_body h \<noteq> [] \<and> list_all (\<lambda>d. plain_line (diff_text d)) (hk_body h)"

fun patch_item_ok :: "patch_item \<Rightarrow> bool" where
  "patch_item_ok (AddItem p ls) \<longleftrightarrow> path_ok p \<and> ls \<noteq> [] \<and> list_all plain_line ls"
| "patch_item_ok (DeleteItem p) \<longleftrightarrow> path_ok p"
| "patch_item_ok (UpdateItem p q hs) \<longleftrightarrow>
     path_ok p \<and> (case q of None \<Rightarrow> True | Some d \<Rightarrow> path_ok d) \<and> hs \<noteq> [] \<and> list_all hunk_ok hs"

subsection \<open>Lemmas: reading what was written\<close>

lemmas header_defs = add_header_def delete_header_def update_header_def move_header_def

lemma trim_prefix_append [simp]: "trim_prefix (p @ s) p = s"
  by (simp add: trim_prefix_def)

lemma is_patch_header_Cons:
  "c \<noteq> CHR ''*'' \<Longrightarrow> \<not> is_patch_header (c # l)"
  by (simp add: is_patch_header_def header_defs)

lemma headers [simp]:
  "is_patch_header (add_header @ p)" "is_patch_header (delete_header @ p)" "is_patch_header (update_header @ p)"
  "\<not> has_prefix (delete_header @ p) add_header" "\<not> has_prefix (update_header @ p) add_header"
  "\<not> has_prefix (update_header @ p) delete_header" "\<not> is_patch_header (move_header @ p)"
  by (simp_all add: is_patch_header_def header_defs)

lemma chunk_lines_render:
  "chunk_lines ck k n (map render_line ds @ rest) =
   chunk_lines (ck\<lparr>ck_old := ck_old ck @ old_side ds, ck_new := ck_new ck @ new_side ds\<rparr>)
     (k + length ds) (n + length ds) rest"
proof (induction ds arbitrary: ck k n)
  case Nil
  then show ?case by simp
next
  case (Cons d ds)
  then show ?case by (cases d) (simp_all add: is_patch_header_Cons)
qed

definition at_header :: "string list \<Rightarrow> bool" where
  "at_header rest \<longleftrightarrow> rest = [] \<or> is_patch_header (hd rest)"

lemma chunk_lines_stop:
  "rest = [] \<or> has_prefix (hd rest) ''@@'' \<or> is_patch_header (hd rest) \<Longrightarrow>
   chunk_lines ck k n rest = Inr (ck, k, n, rest)"
  by (cases rest) auto

lemma render_hunk_hd: "has_prefix (hd (render_hunk h)) ''@@''" "render_hunk h \<noteq> []"
  by (simp_all add: render_hunk_def)

lemma new_chunk_render:
  "new_chunk (''@@'' @ (if c = [] then [] else '' '' @ c)) =
   \<lparr>ck_context = c, ck_has_context = (c \<noteq> []), ck_old = [], ck_new = [], ck_eof = False\<rparr>"
  by (simp add: new_chunk_def trim_prefix_def)

lemma trim_space_at: "trim_space (''@@'' @ s) \<noteq> []"
proof
  assume "trim_space (''@@'' @ s) = []"
  then have "set (''@@'' @ s) \<subseteq> space_bytes" using trim_space_bytes [of "''@@'' @ s"] by auto
  then show False by (simp add: space_bytes_def ascii_space_def)
qed

lemma parse_chunks_step:
  assumes "hunk_ok h" "rest = [] \<or> has_prefix (hd rest) ''@@'' \<or> is_patch_header (hd rest)"
  shows "\<exists>m. parse_chunks cks n (render_hunk h @ rest) = parse_chunks (cks @ [chunk_of h]) m rest"
proof -
  let ?l = "''@@'' @ (if hk_context h = [] then [] else '' '' @ hk_context h)"
  let ?b = "map render_line (hk_body h) @ (if hk_eof h then [''*** End of File''] else []) @ rest"
  have eof: "\<not> is_patch_header ''*** End of File''" by (simp add: is_patch_header_def header_defs)
  have "\<exists>m. chunk_lines (new_chunk ?l) 0 (Suc n) ?b = Inr (chunk_of h, length (hk_body h), m, rest)"
    unfolding chunk_lines_render new_chunk_render
    using assms(2) eof by (cases "hk_eof h") (simp_all add: chunk_of_def chunk_lines_stop)
  moreover have "\<not> is_patch_header ?l" by (simp add: is_patch_header_Cons)
  moreover have "hk_body h \<noteq> []" using assms(1) by (simp add: hunk_ok_def)
  ultimately have "\<exists>m. parse_chunks cks n (?l # ?b) = parse_chunks (cks @ [chunk_of h]) m rest"
    using trim_space_at by auto
  then show ?thesis by (simp add: render_hunk_def)
qed

lemma parse_chunks_render:
  "list_all hunk_ok hs \<Longrightarrow> at_header rest \<Longrightarrow>
   \<exists>m. parse_chunks cks n (concat (map render_hunk hs) @ rest) = Inr (cks @ map chunk_of hs, m, rest)"
proof (induction hs arbitrary: cks n)
  case Nil
  then show ?case by (cases rest) (auto simp: at_header_def)
next
  case (Cons h hs)
  let ?r = "concat (map render_hunk hs) @ rest"
  have "?r = [] \<or> has_prefix (hd ?r) ''@@'' \<or> is_patch_header (hd ?r)"
    using Cons.prems(2) render_hunk_hd by (cases hs) (auto simp: at_header_def)
  then obtain m where "parse_chunks cks n (render_hunk h @ ?r) = parse_chunks (cks @ [chunk_of h]) m ?r"
    using parse_chunks_step Cons.prems(1) by fastforce
  with Cons.IH [of "cks @ [chunk_of h]" m] Cons.prems show ?case by simp
qed

lemma move_header_hunk: "\<not> has_prefix (CHR ''@'' # s) move_header"
  by (simp add: move_header_def)

lemma parse_update_render:
  assumes "patch_item_ok (UpdateItem p q hs)" "at_header rest"
  shows "\<exists>m. parse_update n (update_header @ p) (tl (render_item (UpdateItem p q hs)) @ rest) =
    Inr (item_op (UpdateItem p q hs), m, rest)"
proof -
  let ?b = "concat (map render_hunk hs) @ rest"
  have ok: "p \<noteq> []" "trim_space p = p" "hs \<noteq> []" "list_all hunk_ok hs"
    using assms(1) by (auto simp: path_ok_def)
  show ?thesis
  proof (cases q)
    case None
    obtain h hs' where "hs = h # hs'" using ok(3) by (cases hs) auto
    then have "\<not> has_prefix (hd ?b) move_header" by (simp add: render_hunk_def move_header_hunk)
    with parse_chunks_render [OF ok(4) assms(2), of "[]" "Suc n"] ok None show ?thesis
      by (auto simp: parse_update_def Let_def)
  next
    case (Some d)
    with assms(1) have "d \<noteq> []" "trim_space d = d" by (auto simp: path_ok_def)
    with parse_chunks_render [OF ok(4) assms(2), of "[]" "Suc (Suc n)"] ok Some show ?thesis
      by (auto simp: parse_update_def Let_def)
  qed
qed

lemma take_content:
  assumes "at_header rest"
  shows "takeWhile (\<lambda>x. has_prefix x ''+'') (map ((#) (CHR ''+'')) ls @ rest) = map ((#) (CHR ''+'')) ls"
    and "dropWhile (\<lambda>x. has_prefix x ''+'') (map ((#) (CHR ''+'')) ls @ rest) = rest"
proof -
  have "\<not> has_prefix (hd rest) ''+''" if "rest \<noteq> []"
    using assms that by (auto simp: at_header_def is_patch_header_def header_defs has_prefix_iff)
  then have "takeWhile (\<lambda>x. has_prefix x ''+'') rest = []" "dropWhile (\<lambda>x. has_prefix x ''+'') rest = rest"
    by (cases rest; auto)+
  then show "takeWhile (\<lambda>x. has_prefix x ''+'') (map ((#) (CHR ''+'')) ls @ rest) = map ((#) (CHR ''+'')) ls"
    "dropWhile (\<lambda>x. has_prefix x ''+'') (map ((#) (CHR ''+'')) ls @ rest) = rest"
    by (induction ls) auto
qed

lemma render_item_header: "at_header (concat (map render_item items))"
proof (cases items)
  case (Cons i items')
  then show ?thesis by (cases i) (auto simp: at_header_def)
qed (simp add: at_header_def)

lemma parse_operations_render:
  "list_all patch_item_ok items \<Longrightarrow>
   parse_operations acc n (concat (map render_item items)) = Inr (acc @ map item_op items)"
proof (induction items arbitrary: acc n)
  case Nil
  then show ?case by simp
next
  case (Cons i items)
  note rest = render_item_header [of items]
  show ?case
  proof (cases i)
    case (AddItem p ls)
    then have "p \<noteq> []" "trim_space p = p" "ls \<noteq> []" using Cons.prems by (auto simp: path_ok_def)
    with AddItem Cons.IH Cons.prems take_content [OF rest, of ls] show ?thesis
      by (simp add: o_def Let_def)
  next
    case (DeleteItem p)
    then have "p \<noteq> []" "trim_space p = p" using Cons.prems by (auto simp: path_ok_def)
    with DeleteItem Cons.IH Cons.prems show ?thesis by simp
  next
    case (UpdateItem p q hs)
    with Cons.prems have ok: "patch_item_ok (UpdateItem p q hs)" by simp
    from parse_update_render [OF this rest, of n] obtain m where
      "parse_update n (update_header @ p) (tl (render_item i) @ concat (map render_item items)) =
       Inr (item_op i, m, concat (map render_item items))" unfolding UpdateItem by blast
    moreover have "render_item i = (update_header @ p) # tl (render_item i)" by (simp add: UpdateItem)
    ultimately have "parse_operations acc n (render_item i @ concat (map render_item items)) =
        parse_operations (acc @ [item_op i]) m (concat (map render_item items))"
      by (metis (no_types, lifting) append_Cons case_prod_conv headers(3,5,6) has_prefix_self_append
          old.sum.simps(6) parse_operations.simps(2))
    with Cons.IH Cons.prems show ?thesis by simp
  qed
qed

lemma plain_line_append: "newline \<notin> set p \<Longrightarrow> q \<noteq> [] \<Longrightarrow> plain_line q \<Longrightarrow> plain_line (p @ q)"
  by (auto simp: plain_line_def)

lemma plain_line_Cons: "c \<noteq> newline \<Longrightarrow> c \<noteq> carriage \<Longrightarrow> plain_line l \<Longrightarrow> plain_line (c # l)"
  by (auto simp: plain_line_def)

lemma plain_lines [simp]:
  "newline \<notin> set add_header" "newline \<notin> set delete_header" "newline \<notin> set update_header"
  "newline \<notin> set move_header" "plain_line ''*** End of File''" "plain_line ''@@''"
  "plain_line ''*** Begin Patch''" "plain_line ''*** End Patch''"
  by (simp_all add: header_defs newline_def carriage_def plain_line_def)

lemma render_plain:
  assumes "patch_item_ok i"
  shows "list_all plain_line (render_item i)"
proof -
  have c: "plain_line (c # l)" if "plain_line l" "c \<in> {CHR ''+'', CHR ''-'', CHR '' ''}" for c l
    using that by (intro plain_line_Cons) (auto simp: newline_def carriage_def)
  have path: "plain_line (h @ p)" if "newline \<notin> set h" "path_ok p" for h p
    using that by (auto simp: path_ok_def plain_line_append)
  have hunk: "list_all plain_line (render_hunk h)" if "hunk_ok h" for h
  proof -
    have "plain_line (''@@ '' @ hk_context h)" if "hk_context h \<noteq> []"
      using that \<open>hunk_ok h\<close> by (intro plain_line_append) (auto simp: hunk_ok_def newline_def)
    moreover have "plain_line (render_line d)" if "plain_line (diff_text d)" for d
      using that c by (cases d) auto
    ultimately show ?thesis using \<open>hunk_ok h\<close>
      by (auto simp: render_hunk_def hunk_ok_def list_all_iff)
  qed
  show ?thesis
  proof (cases i)
    case (UpdateItem p q hs)
    with assms hunk path show ?thesis by (cases q) (auto simp: list_all_iff)
  qed (use assms path c in \<open>auto simp: list_all_iff\<close>)
qed

lemma render_lines_plain:
  assumes "list_all patch_item_ok items"
  shows "list_all plain_line (concat (map render_item items))"
proof -
  have "list_all plain_line (render_item i)" if "i \<in> set items" for i
    using assms that render_plain [of i] by (auto simp: list_all_iff)
  then show ?thesis by (auto simp: list_all_iff)
qed

subsection \<open>Properties\<close>



text \<open>
  An update of one line rewrites the line endings of the whole file, and a hunk of inserted
  lines only goes to the end of the file, whatever context it names.
\<close>

theorem update_rewrites_endings:
  "let cr = [carriage, newline];
       change = \<lparr>ck_context = [], ck_has_context = False, ck_old = [''b''], ck_new = [''c''], ck_eof = False\<rparr>;
       insert = \<lparr>ck_context = ''a'', ck_has_context = True, ck_old = [], ck_new = [''x''], ck_eof = False\<rparr>
   in derive_patched (''a'' @ cr @ ''b'' @ cr @ ''d'' @ cr) [change] =
        Inr (''a'' @ [newline] @ ''c'' @ [newline] @ ''d'' @ [newline]) \<and>
      derive_patched (''a'' @ [newline] @ ''b'' @ [newline]) [insert] =
        Inr (''a'' @ [newline] @ ''b'' @ [newline] @ ''x'' @ [newline])"
  by code_simp

subsection \<open>Witnesses\<close>

definition small_patch :: "patch_item list" where
  "small_patch = [AddItem ''a.txt'' [''x'', []], DeleteItem ''b'',
     UpdateItem ''c'' (Some ''d'') [\<lparr>hk_context = ''f()'', hk_body = [Keep ''k'', Del ''o'', Ins ''n''], hk_eof = True\<rparr>]]"


end
