(* ===== verification/Edit_Files.thy ===== *)
theory Edit_Files
  imports Workspace_Guard
begin

text \<open>
  Files as the edit tools touch them: \<open>internal/adapter/out/tool/builtin/file_helpers.go\<close> and
  \<open>mutation_safety.go\<close>.

  A disk is what stands at each cleaned path of the workspace, and what the file system answers
  to the questions of the path checks (the record \<open>fs\<close>); directories are known from these answers
  only. A step that writes or removes takes its outcome from a list: whether the operating system
  (or the context that may be canceled) lets it happen, and the answers of the file system after
  it, since a write may create directories even if it fails. Where the list is at its end, steps
  succeed and the answers stay. \<open>atomicWriteResolved\<close> writes a temporary file and renames it, so a
  step happens completely or not at all.
\<close>

datatype node = RegularFile string nat | UnreadableFile nat | LinkNode | DirNode | SpecialNode

record disk =
  dk_nodes :: "string \<Rightarrow> node option"
  dk_fs :: fs

type_synonym io = "(bool \<times> fs) list"

definition node_at :: "disk \<Rightarrow> string \<Rightarrow> node option" where
  "node_at d p =
     (case dk_nodes d p of
        Some n \<Rightarrow> Some n
      | None \<Rightarrow> if fs_stat (dk_fs d) p = SDir then Some DirNode else None)"

datatype edit_error = EdWorkspace ws_error | EdNode | EdTooLarge | EdIO | EdExists | EdMissing
  | EdInvalid | EdConflict | EdGuard guard_result | EdCheckpoint | EdNoMatch | EdManyMatches
  | EdPatch

definition max_edit_bytes :: int where
  "max_edit_bytes = 16777216"

text \<open>The outcome of the next step, and the outcomes after it.\<close>

definition io_ok :: "io \<Rightarrow> bool" where
  "io_ok os = (case os of [] \<Rightarrow> True | (ok, f) # _ \<Rightarrow> ok)"

definition io_fs :: "disk \<Rightarrow> io \<Rightarrow> fs" where
  "io_fs d os = (case os of [] \<Rightarrow> dk_fs d | (ok, f) # _ \<Rightarrow> f)"

subsection \<open>Reading\<close>

definition read_edit_file :: "disk \<Rightarrow> workspace \<Rightarrow> string \<Rightarrow> (edit_error, string option) result" where
  "read_edit_file d w p =
     (case open_parent (dk_fs d) False w p False of
        Inl e \<Rightarrow> if e = WsNotFound then Inr None else Inl (EdWorkspace e)
      | Inr _ \<Rightarrow>
          (case node_at d p of
             None \<Rightarrow> Inr None
           | Some (RegularFile c m) \<Rightarrow>
               if max_edit_bytes < int (length c) then Inl EdTooLarge else Inr (Some c)
           | Some (UnreadableFile m) \<Rightarrow> Inl EdIO
           | Some _ \<Rightarrow> Inl EdNode))"

definition require_missing :: "disk \<Rightarrow> string \<Rightarrow> edit_error option" where
  "require_missing d p =
     (case fs_lstat (dk_fs d) p of
        LFound \<Rightarrow> Some EdExists
      | LMissing \<Rightarrow> None
      | LFailed \<Rightarrow> Some EdIO)"

subsection \<open>Writing and removing\<close>

text \<open>The permissions of a file that is replaced are kept; a new file is readable for everybody.\<close>

definition node_mode :: "node option \<Rightarrow> nat" where
  "node_mode n =
     (case n of Some (RegularFile c m) \<Rightarrow> m mod 512 | Some (UnreadableFile m) \<Rightarrow> m mod 512 | _ \<Rightarrow> 420)"

definition writable_node :: "node option \<Rightarrow> bool" where
  "writable_node n =
     (case n of Some LinkNode \<Rightarrow> False | Some DirNode \<Rightarrow> False | Some SpecialNode \<Rightarrow> False | _ \<Rightarrow> True)"

definition set_node :: "disk \<Rightarrow> string \<Rightarrow> node option \<Rightarrow> disk" where
  "set_node d p n = d\<lparr>dk_nodes := (dk_nodes d)(p := n)\<rparr>"

definition atomic_write_resolved :: "disk \<Rightarrow> workspace \<Rightarrow> string \<Rightarrow> string \<Rightarrow> io \<Rightarrow>
    disk \<times> edit_error option" where
  "atomic_write_resolved d w p content os =
     (let d' = d\<lparr>dk_fs := io_fs d os\<rparr> in
      case open_parent (dk_fs d) False w p True of
        Inl e \<Rightarrow> (d', Some (EdWorkspace e))
      | Inr _ \<Rightarrow>
          if \<not> writable_node (node_at d p) then (d', Some EdNode)
          else if \<not> io_ok os then (d', Some EdIO)
          else (set_node d' p (Some (RegularFile content (node_mode (node_at d p)))), None))"

definition atomic_write :: "disk \<Rightarrow> workspace \<Rightarrow> string \<Rightarrow> string \<Rightarrow> io \<Rightarrow> disk \<times> edit_error option" where
  "atomic_write d w p content os =
     (case resolve_path (dk_fs d) False w p of
        Inl e \<Rightarrow> (d, Some (EdWorkspace e))
      | Inr r \<Rightarrow> atomic_write_resolved d w r content os)"

text \<open>Where the directory of a file is missing nothing is there to be removed.\<close>

definition remove_workspace_file :: "disk \<Rightarrow> workspace \<Rightarrow> string \<Rightarrow> io \<Rightarrow> disk \<times> edit_error option" where
  "remove_workspace_file d w p os =
     (let d' = d\<lparr>dk_fs := io_fs d os\<rparr> in
      case open_parent (dk_fs d) False w p False of
        Inl e \<Rightarrow> if e = WsNotFound then (set_node d p None, None) else (d, Some (EdWorkspace e))
      | Inr _ \<Rightarrow>
          (case node_at d p of
             None \<Rightarrow> (d, None)
           | Some DirNode \<Rightarrow> (d, Some EdNode)
           | Some _ \<Rightarrow> if io_ok os then (set_node d' p None, None) else (d', Some EdIO)))"

subsection \<open>Lemmas: a step touches one path\<close>

lemma set_node_same [simp]: "dk_nodes (set_node d p n) p = n"
  by (simp add: set_node_def)

lemma set_node_other [simp]: "q \<noteq> p \<Longrightarrow> dk_nodes (set_node d p n) q = dk_nodes d q"
  by (simp add: set_node_def)

lemma write_ok:
  assumes "atomic_write_resolved d w p c os = (d', None)"
  shows "dk_nodes d' = (dk_nodes d)(p \<mapsto> RegularFile c (node_mode (node_at d p)))"
  using assms
  by (auto simp: atomic_write_resolved_def set_node_def Let_def split: sum.splits if_splits)

lemma write_failed:
  assumes "atomic_write_resolved d w p c os = (d', Some e)"
  shows "dk_nodes d' = dk_nodes d"
  using assms
  by (auto simp: atomic_write_resolved_def Let_def split: sum.splits if_splits)

lemma write_frame:
  assumes "atomic_write_resolved d w p c os = (d', r)" "q \<noteq> p"
  shows "dk_nodes d' q = dk_nodes d q"
  using write_ok [of d w p c os d'] write_failed [of d w p c os d'] assms by (cases r) auto

lemma remove_ok:
  assumes "remove_workspace_file d w p os = (d', None)"
  shows "dk_nodes d' = (dk_nodes d)(p := None)"
  using assms
  by (auto simp: remove_workspace_file_def set_node_def node_at_def Let_def fun_upd_idem
      split: sum.splits if_splits option.splits node.splits)

lemma remove_failed:
  assumes "remove_workspace_file d w p os = (d', Some e)"
  shows "dk_nodes d' = dk_nodes d"
  using assms
  by (auto simp: remove_workspace_file_def Let_def
      split: sum.splits if_splits option.splits node.splits)

lemma remove_frame:
  assumes "remove_workspace_file d w p os = (d', r)" "q \<noteq> p"
  shows "dk_nodes d' q = dk_nodes d q"
  using remove_ok [of d w p os d'] remove_failed [of d w p os d'] assms by (cases r) auto

text \<open>A path that was resolved is resolved to itself.\<close>

lemma resolve_path_abs:
  assumes "fs_ok fs" "resolve_path fs ctx w input = Inr p"
  shows "is_abs p \<and> clean_path p = p"
proof -
  from assms(2) obtain a where "abs_path fs (if is_abs input then input else join_path (ws_root w) input) = Some a"
      "p = clean_path a"
    by (auto simp: resolve_path_def split: if_splits option.splits)
  with abs_path_abs [OF assms(1)] show ?thesis by auto
qed

lemma read_edit_file_Some:
  assumes "read_edit_file d w p = Inr (Some c)"
  shows "\<exists>m. dk_nodes d p = Some (RegularFile c m)"
  using assms
  by (auto simp: read_edit_file_def node_at_def split: sum.splits if_splits option.splits node.splits)

end
