(* ===== verification/Checkpoints.thy ===== *)
theory Checkpoints
  imports Edit_Files "HOL-Library.AList" "HOL-Library.List_Lexorder" "HOL-Library.Product_Lexorder"
    "HOL-Library.Multiset"
begin

text \<open>
  Checkpoints: \<open>internal/platform/checkpoint/store.go\<close>. Before a tool changes files it captures
  them, and \<open>Restore\<close> puts them back. The store is the directory of the checkpoint files: for
  each id the record and the time the file was written. JSON is a parameter as far as it matters:
  \<open>enc\<close> is the length of the encoded record. A file of the store that cannot be removed is
  \<open>rm id = False\<close>.
\<close>

record file_snapshot =
  sn_path :: string
  sn_exists :: bool
  sn_mode :: nat
  sn_content :: string

record checkpoint =
  cp_version :: int
  cp_id :: string
  cp_root :: string
  cp_created :: nat
  cp_entries :: "file_snapshot list"

record checkpoint_store =
  cs_files :: "(string \<times> checkpoint \<times> nat) list"
  cs_max_count :: int
  cs_max_bytes :: int
  cs_max_age :: int

definition max_checkpoint_file :: int where "max_checkpoint_file = 16777216"
definition max_checkpoint :: int where "max_checkpoint = 67108864"

subsection \<open>Capture\<close>

definition checkpoint_relative :: "workspace \<Rightarrow> string \<Rightarrow> string option" where
  "checkpoint_relative w p =
     (case rel_path (ws_root w) (clean_path p) of
        None \<Rightarrow> None
      | Some r \<Rightarrow> if r = ''.'' \<or> r = ''..'' \<or> has_prefix r ''../'' then None else Some r)"

definition missing_snapshot :: "string \<Rightarrow> file_snapshot" where
  "missing_snapshot rel = \<lparr>sn_path = rel, sn_exists = False, sn_mode = 0, sn_content = []\<rparr>"

definition snapshot_file :: "disk \<Rightarrow> workspace \<Rightarrow> string \<Rightarrow> (edit_error, file_snapshot) result" where
  "snapshot_file d w p =
     (case checkpoint_relative w p of
        None \<Rightarrow> Inl EdCheckpoint
      | Some rel \<Rightarrow>
          (case open_parent (dk_fs d) False w p False of
             Inl e \<Rightarrow> if e = WsNotFound then Inr (missing_snapshot rel) else Inl (EdWorkspace e)
           | Inr _ \<Rightarrow>
               (case node_at d p of
                  None \<Rightarrow> Inr (missing_snapshot rel)
                | Some (RegularFile c m) \<Rightarrow>
                    if max_checkpoint_file < int (length c) then Inl EdTooLarge
                    else Inr \<lparr>sn_path = rel, sn_exists = True, sn_mode = m mod 512, sn_content = c\<rparr>
                | Some (UnreadableFile m) \<Rightarrow> Inl EdIO
                | Some _ \<Rightarrow> Inl EdNode)))"

fun take_snapshots :: "disk \<Rightarrow> workspace \<Rightarrow> int \<Rightarrow> string list \<Rightarrow> (edit_error, file_snapshot list) result" where
  "take_snapshots d w tot [] = Inr []"
| "take_snapshots d w tot (p # ps) =
     (case snapshot_file d w p of
        Inl e \<Rightarrow> Inl e
      | Inr s \<Rightarrow>
          (let t = tot + int (length (sn_content s)) in
           if max_checkpoint < t then Inl EdTooLarge
           else case take_snapshots d w t ps of Inl e \<Rightarrow> Inl e | Inr ss \<Rightarrow> Inr (s # ss)))"

fun resolve_all :: "fs \<Rightarrow> workspace \<Rightarrow> string list \<Rightarrow> string list \<Rightarrow> (edit_error, string list) result" where
  "resolve_all fs w acc [] = Inr acc"
| "resolve_all fs w acc (p # ps) =
     (case resolve_path fs False w p of
        Inl e \<Rightarrow> Inl (EdWorkspace e)
      | Inr r \<Rightarrow> resolve_all fs w (append_new acc r) ps)"

definition resolve_unique_paths :: "fs \<Rightarrow> workspace \<Rightarrow> string list \<Rightarrow> (edit_error, string list) result" where
  "resolve_unique_paths fs w ps =
     map_sum id (sort_key (map of_char :: string \<Rightarrow> nat list)) (resolve_all fs w [] ps)"

subsection \<open>Retention\<close>

fun remove_files :: "(string \<Rightarrow> bool) \<Rightarrow> string list \<Rightarrow> checkpoint_store \<Rightarrow> checkpoint_store \<times> bool" where
  "remove_files rm [] s = (s, True)"
| "remove_files rm (i # ids) s =
     (if rm i then remove_files rm ids (s\<lparr>cs_files := AList.delete i (cs_files s)\<rparr>) else (s, False))"

definition over_retention :: "checkpoint_store \<Rightarrow> nat \<Rightarrow> int \<Rightarrow> bool" where
  "over_retention s n tot =
     ((0 < cs_max_count s \<and> cs_max_count s < int n) \<or> (0 < cs_max_bytes s \<and> cs_max_bytes s < tot))"

function drop_victims :: "checkpoint_store \<Rightarrow> string \<Rightarrow> (string \<times> int) list \<Rightarrow> int \<Rightarrow> string list \<times> bool" where
  "drop_victims s keep retained tot =
     (if \<not> over_retention s (length retained) tot then ([], True)
      else case find (\<lambda>x. fst x \<noteq> keep) retained of
          None \<Rightarrow> ([], False)
        | Some v \<Rightarrow>
            (case drop_victims s keep (remove1 v retained) (tot - snd v) of
               (vs, ok) \<Rightarrow> (fst v # vs, ok)))"
  by pat_completeness auto
termination
proof (relation "measure (\<lambda>(s, keep, retained, tot). length retained)")
  fix s :: checkpoint_store and keep :: string and retained :: "(string \<times> int) list" and tot :: int and v
  assume "find (\<lambda>x. fst x \<noteq> keep) retained = Some v"
  then have "v \<in> set retained" by (auto simp: find_Some_iff)
  then show "((s, keep, remove1 v retained, tot - snd v), s, keep, retained, tot)
      \<in> measure (\<lambda>(s, keep, retained, tot). length retained)"
    by (auto simp: length_remove1 intro!: diff_less)
qed simp

declare drop_victims.simps [simp del]

definition retained_key :: "string \<times> checkpoint \<times> nat \<Rightarrow> nat \<times> nat list" where
  "retained_key f = (snd (snd f), map of_char (fst f))"

definition expired_checkpoints :: "checkpoint_store \<Rightarrow> nat \<Rightarrow> string \<Rightarrow> string list" where
  "expired_checkpoints s now keep =
     map fst (filter (\<lambda>(i, c, m). 0 < cs_max_age s \<and> i \<noteq> keep \<and> cs_max_age s \<le> int now - int m) (cs_files s))"

definition prune_retention :: "(checkpoint \<Rightarrow> int) \<Rightarrow> (string \<Rightarrow> bool) \<Rightarrow> nat \<Rightarrow> string \<Rightarrow> checkpoint_store \<Rightarrow>
    checkpoint_store \<times> bool" where
  "prune_retention enc rm now keep s =
     (if cs_max_count s = 0 \<and> cs_max_bytes s = 0 \<and> cs_max_age s = 0 then (s, True)
      else case remove_files rm (expired_checkpoints s now keep) s of
          (s1, False) \<Rightarrow> (s1, False)
        | (s1, True) \<Rightarrow>
            (let retained = map (\<lambda>f. (fst f, enc (fst (snd f)))) (sort_key retained_key (cs_files s1));
                 victims = drop_victims s1 keep retained (sum_list (map snd retained)) in
             case remove_files rm (fst victims) s1 of (s2, ok) \<Rightarrow> (s2, ok \<and> snd victims)))"

definition capture :: "(checkpoint \<Rightarrow> int) \<Rightarrow> (string \<Rightarrow> bool) \<Rightarrow> bool \<Rightarrow> nat \<Rightarrow> string \<Rightarrow> disk \<Rightarrow> workspace \<Rightarrow>
    checkpoint_store \<Rightarrow> string list \<Rightarrow> checkpoint_store \<times> edit_error option" where
  "capture enc rm written now i d w s paths =
     (if paths = [] then (s, Some EdCheckpoint)
      else case resolve_unique_paths (dk_fs d) w paths of
          Inl e \<Rightarrow> (s, Some e)
        | Inr ps \<Rightarrow>
            (case take_snapshots d w 0 ps of
               Inl e \<Rightarrow> (s, Some e)
             | Inr entries \<Rightarrow>
                 let c = \<lparr>cp_version = 1, cp_id = i, cp_root = ws_root w, cp_created = now,
                        cp_entries = entries\<rparr> in
                 if max_checkpoint < enc c then (s, Some EdTooLarge)
                 else if \<not> written then (s, Some EdIO)
                 else case prune_retention enc rm now i
                        (s\<lparr>cs_files := AList.update i (c, now) (cs_files s)\<rparr>) of
                     (s1, True) \<Rightarrow> (s1, None)
                   | (s1, False) \<Rightarrow>
                       (s1\<lparr>cs_files := AList.delete i (cs_files s1)\<rparr>, Some EdCheckpoint)))"

subsection \<open>Restore\<close>

definition valid_checkpoint_id :: "string \<Rightarrow> bool" where
  "valid_checkpoint_id i = (trim_space i \<noteq> [] \<and> base_path i = i \<and> has_prefix i ''checkpoint-'')"

fun validate_entries :: "fs \<Rightarrow> workspace \<Rightarrow> string list \<Rightarrow> int \<Rightarrow> file_snapshot list \<Rightarrow>
    (edit_error, (string \<times> file_snapshot) list) result" where
  "validate_entries fs w seen tot [] = Inr []"
| "validate_entries fs w seen tot (s # ss) =
     (let c = clean_path (sn_path s) in
      if is_abs (sn_path s) \<or> c = ''.'' \<or> c = ''..'' \<or> has_prefix c ''../'' then Inl EdCheckpoint
      else case resolve_path fs False w (sn_path s) of
          Inl e \<Rightarrow> Inl (EdWorkspace e)
        | Inr p \<Rightarrow>
            if p \<in> set seen then Inl EdCheckpoint
            else if sn_exists s \<and> max_checkpoint_file < int (length (sn_content s)) then Inl EdTooLarge
            else let t = (if sn_exists s then tot + int (length (sn_content s)) else tot) in
              if sn_exists s \<and> max_checkpoint < t then Inl EdTooLarge
              else case validate_entries fs w (p # seen) t ss of
                  Inl e \<Rightarrow> Inl e
                | Inr r \<Rightarrow> Inr ((p, s) # r))"

definition write_workspace_file :: "disk \<Rightarrow> workspace \<Rightarrow> string \<Rightarrow> file_snapshot \<Rightarrow> io \<Rightarrow> disk \<times> edit_error option" where
  "write_workspace_file d w p s os =
     (let d' = d\<lparr>dk_fs := io_fs d os\<rparr>; mode = (if sn_mode s = 0 then 420 else sn_mode s) mod 512 in
      case open_parent (dk_fs d) False w p True of
        Inl e \<Rightarrow> (d', Some (EdWorkspace e))
      | Inr _ \<Rightarrow>
          if \<not> writable_node (node_at d p) then (d', Some EdNode)
          else if \<not> io_ok os then (d', Some EdIO)
          else (set_node d' p (Some (RegularFile (sn_content s) mode)), None))"

fun restore_entries :: "disk \<Rightarrow> workspace \<Rightarrow> (string \<times> file_snapshot) list \<Rightarrow> io \<Rightarrow> disk \<times> edit_error option" where
  "restore_entries d w [] os = (d, None)"
| "restore_entries d w ((p, s) # es) os =
     (case (if sn_exists s then write_workspace_file d w p s os else remove_workspace_file d w p os) of
        (d', Some e) \<Rightarrow> (d', Some e)
      | (d', None) \<Rightarrow> restore_entries d' w es (tl os))"

definition restore :: "(checkpoint \<Rightarrow> int) \<Rightarrow> git_run \<Rightarrow> disk \<Rightarrow> workspace \<Rightarrow> mutation_session option \<Rightarrow>
    checkpoint_store \<Rightarrow> string \<Rightarrow> io \<Rightarrow> disk \<times> mutation_session option \<times> edit_error option" where
  "restore enc g d w ses st i os =
     (if \<not> valid_checkpoint_id i then (d, ses, Some EdInvalid)
      else case map_of (cs_files st) i of
          None \<Rightarrow> (d, ses, Some EdMissing)
        | Some (c, m) \<Rightarrow>
            if max_checkpoint < enc c \<or> cp_version c \<noteq> 1 \<or> clean_path (cp_root c) \<noteq> ws_root w \<or> cp_id c \<noteq> i \<or>
              cp_entries c = [] then (d, ses, Some EdCheckpoint)
            else case validate_entries (dk_fs d) w [] 0 (cp_entries c) of
                Inl e \<Rightarrow> (d, ses, Some e)
              | Inr es \<Rightarrow>
                  (case guard_whole_file_mutation g ses w (map fst es) of
                     GuardPasses \<Rightarrow>
                       (case restore_entries d w es os of
                          (d', Some e) \<Rightarrow> (d', ses, Some e)
                        | (d', None) \<Rightarrow> (d', mark_mutation_owned ses w (map fst es), None))
                   | r \<Rightarrow> (d, ses, Some (EdGuard r))))"

subsection \<open>Lemmas: paths\<close>

lemma clean_comps_join_rel:
  assumes "is_abs a" "list_all plain_comp t" "t \<noteq> []"
  shows "clean_comps (join_path a (path_string False t)) = clean_comps a @ t"
proof -
  have "a \<noteq> []" using assms(1) by (auto simp: is_abs_def has_prefix_def)
  have "has_prefix (a @ slash # join [slash] t) [slash] = has_prefix a [slash]"
    using assms(1) is_abs_append [OF assms(1)] by (simp add: is_abs_def)
  moreover have "split_char slash (a @ slash # join [slash] t) = split_char slash a @ t"
    using plain_split [OF assms(2,3)] by (simp add: split_char_snoc)
  ultimately have "clean_comps (a @ slash # join [slash] t) = clean_comps a @ t"
    by (simp add: clean_comps_def fold_plain [OF assms(2)] del: clean_step.simps)
  then show ?thesis using \<open>a \<noteq> []\<close> assms(1,3) by (simp add: join_path_def path_string_def)
qed

lemma checkpoint_relative_comps:
  assumes "is_abs (ws_root w)" "is_abs p" "checkpoint_relative w p = Some rel"
  obtains t where "clean_comps p = clean_comps (ws_root w) @ t" "t \<noteq> []" "list_all plain_comp t"
    "rel = path_string False t"
proof -
  from assms(3) have r: "rel_path (ws_root w) (clean_path p) = Some rel" "rel \<noteq> ''.''" "rel \<noteq> ''..''"
      "\<not> has_prefix rel ''../''"
    by (auto simp: checkpoint_relative_def split: option.splits if_splits)
  then have "is_within (ws_root w) (clean_path p)" by (simp add: is_within_def)
  then obtain t where t: "clean_comps p = clean_comps (ws_root w) @ t"
    using assms(1,2) by (auto simp: is_within_below below_def)
  moreover have "list_all plain_comp t" using abs_plain [OF assms(2)] t by simp
  moreover have "rel = path_string False t" using r(1) assms(1,2) t by (simp add: rel_path_def)
  moreover have "t \<noteq> []" using r(2) \<open>rel = path_string False t\<close> by (auto simp: path_string_def)
  ultimately show ?thesis using that by blast
qed

text \<open>The recorded relative path is resolved to the path that was captured.\<close>

lemma resolve_relative:
  assumes "is_abs (ws_root w)" "is_abs p" "clean_path p = p" "checkpoint_relative w p = Some rel"
    "resolve_path fs False w rel = Inr q"
  shows "q = p"
proof -
  obtain t where t: "clean_comps p = clean_comps (ws_root w) @ t" "t \<noteq> []" "list_all plain_comp t"
      "rel = path_string False t"
    by (rule checkpoint_relative_comps [OF assms(1,2,4)])
  let ?j = "join_path (ws_root w) rel"
  have j: "is_abs ?j" "clean_comps ?j = clean_comps p"
    using clean_comps_join_rel [OF assms(1) t(3,2)] assms(1) t by simp_all
  have "\<not> is_abs rel" using t(2,3,4) plain_first by (cases t) (auto simp: is_abs_def path_string_def)
  with assms(5) j(1) have "q = clean_path ?j"
    by (auto simp: resolve_path_def split: if_splits option.splits)
  also have "\<dots> = path_string True (clean_comps p)" using j by (simp add: clean_path_string)
  also have "\<dots> = p" using assms(2,3) clean_path_string [of p] by simp
  finally show ?thesis .
qed

lemma resolve_all_abs:
  assumes "fs_ok fs"
  shows "resolve_all fs w acc ps = Inr rs \<Longrightarrow> \<forall>p \<in> set acc. is_abs p \<and> clean_path p = p \<Longrightarrow> distinct acc \<Longrightarrow>
    (\<forall>p \<in> set rs. is_abs p \<and> clean_path p = p) \<and> distinct rs \<and>
    set rs = set acc \<union> {r. \<exists>p \<in> set ps. resolve_path fs False w p = Inr r}"
proof (induction ps arbitrary: acc)
  case Nil
  then show ?case by simp
next
  case (Cons p ps)
  from Cons.prems(1) obtain r where
    r: "resolve_path fs False w p = Inr r" "resolve_all fs w (append_new acc r) ps = Inr rs"
    by (auto split: sum.splits)
  have "\<forall>q \<in> set (append_new acc r). is_abs q \<and> clean_path q = q"
    using Cons.prems(2) resolve_path_abs [OF assms r(1)] by simp
  from Cons.IH [OF r(2) this] Cons.prems(3) r(1) show ?case by simp blast
qed

lemma resolve_unique:
  assumes "fs_ok fs" "resolve_unique_paths fs w paths = Inr ps"
  shows "(\<forall>p \<in> set ps. is_abs p \<and> clean_path p = p) \<and> distinct ps \<and>
    set ps = {r. \<exists>p \<in> set paths. resolve_path fs False w p = Inr r}"
proof -
  from assms(2) obtain rs where "resolve_all fs w [] paths = Inr rs"
      "ps = sort_key (map of_char :: string \<Rightarrow> nat list) rs"
    by (cases "resolve_all fs w [] paths") (auto simp: resolve_unique_paths_def)
  with resolve_all_abs [OF assms(1), of w "[]" paths rs] show ?thesis by simp
qed

subsection \<open>Lemmas: capture and restore\<close>

lemma take_snapshots_all:
  "take_snapshots d w t ps = Inr ss \<Longrightarrow> list_all2 (\<lambda>p s. snapshot_file d w p = Inr s) ps ss"
proof (induction ps arbitrary: t ss)
  case (Cons p ps)
  then show ?case by (fastforce simp: Let_def split: sum.splits if_splits)
qed simp

lemma validate_entries_all:
  "validate_entries fs w seen t ss = Inr es \<Longrightarrow>
   map snd es = ss \<and> distinct (map fst es) \<and> set (map fst es) \<inter> set seen = {} \<and>
   (\<forall>(p, s) \<in> set es. resolve_path fs False w (sn_path s) = Inr p)"
proof (induction ss arbitrary: seen t es)
  case Nil
  then show ?case by simp
next
  case (Cons s ss)
  then obtain p t' r where r: "resolve_path fs False w (sn_path s) = Inr p" "p \<notin> set seen"
      "validate_entries fs w (p # seen) t' ss = Inr r" "es = (p, s) # r"
    by (auto simp: Let_def split: if_splits sum.splits)
  with Cons.IH [OF r(3)] show ?case by auto
qed

definition restored_node :: "file_snapshot \<Rightarrow> node option" where
  "restored_node s =
     (if sn_exists s then Some (RegularFile (sn_content s) ((if sn_mode s = 0 then 420 else sn_mode s) mod 512))
      else None)"

lemma restore_step:
  assumes "(if sn_exists s then write_workspace_file d w p s os else remove_workspace_file d w p os) = (d', None)"
  shows "dk_nodes d' = (dk_nodes d)(p := restored_node s)"
proof (cases "sn_exists s")
  case True
  with assms show ?thesis
    by (auto simp: write_workspace_file_def set_node_def restored_node_def Let_def split: sum.splits if_splits)
next
  case False
  with assms remove_ok [of d w p os d'] show ?thesis by (simp add: restored_node_def)
qed

lemma restore_entries_done:
  "restore_entries d w es os = (d', None) \<Longrightarrow> distinct (map fst es) \<Longrightarrow>
   dk_nodes d' q = (case map_of es q of None \<Rightarrow> dk_nodes d q | Some s \<Rightarrow> restored_node s)"
proof (induction d w es os rule: restore_entries.induct)
  case (2 d w p s es os)
  then obtain d1 where d1:
    "(if sn_exists s then write_workspace_file d w p s os else remove_workspace_file d w p os) = (d1, None)"
    "restore_entries d1 w es (tl os) = (d', None)"
    by (auto split: prod.splits option.splits if_splits)
  have "p \<notin> fst ` set es" using "2.prems"(2) by simp
  then have "map_of es p = None" by (simp add: map_of_eq_None_iff)
  with "2.IH" [OF d1(1) [symmetric] refl d1(2)] "2.prems"(2) restore_step [OF d1(1)]
  show ?case by (auto split: option.splits)
qed simp

definition disk_ok :: "workspace \<Rightarrow> disk \<Rightarrow> bool" where
  "disk_ok w d \<longleftrightarrow> fs_ok (dk_fs d) \<and>
     (\<forall>p. open_parent (dk_fs d) False w p False = Inl WsNotFound \<longrightarrow> dk_nodes d p = None) \<and>
     (\<forall>p c m. dk_nodes d p = Some (RegularFile c m) \<longrightarrow> 0 < m \<and> m < 512)"

lemma snapshot_restores:
  assumes "disk_ok w d" "snapshot_file d w p = Inr s"
  shows "restored_node s = dk_nodes d p \<and> checkpoint_relative w p = Some (sn_path s)"
proof -
  from assms(2) obtain rel where rel: "checkpoint_relative w p = Some rel"
    by (auto simp: snapshot_file_def split: option.splits)
  show ?thesis
  proof (cases "open_parent (dk_fs d) False w p False")
    case (Inl e)
    with assms rel have "e = WsNotFound" "s = missing_snapshot rel"
      by (auto simp: snapshot_file_def split: if_splits)
    with Inl assms(1) rel show ?thesis
      by (auto simp: disk_ok_def restored_node_def missing_snapshot_def)
  next
    case (Inr x)
    with assms(2) rel have n: "(case node_at d p of
          None \<Rightarrow> s = missing_snapshot rel
        | Some (RegularFile c m) \<Rightarrow> s = \<lparr>sn_path = rel, sn_exists = True, sn_mode = m mod 512, sn_content = c\<rparr>
        | _ \<Rightarrow> False)"
      by (auto simp: snapshot_file_def split: option.splits node.splits if_splits)
    show ?thesis
    proof (cases "dk_nodes d p")
      case None
      with n rel show ?thesis
        by (auto simp: node_at_def restored_node_def missing_snapshot_def split: if_splits)
    next
      case (Some nd)
      with n obtain c m where nd: "nd = RegularFile c m"
          "s = \<lparr>sn_path = rel, sn_exists = True, sn_mode = m mod 512, sn_content = c\<rparr>"
        by (auto simp: node_at_def split: node.splits)
      moreover have "0 < m \<and> m < 512" using assms(1) Some nd(1) unfolding disk_ok_def by blast
      ultimately show ?thesis using Some rel by (simp add: restored_node_def)
    qed
  qed
qed

subsection \<open>Lemmas: retention\<close>

lemma remove_files_done:
  "remove_files rm ids s = (s', True) \<Longrightarrow>
   cs_files s' = filter (\<lambda>f. fst f \<notin> set ids) (cs_files s) \<and> cs_max_count s' = cs_max_count s \<and>
   cs_max_bytes s' = cs_max_bytes s \<and> cs_max_age s' = cs_max_age s"
proof (induction rm ids s rule: remove_files.induct)
  case (2 rm i ids s)
  then have r: "rm i" "remove_files rm ids (s\<lparr>cs_files := AList.delete i (cs_files s)\<rparr>) = (s', True)"
    by (auto split: if_splits)
  from "2.IH" [OF r] show ?case
    by (auto simp: AList.delete_eq filter_filter case_prod_beta conj_commute intro: filter_cong)
qed simp

lemma over_retention_cong:
  "cs_max_count s = cs_max_count t \<Longrightarrow> cs_max_bytes s = cs_max_bytes t \<Longrightarrow>
   over_retention s = over_retention t"
  by (simp add: over_retention_def fun_eq_iff)

lemma drop_victims_done:
  "drop_victims s keep ret tot = (vs, True) \<Longrightarrow> tot = sum_list (map snd ret) \<Longrightarrow> distinct (map fst ret) \<Longrightarrow>
   (\<exists>k. vs = map fst (take k (filter (\<lambda>x. fst x \<noteq> keep) ret))) \<and>
   \<not> over_retention s (length (filter (\<lambda>x. fst x \<notin> set vs) ret))
     (sum_list (map snd (filter (\<lambda>x. fst x \<notin> set vs) ret)))"
proof (induction s keep ret tot arbitrary: vs rule: drop_victims.induct)
  case (1 s keep ret tot)
  show ?case
  proof (cases "over_retention s (length ret) tot")
    case False
    with "1.prems" show ?thesis
      by (subst (asm) drop_victims.simps) (auto intro: exI [of _ 0])
  next
    case True
    with "1.prems"(1) obtain v vs' where
      v: "find (\<lambda>x. fst x \<noteq> keep) ret = Some v" "drop_victims s keep (remove1 v ret) (tot - snd v) = (vs', True)"
        "vs = fst v # vs'"
      by (subst (asm) drop_victims.simps) (auto split: option.splits prod.splits)
    have vin: "v \<in> set ret" "fst v \<noteq> keep" using v(1) by (auto simp: find_Some_iff)
    have dis: "distinct ret" "distinct (map fst (remove1 v ret))"
      using "1.prems"(3) by (auto simp: distinct_map inj_on_def dest: notin_set_remove1)
    have fil: "filter P (remove1 v ret) = filter (\<lambda>x. fst x \<noteq> fst v \<and> P x) ret" for P
    proof -
      have "remove1 v ret = filter (\<lambda>x. x \<noteq> v) ret" using dis(1)
        by (auto simp: distinct_remove1_removeAll removeAll_filter_not_eq intro: filter_cong)
      moreover have "x = v \<longleftrightarrow> fst x = fst v" if "x \<in> set ret" for x
        using that vin(1) "1.prems"(3) by (auto simp: distinct_map inj_on_def)
      ultimately show ?thesis by (auto simp: filter_filter intro!: filter_cong)
    qed
    have tot: "tot - snd v = sum_list (map snd (remove1 v ret))"
      using "1.prems"(2) vin(1) by (simp add: sum_list_map_remove1)
    have hd: "filter (\<lambda>x. fst x \<noteq> keep) ret = v # filter (\<lambda>x. fst x \<noteq> keep) (remove1 v ret)"
    proof -
      have "find P xs = Some y \<Longrightarrow> filter P xs = y # filter P (remove1 y xs)" for P and xs :: "(string \<times> int) list" and y
        by (induction xs) (auto split: if_splits simp: find_Some_iff)
      then show ?thesis using v(1) .
    qed
    from "1.IH" [OF _ v(1,2) tot dis(2)] True
    have ih: "(\<exists>k. vs' = map fst (take k (filter (\<lambda>x. fst x \<noteq> keep) (remove1 v ret)))) \<and>
        \<not> over_retention s (length (filter (\<lambda>x. fst x \<notin> set vs') (remove1 v ret)))
          (sum_list (map snd (filter (\<lambda>x. fst x \<notin> set vs') (remove1 v ret))))" by simp
    then obtain k where "vs' = map fst (take k (filter (\<lambda>x. fst x \<noteq> keep) (remove1 v ret)))" by blast
    then have "vs = map fst (take (Suc k) (filter (\<lambda>x. fst x \<noteq> keep) ret))" using v(3) hd by simp
    moreover have "filter (\<lambda>x. fst x \<notin> set vs') (remove1 v ret) = filter (\<lambda>x. fst x \<notin> set vs) ret"
      unfolding fil using v(3) by simp
    ultimately show ?thesis using ih by metis
  qed
qed

lemma expired_keep: "keep \<notin> set (expired_checkpoints s now keep)"
  by (auto simp: expired_checkpoints_def)

lemma sum_list_mset_eq:
  fixes g :: "'a \<Rightarrow> int"
  assumes "mset xs = mset ys"
  shows "(\<Sum>x \<leftarrow> xs. g x) = (\<Sum>y \<leftarrow> ys. g y)"
proof -
  have "sum_mset (mset (map g xs)) = sum_mset (mset (map g ys))" using assms by simp
  then show ?thesis by (simp only: sum_mset_sum_list)
qed

text \<open>What retention leaves: the files whose ids are not among the expired and the victims.\<close>

lemma prune_done:
  assumes "prune_retention enc rm now keep s = (s', True)" "distinct (map fst (cs_files s))"
  obtains (all) "s' = s" "cs_max_count s = 0" "cs_max_bytes s = 0" "cs_max_age s = 0"
  | (some) k rest vs where
    "rest = filter (\<lambda>f. fst f \<notin> set (expired_checkpoints s now keep)) (cs_files s)"
    "vs = map fst (take k (filter (\<lambda>f. fst f \<noteq> keep) (sort_key retained_key rest)))"
    "cs_files s' = filter (\<lambda>f. fst f \<notin> set vs) rest"
    "\<not> over_retention s (length (cs_files s')) (\<Sum>f \<leftarrow> cs_files s'. enc (fst (snd f)))"
proof (cases "cs_max_count s = 0 \<and> cs_max_bytes s = 0 \<and> cs_max_age s = 0")
  case True
  with assms(1) all show ?thesis by (simp add: prune_retention_def)
next
  case False
  let ?e = "\<lambda>f :: string \<times> checkpoint \<times> nat. (fst f, enc (fst (snd f)))"
  let ?ret = "\<lambda>s1 :: checkpoint_store. map ?e (sort_key retained_key (cs_files s1))"
  obtain s1 b1 where r1: "remove_files rm (expired_checkpoints s now keep) s = (s1, b1)" by fastforce
  obtain vs b2 where v: "drop_victims s1 keep (?ret s1) (sum_list (map snd (?ret s1))) = (vs, b2)" by fastforce
  obtain s2 b3 where r2: "remove_files rm vs s1 = (s2, b3)" by fastforce
  note p = assms(1) [unfolded prune_retention_def if_not_P [OF False]]
  from p r1 have b1: "b1 = True" by (cases b1) simp_all
  from p r1 [unfolded b1] v r2 have "b2 = True" "b3 = True" "s2 = s'" by (simp_all add: Let_def)
  with r1 v r2 b1 have r1: "remove_files rm (expired_checkpoints s now keep) s = (s1, True)"
    and v: "drop_victims s1 keep (?ret s1) (sum_list (map snd (?ret s1))) = (vs, True)"
    and r2: "remove_files rm vs s1 = (s', True)" by simp_all
  note d1 = remove_files_done [OF r1] and d2 = remove_files_done [OF r2]
  let ?l = "sort_key retained_key (cs_files s1)"
  have "distinct (map fst (cs_files s1))" using d1 assms(2) by (simp add: distinct_map_filter)
  then have "distinct (map fst (map ?e ?l))"
    by (auto simp: distinct_map inj_on_def comp_def)
  from drop_victims_done [OF v refl this] obtain k where
    k: "vs = map fst (take k (filter (\<lambda>x. fst x \<noteq> keep) (map ?e ?l)))"
      "\<not> over_retention s1 (length (filter (\<lambda>x. fst x \<notin> set vs) (map ?e ?l)))
        (sum_list (map snd (filter (\<lambda>x. fst x \<notin> set vs) (map ?e ?l))))" by blast
  have "vs = map fst (take k (filter (\<lambda>f. fst f \<noteq> keep) ?l))"
    using k(1) by (simp add: filter_map take_map comp_def)
  moreover have files: "cs_files s' = filter (\<lambda>f. fst f \<notin> set vs) (cs_files s1)" using d2 by simp
  moreover have "\<not> over_retention s (length (cs_files s')) (\<Sum>f \<leftarrow> cs_files s'. enc (fst (snd f)))"
  proof -
    have "mset (filter (\<lambda>f. fst f \<notin> set vs) ?l) = mset (cs_files s')" by (simp add: files)
    then have "length (filter (\<lambda>f. fst f \<notin> set vs) ?l) = length (cs_files s')"
      "(\<Sum>f \<leftarrow> filter (\<lambda>f. fst f \<notin> set vs) ?l. enc (fst (snd f))) = (\<Sum>f \<leftarrow> cs_files s'. enc (fst (snd f)))"
      by (rule mset_eq_length, rule sum_list_mset_eq)
    then show ?thesis
      using k(2) d1 over_retention_cong [of s1 s] by (simp add: filter_map comp_def)
  qed
  ultimately show ?thesis using some d1 by simp
qed

lemma sorted_prefix_before:
  "sorted (map f xs) \<Longrightarrow> x \<in> set (take k xs) \<Longrightarrow> y \<in> set xs \<Longrightarrow> y \<notin> set (take k xs) \<Longrightarrow> f x \<le> f y"
proof -
  assume a: "sorted (map f xs)" "x \<in> set (take k xs)" "y \<in> set xs" "y \<notin> set (take k xs)"
  have "xs = take k xs @ drop k xs" by simp
  then have "y \<in> set (drop k xs)" using a(3,4) by (metis Un_iff set_append)
  moreover have "sorted (map f (take k xs) @ map f (drop k xs))"
    using a(1) by (metis append_take_drop_id map_append)
  ultimately show ?thesis using a(2) by (auto simp: sorted_append)
qed

text \<open>What a capture that succeeds has stored.\<close>

lemma capture_stored:
  assumes "capture enc rm written now i d w s paths = (s', None)"
  obtains ps entries c s1 where "resolve_unique_paths (dk_fs d) w paths = Inr ps"
    "take_snapshots d w 0 ps = Inr entries"
    "c = \<lparr>cp_version = 1, cp_id = i, cp_root = ws_root w, cp_created = now, cp_entries = entries\<rparr>"
    "s1 = s\<lparr>cs_files := AList.update i (c, now) (cs_files s)\<rparr>"
    "prune_retention enc rm now i s1 = (s', True)"
proof -
  from assms obtain ps entries where r: "resolve_unique_paths (dk_fs d) w paths = Inr ps"
      "take_snapshots d w 0 ps = Inr entries"
    by (auto simp: capture_def split: if_splits sum.splits)
  let ?c = "\<lparr>cp_version = 1, cp_id = i, cp_root = ws_root w, cp_created = now, cp_entries = entries\<rparr>"
  let ?s = "s\<lparr>cs_files := AList.update i (?c, now) (cs_files s)\<rparr>"
  obtain s2 b where p: "prune_retention enc rm now i ?s = (s2, b)" by fastforce
  from assms r p have "b = True \<and> s2 = s'"
    by (cases b) (auto simp: capture_def Let_def split: if_splits)
  with p r that show ?thesis by blast
qed

lemma prune_keeps:
  assumes "prune_retention enc rm now i s = (s', True)" "distinct (map fst (cs_files s))"
  shows "set (cs_files s') \<subseteq> set (cs_files s) \<and> distinct (map fst (cs_files s')) \<and>
    map_of (cs_files s') i = map_of (cs_files s) i"
  using assms(1,2)
proof (cases rule: prune_done)
  case (some k rest vs)
  have "i \<notin> set vs" unfolding some(2) by (auto dest: in_set_takeD)
  let ?P = "\<lambda>f. fst f \<notin> set (expired_checkpoints s now i) \<and> fst f \<notin> set vs"
  have f: "cs_files s' = filter ?P (cs_files s)" using some(1,3) by (simp add: filter_filter)
  have "map_of (filter ?P xs) i = map_of xs i" for xs :: "(string \<times> checkpoint \<times> nat) list"
    using expired_keep \<open>i \<notin> set vs\<close> by (induction xs) auto
  with f assms(2) show ?thesis by (simp add: distinct_map_filter)
qed (use assms(2) in simp)

subsection \<open>Properties\<close>

text \<open>
  What was captured can be put back. When a capture has succeeded and a later restore of its id
  succeeds, whatever happened to the disk in between, every captured path is again what it was:
  a file with its content and its permissions, or nothing where nothing was; and no other path
  is touched.
\<close>

lemma restore_captured:
  assumes "disk_ok w d" "fs_ok (dk_fs d2)" "ws_wf w" "distinct (map fst (cs_files st))"
    and "capture enc rm written now i d w st paths = (st1, None)"
    and "map_of (cs_files st2) i = map_of (cs_files st1) i"
    and "restore enc g d2 w ses st2 i os = (d3, ses', None)"
  shows "\<exists>ps. resolve_unique_paths (dk_fs d) w paths = Inr ps \<and>
    (\<forall>p. dk_nodes d3 p = (if p \<in> set ps then dk_nodes d p else dk_nodes d2 p))"
proof -
  from assms(5) obtain ps entries c s1 where c: "resolve_unique_paths (dk_fs d) w paths = Inr ps"
    "take_snapshots d w 0 ps = Inr entries"
    "c = \<lparr>cp_version = 1, cp_id = i, cp_root = ws_root w, cp_created = now, cp_entries = entries\<rparr>"
    "s1 = st\<lparr>cs_files := AList.update i (c, now) (cs_files st)\<rparr>"
    "prune_retention enc rm now i s1 = (st1, True)"
    by (rule capture_stored)
  have "distinct (map fst (cs_files s1))" using c(4) assms(4) by (simp add: distinct_update)
  with prune_keeps [OF c(5)] c(4) assms(6) have m: "map_of (cs_files st2) i = Some (c, now)"
    by (simp add: update_conv')
  have "cp_entries c = entries" using c(3) by simp
  with assms(7) m obtain es where es: "validate_entries (dk_fs d2) w [] 0 entries = Inr es"
      "restore_entries d2 w es os = (d3, None)"
    by (auto simp: restore_def split: if_splits sum.splits guard_result.splits prod.splits option.splits)
  note v = validate_entries_all [OF es(1)]
  note u = resolve_unique [of "dk_fs d", OF _ c(1)]
  have ok: "fs_ok (dk_fs d)" "is_abs (ws_root w)" using assms(1,3) by (simp_all add: disk_ok_def ws_wf_def)
  have snaps: "list_all2 (\<lambda>p s. snapshot_file d w p = Inr s) ps (map snd es)"
    using take_snapshots_all [OF c(2)] v by simp
  then have len: "length ps = length es" by (simp add: list_all2_conv_all_nth)
  have one: "fst (es ! j) = ps ! j \<and> restored_node (snd (es ! j)) = dk_nodes d (ps ! j)" if j: "j < length es" for j
  proof -
    have "snapshot_file d w (ps ! j) = Inr (snd (es ! j))"
      using snaps j len by (simp add: list_all2_conv_all_nth)
    note r = snapshot_restores [OF assms(1) this]
    have "resolve_path (dk_fs d2) False w (sn_path (snd (es ! j))) = Inr (fst (es ! j))"
      using v j by (auto simp: case_prod_beta)
    moreover have "ps ! j \<in> set ps" using j len by simp
    then have "is_abs (ps ! j)" "clean_path (ps ! j) = ps ! j" using u [OF ok(1)] by blast+
    ultimately have "fst (es ! j) = ps ! j" using resolve_relative [OF ok(2)] r by blast
    with r show ?thesis by simp
  qed
  have fst: "map fst es = ps" using one len by (intro nth_equalityI) simp_all
  have "dk_nodes d3 p = (if p \<in> set ps then dk_nodes d p else dk_nodes d2 p)" for p
  proof (cases "map_of es p")
    case None
    then have "p \<notin> set ps" unfolding fst [symmetric] by (simp add: map_of_eq_None_iff)
    with None restore_entries_done [OF es(2)] v show ?thesis by simp
  next
    case (Some sn)
    then obtain j where "j < length es" "es ! j = (p, sn)" by (metis in_set_conv_nth map_of_SomeD)
    with one [of j] len have "p \<in> set ps" "restored_node sn = dk_nodes d p" by (auto simp: in_set_conv_nth)
    with Some restore_entries_done [OF es(2)] v show ?thesis by simp
  qed
  with c(1) show ?thesis by blast
qed

text \<open>
  C32: Retention keeps the new checkpoint and drops the oldest. After a capture that succeeds, the
  new record is in the store under its id and nothing else was added; the number and the size
  of the files are within the limits that are set, no other file is older than the limit of
  age; and a file that was dropped without being too old is not newer than any that was kept.
\<close>

theorem capture_retention:
  assumes "distinct (map fst (cs_files s))"
    and "capture enc rm written now i d w s paths = (s', None)"
  shows "\<exists>c. map_of (cs_files s') i = Some (c, now) \<and> cp_id c = i \<and>
    set (cs_files s') \<subseteq> insert (i, c, now) (set (cs_files s)) \<and>
    (0 < cs_max_count s \<longrightarrow> int (length (cs_files s')) \<le> cs_max_count s) \<and>
    (0 < cs_max_bytes s \<longrightarrow> (\<Sum>f \<leftarrow> cs_files s'. enc (fst (snd f))) \<le> cs_max_bytes s) \<and>
    (\<forall>f \<in> set (cs_files s'). 0 < cs_max_age s \<and> fst f \<noteq> i \<longrightarrow> int now - int (snd (snd f)) < cs_max_age s) \<and>
    (\<forall>f \<in> set (cs_files s) - set (cs_files s'). \<forall>g \<in> set (cs_files s').
      fst f \<noteq> i \<and> fst g \<noteq> i \<and> \<not> (0 < cs_max_age s \<and> cs_max_age s \<le> int now - int (snd (snd f))) \<longrightarrow>
      retained_key f \<le> retained_key g)"
proof -
  from assms(2) obtain ps entries c s1 where c:
    "c = \<lparr>cp_version = 1, cp_id = i, cp_root = ws_root w, cp_created = now, cp_entries = entries\<rparr>"
    "s1 = s\<lparr>cs_files := AList.update i (c, now) (cs_files s)\<rparr>"
    "prune_retention enc rm now i s1 = (s', True)"
    by (rule capture_stored)
  have dis: "distinct (map fst (cs_files s1))" using c(2) assms(1) by (simp add: distinct_update)
  have mof: "map_of (cs_files s1) i = Some (c, now)" using c(2) by (simp add: update_conv')
  note k = prune_keeps [OF c(3) dis]
  have upd: "set (cs_files s1) \<subseteq> insert (i, c, now) (set (cs_files s))"
    "f \<in> set (cs_files s) \<Longrightarrow> fst f \<noteq> i \<Longrightarrow> f \<in> set (cs_files s1)" for f
  proof -
    have "set (AList.update i v xs) \<subseteq> insert (i, v) (set xs) \<and>
        (f \<in> set xs \<longrightarrow> fst f \<noteq> i \<longrightarrow> f \<in> set (AList.update i v xs))" for v xs
      by (induction xs) auto
    then show "set (cs_files s1) \<subseteq> insert (i, c, now) (set (cs_files s))"
      "f \<in> set (cs_files s) \<Longrightarrow> fst f \<noteq> i \<Longrightarrow> f \<in> set (cs_files s1)" using c(2) by auto
  qed
  have limits: "cs_max_count s1 = cs_max_count s" "cs_max_bytes s1 = cs_max_bytes s" "cs_max_age s1 = cs_max_age s"
    using c(2) by simp_all
  from c(3) dis show ?thesis
  proof (cases rule: prune_done)
    case all
    with c(1) mof upd limits show ?thesis by auto
  next
    case (some k rest vs)
    let ?old = "\<lambda>f :: string \<times> checkpoint \<times> nat. 0 < cs_max_age s \<and> cs_max_age s \<le> int now - int (snd (snd f))"
    have ex: "f \<in> set rest \<longleftrightarrow> f \<in> set (cs_files s1) \<and> (fst f = i \<or> \<not> ?old f)" if "f \<in> set (cs_files s1)" for f
      using that dis limits some(1)
      by (auto simp: expired_checkpoints_def distinct_map inj_on_def case_prod_beta)
    have bound: "(0 < cs_max_count s \<longrightarrow> int (length (cs_files s')) \<le> cs_max_count s) \<and>
        (0 < cs_max_bytes s \<longrightarrow> (\<Sum>f \<leftarrow> cs_files s'. enc (fst (snd f))) \<le> cs_max_bytes s)"
      using some(4) limits by (auto simp: over_retention_def)
    have age: "\<not> ?old f" if "f \<in> set (cs_files s')" "fst f \<noteq> i" for f
      using that ex [of f] k some(3) by auto
    have order: "retained_key f \<le> retained_key g"
      if "f \<in> set (cs_files s)" "f \<notin> set (cs_files s')" "g \<in> set (cs_files s')" "fst f \<noteq> i" "fst g \<noteq> i" "\<not> ?old f" for f g
    proof -
      let ?l = "filter (\<lambda>f. fst f \<noteq> i) (sort_key retained_key rest)"
      have f1: "f \<in> set rest" using ex [of f] upd(2) that(1,4,6) by blast
      with that(2) some(3) have "fst f \<in> set vs" by simp
      then obtain f' where "f' \<in> set (take k ?l)" "fst f' = fst f" unfolding some(2) by auto
      moreover from this have "f' \<in> set rest" by (auto dest: in_set_takeD)
      ultimately have "f \<in> set (take k ?l)"
        using f1 some(1) dis by (auto simp: distinct_map inj_on_def)
      moreover have "sorted (map retained_key ?l)" by (rule sorted_filter) simp
      moreover have "g \<in> set ?l" "g \<notin> set (take k ?l)" using that(3,5) some(2,3) by auto
      ultimately show ?thesis by (intro sorted_prefix_before [of retained_key ?l f k g])
    qed
    have "map_of (cs_files s') i = Some (c, now)" "cp_id c = i" using k mof c(1) by simp_all
    moreover have "set (cs_files s') \<subseteq> insert (i, c, now) (set (cs_files s))" using k upd(1) by blast
    moreover have "\<forall>f \<in> set (cs_files s'). 0 < cs_max_age s \<and> fst f \<noteq> i \<longrightarrow> int now - int (snd (snd f)) < cs_max_age s"
      using age by (meson not_le)
    moreover have "\<forall>f \<in> set (cs_files s) - set (cs_files s'). \<forall>g \<in> set (cs_files s').
        fst f \<noteq> i \<and> fst g \<noteq> i \<and> \<not> ?old f \<longrightarrow> retained_key f \<le> retained_key g"
      using order by blast
    ultimately show ?thesis using bound by blast
  qed
qed

text \<open>
  A checkpoint that is too large for the store empties it. With a limit of bytes below the
  size of the new record, the older checkpoints are removed one after the other before the
  capture fails, and the new one is removed as well.
\<close>

theorem oversized_capture_empties:
  "let c = (\<lambda>i. \<lparr>cp_version = 1, cp_id = i, cp_root = ''/w'', cp_created = 1, cp_entries = []\<rparr>);
       s = \<lparr>cs_files = [(''checkpoint-1'', c ''checkpoint-1'', 1), (''checkpoint-2'', c ''checkpoint-2'', 2)],
            cs_max_count = 0, cs_max_bytes = 50, cs_max_age = 0\<rparr>;
       d = \<lparr>dk_nodes = Map.empty, dk_fs = small_fs\<rparr>
   in capture (\<lambda>c. if cp_entries c = [] then 10 else 60) (\<lambda>i. True) True 3 ''checkpoint-3'' d small_ws s [''a''] =
      (s\<lparr>cs_files := []\<rparr>, Some EdCheckpoint)"
  by code_simp

subsection \<open>Witnesses\<close>

definition small_disk :: disk where
  "small_disk = \<lparr>dk_nodes = [''/w/a'' \<mapsto> RegularFile ''one'' 420], dk_fs = small_fs\<rparr>"

definition changed_disk :: disk where
  "changed_disk = \<lparr>dk_nodes = [''/w/a'' \<mapsto> RegularFile ''two'' 420, ''/w/b'' \<mapsto> RegularFile ''new'' 420], dk_fs = small_fs\<rparr>"

definition small_store :: checkpoint_store where
  "small_store = \<lparr>cs_files = [], cs_max_count = 128, cs_max_bytes = 1000, cs_max_age = 100\<rparr>"

lemma small_disk_ok: "disk_ok small_ws small_disk"
proof -
  have "is_ok (open_parent small_fs False small_ws ''/w/a'' False)" by code_simp
  then show ?thesis
    using small_fs_ok by (auto simp: disk_ok_def small_disk_def split: if_splits)
qed

definition stored :: checkpoint_store where
  "stored = fst (capture (\<lambda>c. 100) (\<lambda>i. True) True 5 ''checkpoint-5'' small_disk small_ws small_store [''a'', ''b''])"

lemma stored_ok:
  "capture (\<lambda>c. 100) (\<lambda>i. True) True 5 ''checkpoint-5'' small_disk small_ws small_store [''a'', ''b''] = (stored, None)"
proof -
  have "snd (capture (\<lambda>c. 100) (\<lambda>i. True) True 5 ''checkpoint-5'' small_disk small_ws small_store [''a'', ''b'']) = None"
    by code_simp
  then show ?thesis by (simp add: stored_def prod_eq_iff)
qed

theorem capture_retention_witness:
  "\<exists>c. map_of (cs_files stored) ''checkpoint-5'' = Some (c, 5) \<and> cp_id c = ''checkpoint-5'' \<and>
    int (length (cs_files stored)) \<le> 128"
  using capture_retention [OF _ stored_ok] by (auto simp: small_store_def)

end
