(* ===== verification/Edit_Patch.thy ===== *)
theory Edit_Patch
  imports Patch_Text Checkpoints Tool_Domain
begin

text \<open>
  The edit tool's patches: \<open>planPatch\<close> and \<open>Execute\<close> of \<open>apply_patch.go\<close>, with
  \<open>prepareWorkspaceMutation\<close> of \<open>mutation_safety.go\<close>, in
  \<open>internal/adapter/out/tool/builtin\<close>. A patch is planned against the files as they are, the
  files it names are captured, and then its changes are made one after the other.

  The state is the disk, the session that owns changes, and the checkpoint store, if there is
  one. What the operating system and the libraries answer is the record \<open>edit_env\<close>: the length
  of an encoded checkpoint, which files of the store can be removed, whether the checkpoint can be
  written, the time, the new id, the run of git, and SHA-256.
\<close>

record edit_env =
  ee_enc :: "checkpoint \<Rightarrow> int"
  ee_rm :: "string \<Rightarrow> bool"
  ee_written :: bool
  ee_now :: nat
  ee_id :: string
  ee_git :: git_run
  ee_sha :: "string \<Rightarrow> string"

record edit_state =
  es_disk :: disk
  es_session :: "mutation_session option"
  es_store :: "checkpoint_store option"

subsection \<open>Preparing a mutation\<close>

definition prepare_guard :: "edit_env \<Rightarrow> workspace \<Rightarrow> safety_contract \<Rightarrow> edit_state \<Rightarrow> string list \<Rightarrow> guard_result" where
  "prepare_guard env w contract st guarded =
     (if mutation_safety contract = SafetyWholeFile \<or> guarded \<noteq> []
      then guard_whole_file_mutation (ee_git env) (es_session st) w guarded else GuardPasses)"

definition prepare_capture :: "edit_env \<Rightarrow> workspace \<Rightarrow> edit_state \<Rightarrow> string list \<Rightarrow>
    edit_state \<times> (edit_error, string) result" where
  "prepare_capture env w st paths =
     (case es_store st of
        None \<Rightarrow> (st, Inl EdCheckpoint)
      | Some s \<Rightarrow>
          (case capture (ee_enc env) (ee_rm env) (ee_written env) (ee_now env) (ee_id env) (es_disk st) w s paths of
             (s', Some e) \<Rightarrow> (st\<lparr>es_store := Some s'\<rparr>, Inl e)
           | (s', None) \<Rightarrow> (st\<lparr>es_store := Some s'\<rparr>, Inr (ee_id env))))"

definition prepare_mutation :: "edit_env \<Rightarrow> workspace \<Rightarrow> safety_contract \<Rightarrow> edit_state \<Rightarrow> string list \<Rightarrow>
    string list \<Rightarrow> edit_state \<times> (edit_error, string) result" where
  "prepare_mutation env w contract st guarded paths =
     (if mutation_domain contract \<noteq> DomainWorkspace then (st, Inl EdInvalid)
      else case prepare_guard env w contract st guarded of
          GuardPasses \<Rightarrow>
            (case checkpoint_policy contract of
               CheckpointNone \<Rightarrow> (st, Inr [])
             | CheckpointRequired \<Rightarrow>
                 if paths = [] then (st, Inl EdCheckpoint) else prepare_capture env w st paths
             | CheckpointWhenKnown \<Rightarrow>
                 if paths = [] \<or> es_store st = None then (st, Inr []) else prepare_capture env w st paths
             | CheckpointUnspecified \<Rightarrow> (st, Inl EdCheckpoint))
        | r \<Rightarrow> (st, Inl (EdGuard r)))"

subsection \<open>Planning\<close>

record planned_change =
  pl_kind :: patch_operation_kind
  pl_path :: string
  pl_display :: string
  pl_move :: string
  pl_dest :: string
  pl_content :: string
  pl_old :: string

definition plan_add :: "disk \<Rightarrow> patch_operation \<Rightarrow> string \<Rightarrow> (edit_error, planned_change) result" where
  "plan_add d po p =
     (case require_missing d p of
        Some e \<Rightarrow> Inl e
      | None \<Rightarrow> Inr \<lparr>pl_kind = PkAdd, pl_path = p, pl_display = po_path po, pl_move = [], pl_dest = [],
          pl_content = po_content po, pl_old = []\<rparr>)"

definition plan_delete :: "disk \<Rightarrow> workspace \<Rightarrow> patch_operation \<Rightarrow> string \<Rightarrow> (edit_error, planned_change) result" where
  "plan_delete d w po p =
     (case read_edit_file d w p of
        Inl e \<Rightarrow> Inl e
      | Inr None \<Rightarrow> Inl EdMissing
      | Inr (Some c) \<Rightarrow> Inr \<lparr>pl_kind = PkDelete, pl_path = p, pl_display = po_path po, pl_move = [],
          pl_dest = [], pl_content = [], pl_old = c\<rparr>)"

definition plan_update :: "disk \<Rightarrow> workspace \<Rightarrow> patch_operation \<Rightarrow> string \<Rightarrow> (edit_error, planned_change) result" where
  "plan_update d w po p =
     (case read_edit_file d w p of
        Inl e \<Rightarrow> Inl e
      | Inr None \<Rightarrow> Inl EdMissing
      | Inr (Some c) \<Rightarrow>
          (case derive_patched c (po_chunks po) of
             Inl e \<Rightarrow> Inl EdPatch
           | Inr u \<Rightarrow>
               let change = \<lparr>pl_kind = PkUpdate, pl_path = p, pl_display = po_path po, pl_move = po_move po,
                     pl_dest = [], pl_content = u, pl_old = c\<rparr> in
               if po_move po = [] then Inr change
               else case resolve_path (dk_fs d) False w (po_move po) of
                   Inl e \<Rightarrow> Inl (EdWorkspace e)
                 | Inr q \<Rightarrow>
                     (case require_missing d q of
                        Some e \<Rightarrow> Inl e
                      | None \<Rightarrow> Inr (change\<lparr>pl_dest := q\<rparr>))))"

definition plan_operation :: "disk \<Rightarrow> workspace \<Rightarrow> patch_operation \<Rightarrow> (edit_error, planned_change) result" where
  "plan_operation d w po =
     (case resolve_path (dk_fs d) False w (po_path po) of
        Inl e \<Rightarrow> Inl (EdWorkspace e)
      | Inr p \<Rightarrow>
          (case po_kind po of
             PkAdd \<Rightarrow> plan_add d po p
           | PkDelete \<Rightarrow> plan_delete d w po p
           | PkUpdate \<Rightarrow> plan_update d w po p
           | PkUnknown \<Rightarrow> Inl EdInvalid))"

fun plan_patch :: "disk \<Rightarrow> workspace \<Rightarrow> patch_operation list \<Rightarrow> (edit_error, planned_change list) result" where
  "plan_patch d w [] = Inr []"
| "plan_patch d w (po # ops) =
     (case plan_operation d w po of
        Inl e \<Rightarrow> Inl e
      | Inr c \<Rightarrow> (case plan_patch d w ops of Inl e \<Rightarrow> Inl e | Inr cs \<Rightarrow> Inr (c # cs)))"

subsection \<open>Making the changes\<close>

text \<open>One change; it takes two outcomes when the file is moved, one otherwise.\<close>

definition apply_change :: "disk \<Rightarrow> workspace \<Rightarrow> planned_change \<Rightarrow> io \<Rightarrow> disk \<times> edit_error option" where
  "apply_change d w c os =
     (case pl_kind c of
        PkUnknown \<Rightarrow> (d, Some EdInvalid)
      | PkDelete \<Rightarrow> remove_workspace_file d w (pl_path c) os
      | _ \<Rightarrow>
          if pl_dest c = [] then atomic_write d w (pl_path c) (pl_content c) os
          else case atomic_write d w (pl_dest c) (pl_content c) os of
              (d1, Some e) \<Rightarrow> (d1, Some e)
            | (d1, None) \<Rightarrow> remove_workspace_file d1 w (pl_path c) (tl os))"

definition change_steps :: "planned_change \<Rightarrow> nat" where
  "change_steps c = (if pl_dest c = [] then 1 else 2)"

fun apply_changes :: "disk \<Rightarrow> workspace \<Rightarrow> planned_change list \<Rightarrow> io \<Rightarrow> disk \<times> edit_error option" where
  "apply_changes d w [] os = (d, None)"
| "apply_changes d w (c # cs) os =
     (case apply_change d w c os of
        (d', Some e) \<Rightarrow> (d', Some e)
      | (d', None) \<Rightarrow> apply_changes d' w cs (drop (change_steps c) os))"

definition risky_paths :: "planned_change list \<Rightarrow> string list" where
  "risky_paths cs = concat (map (\<lambda>c.
     (if pl_kind c = PkDelete \<or> pl_dest c \<noteq> [] then [pl_path c] else []) @
     (if pl_dest c \<noteq> [] then [pl_dest c] else [])) cs)"

definition checkpoint_paths :: "planned_change list \<Rightarrow> string list" where
  "checkpoint_paths cs = concat (map (\<lambda>c. pl_path c # (if pl_dest c \<noteq> [] then [pl_dest c] else [])) cs)"

definition patch_contract :: safety_contract where
  "patch_contract = \<lparr>mutation_domain = DomainWorkspace, mutation_safety = SafetyDynamic,
     checkpoint_policy = CheckpointRequired, boundary = BoundaryWorkspaceWrite\<rparr>"

definition operation_letter :: "patch_operation_kind \<Rightarrow> string" where
  "operation_letter k = (case k of PkAdd \<Rightarrow> ''A '' | PkDelete \<Rightarrow> ''D '' | _ \<Rightarrow> ''M '')"

definition patch_output :: "patch_operation list \<Rightarrow> string" where
  "patch_output ops = ''Success. Updated the following files:'' @ [newline] @
     concat (map (\<lambda>po. operation_letter (po_kind po) @ po_path po @ [newline]) ops)"

definition affected_paths :: "patch_operation list \<Rightarrow> string list" where
  "affected_paths ops = concat (map (\<lambda>po. po_path po # (if po_move po \<noteq> [] then [po_move po] else [])) ops)"

record edit_result =
  er_checkpoint :: string
  er_output :: string
  er_affected :: "string list"
  er_error :: "edit_error option"

definition edit_failure :: "string \<Rightarrow> edit_error \<Rightarrow> edit_result" where
  "edit_failure i e = \<lparr>er_checkpoint = i, er_output = [], er_affected = [], er_error = Some e\<rparr>"

definition execute_patch :: "edit_env \<Rightarrow> workspace \<Rightarrow> edit_state \<Rightarrow> string \<Rightarrow> io \<Rightarrow> edit_state \<times> edit_result" where
  "execute_patch env w st text os =
     (if trim_space text = [] then (st, edit_failure [] EdInvalid)
      else case parse_patch text of
          Inl e \<Rightarrow> (st, edit_failure [] EdPatch)
        | Inr ops \<Rightarrow>
            (case plan_patch (es_disk st) w ops of
               Inl e \<Rightarrow> (st, edit_failure [] e)
             | Inr cs \<Rightarrow>
                 (case prepare_mutation env w patch_contract st (risky_paths cs) (checkpoint_paths cs) of
                    (st1, Inl e) \<Rightarrow> (st1, edit_failure [] e)
                  | (st1, Inr i) \<Rightarrow>
                      (case apply_changes (es_disk st1) w cs os of
                         (d, Some e) \<Rightarrow> (st1\<lparr>es_disk := d\<rparr>, edit_failure i e)
                       | (d, None) \<Rightarrow>
                           (st1\<lparr>es_disk := d,
                              es_session := mark_mutation_owned (es_session st1) w (checkpoint_paths cs)\<rparr>,
                            \<lparr>er_checkpoint = i, er_output = patch_output ops,
                             er_affected = affected_paths ops, er_error = None\<rparr>)))))"

subsection \<open>Lemmas: one change\<close>

lemma resolve_self:
  "is_abs p \<Longrightarrow> clean_path p = p \<Longrightarrow> resolve_path fs False w p = Inr r \<Longrightarrow> r = p"
  by (auto simp: resolve_path_def split: if_splits option.splits)

definition settled_path :: "string \<Rightarrow> bool" where
  "settled_path p \<longleftrightarrow> is_abs p \<and> clean_path p = p"

definition planned_ok :: "planned_change \<Rightarrow> bool" where
  "planned_ok c \<longleftrightarrow> settled_path (pl_path c) \<and> (pl_dest c = [] \<or> settled_path (pl_dest c))"

lemma atomic_write_frame:
  assumes "settled_path p" "atomic_write d w p c os = (d', r)" "q \<noteq> p"
  shows "dk_nodes d' q = dk_nodes d q"
proof (cases "resolve_path (dk_fs d) False w p")
  case (Inr s)
  with assms(1) have "s = p" using resolve_self unfolding settled_path_def by blast
  with Inr assms(2,3) write_frame [of d w p c os d' r q] show ?thesis by (simp add: atomic_write_def)
qed (use assms in \<open>simp add: atomic_write_def\<close>)

lemma atomic_write_ok:
  assumes "settled_path p" "atomic_write d w p c os = (d', None)"
  shows "\<exists>m. dk_nodes d' = (dk_nodes d)(p \<mapsto> RegularFile c m)"
proof (cases "resolve_path (dk_fs d) False w p")
  case (Inr s)
  with assms(1) have "s = p" using resolve_self unfolding settled_path_def by blast
  with Inr assms(2) write_ok [of d w p c os d'] show ?thesis by (auto simp: atomic_write_def)
qed (use assms in \<open>simp add: atomic_write_def\<close>)

lemma apply_change_frame:
  assumes "planned_ok c" "apply_change d w c os = (d', r)" "q \<noteq> pl_path c" "q \<noteq> pl_dest c"
  shows "dk_nodes d' q = dk_nodes d q"
proof -
  have s: "settled_path (pl_path c)" "pl_dest c \<noteq> [] \<Longrightarrow> settled_path (pl_dest c)"
    using assms(1) by (auto simp: planned_ok_def)
  show ?thesis
  proof (cases "pl_kind c = PkUnknown \<or> pl_kind c = PkDelete \<or> pl_dest c = []")
    case True
    with assms(2,3) s(1) show ?thesis
      by (auto simp: apply_change_def intro: atomic_write_frame remove_frame
          split: patch_operation_kind.splits if_splits)
  next
    case False
    obtain d1 e where w: "atomic_write d w (pl_dest c) (pl_content c) os = (d1, e)" by fastforce
    have "dk_nodes d1 q = dk_nodes d q" using atomic_write_frame [OF s(2) w assms(4)] False by simp
    with False w assms(2,3) show ?thesis
      by (auto simp: apply_change_def dest: remove_frame
          split: patch_operation_kind.splits option.splits)
  qed
qed

text \<open>What one change that succeeds makes of the files.\<close>

definition change_done :: "planned_change \<Rightarrow> (string \<Rightarrow> node option) \<Rightarrow> bool" where
  "change_done c n =
     (if pl_kind c = PkDelete then n (pl_path c) = None
      else if pl_dest c = [] then \<exists>m. n (pl_path c) = Some (RegularFile (pl_content c) m)
      else n (pl_path c) = None \<and> (\<exists>m. n (pl_dest c) = Some (RegularFile (pl_content c) m)))"

lemma apply_change_done:
  assumes "planned_ok c" "apply_change d w c os = (d', None)" "pl_dest c \<noteq> pl_path c"
  shows "change_done c (dk_nodes d')"
proof -
  have s: "settled_path (pl_path c)" "pl_dest c \<noteq> [] \<Longrightarrow> settled_path (pl_dest c)"
    using assms(1) by (auto simp: planned_ok_def)
  show ?thesis
  proof (cases "pl_kind c = PkDelete")
    case True
    with assms(2) remove_ok show ?thesis by (fastforce simp: apply_change_def change_done_def)
  next
    case False
    show ?thesis
    proof (cases "pl_dest c = []")
      case True
      with False assms(2) have "atomic_write d w (pl_path c) (pl_content c) os = (d', None)"
        by (auto simp: apply_change_def split: patch_operation_kind.splits)
      from atomic_write_ok [OF s(1) this] True False show ?thesis by (auto simp: change_done_def)
    next
      case moved: False
      with False assms(2) obtain d1 where
        w: "atomic_write d w (pl_dest c) (pl_content c) os = (d1, None)"
          "remove_workspace_file d1 w (pl_path c) (tl os) = (d', None)"
        by (auto simp: apply_change_def split: patch_operation_kind.splits prod.splits option.splits)
      from atomic_write_ok [OF s(2) [OF moved] w(1)] remove_ok [OF w(2)] moved False assms(3)
      show ?thesis by (auto simp: change_done_def)
    qed
  qed
qed

lemma apply_changes_frame:
  "apply_changes d w cs os = (d', r) \<Longrightarrow> list_all planned_ok cs \<Longrightarrow> q \<notin> set (checkpoint_paths cs) \<Longrightarrow> q \<noteq> [] \<Longrightarrow>
   dk_nodes d' q = dk_nodes d q"
proof (induction d w cs os rule: apply_changes.induct)
  case (2 d w c cs os)
  obtain d1 e where a: "apply_change d w c os = (d1, e)" by fastforce
  have q: "q \<noteq> pl_path c" "q \<noteq> pl_dest c" "q \<notin> set (checkpoint_paths cs)"
    using "2.prems"(3,4) by (auto simp: checkpoint_paths_def split: if_splits)
  have one: "dk_nodes d1 q = dk_nodes d q"
    using apply_change_frame [OF _ a q(1,2)] "2.prems"(2) by simp
  show ?case
  proof (cases e)
    case None
    with "2.IH" [OF a [symmetric] None] "2.prems" a q(3) one show ?thesis by simp
  qed (use "2.prems"(1) a one in auto)
qed simp

lemma apply_changes_done:
  "apply_changes d w cs os = (d', None) \<Longrightarrow> list_all planned_ok cs \<Longrightarrow> distinct (checkpoint_paths cs) \<Longrightarrow>
   \<forall>c \<in> set cs. pl_path c \<noteq> [] \<Longrightarrow> c \<in> set cs \<Longrightarrow> change_done c (dk_nodes d')"
proof (induction d w cs os rule: apply_changes.induct)
  case (2 d w c1 cs os)
  from "2.prems"(1) obtain d1 where a: "apply_change d w c1 os = (d1, None)"
      "apply_changes d1 w cs (drop (change_steps c1) os) = (d', None)"
    by (auto split: prod.splits option.splits)
  have dis: "distinct (checkpoint_paths cs)" "pl_path c1 \<notin> set (checkpoint_paths cs)"
      "pl_dest c1 \<noteq> pl_path c1" "pl_dest c1 \<noteq> [] \<Longrightarrow> pl_dest c1 \<notin> set (checkpoint_paths cs)"
    using "2.prems"(3,4) by (auto simp: checkpoint_paths_def split: if_splits)
  show ?case
  proof (cases "c \<in> set cs")
    case True
    with "2.IH" [OF a(1) [symmetric] refl a(2)] "2.prems" dis(1) show ?thesis by simp
  next
    case False
    then have c: "c = c1" using "2.prems"(5) by simp
    have "change_done c1 (dk_nodes d1)" using apply_change_done [OF _ a(1) dis(3)] "2.prems"(2) by simp
    moreover have "dk_nodes d' (pl_path c1) = dk_nodes d1 (pl_path c1)"
      using apply_changes_frame [OF a(2) _ dis(2)] "2.prems"(2,4) by simp
    moreover have "pl_dest c1 \<noteq> [] \<Longrightarrow> dk_nodes d' (pl_dest c1) = dk_nodes d1 (pl_dest c1)"
      using apply_changes_frame [OF a(2) _ dis(4)] "2.prems"(2) by simp
    ultimately show ?thesis unfolding c change_done_def by auto
  qed
qed simp

subsection \<open>Lemmas: the plan\<close>

text \<open>What a planned change has to do with its operation and the files it was planned against.\<close>

definition planned_for :: "workspace \<Rightarrow> disk \<Rightarrow> patch_operation \<Rightarrow> planned_change \<Rightarrow> bool" where
  "planned_for w d po c \<longleftrightarrow>
     resolve_path (dk_fs d) False w (po_path po) = Inr (pl_path c) \<and> pl_kind c = po_kind po \<and>
     (case po_kind po of
        PkAdd \<Rightarrow> pl_dest c = [] \<and> pl_content c = po_content po \<and> fs_lstat (dk_fs d) (pl_path c) = LMissing
      | PkDelete \<Rightarrow> pl_dest c = [] \<and> read_edit_file d w (pl_path c) = Inr (Some (pl_old c))
      | PkUpdate \<Rightarrow> read_edit_file d w (pl_path c) = Inr (Some (pl_old c)) \<and>
          derive_patched (pl_old c) (po_chunks po) = Inr (pl_content c) \<and>
          (if po_move po = [] then pl_dest c = []
           else resolve_path (dk_fs d) False w (po_move po) = Inr (pl_dest c) \<and>
             fs_lstat (dk_fs d) (pl_dest c) = LMissing)
      | PkUnknown \<Rightarrow> False)"

lemma plan_operation_for:
  "plan_operation d w po = Inr c \<Longrightarrow> planned_for w d po c"
  by (auto simp: plan_operation_def plan_add_def plan_delete_def plan_update_def planned_for_def Let_def
      require_missing_def
      split: sum.splits option.splits patch_operation_kind.splits if_splits lstat_result.splits)

lemma plan_patch_for:
  "plan_patch d w ops = Inr cs \<Longrightarrow> list_all2 (planned_for w d) ops cs"
proof (induction ops arbitrary: cs)
  case (Cons po ops)
  then show ?case by (auto split: sum.splits dest: plan_operation_for)
qed simp

lemma resolved_settled: "fs_ok fs \<Longrightarrow> resolve_path fs False w p = Inr q \<Longrightarrow> settled_path q \<and> q \<noteq> []"
  using resolve_path_abs [of fs False w p q] by (auto simp: settled_path_def is_abs_def has_prefix_def)

lemma planned_for_ok:
  assumes "fs_ok (dk_fs d)" "planned_for w d po c"
  shows "planned_ok c \<and> pl_path c \<noteq> []"
proof -
  from assms(2) have p: "resolve_path (dk_fs d) False w (po_path po) = Inr (pl_path c)"
    and q: "pl_dest c = [] \<or> resolve_path (dk_fs d) False w (po_move po) = Inr (pl_dest c)"
    by (auto simp: planned_for_def split: patch_operation_kind.splits if_splits)
  from q have "pl_dest c = [] \<or> settled_path (pl_dest c)" using resolved_settled [OF assms(1)] by blast
  with resolved_settled [OF assms(1) p] show ?thesis by (simp add: planned_ok_def)
qed

lemma plan_patch_ok:
  assumes "fs_ok (dk_fs d)" "plan_patch d w ops = Inr cs"
  shows "list_all planned_ok cs \<and> (\<forall>c \<in> set cs. pl_path c \<noteq> [])"
  using plan_patch_for [OF assms(2)] planned_for_ok [OF assms(1)]
  by (induction rule: list_all2_induct) auto

lemma prepare_required:
  assumes "prepare_mutation env w contract st guarded paths = (st1, Inr i)"
    and "checkpoint_policy contract = CheckpointRequired"
  obtains s s1 where "es_store st = Some s" "i = ee_id env" "st1 = st\<lparr>es_store := Some s1\<rparr>"
    "capture (ee_enc env) (ee_rm env) (ee_written env) (ee_now env) (ee_id env) (es_disk st) w s paths = (s1, None)"
    "prepare_guard env w contract st guarded = GuardPasses"
  using assms
  by (auto simp: prepare_mutation_def prepare_capture_def
      split: if_splits option.splits prod.splits guard_result.splits)

lemma prepare_patch:
  assumes "prepare_mutation env w patch_contract st guarded paths = (st1, Inr i)"
  obtains s s1 where "es_store st = Some s" "i = ee_id env" "st1 = st\<lparr>es_store := Some s1\<rparr>"
    "capture (ee_enc env) (ee_rm env) (ee_written env) (ee_now env) (ee_id env) (es_disk st) w s paths = (s1, None)"
    "prepare_guard env w patch_contract st guarded = GuardPasses"
  using assms by (rule prepare_required) (simp add: patch_contract_def)

lemma prepare_disk:
  "prepare_mutation env w contract st guarded paths = (st1, r) \<Longrightarrow>
   es_disk st1 = es_disk st \<and> es_session st1 = es_session st"
  by (auto simp: prepare_mutation_def prepare_capture_def
      split: if_splits option.splits prod.splits guard_result.splits checkpoint_policy.splits)

text \<open>An execution either stops before the first change, with the disk as it was, or gets to the changes.\<close>

lemma execute_cases:
  assumes "execute_patch env w st text os = (st', r)"
  obtains (stopped) "es_disk st' = es_disk st" "es_session st' = es_session st" "er_checkpoint r = []" "er_error r \<noteq> None"
  | (changed) ops cs s s1 e where "parse_patch text = Inr ops" "plan_patch (es_disk st) w ops = Inr cs"
    "es_store st = Some s" "er_checkpoint r = ee_id env" "es_store st' = Some s1"
    "capture (ee_enc env) (ee_rm env) (ee_written env) (ee_now env) (ee_id env) (es_disk st) w s (checkpoint_paths cs) = (s1, None)"
    "prepare_guard env w patch_contract st (risky_paths cs) = GuardPasses"
    "apply_changes (es_disk st) w cs os = (es_disk st', e)" "er_error r = e"
    "es_session st' = (if e = None then mark_mutation_owned (es_session st) w (checkpoint_paths cs) else es_session st)"
proof (cases "trim_space text = []")
  case True
  with assms stopped show ?thesis by (auto simp: execute_patch_def edit_failure_def)
next
  case False
  show ?thesis
  proof (cases "parse_patch text")
    case (Inl e)
    with assms stopped False show ?thesis by (auto simp: execute_patch_def edit_failure_def)
  next
    case ops: (Inr ops)
    show ?thesis
    proof (cases "plan_patch (es_disk st) w ops")
      case (Inl e)
      with assms stopped False ops show ?thesis by (auto simp: execute_patch_def edit_failure_def)
    next
      case cs: (Inr cs)
      obtain st1 p where p: "prepare_mutation env w patch_contract st (risky_paths cs) (checkpoint_paths cs) = (st1, p)"
        by fastforce
      note d = prepare_disk [OF p]
      show ?thesis
      proof (cases p)
        case (Inl e)
        with assms stopped False ops cs p d show ?thesis by (auto simp: execute_patch_def edit_failure_def)
      next
        case (Inr i)
        with p obtain s s1 where s: "es_store st = Some s" "i = ee_id env" "st1 = st\<lparr>es_store := Some s1\<rparr>"
            "capture (ee_enc env) (ee_rm env) (ee_written env) (ee_now env) (ee_id env) (es_disk st) w s (checkpoint_paths cs) = (s1, None)"
            "prepare_guard env w patch_contract st (risky_paths cs) = GuardPasses"
          by (blast elim: prepare_patch)
        obtain d1 e where a: "apply_changes (es_disk st) w cs os = (d1, e)" by fastforce
        from assms False ops cs p Inr d a s(3)
        have "es_disk st' = d1 \<and> er_error r = e \<and> er_checkpoint r = i \<and> es_store st' = Some s1 \<and>
            es_session st' = (if e = None then mark_mutation_owned (es_session st) w (checkpoint_paths cs) else es_session st)"
          by (cases e) (auto simp: execute_patch_def edit_failure_def)
        with changed [OF ops cs s(1)] s a show ?thesis by simp
      qed
    qed
  qed
qed

lemma resolve_all_defined:
  "resolve_all fs w acc ps = Inr rs \<Longrightarrow> p \<in> set ps \<Longrightarrow> \<exists>r. resolve_path fs False w p = Inr r"
  by (induction ps arbitrary: acc) (auto split: sum.splits)

subsection \<open>Properties\<close>

text \<open>What an operation of a patch has done, from the files before to the files after.\<close>

definition op_done :: "fs \<Rightarrow> workspace \<Rightarrow> (string \<Rightarrow> node option) \<Rightarrow> (string \<Rightarrow> node option) \<Rightarrow> patch_operation \<Rightarrow> bool" where
  "op_done fs w before after po \<longleftrightarrow>
     (\<exists>p. resolve_path fs False w (po_path po) = Inr p \<and>
       (case po_kind po of
          PkAdd \<Rightarrow> \<exists>m. after p = Some (RegularFile (po_content po) m)
        | PkDelete \<Rightarrow> (\<exists>c m. before p = Some (RegularFile c m)) \<and> after p = None
        | PkUpdate \<Rightarrow> \<exists>c m u m'. before p = Some (RegularFile c m) \<and> derive_patched c (po_chunks po) = Inr u \<and>
            (if po_move po = [] then after p = Some (RegularFile u m')
             else after p = None \<and> (\<exists>q. resolve_path fs False w (po_move po) = Inr q \<and>
               after q = Some (RegularFile u m')))
        | PkUnknown \<Rightarrow> False))"

lemma planned_done:
  assumes "fs_ok (dk_fs d)" "planned_for w d po c" "change_done c n"
  shows "op_done (dk_fs d) w (dk_nodes d) n po"
proof -
  have ne: "q \<noteq> []" if "resolve_path (dk_fs d) False w (po_move po) = Inr q" for q
    using resolved_settled [OF assms(1) that] by simp
  show ?thesis
    using assms(2,3) ne
    by (auto simp: planned_for_def change_done_def op_done_def dest!: read_edit_file_Some
        split: patch_operation_kind.splits if_splits)
qed

text \<open>
  C20: A patch does what it says. When \<open>Execute\<close> reports success and the paths its changes touch
  are different from each other, every operation is done: added files have their content, deleted
  files were files and are gone, and updated files have the content that
  \<open>derivePatchedContent\<close> makes of what they held, at their new place if they are moved; and
  nothing else on the disk has changed.
\<close>

theorem patch_applied:
  assumes "fs_ok (dk_fs (es_disk st))" "execute_patch env w st text os = (st', r)" "er_error r = None"
  shows "\<exists>ops cs. parse_patch text = Inr ops \<and> plan_patch (es_disk st) w ops = Inr cs \<and>
    (distinct (checkpoint_paths cs) \<longrightarrow>
      (\<forall>po \<in> set ops. op_done (dk_fs (es_disk st)) w (dk_nodes (es_disk st)) (dk_nodes (es_disk st')) po)) \<and>
    (\<forall>q. q \<noteq> [] \<and> q \<notin> set (checkpoint_paths cs) \<longrightarrow> dk_nodes (es_disk st') q = dk_nodes (es_disk st) q)"
  using assms(2)
proof (cases rule: execute_cases)
  case stopped
  with assms(3) show ?thesis by simp
next
  case (changed ops cs s s1 e)
  note ok = plan_patch_ok [OF assms(1) changed(2)]
  have fin: "apply_changes (es_disk st) w cs os = (es_disk st', None)" using changed(8,9) assms(3) by simp
  have "op_done (dk_fs (es_disk st)) w (dk_nodes (es_disk st)) (dk_nodes (es_disk st')) po"
    if dis: "distinct (checkpoint_paths cs)" and po: "po \<in> set ops" for po
  proof -
    from po plan_patch_for [OF changed(2)] obtain c where c: "c \<in> set cs" "planned_for w (es_disk st) po c"
      by (metis in_set_conv_nth list_all2_conv_all_nth)
    have "change_done c (dk_nodes (es_disk st'))" using apply_changes_done [OF fin] ok dis c(1) by blast
    with planned_done [OF assms(1) c(2)] show ?thesis .
  qed
  moreover have "dk_nodes (es_disk st') q = dk_nodes (es_disk st) q" if "q \<noteq> []" "q \<notin> set (checkpoint_paths cs)" for q
    using apply_changes_frame [OF fin _ that(2,1)] ok by blast
  ultimately show ?thesis using changed(1,2) by blast
qed

lemma captured_settled:
  assumes "fs_ok fs" "resolve_unique_paths fs w paths = Inr ps" "q \<in> set paths" "settled_path q"
  shows "q \<in> set ps"
proof -
  have "\<exists>r. resolve_path fs False w q = Inr r"
    using resolve_all_defined [OF _ assms(3)] assms(2)
    by (cases "resolve_all fs w [] paths") (auto simp: resolve_unique_paths_def)
  then have "resolve_path fs False w q = Inr q"
    using resolve_self assms(4) unfolding settled_path_def by blast
  with resolve_unique [OF assms(1,2)] assms(3) show ?thesis by blast
qed

text \<open>
  A patch can be undone, however it ended. If an execution got as far as taking a checkpoint,
  be it that all changes were made, or that one of them failed and the rest was left, and if
  the restore of that checkpoint succeeds, then the disk holds exactly what it held before the
  patch, at every path.
\<close>

lemma patch_undone:
  assumes "disk_ok w (es_disk st)" "ws_wf w" "es_store st = Some s" "distinct (map fst (cs_files s))"
    and "execute_patch env w st text os = (st', r)" "er_checkpoint r \<noteq> []"
    and "fs_ok (dk_fs (es_disk st'))" "es_store st' = Some s'"
    and "restore (ee_enc env) g (es_disk st') w ses s' (er_checkpoint r) os' = (d, ses', None)"
    and "q \<noteq> []"
  shows "dk_nodes d q = dk_nodes (es_disk st) q"
  using assms(5)
proof (cases rule: execute_cases)
  case stopped
  with assms(6) show ?thesis by simp
next
  case (changed ops cs s0 s1 e)
  have fs: "fs_ok (dk_fs (es_disk st))" using assms(1) by (simp add: disk_ok_def)
  note ok = plan_patch_ok [OF fs changed(2)]
  have s: "s0 = s" "s1 = s'" using changed(3,5) assms(3,8) by simp_all
  have "restore (ee_enc env) g (es_disk st') w ses s' (ee_id env) os' = (d, ses', None)"
    using assms(9) changed(4) by simp
  from restore_captured [OF assms(1,7,2,4) changed(6) [unfolded s] refl this] obtain ps where
    ps: "resolve_unique_paths (dk_fs (es_disk st)) w (checkpoint_paths cs) = Inr ps"
      "\<forall>p. dk_nodes d p = (if p \<in> set ps then dk_nodes (es_disk st) p else dk_nodes (es_disk st') p)" by blast
  have "q \<notin> set (checkpoint_paths cs)" if "q \<notin> set ps"
  proof
    assume q: "q \<in> set (checkpoint_paths cs)"
    then have "settled_path q" using ok by (auto simp: checkpoint_paths_def list_all_iff planned_ok_def split: if_splits)
    with captured_settled [OF fs ps(1) q] that show False by blast
  qed
  with ps(2) apply_changes_frame [OF changed(8), of q] ok assms(10) show ?thesis by auto
qed

definition small_env :: edit_env where
  "small_env = \<lparr>ee_enc = (\<lambda>c. 100), ee_rm = (\<lambda>i. True), ee_written = True, ee_now = 5,
     ee_id = ''checkpoint-5'', ee_git = GitOutput [], ee_sha = (\<lambda>s. s)\<rparr>"

definition lines_of :: "string list \<Rightarrow> string" where
  "lines_of ls = join [newline] ls @ [newline]"

definition two_files :: edit_state where
  "two_files = \<lparr>es_disk = \<lparr>dk_nodes = [''/w/a'' \<mapsto> RegularFile (lines_of [''p'', ''q'']) 420,
       ''/w/b'' \<mapsto> RegularFile (lines_of [''r'']) 420], dk_fs = small_fs\<rparr>,
     es_session = Some [], es_store = Some small_store\<rparr>"

text \<open>
  The second update of a file undoes the first. All operations of a patch are planned against
  the files as they were, so of two updates of one file only the last is in the result; the
  patch is reported as a success.
\<close>

theorem second_update_wins:
  "let text = lines_of [''*** Begin Patch'', ''*** Update File: a'', ''@@'', ''-p'', ''+P'',
         ''*** Update File: a'', ''@@'', ''-q'', ''+Q'', ''*** End Patch''];
       out = execute_patch small_env small_ws two_files text []
   in er_error (snd out) = None \<and>
      dk_nodes (es_disk (fst out)) ''/w/a'' = Some (RegularFile (lines_of [''p'', ''Q'']) 420)"
  by code_simp

text \<open>
  Two files can be moved to one place. The destination is only required to be missing before
  the first change, so the second move overwrites the first, whose file is gone; the patch is
  reported as a success.
\<close>

theorem moves_collide:
  "let text = lines_of [''*** Begin Patch'', ''*** Update File: a'', ''*** Move to: c'', ''@@'', '' p'',
         ''*** Update File: b'', ''*** Move to: c'', ''@@'', '' r'', ''*** End Patch''];
       out = execute_patch small_env small_ws two_files text [];
       files = dk_nodes (es_disk (fst out))
   in er_error (snd out) = None \<and> files ''/w/a'' = None \<and> files ''/w/b'' = None \<and>
      files ''/w/c'' = Some (RegularFile (lines_of [''r'']) 420)"
  by code_simp

text \<open>
  A patch that failed halfway cannot be taken back in a session. The changes made so far are
  not marked as the session's own, so the guard of \<open>Restore\<close> takes them for changes of the user
  and refuses.
\<close>

theorem failed_patch_stays:
  "let text = lines_of [''*** Begin Patch'', ''*** Update File: a'', ''@@'', ''-p'', ''+P'',
         ''*** Update File: b'', ''@@'', ''-r'', ''+R'', ''*** End Patch''];
       out = execute_patch small_env small_ws two_files text [(True, small_fs), (False, small_fs)];
       dirty = GitOutput (git_output [\<lparr>ge_status = '' M'', ge_path = ''a'', ge_before = None\<rparr>]);
       back = restore (\<lambda>c. 100) dirty (es_disk (fst out)) small_ws (es_session (fst out))
         (the (es_store (fst out))) ''checkpoint-5'' []
   in er_error (snd out) = Some EdIO \<and> er_checkpoint (snd out) = ''checkpoint-5'' \<and>
      dk_nodes (es_disk (fst out)) ''/w/a'' = Some (RegularFile (lines_of [''P'', ''q'']) 420) \<and>
      snd (snd back) = Some (EdGuard (GuardRefuses ''a'')) \<and>
      dk_nodes (fst back) ''/w/a'' = Some (RegularFile (lines_of [''P'', ''q'']) 420)"
  by code_simp

subsection \<open>Witnesses\<close>

definition small_text :: string where
  "small_text = lines_of [''*** Begin Patch'', ''*** Update File: a'', ''@@'', ''-p'', ''+P'',
     ''*** Delete File: b'', ''*** Add File: c'', ''+new'', ''*** End Patch'']"

definition after_patch :: "edit_state \<times> edit_result" where
  "after_patch = execute_patch small_env small_ws two_files small_text []"

lemma two_files_ok: "disk_ok small_ws (es_disk two_files)"
proof -
  have "is_ok (open_parent small_fs False small_ws ''/w/a'' False)"
    "is_ok (open_parent small_fs False small_ws ''/w/b'' False)" by code_simp+
  then show ?thesis
    using small_fs_ok by (auto simp: disk_ok_def two_files_def split: if_splits)
qed

text \<open>Without outcomes to the contrary the answers of the file system stay.\<close>

lemma write_fs: "atomic_write d w p c [] = (d', r) \<Longrightarrow> dk_fs d' = dk_fs d"
  by (auto simp: atomic_write_def atomic_write_resolved_def io_fs_def set_node_def Let_def
      split: sum.splits if_splits)

lemma remove_fs: "remove_workspace_file d w p [] = (d', r) \<Longrightarrow> dk_fs d' = dk_fs d"
  by (auto simp: remove_workspace_file_def io_fs_def set_node_def Let_def
      split: sum.splits if_splits option.splits node.splits)

lemma apply_change_fs: "apply_change d w c [] = (d', r) \<Longrightarrow> dk_fs d' = dk_fs d"
  by (auto simp: apply_change_def split: patch_operation_kind.splits if_splits prod.splits option.splits
      dest!: write_fs remove_fs)

lemma apply_changes_fs: "apply_changes d w cs [] = (d', r) \<Longrightarrow> dk_fs d' = dk_fs d"
proof (induction cs arbitrary: d)
  case (Cons c cs)
  then show ?case by (auto split: prod.splits option.splits dest!: apply_change_fs)
qed simp

lemma after_patch_facts:
  "er_error (snd after_patch) = None" "er_checkpoint (snd after_patch) = ''checkpoint-5''"
  "es_store (fst after_patch) \<noteq> None"
  by (code_simp)+

theorem patch_applied_witness:
  "dk_nodes (es_disk (fst after_patch)) ''/w/b'' = None \<and>
   dk_nodes (es_disk (fst after_patch)) ''/w/other'' = dk_nodes (es_disk two_files) ''/w/other''"
proof -
  have fs: "fs_ok (dk_fs (es_disk two_files))" using small_fs_ok by (simp add: two_files_def)
  have ex: "execute_patch small_env small_ws two_files small_text [] = (fst after_patch, snd after_patch)"
    by (simp add: after_patch_def)
  have p: "map_sum id (map po_path) (parse_patch small_text) = Inr [''a'', ''b'', ''c'']"
    "map_sum id (\<lambda>cs. checkpoint_paths cs) (plan_patch (es_disk two_files) small_ws
      (case parse_patch small_text of Inr ops \<Rightarrow> ops | Inl e \<Rightarrow> [])) = Inr [''/w/a'', ''/w/b'', ''/w/c'']"
    "resolve_path small_fs False small_ws ''b'' = Inr ''/w/b''"
    "map_sum id (\<lambda>ops. po_kind (ops ! 1)) (parse_patch small_text) = Inr PkDelete" by code_simp+
  from patch_applied [OF fs ex after_patch_facts(1)] obtain ops cs where
    o: "parse_patch small_text = Inr ops" "plan_patch (es_disk two_files) small_ws ops = Inr cs"
      "distinct (checkpoint_paths cs) \<longrightarrow>
        (\<forall>po \<in> set ops. op_done (dk_fs (es_disk two_files)) small_ws (dk_nodes (es_disk two_files))
          (dk_nodes (es_disk (fst after_patch))) po)"
      "\<forall>q. q \<noteq> [] \<and> q \<notin> set (checkpoint_paths cs) \<longrightarrow>
        dk_nodes (es_disk (fst after_patch)) q = dk_nodes (es_disk two_files) q" by blast
  have cp: "checkpoint_paths cs = [''/w/a'', ''/w/b'', ''/w/c'']" using p(2) o(1,2) by simp
  have len: "map po_path ops = [''a'', ''b'', ''c'']" "po_kind (ops ! 1) = PkDelete" using p(1,4) o(1) by simp_all
  then have "ops ! 1 \<in> set ops" "po_path (ops ! 1) = ''b''"
    by (metis One_nat_def Suc_less_eq length_Cons length_map nth_mem zero_less_Suc, metis len(1) One_nat_def
        length_Cons length_map lessI list.size(3) nth_Cons_0 nth_Cons_Suc nth_map less_Suc_eq)
  with o(3) cp len(2) p(3) have "dk_nodes (es_disk (fst after_patch)) ''/w/b'' = None"
    by (fastforce simp: op_done_def two_files_def)
  moreover have "dk_nodes (es_disk (fst after_patch)) ''/w/other'' = dk_nodes (es_disk two_files) ''/w/other''"
    using o(4) cp by simp
  ultimately show ?thesis ..
qed

end
