(* ===== verification/Edit_Replace.thy ===== *)
theory Edit_Replace
  imports Line_Text
begin

text \<open>
  Replacing text: \<open>internal/adapter/out/tool/builtin/search_replace_match.go\<close>. The text to be
  replaced is looked for as it is, then with line endings made equal, then line by line with
  white space at the ends of lines, or around them, left out of account.

  Offsets are integers, since the program uses \<open>-1\<close> for an offset it did not find. The messages
  of the errors, with the similarity of the nearest lines, are not modelled.
\<close>

record replace_match =
  rm_start :: int
  rm_end :: int
  rm_text :: string
  rm_tier :: nat

datatype replace_error = EmptyOld | ManyMatches nat | NoMatch

subsection \<open>Exact matches\<close>

lemma find_sub_le: "find_sub m s = Some i \<Longrightarrow> i + length m \<le> length s"
  using find_sub_Some by blast

function find_all :: "string \<Rightarrow> string \<Rightarrow> nat \<Rightarrow> nat list" where
  "find_all m s start =
     (if m = [] then []
      else case find_sub m (drop start s) of
          None \<Rightarrow> []
        | Some i \<Rightarrow> (start + i) # find_all m s (start + i + length m))"
  by pat_completeness auto
termination
proof (relation "measure (\<lambda>(m, s, start). length s - start)")
  fix m s :: string and start i
  assume "m \<noteq> []" "find_sub m (drop start s) = Some i"
  with find_sub_le [of m "drop start s" i] show
    "((m, s, start + i + length m), m, s, start) \<in> measure (\<lambda>(m, s, start). length s - start)"
    by (cases m) auto
qed simp

declare find_all.simps [simp del]

definition match_at :: "nat \<Rightarrow> string \<Rightarrow> nat \<Rightarrow> nat \<Rightarrow> replace_match" where
  "match_at len text tier i =
     \<lparr>rm_start = int i, rm_end = int (i + len), rm_text = text, rm_tier = tier\<rparr>"

definition find_exact_matches :: "string \<Rightarrow> string \<Rightarrow> string \<Rightarrow> replace_match list" where
  "find_exact_matches content old new =
     (if count_sub old content = 0 then [] else map (match_at (length old) new 1) (find_all old content 0))"

subsection \<open>Matches up to line endings\<close>

text \<open>
  \<open>mapNormRangeToRaw\<close>: the raw text that is left, the index in the normalised text and in the
  raw text, and the start if it was passed.
\<close>

function map_norm :: "string \<Rightarrow> nat \<Rightarrow> nat \<Rightarrow> nat \<Rightarrow> nat \<Rightarrow> int \<Rightarrow> int \<times> int" where
  "map_norm [] n r ns ne rs =
     (if rs = -1 \<and> n = ns then int r else rs, if n = ne then int r else -1)"
| "map_norm (c # s) n r ns ne rs =
     (let rs' = (if n = ns then int r else rs) in
      if n = ne then (rs', int r)
      else if c = carriage \<and> s \<noteq> [] \<and> hd s = newline then map_norm (tl s) (Suc n) (Suc (Suc r)) ns ne rs'
      else map_norm s (Suc n) (Suc r) ns ne rs')"
  by pat_completeness auto
termination
  by (relation "measure (\<lambda>(s, n, r, ns, ne, rs). length s)") auto

definition map_norm_range :: "string \<Rightarrow> nat \<Rightarrow> nat \<Rightarrow> int \<times> int" where
  "map_norm_range raw ns ne = map_norm raw 0 0 ns ne (-1)"

definition find_crlf_matches :: "string \<Rightarrow> string \<Rightarrow> string \<Rightarrow> replace_match list" where
  "find_crlf_matches content old new =
     (if \<not> contains content crlf \<and> \<not> contains old crlf then []
      else let nc = replace_crlf content; no = replace_crlf old in
        if no = [] \<or> count_sub no nc = 0 then []
        else let text = (if contains content crlf then to_crlf (replace_crlf new) else new) in
          map (\<lambda>i. case map_norm_range content i (i + length no) of
              (a, b) \<Rightarrow> \<lparr>rm_start = a, rm_end = b, rm_text = text, rm_tier = 2\<rparr>)
            (find_all no nc 0))"

subsection \<open>Matches up to white space\<close>

record line_offset =
  lo_text :: string
  lo_start :: nat
  lo_end :: nat

fun line_offsets :: "nat \<Rightarrow> string list \<Rightarrow> line_offset list" where
  "line_offsets k [] = []"
| "line_offsets k [l] = [\<lparr>lo_text = l, lo_start = k, lo_end = k + length l\<rparr>]"
| "line_offsets k (l # ls) =
     \<lparr>lo_text = l, lo_start = k, lo_end = Suc (k + length l)\<rparr> # line_offsets (Suc (k + length l)) ls"

definition split_lines_offsets :: "string \<Rightarrow> line_offset list" where
  "split_lines_offsets text = (if text = [] then [] else line_offsets 0 (split_char newline text))"

function scan_from :: "(string \<Rightarrow> string) \<Rightarrow> string list \<Rightarrow> string list \<Rightarrow> nat \<Rightarrow> (nat \<times> nat) list" where
  "scan_from f ls olds i =
     (if olds = [] \<or> length ls < i + length olds then []
      else if map f (take (length olds) (drop i ls)) = map f olds
      then (i, i + length olds - 1) # scan_from f ls olds (i + length olds)
      else scan_from f ls olds (Suc i))"
  by pat_completeness auto
termination
  by (relation "measure (\<lambda>(f, ls, olds, i). Suc (length ls) - i)") (auto simp: neq_Nil_conv)

declare scan_from.simps [simp del]

definition scan_line_matches :: "(string \<Rightarrow> string) \<Rightarrow> line_offset list \<Rightarrow> string list \<Rightarrow> (nat \<times> nat) list" where
  "scan_line_matches f ls olds = scan_from f (map lo_text ls) olds 0"

subsection \<open>Indentation\<close>

definition leading_whitespace :: "string \<Rightarrow> string" where
  "leading_whitespace s = take (length s - length (trim_front space_len s)) s"

definition map_lines :: "(string \<Rightarrow> string) \<Rightarrow> string \<Rightarrow> string" where
  "map_lines f s = join [newline] (map f (split_char newline s))"

definition tab :: char where
  "tab = CHR 0x09"

definition adapt_base :: "string \<Rightarrow> string \<Rightarrow> string \<Rightarrow> string" where
  "adapt_base fb ob new =
     (if fb \<noteq> ob \<and> ob \<noteq> [] then
        map_lines (\<lambda>l. if has_prefix l ob then fb @ drop (length ob) l else l) new
      else if fb \<noteq> [] \<and> ob = [] then
        map_lines (\<lambda>l. if trim_space l \<noteq> [] then fb @ l else l) new
      else new)"

text \<open>Which indentation some lines use: tabs, spaces, and the smallest indentation by spaces.\<close>

fun indent_style :: "bool \<times> bool \<times> nat \<Rightarrow> string list \<Rightarrow> bool \<times> bool \<times> nat" where
  "indent_style st [] = st"
| "indent_style (tabs, spaces, k) (l # ls) =
     (let ws = leading_whitespace l in
      if has_prefix ws [tab] then indent_style (True, spaces, k) ls
      else if has_prefix ws ''  '' then
        indent_style (tabs, True, if k = 0 \<or> length ws < k then length ws else k) ls
      else indent_style (tabs, spaces, k) ls)"

definition to_tabs :: "nat \<Rightarrow> string \<Rightarrow> string" where
  "to_tabs width l =
     (let ws = leading_whitespace l in
      if has_prefix ws '' '' then
        replicate (length ws div width) tab @ replicate (length ws mod width) CHR '' '' @ drop (length ws) l
      else l)"

definition to_spaces :: "nat \<Rightarrow> string \<Rightarrow> string" where
  "to_spaces width l =
     (let ws = leading_whitespace l in
      if has_prefix ws [tab] then replicate (length ws * width) CHR '' '' @ drop (length ws) l else l)"

definition adapt_style :: "string list \<Rightarrow> string list \<Rightarrow> string \<Rightarrow> string" where
  "adapt_style file_lines olds new =
     (case (indent_style (False, False, 0) file_lines, indent_style (False, False, 0) olds) of
        ((ft, fsp, fi), (ot, osp, oi)) \<Rightarrow>
          let n1 = (if ft \<and> \<not> fsp \<and> osp \<and> \<not> ot then map_lines (to_tabs (if oi = 0 then 4 else oi)) new else new) in
          if fsp \<and> \<not> ft \<and> ot \<and> \<not> osp then map_lines (to_spaces (if fi = 0 then 4 else fi)) n1 else n1)"

definition adapt_indentation :: "string list \<Rightarrow> string list \<Rightarrow> string \<Rightarrow> string" where
  "adapt_indentation file_lines olds new =
     (if file_lines = [] \<or> olds = [] \<or> new = [] then new
      else adapt_style file_lines olds
        (adapt_base (leading_whitespace (hd file_lines)) (leading_whitespace (hd olds)) new))"

definition tolerant_match :: "string \<Rightarrow> string \<Rightarrow> line_offset list \<Rightarrow> string list \<Rightarrow> string \<Rightarrow> nat \<Rightarrow> nat \<times> nat \<Rightarrow> replace_match" where
  "tolerant_match raw norm ls olds new tier mr =
     (let adjusted = (if contains raw crlf \<and> \<not> contains new crlf then to_crlf (replace_crlf new) else new);
          ns = lo_start (ls ! fst mr);
          ne = lo_end (ls ! snd mr);
          keeps = (\<not> (olds \<noteq> [] \<and> last olds = []) \<and> has_suffix (drop ns (take ne norm)) [newline] \<and>
            \<not> has_suffix new [newline]);
          range = map_norm_range raw ns (if keeps then ne - 1 else ne);
          text = adapt_indentation (map lo_text (drop (fst mr) (take (Suc (snd mr)) ls))) olds adjusted in
      \<lparr>rm_start = fst range, rm_end = snd range, rm_text = text, rm_tier = tier\<rparr>)"

definition trim_right_space :: "string \<Rightarrow> string" where
  "trim_right_space = trim_right_set [CHR '' '', tab, carriage]"

definition find_whitespace_matches :: "string \<Rightarrow> string \<Rightarrow> string \<Rightarrow> bool \<Rightarrow> (replace_error, replace_match list) result" where
  "find_whitespace_matches content old new all =
     (let norm = replace_crlf content;
          ls = split_lines_offsets norm;
          olds = split_char newline (replace_crlf old);
          ma = scan_line_matches trim_right_space ls olds;
          mb = scan_line_matches trim_space ls olds in
      if trim_space old = [] \<or> length ls < length olds then Inr []
      else if ma \<noteq> [] then
        (if 1 < length ma \<and> \<not> all then Inl (ManyMatches (length ma))
         else Inr (map (tolerant_match content norm ls olds new 3) ma))
      else if mb \<noteq> [] then
        (if 1 < length mb \<and> \<not> all then Inl (ManyMatches (length mb))
         else Inr (map (tolerant_match content norm ls olds new 3) mb))
      else Inr [])"

subsection \<open>The tiers, and the replacement\<close>

definition find_replacements :: "string \<Rightarrow> string \<Rightarrow> string \<Rightarrow> bool \<Rightarrow> (replace_error, replace_match list) result" where
  "find_replacements content old new all =
     (if old = [] then Inl EmptyOld
      else let exact = find_exact_matches content old new; ends = find_crlf_matches content old new in
        if exact \<noteq> [] then
          (if 1 < length exact \<and> \<not> all then Inl (ManyMatches (length exact)) else Inr exact)
        else if ends \<noteq> [] then
          (if 1 < length ends \<and> \<not> all then Inl (ManyMatches (length ends)) else Inr ends)
        else case find_whitespace_matches content old new all of
            Inl e \<Rightarrow> Inl e
          | Inr ms \<Rightarrow> if ms \<noteq> [] then Inr ms else Inl NoMatch)"

fun apply_matches :: "string \<Rightarrow> int \<Rightarrow> replace_match list \<Rightarrow> string" where
  "apply_matches content end [] = (if end < int (length content) then drop (nat end) content else [])"
| "apply_matches content end (m # ms) =
     (if end < rm_start m then drop (nat end) (take (nat (rm_start m)) content) else []) @
     rm_text m @ apply_matches content (rm_end m) ms"

definition apply_replacements :: "string \<Rightarrow> replace_match list \<Rightarrow> string" where
  "apply_replacements content ms = (if ms = [] then content else apply_matches content 0 ms)"

subsection \<open>Reference: all occurrences replaced\<close>

text \<open>
  \<open>strings.ReplaceAll\<close> for a text that is not empty: what the exact tier is to compute, said
  without offsets.
\<close>

function replace_all :: "string \<Rightarrow> string \<Rightarrow> string \<Rightarrow> string" where
  "replace_all m new [] = []"
| "replace_all m new (c # s) =
     (if has_prefix (c # s) m then new @ replace_all m new (drop (length m - 1) s)
      else c # replace_all m new s)"
  by pat_completeness auto
termination
  by (relation "measure (\<lambda>(m, new, s). length s)") auto

lemma replace_all_none: "\<not> contains s m \<Longrightarrow> replace_all m new s = s"
  by (induction s) auto

lemma replace_all_first:
  assumes "find_sub m s = Some i" "m \<noteq> []"
  shows "replace_all m new s = take i s @ new @ replace_all m new (drop (i + length m) s)"
  using assms(1)
proof (induction s arbitrary: i)
  case (Cons c s)
  show ?case
  proof (cases "has_prefix (c # s) m")
    case True
    with Cons.prems assms(2) show ?thesis by (cases m) auto
  next
    case False
    with Cons.prems obtain j where "find_sub m s = Some j" "i = Suc j" by auto
    with Cons.IH [of j] False show ?thesis by simp
  qed
qed (use assms(2) in simp)

lemma count_sub_first:
  assumes "find_sub m s = Some i" "m \<noteq> []"
  shows "count_sub m s = Suc (count_sub m (drop (i + length m) s))"
  using assms(1)
proof (induction s arbitrary: i)
  case (Cons c s)
  show ?case
  proof (cases "has_prefix (c # s) m")
    case True
    with Cons.prems assms(2) show ?thesis by (cases m) auto
  next
    case False
    with Cons.prems obtain j where "find_sub m s = Some j" "i = Suc j" by auto
    with Cons.IH [of j] False show ?thesis by simp
  qed
qed (use assms(2) in simp)

lemma find_all_rec:
  assumes "m \<noteq> []"
  shows "find_all m s k = (case find_sub m (drop k s) of None \<Rightarrow> []
    | Some i \<Rightarrow> (k + i) # find_all m s (k + i + length m))"
  using assms by (subst find_all.simps) simp

lemma length_find_all:
  "m \<noteq> [] \<Longrightarrow> length (find_all m s k) = count_sub m (drop k s)"
proof (induction m s k rule: find_all.induct)
  case (1 m s k)
  show ?case
  proof (cases "find_sub m (drop k s)")
    case None
    with 1(2) count_find [of m "drop k s"] show ?thesis by (simp add: find_all_rec)
  next
    case (Some i)
    from 1(1) [OF 1(2) Some 1(2)] Some 1(2) count_sub_first [OF Some 1(2)] show ?thesis
      by (simp add: find_all_rec add.commute add.left_commute)
  qed
qed

lemma apply_matches_rest: "apply_matches s k [] = (if k < int (length s) then drop (nat k) s else [])"
  by simp

lemma exact_replaced:
  "m \<noteq> [] \<Longrightarrow> k \<le> length s \<Longrightarrow>
   apply_matches s (int k) (map (match_at (length m) new t) (find_all m s k)) = replace_all m new (drop k s)"
proof (induction m s k rule: find_all.induct)
  case (1 m s k)
  show ?case
  proof (cases "find_sub m (drop k s)")
    case None
    then have "replace_all m new (drop k s) = drop k s"
      by (intro replace_all_none) (simp add: find_sub_None)
    with None 1 show ?thesis by (simp add: find_all_rec)
  next
    case (Some i)
    have b: "k + i + length m \<le> length s"
      using find_sub_le [OF Some] 1(3) by simp
    have d: "drop k (take (k + i) s) = take i (drop k s)"
      by (simp add: take_drop add.commute)
    have e: "(if int k < int (k + i) then drop (nat (int k)) (take (nat (int (k + i))) s) else []) = take i (drop k s)"
      using d by (cases "i = 0") (simp_all del: of_nat_add)
    from 1(1) [OF 1(2) Some 1(2) b] have
      "apply_matches s (int (k + i + length m)) (map (match_at (length m) new t) (find_all m s (k + i + length m))) =
       replace_all m new (drop (i + length m) (drop k s))"
      by (simp add: add.commute add.left_commute)
    moreover from 1(2) Some have "find_all m s k = (k + i) # find_all m s (k + i + length m)"
      by (simp add: find_all_rec)
    moreover have "rm_start (match_at (length m) new t (k + i)) = int (k + i)"
      "rm_end (match_at (length m) new t (k + i)) = int (k + i + length m)"
      "rm_text (match_at (length m) new t (k + i)) = new"
      by (simp_all add: match_at_def)
    ultimately show ?thesis
      by (simp only: list.map apply_matches.simps replace_all_first [OF Some 1(2)] e)
  qed
qed

lemma exact_apply:
  assumes "m \<noteq> []"
  shows "apply_replacements s (find_exact_matches s m new) = replace_all m new s"
proof (cases "count_sub m s = 0")
  case True
  with assms have "\<not> contains s m" by (simp add: count_sub_0)
  with True show ?thesis by (simp add: find_exact_matches_def apply_replacements_def replace_all_none)
next
  case False
  then have "find_all m s 0 \<noteq> []" using length_find_all [OF assms, of s 0] by auto
  with False exact_replaced [OF assms, of 0 s new 1] show ?thesis
    by (simp add: find_exact_matches_def apply_replacements_def)
qed

lemma length_exact: "m \<noteq> [] \<Longrightarrow> length (find_exact_matches s m new) = count_sub m s"
  by (simp add: find_exact_matches_def length_find_all)

lemma exact_none: "m \<noteq> [] \<Longrightarrow> find_exact_matches s m new = [] \<longleftrightarrow> \<not> contains s m"
  using length_exact [of m s new] count_sub_0 [of m s] by (metis length_0_conv)

text \<open>
  A text that occurs in the content is replaced at every place where it occurs, from the
  left and without overlaps, and nowhere else: the result is the one of \<open>strings.ReplaceAll\<close>.
  Without \<open>replaceAll\<close> it is replaced only when it occurs once, and the error otherwise says how
  often it occurs.
\<close>

lemma exact_edit:
  assumes "old \<noteq> []" "contains content old"
  shows "case find_replacements content old new all of
      Inl e \<Rightarrow> \<not> all \<and> 1 < count_sub old content \<and> e = ManyMatches (count_sub old content)
    | Inr ms \<Rightarrow> (all \<or> count_sub old content = 1) \<and>
        apply_replacements content ms = replace_all old new content"
proof -
  have "find_exact_matches content old new \<noteq> []" "count_sub old content \<noteq> 0"
    using assms by (simp_all add: exact_none count_sub_0)
  with assms(1) show ?thesis
    by (auto simp: find_replacements_def Let_def length_exact exact_apply)
qed

subsection \<open>Offsets of the normalised text in the raw text\<close>

function raw_pos :: "string \<Rightarrow> nat \<Rightarrow> nat" where
  "raw_pos s 0 = 0"
| "raw_pos [] (Suc n) = 0"
| "raw_pos (c # s) (Suc n) =
     (if c = carriage \<and> s \<noteq> [] \<and> hd s = newline then Suc (Suc (raw_pos (tl s) n))
      else Suc (raw_pos s n))"
  by pat_completeness auto
termination
  by (relation "measure (\<lambda>(s, n). n)") auto

lemma raw_pos_le: "raw_pos s n \<le> length s"
  by (induction s n rule: raw_pos.induct) (auto simp: neq_Nil_conv)

lemma raw_pos_take: "replace_crlf (take (raw_pos s n) s) = take n (replace_crlf s)"
proof (induction s n rule: raw_pos.induct)
  case (3 c s n)
  show ?case
  proof (cases "c = carriage \<and> s \<noteq> [] \<and> hd s = newline")
    case True
    then obtain t where "s = newline # t" by (cases s) auto
    with True 3(1) [OF True] show ?thesis by simp
  next
    case False
    have "\<not> (c = carriage \<and> take (raw_pos s n) s \<noteq> [] \<and> hd (take (raw_pos s n) s) = newline)"
      using False by (cases s) (auto split: if_splits)
    moreover have "raw_pos (c # s) (Suc n) = Suc (raw_pos s n)" "replace_crlf (c # s) = c # replace_crlf s"
      using False by auto
    ultimately show ?thesis using 3(2) [OF False] by (simp del: raw_pos.simps)
  qed
qed simp_all

lemma raw_pos_drop: "replace_crlf (drop (raw_pos s n) s) = drop n (replace_crlf s)"
  by (induction s n rule: raw_pos.induct) (auto simp: neq_Nil_conv)

lemma raw_pos_add: "raw_pos s (m + n) = raw_pos s m + raw_pos (drop (raw_pos s m) s) n"
proof (induction s m rule: raw_pos.induct)
  case (2 n')
  have "raw_pos [] k = 0" for k by (cases k) simp_all
  then show ?case by simp
qed (auto simp: neq_Nil_conv)

lemma raw_pos_mono: "m \<le> n \<Longrightarrow> raw_pos s m \<le> raw_pos s n"
  using raw_pos_add [of s m "n - m"] by simp

lemma raw_between: "replace_crlf (drop (raw_pos s m) (take (raw_pos s (m + n)) s)) = drop m (take (m + n) (replace_crlf s))"
proof -
  have "drop (raw_pos s m) (take (raw_pos s (m + n)) s) =
      take (raw_pos (drop (raw_pos s m) s) n) (drop (raw_pos s m) s)"
    unfolding raw_pos_add by (simp add: take_drop add.commute)
  then have "replace_crlf (drop (raw_pos s m) (take (raw_pos s (m + n)) s)) = take n (drop m (replace_crlf s))"
    by (simp add: raw_pos_take raw_pos_drop)
  then show ?thesis by (simp add: take_drop add.commute)
qed

lemma map_norm_passed:
  "rs \<noteq> -1 \<Longrightarrow> ns < n \<Longrightarrow> n \<le> ne \<Longrightarrow> ne - n \<le> length (replace_crlf s) \<Longrightarrow>
   map_norm s n r ns ne rs = (rs, int r + int (raw_pos s (ne - n)))"
proof (induction s n r ns ne rs rule: map_norm.induct)
  case (2 c s n r ns ne rs)
  show ?case
  proof (cases "n = ne")
    case False
    with 2(5) have d: "ne - n = Suc (ne - Suc n)" by simp
    from 2 False d show ?thesis by (auto simp: Let_def)
  qed (use 2 in \<open>simp add: Let_def\<close>)
qed auto

lemma map_norm_before:
  "n \<le> ns \<Longrightarrow> ns \<le> ne \<Longrightarrow> ne - n \<le> length (replace_crlf s) \<Longrightarrow>
   map_norm s n r ns ne (-1) = (int r + int (raw_pos s (ns - n)), int r + int (raw_pos s (ne - n)))"
proof (induction s n r ns ne "-1 :: int" rule: map_norm.induct)
  case (2 c s n r ns ne)
  show ?case
  proof (cases "n = ns")
    case True
    show ?thesis
    proof (cases "n = ne")
      case False
      with 2(4) True have d: "ne - n = Suc (ne - Suc n)" by simp
      with True False 2(5) show ?thesis
        by (auto simp: Let_def map_norm_passed neq_Nil_conv)
    qed (use True in \<open>simp add: Let_def\<close>)
  next
    case False
    with 2(3) have d: "ns - n = Suc (ns - Suc n)" by simp
    from False 2(3,4) have d': "ne - n = Suc (ne - Suc n)" "n \<noteq> ne" by simp_all
    show ?thesis
    proof (cases "c = carriage \<and> s \<noteq> [] \<and> hd s = newline")
      case True
      with 2(1) [OF _ d'(2) True] False d d' 2(3,4,5) show ?thesis by (simp add: Let_def)
    next
      case no: False
      with 2(2) [OF _ d'(2) no] False d d' 2(3,4,5) show ?thesis by (auto simp: Let_def)
    qed
  qed
qed auto

lemma map_norm_range_pos:
  "ns \<le> ne \<Longrightarrow> ne \<le> length (replace_crlf s) \<Longrightarrow>
   map_norm_range s ns ne = (int (raw_pos s ns), int (raw_pos s ne))"
  using map_norm_before [of 0 ns ne s 0] by (simp add: map_norm_range_def)

subsection \<open>The tier for line endings\<close>

text \<open>
  What the tier writes for each match: the new text, with the line endings of a file that has
  CRLF. \<open>crlf_text\<close> are the texts whose every line ends with CRLF and that have no other
  carriage return; \<open>no_stray\<close> only excludes carriage returns outside CRLF.
\<close>

definition ending_text :: "string \<Rightarrow> string \<Rightarrow> string" where
  "ending_text content new = (if contains content crlf then to_crlf (replace_crlf new) else new)"

definition no_stray :: "string \<Rightarrow> bool" where
  "no_stray s \<longleftrightarrow> carriage \<notin> set (replace_crlf s)"

definition crlf_text :: "string \<Rightarrow> bool" where
  "crlf_text s \<longleftrightarrow> no_stray s \<and> s = to_crlf (replace_crlf s)"

lemma no_stray_last: "no_stray s \<Longrightarrow> s \<noteq> [] \<Longrightarrow> last s \<noteq> carriage"
  unfolding no_stray_def by (induction s rule: replace_crlf.induct) (auto simp: neq_Nil_conv split: if_splits)

lemma no_stray_append: "no_stray x \<Longrightarrow> replace_crlf (x @ y) = replace_crlf x @ replace_crlf y"
  using no_stray_last [of x] by (intro replace_crlf_append) auto

lemma to_crlf_append: "to_crlf (x @ y) = to_crlf x @ to_crlf y"
  by (simp add: to_crlf_def)

lemma crlf_text_append: "crlf_text x \<Longrightarrow> crlf_text y \<Longrightarrow> crlf_text (x @ y)"
  unfolding crlf_text_def by (auto simp: no_stray_append to_crlf_append) (simp add: no_stray_def no_stray_append)

lemma to_crlf_Cons: "to_crlf (c # s) = (if c = newline then carriage # newline # to_crlf s else c # to_crlf s)"
  by (simp add: to_crlf_def)

lemma to_crlf_hd: "to_crlf s \<noteq> [] \<Longrightarrow> hd (to_crlf s) \<noteq> newline"
  by (cases s) (auto simp: to_crlf_Cons to_crlf_def)

lemma crlf_text_to_crlf: "carriage \<notin> set s \<Longrightarrow> crlf_text (to_crlf s)"
  by (simp add: crlf_text_def no_stray_def replace_to_crlf)

lemma raw_pos_to_crlf:
  "carriage \<notin> set s \<Longrightarrow> n \<le> length s \<Longrightarrow> raw_pos (to_crlf s) n = length (to_crlf (take n s))"
proof (induction s arbitrary: n)
  case (Cons c s)
  show ?case
  proof (cases n)
    case (Suc k)
    with Cons show ?thesis by (auto simp: to_crlf_Cons)
  qed (simp add: to_crlf_def)
qed (simp add: to_crlf_def)

lemma crlf_text_parts:
  assumes "crlf_text s" "n \<le> length (replace_crlf s)"
  shows "take (raw_pos s n) s = to_crlf (take n (replace_crlf s))"
    "drop (raw_pos s n) s = to_crlf (drop n (replace_crlf s))"
proof -
  define t where "t = replace_crlf s"
  from assms have t: "carriage \<notin> set t" "s = to_crlf t" "n \<le> length t"
    by (simp_all add: crlf_text_def no_stray_def t_def)
  have p: "raw_pos s n = length (to_crlf (take n t))" using raw_pos_to_crlf t by simp
  have a: "s = to_crlf (take n t) @ to_crlf (drop n t)"
    using t(2) by (metis append_take_drop_id to_crlf_append)
  have "take (length (to_crlf (take n t))) (to_crlf (take n t) @ to_crlf (drop n t)) = to_crlf (take n t)"
    "drop (length (to_crlf (take n t))) (to_crlf (take n t) @ to_crlf (drop n t)) = to_crlf (drop n t)"
    by simp_all
  then show "take (raw_pos s n) s = to_crlf (take n (replace_crlf s))"
    "drop (raw_pos s n) s = to_crlf (drop n (replace_crlf s))"
    unfolding a [symmetric] p [symmetric] unfolding t_def .
qed

definition crlf_match :: "string \<Rightarrow> string \<Rightarrow> string \<Rightarrow> nat \<Rightarrow> replace_match" where
  "crlf_match content no text i =
     \<lparr>rm_start = int (raw_pos content i), rm_end = int (raw_pos content (i + length no)),
      rm_text = text, rm_tier = 2\<rparr>"

lemma find_all_bound: "i \<in> set (find_all m s k) \<Longrightarrow> k \<le> length s \<Longrightarrow> k \<le> i \<and> i + length m \<le> length s"
proof (induction m s k rule: find_all.induct)
  case (1 m s k)
  show ?case
  proof (cases "m = []")
    case False
    have "find_all m s k = []" if "find_sub m (drop k s) = None"
      using that by (simp add: find_all.simps [of m s k])
    with 1(2) have "find_sub m (drop k s) \<noteq> None" by force
    then obtain j where j: "find_sub m (drop k s) = Some j" by blast
    have b: "k + j + length m \<le> length s" using find_sub_le [OF j] 1(3) by simp
    have "find_all m s k = (k + j) # find_all m s (k + j + length m)"
      using False j by (simp add: find_all.simps [of m s k])
    with 1(2) consider "i = k + j" | "i \<in> set (find_all m s (k + j + length m))" by auto
    then show ?thesis
    proof cases
      case 2
      with 1(1) [OF False j 2 b] show ?thesis by simp
    qed (use b in simp)
  qed (use 1(2) in \<open>simp add: find_all.simps\<close>)
qed

lemma find_crlf_found:
  "find_crlf_matches content old new \<noteq> [] \<Longrightarrow>
   find_crlf_matches content old new =
     map (crlf_match content (replace_crlf old) (ending_text content new))
       (find_all (replace_crlf old) (replace_crlf content) 0) \<and> replace_crlf old \<noteq> []"
proof -
  let ?no = "replace_crlf old" and ?nc = "replace_crlf content"
  assume "find_crlf_matches content old new \<noteq> []"
  then have "?no \<noteq> []" and f: "find_crlf_matches content old new =
      map (\<lambda>i. case map_norm_range content i (i + length ?no) of
          (a, b) \<Rightarrow> \<lparr>rm_start = a, rm_end = b, rm_text = ending_text content new, rm_tier = 2\<rparr>)
        (find_all ?no ?nc 0)"
    by (simp_all add: find_crlf_matches_def Let_def ending_text_def split: if_splits)
  moreover have "map_norm_range content i (i + length ?no) =
      (int (raw_pos content i), int (raw_pos content (i + length ?no)))"
    if "i \<in> set (find_all ?no ?nc 0)" for i
    using find_all_bound [OF that] by (simp add: map_norm_range_pos)
  ultimately show ?thesis by (simp add: crlf_match_def)
qed

lemma crlf_apply_step:
  assumes "find_sub no (drop k (replace_crlf content)) = Some i" "no \<noteq> []" "k \<le> length (replace_crlf content)"
  shows "apply_matches content (int (raw_pos content k))
      (map (crlf_match content no text) (find_all no (replace_crlf content) k)) =
    take (raw_pos (drop (raw_pos content k) content) i) (drop (raw_pos content k) content) @ text @
    apply_matches content (int (raw_pos content (k + i + length no)))
      (map (crlf_match content no text) (find_all no (replace_crlf content) (k + i + length no)))"
proof -
  have f: "find_all no (replace_crlf content) k =
      (k + i) # find_all no (replace_crlf content) (k + i + length no)"
    using assms by (simp add: find_all_rec)
  have d: "drop (raw_pos content k) (take (raw_pos content (k + i)) content) =
      take (raw_pos (drop (raw_pos content k) content) i) (drop (raw_pos content k) content)"
    unfolding raw_pos_add by (simp add: take_drop add.commute)
  have m: "raw_pos content k \<le> raw_pos content (k + i)" by (rule raw_pos_mono) simp
  have "(if int (raw_pos content k) < int (raw_pos content (k + i))
      then drop (raw_pos content k) (take (raw_pos content (k + i)) content) else []) =
      drop (raw_pos content k) (take (raw_pos content (k + i)) content)"
    using m by simp
  then show ?thesis
    unfolding f list.map apply_matches.simps by (auto simp: crlf_match_def d split: if_splits)
qed

lemma apply_matches_end: "apply_matches content (int k) [] = drop k content"
  by simp

lemma no_stray_part: "no_stray s \<Longrightarrow> no_stray (take (raw_pos s n) s)"
  using set_take_subset [of n "replace_crlf s"] by (auto simp: no_stray_def raw_pos_take)

lemma no_stray_rest: "no_stray s \<Longrightarrow> no_stray (drop (raw_pos s n) s)"
  using set_drop_subset [of n "replace_crlf s"] by (auto simp: no_stray_def raw_pos_drop)

lemma crlf_apply_last:
  assumes "find_sub no (drop k (replace_crlf content)) = None"
  shows "apply_matches content (int (raw_pos content k))
      (map (crlf_match content no text) (find_all no (replace_crlf content) k)) = drop (raw_pos content k) content"
proof -
  have "find_all no (replace_crlf content) k = []" using assms by (simp add: find_all.simps)
  then show ?thesis by (simp del: apply_matches.simps add: apply_matches_end)
qed

lemma crlf_apply_normal:
  assumes "no_stray content" "no_stray text"
  shows "no \<noteq> [] \<Longrightarrow> k \<le> length (replace_crlf content) \<Longrightarrow>
    replace_crlf (apply_matches content (int (raw_pos content k))
      (map (crlf_match content no text) (find_all no (replace_crlf content) k))) =
    replace_all no (replace_crlf text) (drop k (replace_crlf content))"
proof (induction no "replace_crlf content" k rule: find_all.induct)
  case (1 m k)
  show ?case
  proof (cases "find_sub m (drop k (replace_crlf content))")
    case None
    then have "replace_all m (replace_crlf text) (drop k (replace_crlf content)) = drop k (replace_crlf content)"
      by (intro replace_all_none) (simp add: find_sub_None)
    with crlf_apply_last [OF None] show ?thesis by (simp add: raw_pos_drop)
  next
    case (Some i)
    have b: "k + i + length m \<le> length (replace_crlf content)"
      using find_sub_le [OF Some] 1(3) by simp
    let ?d = "drop (raw_pos content k) content"
    have "no_stray (take (raw_pos ?d i) ?d)"
      using assms(1) by (intro no_stray_part no_stray_rest)
    then have "replace_crlf (take (raw_pos ?d i) ?d @ text @ rest) =
        take i (drop k (replace_crlf content)) @ replace_crlf text @ replace_crlf rest" for rest
      using assms(2) by (simp add: no_stray_append raw_pos_take raw_pos_drop)
    with 1(1) [OF 1(2) Some 1(2) b] show ?thesis
      unfolding crlf_apply_step [OF Some 1(2,3)] replace_all_first [OF Some 1(2)]
      by (simp add: add.commute add.left_commute)
  qed
qed

lemma crlf_apply_keeps:
  assumes "crlf_text content" "crlf_text text"
  shows "no \<noteq> [] \<Longrightarrow> k \<le> length (replace_crlf content) \<Longrightarrow>
    crlf_text (apply_matches content (int (raw_pos content k))
      (map (crlf_match content no text) (find_all no (replace_crlf content) k)))"
proof (induction no "replace_crlf content" k rule: find_all.induct)
  case (1 m k)
  have c: "carriage \<notin> set (replace_crlf content)"
    using assms(1) by (simp add: crlf_text_def no_stray_def)
  have d: "drop (raw_pos content n) content = to_crlf (drop n (replace_crlf content))"
      "crlf_text (drop (raw_pos content n) content)" if "n \<le> length (replace_crlf content)" for n
    using crlf_text_parts(2) [OF assms(1) that] c
    by (auto intro!: crlf_text_to_crlf dest: in_set_dropD)
  show ?case
  proof (cases "find_sub m (drop k (replace_crlf content))")
    case None
    with crlf_apply_last [OF None] d(2) [OF 1(3)] show ?thesis by simp
  next
    case (Some i)
    have b: "k + i + length m \<le> length (replace_crlf content)"
      using find_sub_le [OF Some] 1(3) by simp
    let ?d = "drop (raw_pos content k) content"
    have "take (raw_pos ?d i) ?d = to_crlf (take i (replace_crlf ?d))"
      using d(2) [OF 1(3)] b by (intro crlf_text_parts(1)) (simp_all add: raw_pos_drop)
    moreover have "carriage \<notin> set (take i (replace_crlf ?d))"
      using c by (auto simp: raw_pos_drop dest!: in_set_takeD in_set_dropD)
    ultimately have "crlf_text (take (raw_pos ?d i) ?d)" by (simp add: crlf_text_to_crlf)
    with 1(1) [OF 1(2) Some 1(2) b] assms(2) show ?thesis
      unfolding crlf_apply_step [OF Some 1(2,3)] by (intro crlf_text_append)
  qed
qed

lemma ending_text_normal: "no_stray new \<Longrightarrow> no_stray (ending_text content new) \<and>
    replace_crlf (ending_text content new) = replace_crlf new"
  by (simp add: ending_text_def no_stray_def replace_to_crlf)



subsection \<open>Every tier: what is outside the matches stays\<close>

definition placed :: "int \<Rightarrow> int \<Rightarrow> replace_match list \<Rightarrow> bool" where
  "placed k n ms \<longleftrightarrow> sorted_wrt (\<lambda>x y. rm_end x \<le> rm_start y) ms \<and>
     (\<forall>m \<in> set ms. k \<le> rm_start m \<and> rm_start m \<le> rm_end m \<and> rm_end m \<le> n)"

fun weave :: "string list \<Rightarrow> string list \<Rightarrow> string" where
  "weave (p # ps) (q # qs) = p @ q @ weave ps qs"
| "weave ps [] = concat ps"
| "weave [] qs = []"

lemma placed_weave:
  assumes "placed (int k) (int (length s)) ms" "k \<le> length s"
  shows "\<exists>ps qs. length ps = Suc (length ms) \<and> length qs = length ms \<and> drop k s = weave ps qs \<and>
    apply_matches s (int k) ms = weave ps (map rm_text ms)"
  using assms
proof (induction ms arbitrary: k)
  case Nil
  have "drop k s = weave [drop k s] []" "apply_matches s (int k) [] = weave [drop k s] []"
    by simp_all
  then show ?case by (intro exI [of _ "[drop k s]"] exI [of _ "[]"]) simp
next
  case (Cons m ms)
  define a b where "a = nat (rm_start m)" and "b = nat (rm_end m)"
  from Cons.prems have b: "k \<le> a" "a \<le> b" "b \<le> length s" "rm_start m = int a" "rm_end m = int b"
    by (auto simp: placed_def a_def b_def)
  from Cons.prems b have "placed (int b) (int (length s)) ms" by (auto simp: placed_def)
  from Cons.IH [OF this b(3)] obtain ps qs where pq: "length ps = Suc (length ms)" "length qs = length ms"
      "drop b s = weave ps qs" "apply_matches s (int b) ms = weave ps (map rm_text ms)"
    by blast
  have "(if int k < int a then drop (nat (int k)) (take (nat (int a)) s) else []) = drop k (take a s)"
    using b(1) by auto
  then have "apply_matches s (int k) (m # ms) = weave (drop k (take a s) # ps) (map rm_text (m # ms))"
    by (simp only: apply_matches.simps b(4,5) pq(4) list.map weave.simps)
  moreover have "drop k s = weave (drop k (take a s) # ps) (drop a (take b s) # qs)"
  proof -
    have "drop k s = drop k (take a s) @ drop a s"
      using b by (metis append_take_drop_id diff_is_0_eq drop_0 drop_append length_take min.absorb2 order.trans)
    moreover have "drop a s = drop a (take b s) @ drop b s"
      using b by (metis append_take_drop_id diff_is_0_eq drop_0 drop_append length_take min.absorb2)
    ultimately show ?thesis using pq(3) by simp
  qed
  ultimately show ?case using pq(1,2)
    by (intro exI [of _ "drop k (take a s) # ps"] exI [of _ "drop a (take b s) # qs"]) simp
qed

lemma find_all_sorted:
  "k \<le> length s \<Longrightarrow> sorted_wrt (\<lambda>x y. x + length m \<le> y) (find_all m s k)"
proof (induction m s k rule: find_all.induct)
  case (1 m s k)
  show ?case
  proof (cases "m = [] \<or> find_sub m (drop k s) = None")
    case True
    then show ?thesis by (auto simp: find_all.simps [of m s k])
  next
    case False
    then obtain i where i: "m \<noteq> []" "find_sub m (drop k s) = Some i" by auto
    have b: "k + i + length m \<le> length s" using find_sub_le [OF i(2)] 1(2) by simp
    have "find_all m s k = (k + i) # find_all m s (k + i + length m)"
      using i by (simp add: find_all.simps [of m s k])
    with 1(1) [OF i b] find_all_bound [OF _ b] show ?thesis by auto
  qed
qed

lemma exact_placed: "placed 0 (int (length s)) (find_exact_matches s m new)"
proof -
  have "sorted_wrt (\<lambda>x y. x + length m \<le> y) (find_all m s 0)" by (rule find_all_sorted) simp
  then have "sorted_wrt (\<lambda>x y. rm_end x \<le> rm_start y) (map (match_at (length m) new 1) (find_all m s 0))"
    unfolding sorted_wrt_map match_at_def by (rule sorted_wrt_mono_rel [rotated]) simp
  moreover have "int i + int (length m) \<le> int (length s)" if "i \<in> set (find_all m s 0)" for i
    using find_all_bound [OF that] by simp
  ultimately show ?thesis
    by (auto simp: placed_def find_exact_matches_def match_at_def)
qed

lemma crlf_placed: "find_crlf_matches s old new \<noteq> [] \<Longrightarrow> placed 0 (int (length s)) (find_crlf_matches s old new)"
proof -
  assume a: "find_crlf_matches s old new \<noteq> []"
  let ?no = "replace_crlf old" and ?nc = "replace_crlf s"
  have "sorted_wrt (\<lambda>x y. x + length ?no \<le> y) (find_all ?no ?nc 0)" by (rule find_all_sorted) simp
  then have "sorted_wrt (\<lambda>x y. rm_end x \<le> rm_start y)
      (map (crlf_match s ?no (ending_text s new)) (find_all ?no ?nc 0))"
    unfolding sorted_wrt_map crlf_match_def
    by (rule sorted_wrt_mono_rel [rotated]) (simp add: raw_pos_mono)
  with find_crlf_found [OF a] show ?thesis
    by (auto simp: placed_def crlf_match_def raw_pos_le raw_pos_mono)
qed

lemma line_offsets_within:
  "x \<in> set (line_offsets k ls) \<Longrightarrow>
   k \<le> lo_start x \<and> lo_start x \<le> lo_end x \<and> lo_end x \<le> k + length (join [newline] ls)"
  by (induction k ls rule: line_offsets.induct) auto

lemma line_offsets_sorted: "sorted_wrt (\<lambda>x y. lo_end x \<le> lo_start y) (line_offsets k ls)"
  by (induction k ls rule: line_offsets.induct) (auto dest: line_offsets_within)

lemma scan_within:
  "(a, b) \<in> set (scan_from f ls olds i) \<Longrightarrow> i \<le> a \<and> a \<le> b \<and> b < length ls"
proof (induction f ls olds i rule: scan_from.induct)
  case (1 f ls olds i)
  show ?case
  proof (cases "olds = [] \<or> length ls < i + length olds")
    case True
    with 1(3) show ?thesis by (simp add: scan_from.simps [of f ls olds i])
  next
    case False
    show ?thesis
    proof (cases "map f (take (length olds) (drop i ls)) = map f olds")
      case True
      obtain k where l: "length olds = Suc k" using False by (cases olds) auto
      have "scan_from f ls olds i = (i, i + length olds - 1) # scan_from f ls olds (i + length olds)"
        using False True by (simp add: scan_from.simps [of f ls olds i])
      with 1(3) consider "a = i \<and> b = i + length olds - 1" | "(a, b) \<in> set (scan_from f ls olds (i + length olds))"
        by auto
      then show ?thesis
      proof cases
        case 2
        with 1(1) [OF False True] show ?thesis by simp
      qed (use l False in simp)
    next
      case no: False
      have "scan_from f ls olds i = scan_from f ls olds (Suc i)"
        using False no by (simp add: scan_from.simps [of f ls olds i])
      with 1(2) [OF False no] 1(3) show ?thesis by simp
    qed
  qed
qed

lemma scan_sorted: "sorted_wrt (\<lambda>x y. snd x < fst y) (scan_from f ls olds i)"
proof (induction f ls olds i rule: scan_from.induct)
  case (1 f ls olds i)
  show ?case
  proof (cases "olds = [] \<or> length ls < i + length olds")
    case True
    then show ?thesis by (simp add: scan_from.simps [of f ls olds i])
  next
    case False
    then obtain k where l: "length olds = Suc k" by (cases olds) auto
    from False 1(1,2) l show ?thesis
      by (auto simp: scan_from.simps [of f ls olds i] dest!: scan_within)
  qed
qed

lemma split_lines_within:
  "x \<in> set (split_lines_offsets t) \<Longrightarrow> lo_start x \<le> lo_end x \<and> lo_end x \<le> length t"
  using line_offsets_within [of x 0 "split_char newline t"]
  by (auto simp: split_lines_offsets_def join_split_char split: if_splits)

lemma split_lines_sorted: "sorted_wrt (\<lambda>x y. lo_end x \<le> lo_start y) (split_lines_offsets t)"
  by (simp add: split_lines_offsets_def line_offsets_sorted)

lemma split_lines_order:
  assumes "i < j" "j < length (split_lines_offsets t)"
  shows "lo_end (split_lines_offsets t ! i) \<le> lo_start (split_lines_offsets t ! j)"
  using sorted_wrt_nth_less [OF split_lines_sorted assms] .

lemma split_lines_nth:
  "i < length (split_lines_offsets t) \<Longrightarrow>
   lo_start (split_lines_offsets t ! i) \<le> lo_end (split_lines_offsets t ! i) \<and>
   lo_end (split_lines_offsets t ! i) \<le> length t"
  by (rule split_lines_within) simp

text \<open>The end of a match of lines, in the normalised text.\<close>

definition tolerant_end :: "string \<Rightarrow> line_offset list \<Rightarrow> string list \<Rightarrow> string \<Rightarrow> nat \<times> nat \<Rightarrow> nat" where
  "tolerant_end norm ls olds new mr =
     (let ns = lo_start (ls ! fst mr); ne = lo_end (ls ! snd mr) in
      if \<not> (olds \<noteq> [] \<and> last olds = []) \<and> has_suffix (drop ns (take ne norm)) [newline] \<and>
        \<not> has_suffix new [newline] then ne - 1 else ne)"

lemma has_suffix_nonempty: "has_suffix x [c] \<Longrightarrow> x \<noteq> []"
  by (auto simp: has_suffix_def)

lemma tolerant_end_within:
  assumes "lo_start (ls ! fst mr) \<le> lo_end (ls ! snd mr)" "lo_end (ls ! snd mr) \<le> length norm"
  shows "lo_start (ls ! fst mr) \<le> tolerant_end norm ls olds new mr \<and>
    tolerant_end norm ls olds new mr \<le> lo_end (ls ! snd mr)"
proof -
  have "lo_start (ls ! fst mr) < lo_end (ls ! snd mr)"
    if "has_suffix (drop (lo_start (ls ! fst mr)) (take (lo_end (ls ! snd mr)) norm)) [newline]"
    using has_suffix_nonempty [OF that] by simp
  with assms show ?thesis by (auto simp: tolerant_end_def Let_def)
qed

lemma tolerant_match_range:
  assumes "tolerant_end (replace_crlf raw) ls olds new mr \<le> length (replace_crlf raw)"
    and "lo_start (ls ! fst mr) \<le> tolerant_end (replace_crlf raw) ls olds new mr"
  shows "rm_start (tolerant_match raw (replace_crlf raw) ls olds new t mr) = int (raw_pos raw (lo_start (ls ! fst mr)))"
    and "rm_end (tolerant_match raw (replace_crlf raw) ls olds new t mr) =
      int (raw_pos raw (tolerant_end (replace_crlf raw) ls olds new mr))"
  using map_norm_range_pos [OF assms(2,1)]
  by (simp_all add: tolerant_match_def tolerant_end_def Let_def)

lemma tolerant_placed:
  assumes ls_def: "ls = split_lines_offsets (replace_crlf raw)" and m: "m = scan_from f (map lo_text ls) olds 0"
  shows "placed 0 (int (length raw)) (map (tolerant_match raw (replace_crlf raw) ls olds new t) m)"
proof -
  let ?e = "tolerant_end (replace_crlf raw) ls olds new"
  have w: "fst mr \<le> snd mr" "snd mr < length ls" if "mr \<in> set m" for mr
    using scan_within [of "fst mr" "snd mr" f "map lo_text ls" olds 0] that by (simp_all add: m)
  have n: "lo_start (ls ! fst mr) \<le> lo_end (ls ! snd mr)" "lo_end (ls ! snd mr) \<le> length (replace_crlf raw)"
    if mr: "mr \<in> set m" for mr
  proof -
    note nth = split_lines_nth [of _ "replace_crlf raw", folded ls_def]
    show "lo_end (ls ! snd mr) \<le> length (replace_crlf raw)" using nth w [OF mr] by blast
    show "lo_start (ls ! fst mr) \<le> lo_end (ls ! snd mr)"
    proof (cases "fst mr = snd mr")
      case True
      with nth [of "snd mr"] w [OF mr] show ?thesis by simp
    next
      case False
      with w [OF mr] have "lo_end (ls ! fst mr) \<le> lo_start (ls ! snd mr)"
        using split_lines_order [of "fst mr" "snd mr" "replace_crlf raw"] by (simp add: ls_def)
      with nth [of "fst mr"] nth [of "snd mr"] w [OF mr] show ?thesis by simp
    qed
  qed
  have e: "lo_start (ls ! fst mr) \<le> ?e mr" "?e mr \<le> lo_end (ls ! snd mr)" "?e mr \<le> length (replace_crlf raw)"
    if "mr \<in> set m" for mr
    using tolerant_end_within [OF n [OF that], where olds = olds and new = new] n(2) [OF that] by simp_all
  note r = tolerant_match_range [OF e(3,1), where t = t]
  have "sorted_wrt (\<lambda>x y. snd x < fst y) m" unfolding m by (rule scan_sorted)
  then have "sorted_wrt (\<lambda>x y. rm_end (tolerant_match raw (replace_crlf raw) ls olds new t x) \<le>
      rm_start (tolerant_match raw (replace_crlf raw) ls olds new t y)) m"
  proof (rule sorted_wrt_mono_rel [rotated])
    fix x y assume xy: "x \<in> set m" "y \<in> set m" "snd x < fst y"
    have "lo_end (ls ! snd x) \<le> lo_start (ls ! fst y)"
      using split_lines_order [of "snd x" "fst y" "replace_crlf raw"] xy w [OF xy(2)] by (simp add: ls_def)
    then show "rm_end (tolerant_match raw (replace_crlf raw) ls olds new t x) \<le>
        rm_start (tolerant_match raw (replace_crlf raw) ls olds new t y)"
      using e(2) [OF xy(1)] by (simp add: r(1) [OF xy(2) xy(2)] r(2) [OF xy(1) xy(1)] raw_pos_mono)
  qed
  then show ?thesis
    using r e by (auto simp: placed_def sorted_wrt_map raw_pos_mono raw_pos_le)
qed

lemma find_whitespace_placed:
  assumes "find_whitespace_matches content old new all = Inr ms"
  shows "placed 0 (int (length content)) ms \<and> (all \<or> length ms \<le> 1)"
  using assms tolerant_placed [OF refl refl, of content]
  by (auto simp: find_whitespace_matches_def Let_def scan_line_matches_def placed_def split: if_splits)



text \<open>
  The lines of the old text that ends with a line feed have an empty last line, and the tier
  for white space wants a line of the file for it: replacing the line \<open>foo\<close>, with its line feed,
  in a file where it has a blank at its end removes the empty line after it too, and finds
  nothing when the line after it is not empty.
\<close>

theorem blank_line_swallowed:
  "(let old = ''foo'' @ [newline]; new = ''baz'' @ [newline];
        content = ''foo '' @ [newline, newline] @ ''bar'' @ [newline] in
     (case find_replacements content old new False of Inl e \<Rightarrow> False | Inr ms \<Rightarrow>
       apply_replacements content ms = ''baz'' @ [newline] @ ''bar'' @ [newline]) \<and>
     find_replacements (''foo '' @ [newline] @ ''bar'' @ [newline]) old new False = Inl NoMatch)"
  by code_simp

text \<open>
  The new text gets the line endings of a file with CRLF, but not those of a file with line
  feeds: texts given with CRLF match such a file and bring CRLF into it.
\<close>

theorem crlf_into_lf:
  "(let content = ''a'' @ [newline] @ ''b'' @ [newline]; old = ''a'' @ crlf; new = ''c'' @ crlf in
     case find_replacements content old new False of Inl e \<Rightarrow> False | Inr ms \<Rightarrow>
       \<not> contains content crlf \<and>
       apply_replacements content ms = ''c'' @ crlf @ ''b'' @ [newline])"
  by code_simp

end
