(* ===== verification/Edit_Tools.thy ===== *)
theory Edit_Tools
  imports Edit_Patch Edit_Replace Permission_Policy
begin

text \<open>
  The edit tool of \<open>internal/adapter/out/tool/builtin\<close>: writing a whole file (\<open>write_file.go\<close>),
  replacing text (\<open>search_replace.go\<close>), restoring a checkpoint (\<open>checkpoints.go\<close>), the dispatch
  between these and patches (\<open>edit.go\<close>), and the detail a call is shown and permitted under
  (\<open>managed_detail.go\<close>, and the summary of a patch in \<open>apply_patch.go\<close>).

  The arguments are given decoded: \<open>edit_input\<close> holds all fields, \<open>filePath\<close> being read from
  \<open>path\<close> where it is missing. The diffs of the results are not modelled.
\<close>

record edit_input =
  in_action :: string
  in_path :: string
  in_content :: string
  in_sha :: string
  in_old :: string
  in_new :: string
  in_all :: bool
  in_patch :: string
  in_checkpoint :: string

subsection \<open>Details\<close>

text \<open>A middle dot between blanks, in UTF-8.\<close>

definition dot_sep :: string where
  "dot_sep = [CHR '' '', CHR 0xC2, CHR 0xB7, CHR '' '']"

definition managed_file_label :: "managed_kind \<Rightarrow> string" where
  "managed_file_label k =
     (case k of
        ManagedGenerated \<Rightarrow> ''generated file''
      | ManagedVendored \<Rightarrow> ''vendored file''
      | ManagedDependency \<Rightarrow> ''dependency-managed file''
      | ManagedLockfile \<Rightarrow> ''lockfile''
      | ManagedRegular \<Rightarrow> ''managed file'')"

definition managed_file_detail :: "string \<Rightarrow> string \<Rightarrow> string" where
  "managed_file_detail path proposed =
     (let p = trim_space path;
          k = (if has_generated_header proposed then ManagedGenerated else classify_managed_path p) in
      if k = ManagedRegular then p else p @ dot_sep @ managed_file_label k)"

record operation_summary =
  su_adds :: nat
  su_deletes :: nat
  su_modifies :: nat
  su_moves :: nat

definition count_operation :: "patch_operation \<Rightarrow> operation_summary \<Rightarrow> operation_summary" where
  "count_operation po s =
     (case po_kind po of
        PkAdd \<Rightarrow> s\<lparr>su_adds := Suc (su_adds s)\<rparr>
      | PkDelete \<Rightarrow> s\<lparr>su_deletes := Suc (su_deletes s)\<rparr>
      | PkUpdate \<Rightarrow> if po_move po \<noteq> [] then s\<lparr>su_moves := Suc (su_moves s)\<rparr>
          else s\<lparr>su_modifies := Suc (su_modifies s)\<rparr>
      | PkUnknown \<Rightarrow> s)"

definition summarize_operations :: "patch_operation list \<Rightarrow> operation_summary" where
  "summarize_operations ops =
     fold count_operation ops \<lparr>su_adds = 0, su_deletes = 0, su_modifies = 0, su_moves = 0\<rparr>"

definition summary_string :: "operation_summary \<Rightarrow> string" where
  "summary_string s =
     join dot_sep
       ((if 0 < su_adds s then [''add '' @ digits_of (su_adds s)] else []) @
        (if 0 < su_modifies s then [''modify '' @ digits_of (su_modifies s)] else []) @
        (if 0 < su_moves s then [''move '' @ digits_of (su_moves s)] else []) @
        (if 0 < su_deletes s then [''delete '' @ digits_of (su_deletes s)] else []))"

fun path_details :: "string list \<Rightarrow> string list \<Rightarrow> string list" where
  "path_details seen [] = []"
| "path_details seen (p # ps) =
     (if p = [] \<or> p \<in> set seen then path_details seen ps
      else managed_file_detail p [] # path_details (p # seen) ps)"

definition patch_detail :: "string \<Rightarrow> string" where
  "patch_detail text =
     (case parse_patch text of
        Inl e \<Rightarrow> []
      | Inr ops \<Rightarrow>
          if ops = [] then []
          else join dot_sep (summary_string (summarize_operations ops) #
            path_details [] (concat (map (\<lambda>po. [po_path po, po_move po]) ops))))"

subsection \<open>The action of a call\<close>

datatype edit_action = ActWrite | ActReplace | ActPatch | ActRestore

definition edit_child :: "string \<Rightarrow> edit_action option" where
  "edit_child action =
     (let a = to_lower (trim_space action) in
      if a = ''write'' then Some ActWrite
      else if a = ''replace'' then Some ActReplace
      else if a = ''patch'' then Some ActPatch
      else if a = ''restore'' then Some ActRestore
      else None)"

definition child_detail :: "edit_action \<Rightarrow> edit_input \<Rightarrow> string" where
  "child_detail a i =
     (case a of
        ActWrite \<Rightarrow> managed_file_detail (in_path i) (in_content i)
      | ActReplace \<Rightarrow> managed_file_detail (in_path i) []
      | ActPatch \<Rightarrow> patch_detail (in_patch i)
      | ActRestore \<Rightarrow> [])"

definition edit_detail :: "edit_input \<Rightarrow> string" where
  "edit_detail i =
     (case edit_child (in_action i) of
        None \<Rightarrow> []
      | Some a \<Rightarrow>
          let d = trim_space (child_detail a i) in
          if d \<noteq> [] then d
          else case a of
              ActPatch \<Rightarrow> []
            | ActRestore \<Rightarrow> trim_space (in_checkpoint i)
            | _ \<Rightarrow> trim_space (in_path i))"

definition edit_contract :: "edit_action option \<Rightarrow> safety_contract" where
  "edit_contract a =
     (case a of
        Some ActWrite \<Rightarrow> \<lparr>mutation_domain = DomainWorkspace, mutation_safety = SafetyWholeFile,
          checkpoint_policy = CheckpointRequired, boundary = BoundaryWorkspaceWrite\<rparr>
      | Some ActReplace \<Rightarrow> \<lparr>mutation_domain = DomainWorkspace, mutation_safety = SafetyContextual,
          checkpoint_policy = CheckpointRequired, boundary = BoundaryWorkspaceWrite\<rparr>
      | Some ActPatch \<Rightarrow> patch_contract
      | Some ActRestore \<Rightarrow> \<lparr>mutation_domain = DomainWorkspace, mutation_safety = SafetyWholeFile,
          checkpoint_policy = CheckpointNone, boundary = BoundaryWorkspaceWrite\<rparr>
      | None \<Rightarrow> \<lparr>mutation_domain = DomainWorkspace, mutation_safety = SafetyDynamic,
          checkpoint_policy = CheckpointWhenKnown, boundary = BoundaryWorkspaceWrite\<rparr>)"

subsection \<open>Writing one file\<close>

text \<open>What both handlers do once they know the content: checkpoint, write, take ownership.\<close>

definition display_path :: "workspace \<Rightarrow> string \<Rightarrow> string \<Rightarrow> string" where
  "display_path w input p =
     (case rel_read w p of Some r \<Rightarrow> if r \<noteq> [] then r else input | None \<Rightarrow> input)"

definition write_one :: "edit_env \<Rightarrow> workspace \<Rightarrow> edit_state \<Rightarrow> edit_action \<Rightarrow> string \<Rightarrow> string \<Rightarrow> string \<Rightarrow>
    (string \<Rightarrow> string) \<Rightarrow> io \<Rightarrow> edit_state \<times> edit_result" where
  "write_one env w st a input p content say os =
     (case prepare_mutation env w (edit_contract (Some a)) st [] [p] of
        (st1, Inl e) \<Rightarrow> (st1, edit_failure [] e)
      | (st1, Inr i) \<Rightarrow>
          (case atomic_write_resolved (es_disk st1) w p content os of
             (d, Some e) \<Rightarrow> (st1\<lparr>es_disk := d\<rparr>, edit_failure i e)
           | (d, None) \<Rightarrow>
               (st1\<lparr>es_disk := d, es_session := mark_mutation_owned (es_session st1) w [p]\<rparr>,
                \<lparr>er_checkpoint = i, er_output = say (display_path w input p),
                 er_affected = [display_path w input p], er_error = None\<rparr>)))"

definition digest_char :: "char \<Rightarrow> bool" where
  "digest_char c \<longleftrightarrow> digit_char c \<or> c \<in> set ''abcdef''"

text \<open>The check of the digest the client read; the digest is compared in lower case.\<close>

definition check_digest :: "edit_env \<Rightarrow> string \<Rightarrow> string \<Rightarrow> edit_error option" where
  "check_digest env existing given =
     (let expected = to_lower (trim_space given) in
      if expected = [] then Some EdInvalid
      else if \<not> list_all digest_char expected \<or> length expected \<noteq> 64 then Some EdInvalid
      else if expected \<noteq> ee_sha env existing then Some EdConflict
      else None)"

definition execute_write :: "edit_env \<Rightarrow> workspace \<Rightarrow> edit_state \<Rightarrow> edit_input \<Rightarrow> io \<Rightarrow> edit_state \<times> edit_result" where
  "execute_write env w st input os =
     (let path = trim_space (in_path input) in
      if path = [] then (st, edit_failure [] EdInvalid)
      else case resolve_path (dk_fs (es_disk st)) False w path of
          Inl e \<Rightarrow> (st, edit_failure [] (EdWorkspace e))
        | Inr p \<Rightarrow>
            (case guard_whole_file_mutation (ee_git env) (es_session st) w [p] of
               GuardPasses \<Rightarrow>
                 (case read_edit_file (es_disk st) w p of
                    Inl e \<Rightarrow> (st, edit_failure [] e)
                  | Inr existing \<Rightarrow>
                      (case Option.bind existing (\<lambda>c. check_digest env c (in_sha input)) of
                         Some e \<Rightarrow> (st, edit_failure [] e)
                       | None \<Rightarrow> write_one env w st ActWrite path p (in_content input)
                           (\<lambda>d. ''Wrote file successfully to '' @ d @ ''.'') os))
             | r \<Rightarrow> (st, edit_failure [] (EdGuard r))))"

subsection \<open>Replacing text in a file\<close>

definition replace_failure :: "replace_error \<Rightarrow> edit_error" where
  "replace_failure e =
     (case e of EmptyOld \<Rightarrow> EdInvalid | ManyMatches n \<Rightarrow> EdManyMatches | NoMatch \<Rightarrow> EdNoMatch)"

definition execute_replace :: "edit_env \<Rightarrow> workspace \<Rightarrow> edit_state \<Rightarrow> edit_input \<Rightarrow> io \<Rightarrow> edit_state \<times> edit_result" where
  "execute_replace env w st input os =
     (let path = trim_space (in_path input) in
      if path = [] \<or> in_old input = in_new input then (st, edit_failure [] EdInvalid)
      else case resolve_path (dk_fs (es_disk st)) False w path of
          Inl e \<Rightarrow> (st, edit_failure [] (EdWorkspace e))
        | Inr p \<Rightarrow>
            (case read_edit_file (es_disk st) w p of
               Inl e \<Rightarrow> (st, edit_failure [] e)
             | Inr existing \<Rightarrow>
                 if in_old input = [] then
                   (if existing \<noteq> None \<and> existing \<noteq> Some [] then (st, edit_failure [] EdExists)
                    else write_one env w st ActReplace path p (in_new input)
                      (\<lambda>d. ''The file '' @ d @ '' has been created.'') os)
                 else case existing of
                     None \<Rightarrow> (st, edit_failure [] EdMissing)
                   | Some content \<Rightarrow>
                       (case find_replacements content (in_old input) (in_new input) (in_all input) of
                          Inl e \<Rightarrow> (st, edit_failure [] (replace_failure e))
                        | Inr ms \<Rightarrow> write_one env w st ActReplace path p (apply_replacements content ms)
                            (\<lambda>d. ''The file '' @ d @ '' has been updated.'') os)))"

subsection \<open>Restoring, and the tool\<close>

definition execute_restore :: "edit_env \<Rightarrow> workspace \<Rightarrow> edit_state \<Rightarrow> string \<Rightarrow> io \<Rightarrow> edit_state \<times> edit_result" where
  "execute_restore env w st given os =
     (let i = trim_space given in
      if i = [] then (st, edit_failure [] EdInvalid)
      else case es_store st of
          None \<Rightarrow> (st, edit_failure [] EdCheckpoint)
        | Some s \<Rightarrow>
            (case restore (ee_enc env) (ee_git env) (es_disk st) w (es_session st) s i os of
               (d, ses, Some e) \<Rightarrow> (st\<lparr>es_disk := d, es_session := ses\<rparr>, edit_failure [] e)
             | (d, ses, None) \<Rightarrow>
                 (st\<lparr>es_disk := d, es_session := ses\<rparr>,
                  \<lparr>er_checkpoint = [], er_output = ''Restored checkpoint '' @ i @ ''.'', er_affected = [],
                   er_error = None\<rparr>)))"

definition execute_edit :: "edit_env \<Rightarrow> workspace \<Rightarrow> edit_state \<Rightarrow> edit_input \<Rightarrow> io \<Rightarrow> edit_state \<times> edit_result" where
  "execute_edit env w st input os =
     (case edit_child (in_action input) of
        None \<Rightarrow> (st, edit_failure [] EdInvalid)
      | Some ActWrite \<Rightarrow> execute_write env w st input os
      | Some ActReplace \<Rightarrow> execute_replace env w st input os
      | Some ActPatch \<Rightarrow> execute_patch env w st (in_patch input) os
      | Some ActRestore \<Rightarrow> execute_restore env w st (in_checkpoint input) os)"

subsection \<open>Lemmas\<close>

lemma contract_required [simp]:
  "checkpoint_policy (edit_contract (Some ActWrite)) = CheckpointRequired"
  "checkpoint_policy (edit_contract (Some ActReplace)) = CheckpointRequired"
  by (simp_all add: edit_contract_def)

lemma write_one_cases:
  assumes "write_one env w st a input p content say os = (st', r)" "a \<in> {ActWrite, ActReplace}"
  obtains (stopped) "es_disk st' = es_disk st" "es_session st' = es_session st" "er_checkpoint r = []" "er_error r \<noteq> None"
  | (failed) s s1 where "es_store st = Some s" "es_store st' = Some s1"
    "capture (ee_enc env) (ee_rm env) (ee_written env) (ee_now env) (ee_id env) (es_disk st) w s [p] = (s1, None)"
    "er_checkpoint r = ee_id env" "dk_nodes (es_disk st') = dk_nodes (es_disk st)"
    "es_session st' = es_session st" "er_error r \<noteq> None"
  | (written) s s1 m where "es_store st = Some s" "es_store st' = Some s1"
    "capture (ee_enc env) (ee_rm env) (ee_written env) (ee_now env) (ee_id env) (es_disk st) w s [p] = (s1, None)"
    "er_checkpoint r = ee_id env"
    "dk_nodes (es_disk st') = (dk_nodes (es_disk st))(p \<mapsto> RegularFile content m)"
    "es_session st' = mark_mutation_owned (es_session st) w [p]" "er_error r = None"
proof -
  obtain st1 o1 where p: "prepare_mutation env w (edit_contract (Some a)) st [] [p] = (st1, o1)" by fastforce
  note d = prepare_disk [OF p]
  have req: "checkpoint_policy (edit_contract (Some a)) = CheckpointRequired" using assms(2) by auto
  show ?thesis
  proof (cases o1)
    case (Inl e)
    with assms(1) p d stopped show ?thesis by (auto simp: write_one_def edit_failure_def)
  next
    case (Inr i)
    from prepare_required [OF p [unfolded Inr] req] obtain s s1 where c: "es_store st = Some s" "i = ee_id env"
      "st1 = st\<lparr>es_store := Some s1\<rparr>"
      "capture (ee_enc env) (ee_rm env) (ee_written env) (ee_now env) (ee_id env) (es_disk st) w s [p] = (s1, None)"
      by blast
    obtain d' o2 where wr: "atomic_write_resolved (es_disk st) w p content os = (d', o2)" by fastforce
    show ?thesis
    proof (cases o2)
      case None
      with wr have "dk_nodes d' = (dk_nodes (es_disk st))(p \<mapsto> RegularFile content (node_mode (node_at (es_disk st) p)))"
        using write_ok by blast
      with assms(1) p Inr c wr None show ?thesis by (intro written [of s s1]) (auto simp: write_one_def)
    next
      case (Some e)
      with wr have "dk_nodes d' = dk_nodes (es_disk st)" using write_failed by blast
      with assms(1) p Inr c wr Some show ?thesis
        by (intro failed [of s s1]) (auto simp: write_one_def edit_failure_def)
    qed
  qed
qed

text \<open>What the two handlers do before they write.\<close>

lemma execute_write_cases:
  assumes "execute_write env w st input os = (st', r)"
  obtains (refused) e where "st' = st" "r = edit_failure [] e"
  | (writes) p existing where
    "resolve_path (dk_fs (es_disk st)) False w (trim_space (in_path input)) = Inr p"
    "guard_whole_file_mutation (ee_git env) (es_session st) w [p] = GuardPasses"
    "read_edit_file (es_disk st) w p = Inr existing"
    "\<forall>c. existing = Some c \<longrightarrow> check_digest env c (in_sha input) = None"
    "write_one env w st ActWrite (trim_space (in_path input)) p (in_content input)
       (\<lambda>d. ''Wrote file successfully to '' @ d @ ''.'') os = (st', r)"
  using assms
  by (fastforce simp: execute_write_def Let_def
      split: if_splits sum.splits guard_result.splits option.splits bind_splits)

lemma execute_replace_cases:
  assumes "execute_replace env w st input os = (st', r)"
  obtains (refused) e where "st' = st" "r = edit_failure [] e"
  | (creates) p existing where
    "resolve_path (dk_fs (es_disk st)) False w (trim_space (in_path input)) = Inr p"
    "read_edit_file (es_disk st) w p = Inr existing" "in_old input = []" "existing \<in> {None, Some []}"
    "write_one env w st ActReplace (trim_space (in_path input)) p (in_new input)
       (\<lambda>d. ''The file '' @ d @ '' has been created.'') os = (st', r)"
  | (updates) p content ms where
    "resolve_path (dk_fs (es_disk st)) False w (trim_space (in_path input)) = Inr p"
    "read_edit_file (es_disk st) w p = Inr (Some content)" "in_old input \<noteq> []"
    "find_replacements content (in_old input) (in_new input) (in_all input) = Inr ms"
    "write_one env w st ActReplace (trim_space (in_path input)) p (apply_replacements content ms)
       (\<lambda>d. ''The file '' @ d @ '' has been updated.'') os = (st', r)"
  using assms
  by (fastforce simp: execute_replace_def Let_def split: if_splits sum.splits option.splits)

lemma check_digest_None:
  "check_digest env c given = None \<Longrightarrow> to_lower (trim_space given) = ee_sha env c"
  by (auto simp: check_digest_def Let_def split: if_splits)

lemma read_none: "read_edit_file d w p = Inr existing \<Longrightarrow> existing = None \<or> (\<exists>m. existing = Some m)"
  by auto

subsection \<open>What the edits do\<close>

text \<open>
  C16: A whole file is replaced only on the evidence that the client knows it. When a write
  succeeds, the only path of the disk that changes is the one it named, which holds the given
  content; the guard had no objection to that path, and if there was a file before, the digest
  the client gave, up to case and outer blanks, was the digest of its content.
\<close>

theorem write_exact:
  assumes "execute_write env w st input os = (st', r)" "er_error r = None"
  shows "\<exists>p m. resolve_path (dk_fs (es_disk st)) False w (trim_space (in_path input)) = Inr p \<and>
    guard_whole_file_mutation (ee_git env) (es_session st) w [p] = GuardPasses \<and>
    (\<forall>c. read_edit_file (es_disk st) w p = Inr (Some c) \<longrightarrow>
       to_lower (trim_space (in_sha input)) = ee_sha env c) \<and>
    dk_nodes (es_disk st') = (dk_nodes (es_disk st))(p \<mapsto> RegularFile (in_content input) m) \<and>
    es_session st' = mark_mutation_owned (es_session st) w [p]"
  using assms(1)
proof (cases rule: execute_write_cases)
  case (refused e)
  with assms(2) show ?thesis by (simp add: edit_failure_def)
next
  case (writes p existing)
  have "ActWrite \<in> {ActWrite, ActReplace}" by simp
  with writes(5) show ?thesis
  proof (cases rule: write_one_cases)
    case (written s s1 m)
    with writes check_digest_None show ?thesis by (intro exI [of _ p] exI [of _ m]) auto
  qed (use assms(2) in auto)
qed

text \<open>
  C17: The replacement of text that occurs in a file. When it succeeds, the named file holds its
  content with every occurrence replaced, from the left, and nothing else on the disk has changed;
  and without \<open>replaceAll\<close> there was exactly one occurrence. So an edit whose text has become
  ambiguous is refused.
\<close>

theorem replace_exact:
  assumes "execute_replace env w st input os = (st', r)" "er_error r = None" "in_old input \<noteq> []"
    and "resolve_path (dk_fs (es_disk st)) False w (trim_space (in_path input)) = Inr p"
    and "read_edit_file (es_disk st) w p = Inr (Some content)" "contains content (in_old input)"
  shows "(in_all input \<or> count_sub (in_old input) content = 1) \<and>
    (\<exists>m. dk_nodes (es_disk st') =
      (dk_nodes (es_disk st))(p \<mapsto> RegularFile (replace_all (in_old input) (in_new input) content) m))"
  using assms(1)
proof (cases rule: execute_replace_cases)
  case (refused e)
  with assms(2) show ?thesis by (simp add: edit_failure_def)
next
  case (creates q existing)
  with assms(3) show ?thesis by simp
next
  case (updates q c ms)
  with assms(4,5) have same: "q = p" "c = content" by simp_all
  have "ActReplace \<in> {ActWrite, ActReplace}" by simp
  with updates(5) show ?thesis
  proof (cases rule: write_one_cases)
    case (written s s1 m)
    with exact_edit [OF assms(3,6), of "in_all input" "in_new input"] updates(4) same show ?thesis by auto
  qed (use assms(2) in auto)
qed

text \<open>
  C30: A write or a replacement that fails leaves every file and the ownership of changes as they
  were, whichever step failed. (A patch of several changes does not promise this.)
\<close>

theorem edit_all_or_nothing:
  assumes "execute_edit env w st input os = (st', r)" "er_error r \<noteq> None"
    and "edit_child (in_action input) \<in> {Some ActWrite, Some ActReplace}"
  shows "dk_nodes (es_disk st') = dk_nodes (es_disk st) \<and> es_session st' = es_session st"
proof -
  have w: "dk_nodes (es_disk st') = dk_nodes (es_disk st) \<and> es_session st' = es_session st"
    if "write_one env w st a i p c s os = (st', r)" "a \<in> {ActWrite, ActReplace}" for a i p c s
    using that by (cases rule: write_one_cases) (use assms(2) in auto)
  from assms(1,3) consider "execute_write env w st input os = (st', r)"
    | "execute_replace env w st input os = (st', r)"
    by (auto simp: execute_edit_def)
  then show ?thesis
  proof cases
    case 1
    then show ?thesis by (cases rule: execute_write_cases) (use w in auto)
  next
    case 2
    then show ?thesis by (cases rule: execute_replace_cases) (use w in auto)
  qed
qed

lemma write_one_undone:
  assumes "disk_ok w (es_disk st)" "ws_wf w" "es_store st = Some s" "distinct (map fst (cs_files s))"
    and "write_one env w st a i p c say os = (st', r)" "a \<in> {ActWrite, ActReplace}" "er_checkpoint r \<noteq> []"
    and "fs_ok (dk_fs (es_disk st'))" "es_store st' = Some s'" "settled_path p"
    and "restore (ee_enc env) g (es_disk st') w ses s' (er_checkpoint r) os' = (d, ses', None)"
  shows "dk_nodes d q = dk_nodes (es_disk st) q"
proof -
  have fs: "fs_ok (dk_fs (es_disk st))" using assms(1) by (simp add: disk_ok_def)
  from assms(5,6) have "\<exists>s1. es_store st' = Some s1 \<and> er_checkpoint r = ee_id env \<and>
      capture (ee_enc env) (ee_rm env) (ee_written env) (ee_now env) (ee_id env) (es_disk st) w s [p] = (s1, None) \<and>
      (\<forall>q. q \<noteq> p \<longrightarrow> dk_nodes (es_disk st') q = dk_nodes (es_disk st) q)"
    by (cases rule: write_one_cases) (use assms(3,7) in auto)
  then have c: "er_checkpoint r = ee_id env"
      "capture (ee_enc env) (ee_rm env) (ee_written env) (ee_now env) (ee_id env) (es_disk st) w s [p] = (s', None)"
      "\<And>q. q \<noteq> p \<Longrightarrow> dk_nodes (es_disk st') q = dk_nodes (es_disk st) q"
    using assms(9) by auto
  from restore_captured [OF assms(1,8,2,4) c(2) refl assms(11) [unfolded c(1)]] obtain ps where
    ps: "resolve_unique_paths (dk_fs (es_disk st)) w [p] = Inr ps"
      "\<forall>q. dk_nodes d q = (if q \<in> set ps then dk_nodes (es_disk st) q else dk_nodes (es_disk st') q)" by blast
  have "p \<in> set ps" using captured_settled [OF fs ps(1) _ assms(10)] by simp
  with ps(2) c(3) [of q] show ?thesis by auto
qed


subsection \<open>Rules that are meant for a path\<close>

definition edit_request :: "edit_input \<Rightarrow> request" where
  "edit_request i = \<lparr>req_call_id = ''1'', req_tool_name = ''edit'', req_kind = KindEdit,
     req_detail = edit_detail i, req_arguments = [], req_risk = RiskNormal,
     req_effect = EffectMutating, req_scope = ScopeLocal\<rparr>"

definition deny_edits :: "string list \<Rightarrow> config" where
  "deny_edits ps = \<lparr>config_rules = map (\<lambda>p. \<lparr>rule_action = ActionDeny, rule_tool = KindEdit,
     rule_pattern = p, rule_mode = PatternModeGlob\<rparr>) ps, config_default = ActionAllow\<rparr>"

definition write_of :: "string \<Rightarrow> string \<Rightarrow> edit_input" where
  "write_of p content = \<lparr>in_action = ''write'', in_path = p, in_content = content, in_sha = [], in_old = [],
     in_new = [], in_all = False, in_patch = [], in_checkpoint = []\<rparr>"

definition patch_of :: "string \<Rightarrow> edit_input" where
  "patch_of text = (write_of [] [])\<lparr>in_action := ''patch'', in_patch := text\<rparr>"

text \<open>
  A rule that denies edits of a path can be evaded by the edit itself. Rules are matched
  against the detail of a call, and the detail of a write has a label after the path when the
  path looks managed, or when the content to be written has a generated header. With edits of
  \<open>secret.txt\<close> and \<open>go.sum\<close> denied and everything else allowed, a write of \<open>secret.txt\<close> is
  denied as it should be, but allowed when its text says \<open>generated\<close> and \<open>do not edit\<close>, or when it
  is a patch, and a write of \<open>go.sum\<close> is never denied.
\<close>

theorem deny_rule_evaded:
  "case new_policy (deny_edits [''secret.txt'', ''go.sum'']) of Inl e \<Rightarrow> False | Inr p \<Rightarrow>
     map (\<lambda>i. dec_action (evaluate (\<lambda>u. None) p (edit_request i)))
       [write_of ''secret.txt'' ''x'',
        write_of ''secret.txt'' ''generated, do not edit'',
        patch_of (lines_of [''*** Begin Patch'', ''*** Add File: secret.txt'', ''+x'', ''*** End Patch'']),
        write_of ''go.sum'' ''x'']
     = [ActionDeny, ActionAllow, ActionAllow, ActionAllow]"
  by code_simp

subsection \<open>Witnesses\<close>

definition digest_env :: edit_env where
  "digest_env = small_env\<lparr>ee_sha := (\<lambda>s. replicate 64 (if s = lines_of [''r''] then CHR ''a'' else CHR ''b''))\<rparr>"

definition write_b :: edit_input where
  "write_b = (write_of '' b '' ''new'')\<lparr>in_sha := '' '' @ replicate 64 CHR ''A''\<rparr>"

definition after_write :: "edit_state \<times> edit_result" where
  "after_write = execute_write digest_env small_ws two_files write_b []"

theorem write_exact_witness:
  "er_error (snd after_write) = None \<and>
   (\<exists>m. dk_nodes (es_disk (fst after_write)) ''/w/b'' = Some (RegularFile ''new'' m)) \<and>
   dk_nodes (es_disk (fst after_write)) ''/w/a'' = dk_nodes (es_disk two_files) ''/w/a''"
proof -
  have f: "er_error (snd after_write) = None" by code_simp
  have p: "resolve_path (dk_fs (es_disk two_files)) False small_ws (trim_space (in_path write_b)) = Inr ''/w/b''"
    by code_simp
  have "execute_write digest_env small_ws two_files write_b [] = (fst after_write, snd after_write)"
    by (simp add: after_write_def)
  from write_exact [OF this f] p f show ?thesis by (auto simp: write_b_def write_of_def)
qed

definition replace_q :: edit_input where
  "replace_q = (write_of ''a'' [])\<lparr>in_old := ''q'', in_new := ''Q''\<rparr>"

definition after_replace :: "edit_state \<times> edit_result" where
  "after_replace = execute_replace small_env small_ws two_files replace_q []"

theorem replace_exact_witness:
  "\<exists>m. dk_nodes (es_disk (fst after_replace)) ''/w/a'' = Some (RegularFile (lines_of [''p'', ''Q'']) m)"
proof -
  have f: "er_error (snd after_replace) = None" "in_old replace_q \<noteq> []"
    "contains (lines_of [''p'', ''q'']) (in_old replace_q)" 
    "replace_all (in_old replace_q) (in_new replace_q) (lines_of [''p'', ''q'']) = lines_of [''p'', ''Q'']"
    by code_simp+
  have p: "resolve_path (dk_fs (es_disk two_files)) False small_ws (trim_space (in_path replace_q)) = Inr ''/w/a''"
    "read_edit_file (es_disk two_files) small_ws ''/w/a'' = Inr (Some (lines_of [''p'', ''q'']))"
    by code_simp+
  have "execute_replace small_env small_ws two_files replace_q [] = (fst after_replace, snd after_replace)"
    by (simp add: after_replace_def)
  from replace_exact [OF this f(1,2) p f(3)] f(4) show ?thesis by auto
qed

text \<open>A write the file system refuses, and a digest of an older content.\<close>

theorem edit_all_or_nothing_witness:
  "(let out = execute_edit digest_env small_ws two_files write_b [(False, small_fs)] in
      er_error (snd out) = Some EdIO \<and> dk_nodes (es_disk (fst out)) = dk_nodes (es_disk two_files)) \<and>
   (let out = execute_edit digest_env small_ws two_files (write_b\<lparr>in_path := ''a''\<rparr>) [] in
      er_error (snd out) = Some EdConflict \<and> dk_nodes (es_disk (fst out)) = dk_nodes (es_disk two_files))"
proof -
  have e: "er_error (snd (execute_edit digest_env small_ws two_files write_b [(False, small_fs)])) = Some EdIO"
    "er_error (snd (execute_edit digest_env small_ws two_files (write_b\<lparr>in_path := ''a''\<rparr>) [])) = Some EdConflict"
    by code_simp+
  have c: "edit_child (in_action write_b) = Some ActWrite"
    "edit_child (in_action (write_b\<lparr>in_path := ''a''\<rparr>)) = Some ActWrite" by code_simp+
  have d: "dk_nodes (es_disk (fst (execute_edit digest_env small_ws two_files i os))) = dk_nodes (es_disk two_files)"
    if "er_error (snd (execute_edit digest_env small_ws two_files i os)) = Some x"
      "edit_child (in_action i) = Some ActWrite" for i os x
    using edit_all_or_nothing [OF prod.collapse [symmetric], of digest_env small_ws two_files i os] that by simp
  show ?thesis
    unfolding Let_def by (intro conjI e d [OF e(1) c(1)] d [OF e(2) c(2)])
qed


end
