(* ===== verification/Historical_Text.thy ===== *)
theory Historical_Text
  imports Tool_Domain Line_Text
begin

text \<open>
  What is left of the result of an old tool call: the texts of \<open>internal/core/conversation/retention.go\<close>.
  The program reads a few fields out of the encoded result without decoding it, by a search for
  the quoted name of the field, and decodes it only when that does not work.
  \<open>strconv.UnquoteChar\<close> and \<open>strconv.Unquote\<close> are modelled for texts in double quotes. Decoding is
  a parameter: the result, and the spelling of the code of its failure.
\<close>

subsection \<open>Runes and quoted texts\<close>

text \<open>\<open>utf8.AppendRune\<close>; a surrogate or a number that is too large becomes U+FFFD.\<close>

definition encode_rune :: "nat \<Rightarrow> string" where
  "encode_rune r =
     (if r < 128 then [char_of r]
      else if r < 2048 then [char_of (192 + r div 64), char_of (128 + r mod 64)]
      else if 1114111 < r \<or> (55296 \<le> r \<and> r \<le> 57343) then [CHR 0xEF, CHR 0xBF, CHR 0xBD]
      else if r < 65536
        then [char_of (224 + r div 4096), char_of (128 + r div 64 mod 64), char_of (128 + r mod 64)]
      else [char_of (240 + r div 262144), char_of (128 + r div 4096 mod 64),
            char_of (128 + r div 64 mod 64), char_of (128 + r mod 64)])"

text \<open>\<open>utf8.RuneLen\<close>, as the program uses it: three where it is negative.\<close>

definition rune_len :: "nat \<Rightarrow> nat" where
  "rune_len r =
     (if r < 128 then 1 else if r < 2048 then 2 else if 55296 \<le> r \<and> r \<le> 57343 then 3
      else if r < 65536 then 3 else if r \<le> 1114111 then 4 else 3)"

definition hex_value :: "char \<Rightarrow> nat option" where
  "hex_value c =
     (let b = byte c in
      if 48 \<le> b \<and> b \<le> 57 then Some (b - 48)
      else if 97 \<le> b \<and> b \<le> 102 then Some (b - 87)
      else if 65 \<le> b \<and> b \<le> 70 then Some (b - 55)
      else None)"

fun hex_number :: "nat \<Rightarrow> string \<Rightarrow> nat option" where
  "hex_number v [] = Some v"
| "hex_number v (c # s) = (case hex_value c of None \<Rightarrow> None | Some d \<Rightarrow> hex_number (v * 16 + d) s)"

definition text_escape :: char where
  "text_escape = CHR 0x5C"

definition quote :: char where
  "quote = CHR 0x22"

text \<open>
  An escape, by the characters after the backslash: the code point, whether it is written as a
  rune, and the rest.
\<close>

definition hex_escape :: "nat \<Rightarrow> string \<Rightarrow> (nat \<times> bool \<times> string) option" where
  "hex_escape n s =
     (if length s < n then None
      else case hex_number 0 (take n s) of
          None \<Rightarrow> None
        | Some v \<Rightarrow>
            if n = 2 then Some (v, False, drop n s)
            else if 1114111 < v \<or> (55296 \<le> v \<and> v \<le> 57343) then None
            else Some (v, True, drop n s))"

definition octal_escape :: "string \<Rightarrow> (nat \<times> bool \<times> string) option" where
  "octal_escape s =
     (let ds = map (\<lambda>c. byte c - 48) (take 3 s) in
      if length s < 3 \<or> \<not> list_all (\<lambda>c. 48 \<le> byte c \<and> byte c \<le> 55) (take 3 s) then None
      else let v = ds ! 0 * 64 + ds ! 1 * 8 + ds ! 2 in
        if 255 < v then None else Some (v, False, drop 3 s))"

definition unquote_escape :: "string \<Rightarrow> (nat \<times> bool \<times> string) option" where
  "unquote_escape s =
     (case s of
        [] \<Rightarrow> None
      | c # t \<Rightarrow>
          (case map_of [(CHR ''a'', 7), (CHR ''b'', 8), (CHR ''f'', 12), (CHR ''n'', 10), (CHR ''r'', 13),
               (CHR ''t'', 9), (CHR ''v'', 11), (text_escape, 92), (quote, 34)] c of
             Some r \<Rightarrow> Some (r, False, t)
           | None \<Rightarrow>
               if c = CHR ''x'' then hex_escape 2 t
               else if c = CHR ''u'' then hex_escape 4 t
               else if c = CHR ''U'' then hex_escape 8 t
               else octal_escape s))"

definition unquote_char :: "string \<Rightarrow> (nat \<times> bool \<times> string) option" where
  "unquote_char s =
     (case s of
        [] \<Rightarrow> None
      | c # t \<Rightarrow>
          if c = quote then None
          else if 128 \<le> byte c then (case next_rune s of (r, n) \<Rightarrow> Some (r, True, drop n s))
          else if c \<noteq> text_escape then Some (byte c, False, t)
          else unquote_escape t)"

lemma hex_escape_rest: "hex_escape n s = Some (r, m, t) \<Longrightarrow> length t \<le> length s"
  by (auto simp: hex_escape_def split: if_splits option.splits)

lemma octal_escape_rest: "octal_escape s = Some (r, m, t) \<Longrightarrow> length t \<le> length s"
  by (auto simp: octal_escape_def Let_def split: if_splits)

lemma unquote_escape_rest: "unquote_escape s = Some (r, m, t) \<Longrightarrow> length t \<le> length s"
  by (auto simp: unquote_escape_def split: list.splits option.splits if_splits
      dest: hex_escape_rest octal_escape_rest)

lemma unquote_char_rest: "unquote_char s = Some (r, m, t) \<Longrightarrow> length t < length s"
  using next_rune_size [of "hd s" "tl s"]
  by (auto simp: unquote_char_def neq_Nil_conv split: list.splits if_splits prod.splits
      dest!: unquote_escape_rest)

text \<open>The text between the quotes of \<open>strconv.Unquote\<close>.\<close>

function unquote_body :: "string \<Rightarrow> string option" where
  "unquote_body s =
     (if s = [] then Some []
      else case unquote_char s of
          None \<Rightarrow> None
        | Some (r, multi, t) \<Rightarrow>
            if hd s = newline then None
            else map_option (\<lambda>u. (if r < 128 \<or> \<not> multi then [char_of r] else encode_rune r) @ u) (unquote_body t))"
  by pat_completeness auto
termination
  by (relation "measure length") (auto dest: unquote_char_rest)

declare unquote_body.simps [simp del]

text \<open>
  \<open>strconv.Unquote\<close> on a text in double quotes. Without a backslash or a line feed the text must
  be valid UTF-8 and is taken as it is.
\<close>

definition unquote :: "string \<Rightarrow> string option" where
  "unquote raw =
     (let body = butlast (tl raw) in
      if length raw < 2 \<or> hd raw \<noteq> quote \<or> last raw \<noteq> quote then None
      else if text_escape \<notin> set body \<and> newline \<notin> set body \<and> quote \<notin> set body \<and> valid_utf8 body then Some body
      else unquote_body body)"

subsection \<open>Fields of an encoded result\<close>

definition json_space :: "char \<Rightarrow> bool" where
  "json_space c \<longleftrightarrow> c \<in> {CHR '' '', CHR 0x09, newline, carriage}"

definition field_needle :: "string \<Rightarrow> string" where
  "field_needle field = quote # field @ [quote, CHR '':'']"

text \<open>\<open>canonicalJSONFieldValueStart\<close>, from a position of the content.\<close>

function field_value_from :: "string \<Rightarrow> string \<Rightarrow> nat \<Rightarrow> nat option" where
  "field_value_from content field from =
     (if length content \<le> from then None
      else case find_sub (field_needle field) (drop from content) of
          None \<Rightarrow> None
        | Some i \<Rightarrow>
            (let k = from + i; after = k + length (field_needle field);
                 before = dropWhile json_space (rev (take k content)) in
             if before = [] \<or> hd before \<in> {CHR ''{'', CHR '',''} then
               (let start = after + length (takeWhile json_space (drop after content)) in
                if start < length content then Some start else None)
             else field_value_from content field after))"
  by pat_completeness auto
termination
  by (relation "measure (\<lambda>(content, field, from). length content - from)") (auto simp: field_needle_def)

declare field_value_from.simps [simp del]

definition field_value_start :: "string \<Rightarrow> string \<Rightarrow> nat option" where
  "field_value_start content field = field_value_from content field 0"

text \<open>The length of a quoted text up to its closing quote, without the opening one.\<close>

fun quoted_length :: "string \<Rightarrow> nat option" where
  "quoted_length [] = None"
| "quoted_length [c] = (if c = quote then Some 1 else None)"
| "quoted_length (c # d # s) =
     (if c = text_escape then map_option (\<lambda>n. n + 2) (quoted_length s)
      else if c = quote then Some 1
      else map_option Suc (quoted_length (d # s)))"

definition string_field :: "string \<Rightarrow> string \<Rightarrow> string option" where
  "string_field content field =
     (case field_value_start content field of
        None \<Rightarrow> None
      | Some k \<Rightarrow>
          if content ! k \<noteq> quote then None
          else map_option (\<lambda>n. take (Suc n) (drop k content)) (quoted_length (drop (Suc k) content)))"

definition non_null_field :: "string \<Rightarrow> string \<Rightarrow> bool" where
  "non_null_field content field =
     (case field_value_start content field of
        None \<Rightarrow> False
      | Some k \<Rightarrow> \<not> has_prefix (drop k content) ''null'')"

subsection \<open>The output of an old call\<close>

definition historical_marker :: string where
  "historical_marker = ''[historical tool output truncated]''"

text \<open>\<open>decodedJSONStringLen\<close>, of what is between the quotes.\<close>

function decoded_len :: "string \<Rightarrow> int option" where
  "decoded_len s =
     (let plain = takeWhile (\<lambda>c. c \<noteq> text_escape) s; rest = dropWhile (\<lambda>c. c \<noteq> text_escape) s in
      if rest = [] then Some (int (length plain))
      else case unquote_char rest of
          None \<Rightarrow> None
        | Some (r, m, t) \<Rightarrow>
            map_option (\<lambda>n. int (length plain) + int (rune_len r) + n) (decoded_len t))"
  by pat_completeness auto
termination
proof (relation "measure length")
  fix s plain rest x r p m t
  assume "plain = takeWhile (\<lambda>c. c \<noteq> text_escape) s" "rest = dropWhile (\<lambda>c. c \<noteq> text_escape) s"
    "unquote_char rest = Some x" "(r, p) = x" "(m, t) = p"
  then have "length t < length rest" by (auto dest: unquote_char_rest)
  with \<open>rest = _\<close> show "(t, s) \<in> measure length"
    using length_dropWhile_le [of "\<lambda>c. c \<noteq> text_escape" s] by simp
qed simp

declare decoded_len.simps [simp del]

text \<open>
  The loop of \<open>historicalOutputFromJSONString\<close>: what is written after \<open>written\<close> bytes, and whether
  it was cut; nothing where an escape is not understood. \<open>maxo\<close> is the room for the output,
  \<open>cuts\<close> whether the output is longer than it.
\<close>

function output_loop :: "int \<Rightarrow> bool \<Rightarrow> int \<Rightarrow> string \<Rightarrow> (string \<times> bool) option" where
  "output_loop maxo cuts written s =
     (if s = [] then Some ([], False)
      else let plain = takeWhile (\<lambda>c. c \<noteq> text_escape) s; rest = dropWhile (\<lambda>c. c \<noteq> text_escape) s;
             room = (if cuts then maxo - written - int (length historical_marker) - 1
               else if 0 < maxo then maxo - written else int (length plain)) in
        if plain \<noteq> [] \<and> room < int (length plain) then
          (if room \<le> 0 then Some ([], True) else Some (drop_invalid_tail (take (nat room) plain), True))
        else let w = written + int (length plain) in
          if rest = [] then Some (plain, False)
          else case unquote_char rest of
              None \<Rightarrow> None
            | Some (r, m, t) \<Rightarrow>
                let n = int (rune_len r); reserve = (if cuts then int (length historical_marker) + 1 else 0) in
                if 0 < maxo \<and> maxo < w + n + reserve then Some (plain, True)
                else map_option (\<lambda>(o1, c). (plain @ encode_rune r @ o1, c)) (output_loop maxo cuts (w + n) t))"
  by pat_completeness auto
termination
proof (relation "measure (\<lambda>(maxo, cuts, written, s). length s)")
  fix maxo written :: int and cuts s plain rest and room w n reserve :: int and x r p m t
  assume "rest = dropWhile (\<lambda>c. c \<noteq> text_escape) s" "unquote_char rest = Some x" "(r, p) = x" "(m, t) = p"
  then have "length t < length rest" by (auto dest: unquote_char_rest)
  with \<open>rest = _\<close> show "((maxo, cuts, w + n, t), maxo, cuts, written, s) \<in> measure (\<lambda>(maxo, cuts, written, s). length s)"
    using length_dropWhile_le [of "\<lambda>c. c \<noteq> text_escape" s] by simp
qed simp

declare output_loop.simps [simp del]

definition historical_prefix :: "string \<Rightarrow> string" where
  "historical_prefix name = ''Historical tool '' @ name @ '' result:'' @ [newline]"

definition output_from_json :: "string \<Rightarrow> string \<Rightarrow> int \<Rightarrow> string option" where
  "output_from_json name raw limit =
     (let body = butlast (tl raw); pre = historical_prefix name in
      if length raw < 2 \<or> hd raw \<noteq> quote \<or> last raw \<noteq> quote then None
      else case decoded_len body of
          None \<Rightarrow> None
        | Some n \<Rightarrow>
            let maxo = (if 0 < limit then limit - int (length pre) else 0) in
            if 0 < limit \<and> maxo \<le> 0 then Some (truncate_bytes_with_marker pre limit historical_marker)
            else case output_loop maxo (0 < maxo \<and> maxo < n) 0 body of
                None \<Rightarrow> None
              | Some (out, shortened) \<Rightarrow>
                  let text = trim_space (out @ (if shortened then newline # historical_marker else [])) in
                  if text = [] then None else Some (pre @ text))"

subsection \<open>The text of an old result\<close>

record result_decoder =
  rd_result :: "string \<Rightarrow> tool_result option"
  rd_code :: "error_code \<Rightarrow> string"

definition canonical_name :: "string \<Rightarrow> string \<Rightarrow> string" where
  "canonical_name name content =
     (case string_field content ''tool_name'' of
        None \<Rightarrow> name
      | Some raw \<Rightarrow>
          (case unquote raw of
             None \<Rightarrow> name
           | Some d \<Rightarrow> if trim_space d \<noteq> [] then trim_space d else name))"

definition fast_output :: "string \<Rightarrow> string \<Rightarrow> int \<Rightarrow> string option" where
  "fast_output name content limit =
     (if non_null_field content ''error'' then None
      else Option.bind (string_field content ''output'') (\<lambda>raw. output_from_json name raw limit))"

definition historical_failure :: "(error_code \<Rightarrow> string) \<Rightarrow> string \<Rightarrow> failure \<Rightarrow> string" where
  "historical_failure code name f = ''Historical tool '' @ name @ '' failed ['' @ code (fail_code f) @ '']: '' @ fail_message f"

definition silent_text :: "string \<Rightarrow> string" where
  "silent_text name = ''Historical tool '' @ name @ '' completed with no text output.''"

definition limited_text :: "string \<Rightarrow> string \<Rightarrow> int \<Rightarrow> string" where
  "limited_text name text limit =
     (if text = [] then silent_text name
      else truncate_bytes_with_marker (historical_prefix name @ text) limit historical_marker)"

definition result_text :: "tool_result \<Rightarrow> string" where
  "result_text r =
     (let out = trim_space (res_output r);
          streams = trim_space (trim_space (res_stdout r) @ [newline] @ trim_space (res_stderr r)) in
      if out \<noteq> [] then out else if streams \<noteq> [] then streams else trim_space (res_structured r))"

definition historical_result_text :: "result_decoder \<Rightarrow> string \<Rightarrow> string \<Rightarrow> int \<Rightarrow> string" where
  "historical_result_text dec name0 content limit =
     (let name1 = canonical_name name0 content in
      case fast_output name1 content limit of
        Some text \<Rightarrow> text
      | None \<Rightarrow>
          (case rd_result dec content of
             Some r \<Rightarrow>
               if res_tool_name r \<noteq> [] \<or> res_call_id r \<noteq> [] \<or> res_failure r \<noteq> None then
                 (let name2 = (if trim_space (res_tool_name r) \<noteq> [] then trim_space (res_tool_name r) else name1) in
                  case res_failure r of
                    Some f \<Rightarrow> truncate_bytes_with_marker (historical_failure (rd_code dec) name2 f) limit historical_marker
                  | None \<Rightarrow> limited_text name2 (result_text r) limit)
               else limited_text name1 (trim_space content) limit
           | None \<Rightarrow> limited_text name1 (trim_space content) limit))"

subsection \<open>Bounds\<close>

lemma length_encode_rune: "length (encode_rune r) = rune_len r"
  by (auto simp: encode_rune_def rune_len_def)

lemma output_loop_cut:
  "output_loop maxo True written s = Some (out, c) \<Longrightarrow>
   0 < maxo \<Longrightarrow> 0 \<le> written \<Longrightarrow> written + int (length historical_marker) + 1 \<le> maxo \<Longrightarrow>
   written + int (length out) + int (length historical_marker) + 1 \<le> maxo"
proof (induction maxo "True" written s arbitrary: out c rule: output_loop.induct)
  case (1 maxo written s)
  define plain rest where "plain = takeWhile (\<lambda>c. c \<noteq> text_escape) s" and "rest = dropWhile (\<lambda>c. c \<noteq> text_escape) s"
  define room where "room = maxo - written - int (length historical_marker) - 1"
  show ?case
  proof (cases "s = []")
    case True
    with 1 show ?thesis by (simp add: output_loop.simps [of _ _ _ "[]"])
  next
    case ne: False
    have len: "int (length (drop_invalid_tail (take (nat room) plain))) \<le> max 0 room"
      using length_drop_invalid_tail [of "take (nat room) plain"] by (simp add: min_def split: if_splits)
    have eq: "output_loop maxo True written s =
        (if plain \<noteq> [] \<and> room < int (length plain) then
           (if room \<le> 0 then Some ([], True) else Some (drop_invalid_tail (take (nat room) plain), True))
         else if rest = [] then Some (plain, False)
         else case unquote_char rest of
             None \<Rightarrow> None
           | Some (r, m, t) \<Rightarrow>
               if 0 < maxo \<and> maxo < written + int (length plain) + int (rune_len r) + (int (length historical_marker) + 1)
               then Some (plain, True)
               else map_option (\<lambda>(o1, c). (plain @ encode_rune r @ o1, c))
                 (output_loop maxo True (written + int (length plain) + int (rune_len r)) t))"
      using ne by (subst output_loop.simps) (simp only: Let_def plain_def rest_def room_def if_True if_False simp_thms)
    show ?thesis
    proof (cases "plain \<noteq> [] \<and> room < int (length plain)")
      case True
      with 1(2) eq have "out = (if room \<le> 0 then [] else drop_invalid_tail (take (nat room) plain))"
        by (auto split: if_splits)
      with len 1(3-5) show ?thesis by (auto simp: room_def)
    next
      case fits: False
      with 1(5) have pl: "int (length plain) \<le> room" by (auto simp: room_def)
      show ?thesis
      proof (cases "rest = []")
        case True
        with 1(2) eq fits have "out = plain" by auto
        with pl show ?thesis by (simp add: room_def)
      next
        case False
        with 1(2) eq fits obtain r m t where u: "unquote_char rest = Some (r, m, t)"
          by (auto split: option.splits)
        let ?w = "written + int (length plain)" and ?n = "int (rune_len r)"
        show ?thesis
        proof (cases "maxo < ?w + ?n + (int (length historical_marker) + 1)")
          case True
          with 1(2,3) eq fits False u have "out = plain" by (auto simp: add.assoc)
          with pl show ?thesis by (simp add: room_def)
        next
          case more: False
          with 1(2,3) eq fits False u obtain o1 where
            o1: "output_loop maxo True (?w + ?n) t = Some (o1, c)" "out = plain @ encode_rune r @ o1"
            by (auto simp: add.assoc)
          have "?w + ?n + int (length o1) + int (length historical_marker) + 1 \<le> maxo"
            by (rule 1(1) [OF ne plain_def rest_def _ fits refl False u refl refl refl refl])
              (use more 1(3,4) o1(1) in \<open>auto simp: room_def\<close>)
          with o1(2) show ?thesis by (simp add: length_encode_rune)
        qed
      qed
    qed
  qed
qed

lemma decoded_len_nonneg: "decoded_len s = Some n \<Longrightarrow> 0 \<le> n"
proof (induction s arbitrary: n rule: decoded_len.induct)
  case (1 s)
  define plain rest where "plain = takeWhile (\<lambda>c. c \<noteq> text_escape) s" and "rest = dropWhile (\<lambda>c. c \<noteq> text_escape) s"
  have eq: "decoded_len s =
      (if rest = [] then Some (int (length plain))
       else case unquote_char rest of
          None \<Rightarrow> None
        | Some (r, m, t) \<Rightarrow>
            map_option (\<lambda>n. int (length plain) + int (rune_len r) + n) (decoded_len t))"
    by (subst decoded_len.simps) (simp only: Let_def plain_def rest_def)
  show ?case
  proof (cases "rest = []")
    case False
    with 1(2) eq obtain r m t k where u: "unquote_char rest = Some (r, m, t)" "decoded_len t = Some k"
      "n = int (length plain) + int (rune_len r) + k"
      by (auto split: option.splits)
    with 1(1) [OF plain_def rest_def False u(1) refl refl u(2)] show ?thesis by simp
  qed (use 1(2) eq in simp)
qed

lemma output_loop_whole:
  "output_loop maxo False written s = Some (out, c) \<Longrightarrow> decoded_len s = Some n \<Longrightarrow> 0 \<le> written \<Longrightarrow>
   (0 < maxo \<Longrightarrow> written + n \<le> maxo) \<Longrightarrow> int (length out) = n \<and> \<not> c"
proof (induction maxo "False" written s arbitrary: out c n rule: output_loop.induct)
  case (1 maxo written s)
  define plain rest where "plain = takeWhile (\<lambda>c. c \<noteq> text_escape) s" and "rest = dropWhile (\<lambda>c. c \<noteq> text_escape) s"
  have dl: "decoded_len s =
      (if rest = [] then Some (int (length plain))
       else case unquote_char rest of
          None \<Rightarrow> None
        | Some (r, m, t) \<Rightarrow>
            map_option (\<lambda>n. int (length plain) + int (rune_len r) + n) (decoded_len t))"
    by (subst decoded_len.simps) (simp only: Let_def plain_def rest_def)
  define room where "room = (if 0 < maxo then maxo - written else int (length plain))"
  show ?case
  proof (cases "s = []")
    case True
    with 1(2,3) show ?thesis by (simp add: output_loop.simps [of _ _ _ "[]"] decoded_len.simps [of "[]"])
  next
    case ne: False
    have eq: "output_loop maxo False written s =
        (if plain \<noteq> [] \<and> room < int (length plain) then
           (if room \<le> 0 then Some ([], True) else Some (drop_invalid_tail (take (nat room) plain), True))
         else if rest = [] then Some (plain, False)
         else case unquote_char rest of
             None \<Rightarrow> None
           | Some (r, m, t) \<Rightarrow>
               if 0 < maxo \<and> maxo < written + int (length plain) + int (rune_len r) + 0
               then Some (plain, True)
               else map_option (\<lambda>(o1, c). (plain @ encode_rune r @ o1, c))
                 (output_loop maxo False (written + int (length plain) + int (rune_len r)) t))"
      using ne by (subst output_loop.simps) (simp only: Let_def plain_def rest_def room_def if_True if_False simp_thms)
    have pn: "int (length plain) \<le> n"
      using 1(3) unfolding dl by (auto split: if_splits option.splits dest!: decoded_len_nonneg)
    with 1(5) have fits: "\<not> (plain \<noteq> [] \<and> room < int (length plain))" by (auto simp: room_def)
    show ?thesis
    proof (cases "rest = []")
      case True
      with 1(2,3) eq dl fits show ?thesis by auto
    next
      case False
      with 1(3) dl obtain r m t k where u: "unquote_char rest = Some (r, m, t)" "decoded_len t = Some k"
        "n = int (length plain) + int (rune_len r) + k"
        by (auto split: option.splits)
      let ?w = "written + int (length plain)" and ?n = "int (rune_len r)"
      have k: "0 \<le> k" using u(2) by (rule decoded_len_nonneg)
      have more: "\<not> (0 < maxo \<and> maxo < ?w + ?n + 0)" using 1(5) u(3) k by auto
      with 1(2) eq fits False u obtain o1 where
        o1: "output_loop maxo False (?w + ?n) t = Some (o1, c)" "out = plain @ encode_rune r @ o1"
        by auto
      have "int (length o1) = k \<and> \<not> c"
        by (rule 1(1) [OF ne plain_def rest_def _ fits refl False u(1) refl refl refl refl])
          (use more 1(4,5) o1(1) u in \<open>auto simp: room_def\<close>)
      with o1(2) u(3) show ?thesis by (simp add: length_encode_rune)
    qed
  qed
qed

lemma output_from_json_bound:
  assumes "output_from_json name raw limit = Some text" "0 < limit"
    and "int (length (historical_prefix name)) + int (length historical_marker) + 1 \<le> limit"
  shows "int (length text) \<le> limit"
proof -
  define body maxo where "body = butlast (tl raw)" and "maxo = limit - int (length (historical_prefix name))"
  have m: "int (length historical_marker) + 1 \<le> maxo" using assms(3) by (simp add: maxo_def)
  from assms(1,2) m obtain n out c where o1: "decoded_len body = Some n"
    "output_loop maxo (0 < maxo \<and> maxo < n) 0 body = Some (out, c)"
    "text = historical_prefix name @ trim_space (out @ (if c then newline # historical_marker else []))"
    by (auto simp: output_from_json_def Let_def body_def maxo_def split: if_splits option.splits)
  have "int (length (out @ (if c then newline # historical_marker else []))) \<le> maxo"
  proof (cases "maxo < n")
    case True
    with o1(2) m have "output_loop maxo True 0 body = Some (out, c)" by simp
    from output_loop_cut [OF this] m show ?thesis by simp
  next
    case False
    with o1(2) m have "output_loop maxo False 0 body = Some (out, c)" by simp
    from output_loop_whole [OF this o1(1)] False show ?thesis by simp
  qed
  with length_trim_space [of "out @ (if c then newline # historical_marker else [])"] o1(3) show ?thesis
    by (simp add: maxo_def)
qed

lemma limited_text_bound:
  "int (length (historical_prefix name)) + int (length historical_marker) + 1 \<le> limit \<Longrightarrow>
   int (length (limited_text name text limit)) \<le> limit"
  using length_truncate_marker [of "historical_prefix name @ text" limit historical_marker]
  by (auto simp: limited_text_def silent_text_def historical_prefix_def historical_marker_def)

text \<open>
  The text that stands for an old result keeps the limit, when the limit has room for the name
  of the tool and the note that something is missing, and the decoder agrees with the program's
  own search on the name.
\<close>

theorem historical_text_bounded:
  assumes "int (length (historical_prefix (canonical_name name content))) + int (length historical_marker) + 1 \<le> limit"
    and "\<forall>r. rd_result dec content = Some r \<longrightarrow> trim_space (res_tool_name r) \<in> {[], canonical_name name content}"
  shows "int (length (historical_result_text dec name content limit)) \<le> limit"
proof -
  let ?n = "canonical_name name content"
  have pos: "0 < limit" using assms(1) by linarith
  show ?thesis
  proof (cases "fast_output ?n content limit")
    case (Some t)
    then obtain raw where "output_from_json ?n raw limit = Some t"
      by (auto simp: fast_output_def bind_eq_Some_conv split: if_splits)
    with output_from_json_bound [OF this pos assms(1)] Some show ?thesis
      by (simp add: historical_result_text_def)
  next
    case None
    have "int (length (truncate_bytes_with_marker t limit historical_marker)) \<le> limit" for t
      using length_truncate_marker [of t limit historical_marker] pos by linarith
    with None limited_text_bound [OF assms(1)] assms(2) show ?thesis
      by (auto simp: historical_result_text_def Let_def split: option.splits)
  qed
qed

text \<open>Texts of JSON, with \<open>~\<close> for the double quote and \<open>^\<close> for the backslash.\<close>

definition quoted :: "string \<Rightarrow> string" where
  "quoted = map (\<lambda>c. if c = CHR ''~'' then quote else if c = CHR ''^'' then text_escape else c)"

definition no_decoder :: result_decoder where
  "no_decoder = \<lparr>rd_result = (\<lambda>s. None), rd_code = (\<lambda>c. ''code'')\<rparr>"

theorem historical_text_bounded_witness:
  "historical_result_text no_decoder ''x'' (quoted ''{~output~:~a^nb~}'') 64 =
     historical_prefix ''x'' @ [CHR ''a'', newline, CHR ''b''] \<and>
   int (length (historical_result_text no_decoder ''x'' (quoted ''{~output~:~a^nb~}'') 64)) \<le> 64"
proof -
  have "canonical_name ''x'' (quoted ''{~output~:~a^nb~}'') = ''x''"
    by code_simp
  then have "int (length (historical_prefix (canonical_name ''x'' (quoted ''{~output~:~a^nb~}'')))) +
      int (length historical_marker) + 1 \<le> 64"
    by (simp add: historical_prefix_def historical_marker_def)
  then have "int (length (historical_result_text no_decoder ''x'' (quoted ''{~output~:~a^nb~}'') 64)) \<le> 64"
    by (rule historical_text_bounded) (simp add: no_decoder_def)
  moreover have "historical_result_text no_decoder ''x'' (quoted ''{~output~:~a^nb~}'') 64 =
      historical_prefix ''x'' @ [CHR ''a'', newline, CHR ''b'']"
    by code_simp
  ultimately show ?thesis by simp
qed

text \<open>
  Without that room the limit is not kept: the note about the missing text is written in full,
  however little was left for the output.
\<close>

theorem marker_over_limit:
  "length (historical_result_text no_decoder ''x'' (quoted ''{~output~:~aa~}'') 27) = 60"
  by code_simp

text \<open>
  The search for a field does not know how deep it is: the member \<open>output\<close> of a structured result
  is taken for the output of the tool, and the rest of the result is lost.
\<close>

theorem nested_output_taken:
  "historical_result_text no_decoder ''x'' (quoted ''{~structured_output~:{~output~:~i~,~n~:7}}'') 400 =
   historical_prefix ''x'' @ ''i''"
  by code_simp

end
