(* ===== verification/Chat_Message.thy ===== *)
theory Chat_Message
  imports Str_Util
begin

text \<open>
  Messages of a conversation and requests to a model: \<open>proton-sdk/domain/message.go\<close> and
  \<open>request.go\<close>. The validity of JSON and of base64 is a parameter, as are fresh message ids.
\<close>

subsection \<open>Messages\<close>

text \<open>\<open>RoleOther\<close> and \<open>PartOther\<close> are the other spellings of the Go string types.\<close>

datatype role = RoleSystem | RoleUser | RoleAssistant | RoleTool | RoleOther string

datatype part_type = PartText | PartImage | PartOther string

fun part_type_name :: "part_type \<Rightarrow> string" where
  "part_type_name PartText = ''text''"
| "part_type_name PartImage = ''image''"
| "part_type_name (PartOther s) = s"

record content_part =
  part_type :: part_type
  part_text :: string
  part_mime :: string
  part_data :: string

record model_call =
  mc_id :: string
  mc_name :: string
  mc_arguments :: string

record message =
  msg_id :: string
  msg_role :: role
  msg_content :: string
  msg_reasoning :: string
  msg_parts :: "content_part list"
  msg_call_id :: string
  msg_tool_name :: string
  msg_is_error :: bool
  msg_calls :: "model_call list"

definition plain_message :: "role \<Rightarrow> string \<Rightarrow> message" where
  "plain_message r content = \<lparr>msg_id = [], msg_role = r, msg_content = content, msg_reasoning = [],
     msg_parts = [], msg_call_id = [], msg_tool_name = [], msg_is_error = False, msg_calls = []\<rparr>"

abbreviation is_tool :: "message \<Rightarrow> bool" where
  "is_tool m \<equiv> msg_role m = RoleTool"

abbreviation is_system :: "message \<Rightarrow> bool" where
  "is_system m \<equiv> msg_role m = RoleSystem"

definition requests_tools :: "message \<Rightarrow> bool" where
  "requests_tools m \<longleftrightarrow> msg_role m = RoleAssistant \<and> msg_calls m \<noteq> []"

subsection \<open>Validation\<close>

datatype message_error = InvalidMessageId | UnknownRole | CallIdMissing | TextWithImage
  | ImageMime | ImageData | ImageEncoding | UnknownPart | ToolCallId | ToolCallName
  | ToolCallArguments | OutputNegative | UnknownChoice | UnknownEffort | ChoiceWithoutTools
  | NoMessages | ToolName | ToolDescription

definition valid_message_id :: "string \<Rightarrow> bool" where
  "valid_message_id s =
     (let i = trim_space s in
      has_prefix i ''msg_'' \<and> 4 < length i \<and> length i \<le> 128 \<and>
      list_all (\<lambda>c. (97 \<le> byte c \<and> byte c \<le> 122) \<or> (48 \<le> byte c \<and> byte c \<le> 57) \<or> c = CHR ''_'' \<or> c = CHR ''-'')
        (drop 4 i))"

definition part_validate :: "(string \<Rightarrow> bool) \<Rightarrow> content_part \<Rightarrow> message_error option" where
  "part_validate base64 p =
     (case part_type p of
        PartText \<Rightarrow> if part_mime p \<noteq> [] \<or> part_data p \<noteq> [] then Some TextWithImage else None
      | PartImage \<Rightarrow>
          (let mime = to_lower (trim_space (part_mime p)) in
           if \<not> has_prefix mime ''image/'' \<or> length mime \<le> 6 then Some ImageMime
           else if trim_space (part_data p) = [] then Some ImageData
           else if \<not> base64 (part_data p) then Some ImageEncoding
           else None)
      | PartOther _ \<Rightarrow> Some UnknownPart)"

definition tool_call_validate :: "(string \<Rightarrow> bool) \<Rightarrow> model_call \<Rightarrow> message_error option" where
  "tool_call_validate json c =
     (if trim_space (mc_id c) = [] then Some ToolCallId
      else if trim_space (mc_name c) = [] then Some ToolCallName
      else if mc_arguments c \<noteq> [] \<and> \<not> json (mc_arguments c) then Some ToolCallArguments
      else None)"

text \<open>The first error of a list, as in a loop that returns.\<close>

fun first_error :: "('a \<Rightarrow> 'e option) \<Rightarrow> 'a list \<Rightarrow> 'e option" where
  "first_error f [] = None"
| "first_error f (x # xs) = (case f x of None \<Rightarrow> first_error f xs | Some e \<Rightarrow> Some e)"

definition message_validate :: "(string \<Rightarrow> bool) \<Rightarrow> (string \<Rightarrow> bool) \<Rightarrow> message \<Rightarrow> message_error option" where
  "message_validate base64 json m =
     (if msg_id m \<noteq> [] \<and> \<not> valid_message_id (msg_id m) then Some InvalidMessageId
      else if (case msg_role m of RoleOther _ \<Rightarrow> True | _ \<Rightarrow> False) then Some UnknownRole
      else if is_tool m \<and> trim_space (msg_call_id m) = [] then Some CallIdMissing
      else case first_error (part_validate base64) (msg_parts m) of
          Some e \<Rightarrow> Some e
        | None \<Rightarrow> first_error (tool_call_validate json) (msg_calls m))"

text \<open>\<open>TextContent\<close>.\<close>

fun join_texts :: "content_part list \<Rightarrow> string \<Rightarrow> string" where
  "join_texts [] acc = acc"
| "join_texts (p # ps) acc =
     (if part_type p \<noteq> PartText \<or> part_text p = [] then join_texts ps acc
      else join_texts ps (acc @ (if acc \<noteq> [] then [CHR 0x0A] else []) @ part_text p))"

definition text_content :: "message \<Rightarrow> string" where
  "text_content m =
     (if msg_content m \<noteq> [] \<or> msg_parts m = [] then msg_content m else join_texts (msg_parts m) [])"

text \<open>
  \<open>EnsureMessageIDs\<close>. The fresh ids are a supply, numbered; the number of the next one is passed
  along.
\<close>

fun ensure_ids :: "(nat \<Rightarrow> string) \<Rightarrow> nat \<Rightarrow> message list \<Rightarrow> nat \<times> message list" where
  "ensure_ids fresh k [] = (k, [])"
| "ensure_ids fresh k (m # ms) =
     (if trim_space (msg_id m) = []
      then (case ensure_ids fresh (Suc k) ms of (k', ms') \<Rightarrow> (k', m\<lparr>msg_id := fresh k\<rparr> # ms'))
      else (case ensure_ids fresh k ms of (k', ms') \<Rightarrow> (k', m # ms')))"

subsection \<open>Requests\<close>

datatype tool_choice = ChoiceAuto | ChoiceRequired | ChoiceOther string

datatype reasoning_effort = EffortDefault | EffortNone | EffortMinimal | EffortLow | EffortMedium
  | EffortHigh | EffortXHigh | EffortMax | EffortOther string

definition valid_effort :: "reasoning_effort \<Rightarrow> bool" where
  "valid_effort e = (case e of EffortOther _ \<Rightarrow> False | _ \<Rightarrow> True)"

text \<open>\<open>ParseReasoningEffort\<close>.\<close>

definition parse_effort :: "string \<Rightarrow> reasoning_effort option" where
  "parse_effort s =
     (let v = to_lower (trim_space s) in
      if v = ''auto'' \<or> v = ''default'' then Some EffortDefault
      else map_of [([], EffortDefault), (''none'', EffortNone), (''minimal'', EffortMinimal), (''low'', EffortLow),
         (''medium'', EffortMedium), (''high'', EffortHigh), (''xhigh'', EffortXHigh), (''max'', EffortMax)] v)"

text \<open>A published tool; its schemas and provider options are not modelled.\<close>

record published_tool =
  pt_name :: string
  pt_description :: string
  pt_dynamic :: bool

record model_request =
  rq_messages :: "message list"
  rq_tools :: "published_tool list"
  rq_max_output :: int
  rq_choice :: tool_choice
  rq_effort :: reasoning_effort

definition published_validate :: "published_tool \<Rightarrow> message_error option" where
  "published_validate t =
     (if trim_space (pt_name t) = [] then Some ToolName
      else if trim_space (pt_description t) = [] then Some ToolDescription
      else None)"

definition model_request_validate :: "(string \<Rightarrow> bool) \<Rightarrow> (string \<Rightarrow> bool) \<Rightarrow> model_request \<Rightarrow> message_error option" where
  "model_request_validate base64 json r =
     (if rq_max_output r < 0 then Some OutputNegative
      else if (case rq_choice r of ChoiceOther _ \<Rightarrow> True | _ \<Rightarrow> False) then Some UnknownChoice
      else if \<not> valid_effort (rq_effort r) then Some UnknownEffort
      else if rq_choice r = ChoiceRequired \<and> rq_tools r = [] then Some ChoiceWithoutTools
      else if rq_messages r = [] then Some NoMessages
      else case first_error (message_validate base64 json) (rq_messages r) of
          Some e \<Rightarrow> Some e
        | None \<Rightarrow> first_error published_validate (rq_tools r))"

subsection \<open>The protocol of tool calls\<close>

text \<open>
  What a provider expects of a conversation: a message that requests tools is followed by one
  result for each of its calls, in their order, and a result stands nowhere else.
\<close>

function protocol_ok :: "message list \<Rightarrow> bool" where
  "protocol_ok [] = True"
| "protocol_ok (m # ms) =
     (\<not> is_tool m \<and>
      (if requests_tools m
       then map msg_call_id (takeWhile is_tool ms) = map mc_id (msg_calls m) \<and> protocol_ok (dropWhile is_tool ms)
       else protocol_ok ms))"
  by pat_completeness auto
termination
  by (relation "measure length") (auto simp: le_imp_less_Suc length_dropWhile_le)

lemma requests_tools_not_tool [simp]: "requests_tools m \<Longrightarrow> \<not> is_tool m"
  by (simp add: requests_tools_def)

text \<open>No result stands at the front of a conversation that is in order.\<close>

definition front_ok :: "message list \<Rightarrow> bool" where
  "front_ok ms \<longleftrightarrow> ms = [] \<or> \<not> is_tool (hd ms)"

lemma protocol_front: "protocol_ok ms \<Longrightarrow> front_ok ms"
  by (cases ms) (auto simp: front_ok_def)

lemma front_takeWhile: "front_ok bs \<Longrightarrow> takeWhile is_tool (as @ bs) = takeWhile is_tool as"
  by (induction as) (auto simp: front_ok_def takeWhile_eq_Nil_iff)

lemma front_dropWhile: "front_ok bs \<Longrightarrow> dropWhile is_tool (as @ bs) = dropWhile is_tool as @ bs"
  by (induction as) (auto simp: front_ok_def dropWhile_eq_self_iff)

text \<open>Cut where no result follows, both parts are in order, and so is what is put together there.\<close>

lemma protocol_append: "front_ok bs \<Longrightarrow> protocol_ok (as @ bs) \<longleftrightarrow> protocol_ok as \<and> protocol_ok bs"
proof (induction as rule: protocol_ok.induct)
  case (2 m ms)
  show ?case
    using 2 by (simp only: append_Cons protocol_ok.simps front_takeWhile [OF 2(3)] front_dropWhile [OF 2(3)]) auto
qed simp

lemma protocol_plain: "list_all (\<lambda>m. \<not> is_tool m \<and> \<not> requests_tools m) ms \<Longrightarrow> protocol_ok ms"
  by (induction ms) auto

lemma protocol_group:
  "requests_tools m \<Longrightarrow> list_all is_tool rs \<Longrightarrow> map msg_call_id rs = map mc_id (msg_calls m) \<Longrightarrow> protocol_ok (m # rs)"
  by (simp add: list_all_iff takeWhile_eq_all_conv [THEN iffD2] dropWhile_eq_Nil_conv [THEN iffD2])

end
