(* ===== verification/Conversation.thy ===== *)
theory Conversation
  imports Chat_Message Historical_Text
begin

text \<open>
  Retention of a conversation: \<open>internal/core/conversation/retention.go\<close> (\<open>Retain\<close>, by messages
  and bytes) and \<open>cost_retention.go\<close> (\<open>RetainByCost\<close>, by an estimate of the model's cost). Old
  exchanges with tools are first turned into plain texts, then whole spans of messages are
  dropped from the front. A span is a list of messages, where the code has its first and last
  index; ids for new messages come from a numbered supply.
\<close>

record retention_policy =
  max_messages :: int
  max_bytes :: int
  recent_messages :: int
  max_historical_bytes :: int

definition default_retention :: retention_policy where
  "default_retention = \<lparr>max_messages = 256, max_bytes = 16 * 1024 * 1024, recent_messages = 64,
     max_historical_bytes = 64 * 1024\<rparr>"

subsection \<open>Bytes and spans\<close>

definition message_bytes :: "message \<Rightarrow> int" where
  "message_bytes m =
     128 + int (length (msg_content m)) + int (length (msg_call_id m)) + int (length (msg_tool_name m)) +
     (\<Sum>p \<leftarrow> msg_parts m. int (length (part_type_name (part_type p)) + length (part_text p) +
        length (part_mime p) + length (part_data p))) +
     (\<Sum>c \<leftarrow> msg_calls m. int (length (mc_id c) + length (mc_name c) + length (mc_arguments c)))"

definition estimated_bytes :: "message list \<Rightarrow> int" where
  "estimated_bytes ms = sum_list (map message_bytes ms)"

text \<open>\<open>buildSpans\<close>: a message that requests tools, with the results that follow it, is one span.\<close>

function build_spans :: "message list \<Rightarrow> message list list" where
  "build_spans [] = []"
| "build_spans (m # ms) =
     (if requests_tools m then (m # takeWhile is_tool ms) # build_spans (dropWhile is_tool ms)
      else [m] # build_spans ms)"
  by pat_completeness auto
termination
  by (relation "measure length") (auto simp: le_imp_less_Suc length_dropWhile_le)

definition exceeds :: "retention_policy \<Rightarrow> int \<Rightarrow> int \<Rightarrow> bool" where
  "exceeds p n b \<longleftrightarrow> (0 < max_messages p \<and> max_messages p < n) \<or> (0 < max_bytes p \<and> max_bytes p < b)"

subsection \<open>Old exchanges with tools\<close>

definition historical_missing :: "string \<Rightarrow> string" where
  "historical_missing name = ''Historical tool '' @ name @ '' was requested, but its result is no longer retained.''"

text \<open>\<open>historicalToolMessage\<close>: of a result, and without one.\<close>

definition history_name :: "string \<Rightarrow> string" where
  "history_name n = (if trim_space n = [] then ''unknown'' else trim_space n)"

definition history_found :: "result_decoder \<Rightarrow> int \<Rightarrow> string \<Rightarrow> message \<Rightarrow> message" where
  "history_found dec limit name m =
     (plain_message RoleAssistant (historical_result_text dec (history_name name) (msg_content m) limit))
       \<lparr>msg_id := msg_id m\<rparr>"

definition history_missing :: "string \<Rightarrow> string \<Rightarrow> message" where
  "history_missing new_id name =
     (plain_message RoleAssistant (historical_missing (history_name name)))\<lparr>msg_id := new_id\<rparr>"

text \<open>The calls of a message, each with the first of the results that has its id.\<close>

fun history_calls :: "result_decoder \<Rightarrow> int \<Rightarrow> (nat \<Rightarrow> string) \<Rightarrow> nat \<Rightarrow> message list \<Rightarrow> model_call list \<Rightarrow>
    nat \<times> message list" where
  "history_calls dec limit fresh k results [] = (k, [])"
| "history_calls dec limit fresh k results (c # cs) =
     (case find (\<lambda>r. msg_call_id r = mc_id c) results of
        None \<Rightarrow>
          (case history_calls dec limit fresh (Suc k) results cs of
             (k', ms) \<Rightarrow> (k', history_missing (fresh k) (mc_name c) # ms))
      | Some r \<Rightarrow>
          (case history_calls dec limit fresh k results cs of
             (k', ms) \<Rightarrow> (k', history_found dec limit (mc_name c) r # ms)))"

definition unmatched_results :: "model_call list \<Rightarrow> message list \<Rightarrow> message list" where
  "unmatched_results cs results = filter (\<lambda>r. msg_call_id r \<notin> mc_id ` set cs) results"

function compact_segment :: "result_decoder \<Rightarrow> int \<Rightarrow> (nat \<Rightarrow> string) \<Rightarrow> nat \<Rightarrow> message list \<Rightarrow>
    nat \<times> message list" where
  "compact_segment dec limit fresh k [] = (k, [])"
| "compact_segment dec limit fresh k (m # ms) =
     (if requests_tools m then
        let results = takeWhile is_tool ms in
        case history_calls dec limit fresh k results (msg_calls m) of
          (k1, texts) \<Rightarrow>
            (case compact_segment dec limit fresh k1 (dropWhile is_tool ms) of
               (k2, rest) \<Rightarrow>
                 (k2,
                  (if trim_space (msg_content m) \<noteq> [] \<or> msg_parts m \<noteq> [] then [m\<lparr>msg_calls := []\<rparr>] else []) @
                  texts @
                  map (\<lambda>r. history_found dec limit (msg_tool_name r) r) (unmatched_results (msg_calls m) results) @
                  rest))
      else
        case compact_segment dec limit fresh k ms of
          (k1, rest) \<Rightarrow>
            (k1, (if is_tool m then history_found dec limit (msg_tool_name m) m else m) # rest))"
  by pat_completeness auto
termination
  by (relation "measure (\<lambda>(dec, limit, fresh, k, ms). length ms)") (auto simp: le_imp_less_Suc length_dropWhile_le)

text \<open>The start of the recent messages, moved back over results to the message that asked for them.\<close>

fun recent_start :: "message list \<Rightarrow> nat \<Rightarrow> nat \<Rightarrow> nat" where
  "recent_start ms lead 0 = 0"
| "recent_start ms lead (Suc n) =
     (if lead < Suc n \<and> is_tool (ms ! Suc n) then recent_start ms lead n else Suc n)"

definition compact_historical :: "result_decoder \<Rightarrow> (nat \<Rightarrow> string) \<Rightarrow> nat \<Rightarrow> int \<Rightarrow> int \<Rightarrow> message list \<Rightarrow>
    nat \<times> message list" where
  "compact_historical dec fresh k recent limit ms =
     (if recent \<le> 0 \<or> int (length ms) \<le> recent then (k, ms)
      else let lead = length (takeWhile is_system ms);
               start = recent_start ms lead (max (length ms - nat recent) lead);
               seg = drop lead (take start ms) in
        if start \<le> lead \<or> \<not> list_ex (\<lambda>m. is_tool m \<or> requests_tools m) seg then (k, ms)
        else case compact_segment dec limit fresh k seg of
            (k', seg') \<Rightarrow> (k', take lead ms @ seg' @ drop start ms))"

subsection \<open>Retention\<close>

fun drop_spans :: "retention_policy \<Rightarrow> int \<Rightarrow> int \<Rightarrow> message list list \<Rightarrow> message list list" where
  "drop_spans p n b (s # t # rest) =
     (if exceeds p n b then drop_spans p (n - int (length s)) (b - estimated_bytes s) (t # rest)
      else s # t # rest)"
| "drop_spans p n b spans = spans"

definition retain :: "result_decoder \<Rightarrow> (nat \<Rightarrow> string) \<Rightarrow> nat \<Rightarrow> retention_policy \<Rightarrow> message list \<Rightarrow>
    nat \<times> message list" where
  "retain dec fresh k p ms0 =
     (if ms0 = [] then (k, [])
      else case compact_historical dec fresh k (recent_messages p) (max_historical_bytes p) ms0 of
        (k', ms) \<Rightarrow>
          (let over = 0 < max_messages p \<and> max_messages p < int (length ms);
               lead = takeWhile is_system ms; spans = build_spans (dropWhile is_system ms) in
           if \<not> over \<and> (max_bytes p \<le> 0 \<or> estimated_bytes ms \<le> max_bytes p) then (k', ms)
           else if spans = [] then (k', ms)
           else (k', lead @ concat (drop_spans p (int (length ms))
             (estimated_bytes lead + sum_list (map estimated_bytes spans)) spans))))"

datatype retain_error = EstimatorRequired | EstimateFailed

fun drop_by_cost :: "(message list \<Rightarrow> int option) \<Rightarrow> int \<Rightarrow> message list \<Rightarrow> int \<Rightarrow> message list list \<Rightarrow>
    message list list option" where
  "drop_by_cost cost_of budget lead cost (s # t # rest) =
     (if budget < cost
      then (case cost_of (lead @ concat (t # rest)) of
              None \<Rightarrow> None
            | Some c \<Rightarrow> drop_by_cost cost_of budget lead c (t # rest))
      else Some (s # t # rest))"
| "drop_by_cost cost_of budget lead cost spans = Some spans"

text \<open>The estimator may be missing, and may fail.\<close>

definition retain_by_cost :: "result_decoder \<Rightarrow> (nat \<Rightarrow> string) \<Rightarrow> nat \<Rightarrow> int \<Rightarrow> int \<Rightarrow> int \<Rightarrow>
    (message list \<Rightarrow> int option) option \<Rightarrow> message list \<Rightarrow> (retain_error, nat \<times> message list) result" where
  "retain_by_cost dec fresh k recent limit budget estimator ms0 =
     (if ms0 = [] then Inr (k, [])
      else case estimator of
        None \<Rightarrow> Inl EstimatorRequired
      | Some cost_of \<Rightarrow>
          (case compact_historical dec fresh k recent limit ms0 of
             (k', ms) \<Rightarrow>
               if budget \<le> 0 then Inr (k', ms)
               else case cost_of ms of
                 None \<Rightarrow> Inl EstimateFailed
               | Some cost \<Rightarrow>
                   let lead = takeWhile is_system ms; spans = build_spans (dropWhile is_system ms) in
                   if cost \<le> budget \<or> spans = [] then Inr (k', ms)
                   else case drop_by_cost cost_of budget lead cost spans of
                       None \<Rightarrow> Inl EstimateFailed
                     | Some kept \<Rightarrow> Inr (k', lead @ concat kept)))"

subsection \<open>Lemmas: spans\<close>

lemma concat_build_spans [simp]: "concat (build_spans ms) = ms"
  by (induction ms rule: build_spans.induct) auto

lemma build_spans_eq_Nil [simp]: "build_spans ms = [] \<longleftrightarrow> ms = []"
  by (cases ms) auto

lemma estimated_bytes_simps [simp]:
  "estimated_bytes [] = 0"
  "estimated_bytes (m # ms) = message_bytes m + estimated_bytes ms"
  "estimated_bytes (xs @ ys) = estimated_bytes xs + estimated_bytes ys"
  by (auto simp: estimated_bytes_def)

lemma estimated_bytes_concat: "sum_list (map estimated_bytes ss) = estimated_bytes (concat ss)"
  by (induction ss) auto

definition group_ok :: "message list \<Rightarrow> bool" where
  "group_ok s \<longleftrightarrow> s \<noteq> [] \<and> protocol_ok s"

lemma build_spans_groups: "protocol_ok ms \<Longrightarrow> list_all group_ok (build_spans ms)"
proof (induction ms rule: build_spans.induct)
  case (2 m ms)
  show ?case
  proof (cases "requests_tools m")
    case True
    with 2(3) have "protocol_ok (m # takeWhile is_tool ms)"
      by (intro protocol_group) (auto simp: list_all_iff dest: set_takeWhileD)
    with 2 True show ?thesis by (simp add: group_ok_def)
  qed (use 2 in \<open>auto simp: group_ok_def\<close>)
qed simp

lemma groups_protocol: "list_all group_ok ss \<Longrightarrow> protocol_ok (concat ss)"
proof (induction ss)
  case (Cons s ss)
  then have "front_ok (concat ss)" by (intro protocol_front) simp
  with Cons show ?case by (simp add: protocol_append group_ok_def)
qed simp

lemma systems_protocol: "protocol_ok (takeWhile is_system ms)"
  by (rule protocol_plain) (auto simp: list_all_iff requests_tools_def dest: set_takeWhileD)

lemma after_systems_protocol: "protocol_ok ms \<Longrightarrow> protocol_ok (dropWhile is_system ms)"
  by (induction ms) (auto simp: requests_tools_def)

lemma systems_append_protocol: "protocol_ok ms \<Longrightarrow> protocol_ok (takeWhile is_system xs @ ms)"
  by (simp add: protocol_append protocol_front systems_protocol)

lemma list_all_drop: "list_all P xs \<Longrightarrow> list_all P (drop n xs)"
  by (meson in_set_dropD list_all_iff)

subsection \<open>Lemmas: compaction\<close>

definition flat :: "message list \<Rightarrow> bool" where
  "flat = list_all (\<lambda>m. \<not> is_tool m \<and> \<not> requests_tools m)"

lemma flat_simps [simp]:
  "flat []" "flat (m # ms) \<longleftrightarrow> \<not> is_tool m \<and> \<not> requests_tools m \<and> flat ms"
  "flat (xs @ ys) \<longleftrightarrow> flat xs \<and> flat ys"
  by (auto simp: flat_def)

lemma flat_history [simp]:
  "\<not> is_tool (history_found dec limit n m)" "\<not> requests_tools (history_found dec limit n m)"
  "\<not> is_tool (history_missing i n)" "\<not> requests_tools (history_missing i n)"
  by (auto simp: history_found_def history_missing_def plain_message_def requests_tools_def)

lemma flat_history_calls: "flat (snd (history_calls dec limit fresh k results cs))"
  by (induction dec limit fresh k results cs rule: history_calls.induct) (auto split: option.splits prod.splits)

lemma flat_map_history [simp]: "flat (map (\<lambda>r. history_found dec limit (f r) r) rs)"
  by (induction rs) auto

lemma flat_compact_segment: "flat (snd (compact_segment dec limit fresh k ms))"
proof (induction dec limit fresh k ms rule: compact_segment.induct)
  case (2 dec limit fresh k m ms)
  show ?case
  proof (cases "requests_tools m")
    case True
    obtain k1 texts where h: "history_calls dec limit fresh k (takeWhile is_tool ms) (msg_calls m) = (k1, texts)"
      by fastforce
    with flat_history_calls [of dec limit fresh k "takeWhile is_tool ms" "msg_calls m"] have "flat texts" by simp
    with 2(1) [OF True refl h [symmetric]] True h show ?thesis
      by (auto simp: requests_tools_def split: prod.splits)
  qed (use 2(2) in \<open>auto split: prod.splits\<close>)
qed simp

lemma recent_start_bound: "recent_start ms lead n \<le> n"
  by (induction n) auto

lemma recent_start_stop: "recent_start ms lead n \<le> lead \<or> \<not> is_tool (ms ! recent_start ms lead n)"
  by (induction n) auto

lemma take_systems: "take (length (takeWhile is_system ms)) ms = takeWhile is_system ms"
  by (rule takeWhile_eq_take [symmetric])

text \<open>What compaction returns: the leading system messages, flat messages, and the recent ones.\<close>

lemma compact_historical_cases:
  assumes "compact_historical dec fresh k recent limit ms = (k', out)"
  obtains (same) "out = ms" "k' = k"
  | (cut) mid start where "out = takeWhile is_system ms @ mid @ drop start ms" "flat mid"
      "length (takeWhile is_system ms) < start" "start \<le> length ms - nat recent" "front_ok (drop start ms)"
proof -
  let ?l = "takeWhile is_system ms"
  define start where "start = recent_start ms (length ?l) (max (length ms - nat recent) (length ?l))"
  show thesis
  proof (cases "out = ms \<and> k' = k")
    case False
    with assms have c: "\<not> (recent \<le> 0 \<or> int (length ms) \<le> recent)" "length ?l < start"
      and out: "out = ?l @ snd (compact_segment dec limit fresh k (drop (length ?l) (take start ms))) @ drop start ms"
      by (auto simp: compact_historical_def Let_def take_systems start_def [symmetric] split: if_splits prod.splits)
    have b: "start \<le> max (length ms - nat recent) (length ?l)" by (simp add: start_def recent_start_bound)
    with c have s: "start \<le> length ms - nat recent" by simp
    moreover from c(1) s have "start < length ms" by linarith
    moreover from c(2) have "\<not> is_tool (ms ! start)"
      using recent_start_stop [of ms "length ?l" "max (length ms - nat recent) (length ?l)"]
      by (auto simp: start_def)
    ultimately have "front_ok (drop start ms)" by (simp add: front_ok_def hd_drop_conv_nth)
    from cut [OF out flat_compact_segment c(2) s this] show thesis .
  qed (use same in blast)
qed

lemma compact_historical_protocol:
  assumes "protocol_ok ms" "compact_historical dec fresh k recent limit ms = (k', out)"
  shows "protocol_ok out"
  using assms(2)
proof (cases rule: compact_historical_cases)
  case (cut mid start)
  from assms(1) have "protocol_ok (take start ms @ drop start ms)" by simp
  with cut(5) have "protocol_ok (drop start ms)" by (simp only: protocol_append)
  moreover from cut(2) have "protocol_ok mid" unfolding flat_def by (rule protocol_plain)
  ultimately have "protocol_ok (mid @ drop start ms)" using cut(5) by (simp add: protocol_append)
  with cut(1) show ?thesis by (simp add: systems_append_protocol)
qed (use assms in simp)

subsection \<open>Lemmas: which spans go\<close>

text \<open>The first \<open>j\<close> with the property, of the positions but the last; else the last.\<close>

definition least_cut :: "(nat \<Rightarrow> bool) \<Rightarrow> nat \<Rightarrow> nat \<Rightarrow> bool" where
  "least_cut fits n j \<longleftrightarrow> j < n \<and> (fits j \<or> Suc j = n) \<and> (\<forall>i < j. \<not> fits i)"

lemma least_cut_Suc:
  "\<not> fits 0 \<Longrightarrow> (\<And>i. fits (Suc i) = fits' i) \<Longrightarrow> least_cut fits' n j \<Longrightarrow> least_cut fits (Suc n) (Suc j)"
  by (auto simp: least_cut_def less_Suc_eq_0_disj)

lemma least_cut_0: "fits 0 \<or> n = 1 \<Longrightarrow> 0 < n \<Longrightarrow> least_cut fits n 0"
  by (auto simp: least_cut_def)

definition within :: "retention_policy \<Rightarrow> message list \<Rightarrow> message list list \<Rightarrow> nat \<Rightarrow> bool" where
  "within p lead spans j \<longleftrightarrow>
     (let kept = lead @ concat (drop j spans) in \<not> exceeds p (int (length kept)) (estimated_bytes kept))"

lemma drop_spans_cut:
  "spans \<noteq> [] \<Longrightarrow> n = int (length (lead @ concat spans)) \<Longrightarrow> b = estimated_bytes (lead @ concat spans) \<Longrightarrow>
   \<exists>j. drop_spans p n b spans = drop j spans \<and> least_cut (within p lead spans) (length spans) j"
proof (induction p n b spans rule: drop_spans.induct)
  case (1 p n b s t rest)
  show ?case
  proof (cases "exceeds p n b")
    case True
    with 1 obtain j where j: "drop_spans p (n - int (length s)) (b - estimated_bytes s) (t # rest) = drop j (t # rest)"
      "least_cut (within p lead (t # rest)) (length (t # rest)) j" by auto
    from True 1(3,4) have "\<not> within p lead (s # t # rest) 0" by (simp add: within_def)
    then have "least_cut (within p lead (s # t # rest)) (length (s # t # rest)) (Suc j)"
      using least_cut_Suc [of "within p lead (s # t # rest)", OF _ _ j(2)] by (simp add: within_def)
    with True j(1) show ?thesis by (intro exI [of _ "Suc j"]) simp
  next
    case False
    with 1(3,4) have "least_cut (within p lead (s # t # rest)) (length (s # t # rest)) 0"
      by (intro least_cut_0) (auto simp: within_def)
    with False show ?thesis by (intro exI [of _ 0]) simp
  qed
next
  case "2_2"
  then show ?case by (intro exI [of _ 0]) (simp add: least_cut_0)
qed simp

definition within_cost :: "(message list \<Rightarrow> int option) \<Rightarrow> int \<Rightarrow> message list \<Rightarrow> message list list \<Rightarrow> nat \<Rightarrow> bool" where
  "within_cost cost_of budget lead spans j \<longleftrightarrow>
     (\<exists>c. cost_of (lead @ concat (drop j spans)) = Some c \<and> c \<le> budget)"

lemma drop_by_cost_cut:
  "drop_by_cost cost_of budget lead cost spans = Some kept \<Longrightarrow> spans \<noteq> [] \<Longrightarrow>
   cost_of (lead @ concat spans) = Some cost \<Longrightarrow>
   \<exists>j. kept = drop j spans \<and> least_cut (within_cost cost_of budget lead spans) (length spans) j"
proof (induction cost_of budget lead cost spans rule: drop_by_cost.induct)
  case (1 cost_of budget lead cost s t rest)
  show ?case
  proof (cases "budget < cost")
    case True
    with 1(2) obtain c where c: "cost_of (lead @ concat (t # rest)) = Some c"
      "drop_by_cost cost_of budget lead c (t # rest) = Some kept" by (auto split: option.splits)
    with 1(1) [OF True c(1) c(2)] obtain j where j: "kept = drop j (t # rest)"
      "least_cut (within_cost cost_of budget lead (t # rest)) (length (t # rest)) j" by auto
    from True 1(4) have "\<not> within_cost cost_of budget lead (s # t # rest) 0" by (simp add: within_cost_def)
    then have "least_cut (within_cost cost_of budget lead (s # t # rest)) (length (s # t # rest)) (Suc j)"
      using least_cut_Suc [of "within_cost cost_of budget lead (s # t # rest)", OF _ _ j(2)]
      by (simp add: within_cost_def)
    with j(1) show ?thesis by (intro exI [of _ "Suc j"]) simp
  next
    case False
    with 1(4) have "least_cut (within_cost cost_of budget lead (s # t # rest)) (length (s # t # rest)) 0"
      by (intro least_cut_0) (auto simp: within_cost_def)
    with False 1(2) show ?thesis by (intro exI [of _ 0]) simp
  qed
next
  case "2_2"
  then show ?case by (intro exI [of _ 0]) (auto simp: least_cut_def)
qed simp

lemma drop_by_cost_measured:
  "drop_by_cost cost_of budget lead cost spans = Some kept \<Longrightarrow> cost_of (lead @ concat spans) = Some cost \<Longrightarrow>
   \<exists>c. cost_of (lead @ concat kept) = Some c"
  by (induction cost_of budget lead cost spans rule: drop_by_cost.induct) (auto split: if_splits option.splits)

text \<open>The conversation is kept from a span on, with the leading system messages.\<close>

definition kept_from :: "message list \<Rightarrow> nat \<Rightarrow> message list" where
  "kept_from ms j = takeWhile is_system ms @ concat (drop j (build_spans (dropWhile is_system ms)))"

lemma kept_from_0 [simp]: "kept_from ms 0 = ms"
  by (simp add: kept_from_def)

lemma kept_from_protocol: "protocol_ok ms \<Longrightarrow> protocol_ok (kept_from ms j)"
  unfolding kept_from_def
  by (intro systems_append_protocol groups_protocol list_all_drop build_spans_groups after_systems_protocol)

definition spans_of :: "message list \<Rightarrow> nat" where
  "spans_of ms = length (build_spans (dropWhile is_system ms))"

text \<open>\<open>Retain\<close> keeps the conversation from the first span on that brings it within the limits.\<close>

lemma retain_cut:
  assumes "retain dec fresh k p ms0 = (k', out)" "ms0 \<noteq> []"
    and "compact_historical dec fresh k (recent_messages p) (max_historical_bytes p) ms0 = (k1, ms)"
  shows "out = ms \<and> (spans_of ms = 0 \<or> \<not> exceeds p (int (length ms)) (estimated_bytes ms)) \<or>
    (\<exists>j. out = kept_from ms j \<and>
       least_cut (\<lambda>i. \<not> exceeds p (int (length (kept_from ms i))) (estimated_bytes (kept_from ms i))) (spans_of ms) j)"
proof -
  let ?l = "takeWhile is_system ms" and ?s = "build_spans (dropWhile is_system ms)"
  have whole: "estimated_bytes ?l + sum_list (map estimated_bytes ?s) = estimated_bytes (?l @ concat ?s)"
    by (simp only: estimated_bytes_concat estimated_bytes_simps(3))
  show ?thesis
  proof (cases "?s = [] \<or> \<not> exceeds p (int (length ms)) (estimated_bytes ms)")
    case True
    with assms have "out = ms"
      by (auto simp: retain_def Let_def exceeds_def split: if_splits)
    with True show ?thesis by (auto simp: spans_of_def)
  next
    case False
    with assms whole have out: "out = ?l @ concat (drop_spans p (int (length ms)) (estimated_bytes (?l @ concat ?s)) ?s)"
      by (auto simp: retain_def Let_def exceeds_def split: if_splits)
    from False obtain j where "drop_spans p (int (length ms)) (estimated_bytes (?l @ concat ?s)) ?s = drop j ?s"
      "least_cut (within p ?l ?s) (length ?s) j"
      using drop_spans_cut [of ?s "int (length ms)" ?l "estimated_bytes (?l @ concat ?s)" p] by auto
    with out show ?thesis
      by (intro disjI2 exI [of _ j]) (simp add: kept_from_def spans_of_def within_def [abs_def] Let_def)
  qed
qed

lemma retain_by_cost_cut:
  assumes "retain_by_cost dec fresh k recent limit budget (Some cost_of) ms0 = Inr (k', out)" "ms0 \<noteq> []" "0 < budget"
    and "compact_historical dec fresh k recent limit ms0 = (k1, ms)"
  shows "out = ms \<and> (spans_of ms = 0 \<or> (\<exists>c. cost_of ms = Some c \<and> c \<le> budget)) \<or>
    (\<exists>j. out = kept_from ms j \<and>
       least_cut (\<lambda>i. \<exists>c. cost_of (kept_from ms i) = Some c \<and> c \<le> budget) (spans_of ms) j)"
proof -
  let ?l = "takeWhile is_system ms" and ?s = "build_spans (dropWhile is_system ms)"
  from assms obtain cost where c: "cost_of ms = Some cost"
    by (auto simp: retain_by_cost_def split: option.splits if_splits)
  show ?thesis
  proof (cases "cost \<le> budget \<or> ?s = []")
    case True
    with assms c show ?thesis by (auto simp: retain_by_cost_def spans_of_def split: if_splits)
  next
    case False
    with assms c obtain kept where k: "drop_by_cost cost_of budget ?l cost ?s = Some kept" "out = ?l @ concat kept"
      by (auto simp: retain_by_cost_def Let_def split: option.splits if_splits)
    from False c obtain j where "kept = drop j ?s" "least_cut (within_cost cost_of budget ?l ?s) (length ?s) j"
      using drop_by_cost_cut [OF k(1)] by auto
    with k(2) show ?thesis
      by (intro disjI2 exI [of _ j]) (simp add: kept_from_def spans_of_def within_cost_def [abs_def])
  qed
qed

text \<open>What it returns has been measured.\<close>

lemma retain_by_cost_measured:
  assumes "retain_by_cost dec fresh k recent limit budget (Some cost_of) ms0 = Inr (k', out)" "ms0 \<noteq> []" "0 < budget"
    and "compact_historical dec fresh k recent limit ms0 = (k1, ms)"
  shows "\<exists>j c. out = kept_from ms j \<and> cost_of out = Some c \<and> (c \<le> budget \<or> spans_of ms \<le> Suc j)"
proof -
  have "\<exists>c. cost_of out = Some c"
    using assms
    by (auto simp: retain_by_cost_def Let_def split: option.splits if_splits dest!: drop_by_cost_measured)
  then obtain c where c: "cost_of out = Some c" ..
  from retain_by_cost_cut [OF assms] consider
    "out = kept_from ms 0" "spans_of ms = 0 \<or> c \<le> budget"
  | j where "out = kept_from ms j"
      "least_cut (\<lambda>i. \<exists>c. cost_of (kept_from ms i) = Some c \<and> c \<le> budget) (spans_of ms) j"
    using c by auto
  then show ?thesis
  proof cases
    case 1
    with c show ?thesis by (intro exI [of _ 0] exI [of _ c]) auto
  next
    case 2
    with c show ?thesis by (intro exI [of _ j] exI [of _ c]) (auto simp: least_cut_def)
  qed
qed

lemma retain_protocol:
  assumes "protocol_ok ms"
  shows "protocol_ok (snd (retain dec fresh k p ms))"
proof -
  obtain k1 c where c: "compact_historical dec fresh k (recent_messages p) (max_historical_bytes p) ms = (k1, c)"
    by fastforce
  obtain k' out where r: "retain dec fresh k p ms = (k', out)" by fastforce
  have "protocol_ok out"
  proof (cases "ms = []")
    case False
    from retain_cut [OF r False c] compact_historical_protocol [OF assms c] kept_from_protocol
    show ?thesis by blast
  qed (use r in \<open>simp add: retain_def\<close>)
  with r show ?thesis by simp
qed

lemma retain_by_cost_protocol:
  assumes "protocol_ok ms" "retain_by_cost dec fresh k recent limit budget estimator ms = Inr (k', out)"
  shows "protocol_ok out"
proof -
  obtain k1 c where c: "compact_historical dec fresh k recent limit ms = (k1, c)" by fastforce
  note ok = compact_historical_protocol [OF assms(1) c]
  show ?thesis
  proof (cases "estimator = None \<or> ms = [] \<or> budget \<le> 0")
    case True
    with c ok assms(2) show ?thesis by (auto simp: retain_by_cost_def split: option.splits if_splits)
  next
    case False
    then obtain cost_of where e: "estimator = Some cost_of" by auto
    from False retain_by_cost_cut [OF assms(2) [unfolded e] _ _ c] ok kept_from_protocol
    show ?thesis by fastforce
  qed
qed

subsection \<open>Properties\<close>

text \<open>A conversation with one exchange with a tool.\<close>

definition sample_chat :: "message list" where
  "sample_chat =
     [plain_message RoleSystem ''s'', plain_message RoleUser ''u'',
      (plain_message RoleAssistant [])\<lparr>msg_calls := [\<lparr>mc_id = ''1'', mc_name = ''read'', mc_arguments = []\<rparr>]\<rparr>,
      (plain_message RoleTool ''r'')\<lparr>msg_call_id := ''1'', msg_tool_name := ''read''\<rparr>,
      plain_message RoleUser ''v'', plain_message RoleAssistant ''w'']"

definition sample_retention :: retention_policy where
  "sample_retention = \<lparr>max_messages = 4, max_bytes = 0, recent_messages = 0, max_historical_bytes = 0\<rparr>"

text \<open>
  C11: Retention never separates a request for tools from its results. A conversation in which
  every message that requests tools is followed by exactly the results of its calls, and results
  stand nowhere else, is in that order again after \<open>Retain\<close>, and after \<open>RetainByCost\<close> whenever it
  returns one, whatever the limits, the estimator, and what became of old exchanges.
\<close>

theorem retention_keeps_protocol:
  assumes "protocol_ok ms"
  shows "protocol_ok (snd (retain dec fresh k p ms)) \<and>
    (case retain_by_cost dec fresh k recent limit budget estimator ms of
       Inl e \<Rightarrow> True | Inr (k', out) \<Rightarrow> protocol_ok out)"
  using retain_protocol [OF assms] retain_by_cost_protocol [OF assms] by (fastforce split: sum.split)

theorem retention_keeps_protocol_witness:
  "snd (retain no_decoder (\<lambda>n. []) 0 sample_retention sample_chat) = take 1 sample_chat @ drop 4 sample_chat \<and>
   protocol_ok (snd (retain no_decoder (\<lambda>n. []) 0 sample_retention sample_chat))"
proof
  show "snd (retain no_decoder (\<lambda>n. []) 0 sample_retention sample_chat) = take 1 sample_chat @ drop 4 sample_chat"
    by code_simp
  have "protocol_ok sample_chat" by code_simp
  then show "protocol_ok (snd (retain no_decoder (\<lambda>n. []) 0 sample_retention sample_chat))"
    by (rule retention_keeps_protocol [THEN conjunct1])
qed



text \<open>
  \<open>RetainByCost\<close>, with a budget and an estimator, returns what is within the budget by that
  estimator, or is down to the newest span; and every cut before that one cost too much.
\<close>

theorem cost_retention_within:
  assumes "ms0 \<noteq> []" "0 < budget"
    and "retain_by_cost dec fresh k recent limit budget (Some cost_of) ms0 = Inr (k', out)"
    and "ms = snd (compact_historical dec fresh k recent limit ms0)"
  shows "\<exists>j \<le> spans_of ms.
    out = kept_from ms j \<and>
    ((\<exists>c. cost_of out = Some c \<and> c \<le> budget) \<or> spans_of ms \<le> Suc j) \<and>
    (\<forall>i < j. \<not> (\<exists>c. cost_of (kept_from ms i) = Some c \<and> c \<le> budget))"
proof -
  obtain k1 where c: "compact_historical dec fresh k recent limit ms0 = (k1, ms)"
    using assms(4) by (metis prod.collapse)
  from retain_by_cost_cut [OF assms(3,1,2) c] consider
    "out = kept_from ms 0" "spans_of ms = 0 \<or> (\<exists>c. cost_of ms = Some c \<and> c \<le> budget)"
  | j where "out = kept_from ms j"
      "least_cut (\<lambda>i. \<exists>c. cost_of (kept_from ms i) = Some c \<and> c \<le> budget) (spans_of ms) j"
    by auto
  then show ?thesis
  proof cases
    case 1
    then show ?thesis by (intro exI [of _ 0]) auto
  next
    case 2
    then show ?thesis by (intro exI [of _ j]) (auto simp: least_cut_def)
  qed
qed

definition count_cost :: "message list \<Rightarrow> int option" where
  "count_cost ms = Some (int (length ms))"

theorem cost_retention_within_witness:
  "\<exists>out. retain_by_cost no_decoder (\<lambda>n. []) 0 0 0 3 (Some count_cost) sample_chat = Inr (0, out) \<and>
    (\<exists>j \<le> spans_of sample_chat. out = kept_from sample_chat j \<and>
      ((\<exists>c. count_cost out = Some c \<and> c \<le> 3) \<or> spans_of sample_chat \<le> Suc j) \<and>
      (\<forall>i < j. \<not> (\<exists>c. count_cost (kept_from sample_chat i) = Some c \<and> c \<le> 3)))"
proof -
  have r: "retain_by_cost no_decoder (\<lambda>n. []) 0 0 0 3 (Some count_cost) sample_chat =
      Inr (0, take 1 sample_chat @ drop 4 sample_chat)"
    by code_simp
  have c: "sample_chat = snd (compact_historical no_decoder (\<lambda>n. []) 0 0 0 sample_chat)"
    by (simp add: compact_historical_def)
  have "sample_chat \<noteq> []" by (simp add: sample_chat_def)
  from cost_retention_within [OF this _ r c] r show ?thesis by auto
qed

text \<open>
  The bytes of a message do not count the reasoning it holds: with the limits of the program, a
  conversation of any size passes as 256 bytes and is kept.
\<close>

theorem reasoning_not_counted:
  "\<exists>m. n \<le> length (msg_reasoning m) \<and> estimated_bytes [plain_message RoleUser [], m] = 256 \<and>
     retain dec fresh k default_retention [plain_message RoleUser [], m] = (k, [plain_message RoleUser [], m])"
proof (intro exI conjI)
  let ?m = "(plain_message RoleAssistant [])\<lparr>msg_reasoning := replicate n (CHR ''r'')\<rparr>"
  show "n \<le> length (msg_reasoning ?m)" by simp
  show b: "estimated_bytes [plain_message RoleUser [], ?m] = 256"
    by (simp add: message_bytes_def plain_message_def)
  with b show "retain dec fresh k default_retention [plain_message RoleUser [], ?m] =
      (k, [plain_message RoleUser [], ?m])"
    by (simp add: retain_def compact_historical_def default_retention_def)
qed

end
