(* ===== verification/Context_Budget.thy ===== *)
theory Context_Budget
  imports Conversation
begin

text \<open>
  The size of a request to a model: \<open>internal/engine/turn/context_budget.go\<close>, with the compaction
  plan of \<open>internal/core/conversation/compaction.go\<close> and the policies of
  \<open>internal/core/modelprofile\<close> (\<open>compaction.go\<close>, \<open>vision.go\<close>). Ratios are kept in hundredths; what
  floating point makes of them is in \<open>budget_env\<close>, with the length of an encoded request and the
  dimensions of an encoded image.
\<close>

record token_limits =
  tl_context :: int
  tl_input :: int
  tl_output :: int

definition normalize_limits :: "token_limits \<Rightarrow> token_limits" where
  "normalize_limits l = \<lparr>tl_context = max 0 (tl_context l), tl_input = max 0 (tl_input l), tl_output = max 0 (tl_output l)\<rparr>"

record budget_env =
  be_size :: "model_request \<Rightarrow> int option"
  be_image :: "string \<Rightarrow> (int \<times> int) option"
  be_reaches :: "int \<Rightarrow> int \<Rightarrow> int \<Rightarrow> bool"
  be_scale :: "int \<Rightarrow> int \<Rightarrow> int"

subsection \<open>Policies\<close>

datatype token_scheme = SchemeNone | Patch32 | AnthropicPixels | GeminiTiles | SchemeOther string

record vision_policy =
  vp_max_dimension :: int
  vp_max_patches :: int
  vp_patch_size :: int
  vp_max_output :: int
  vp_scheme :: token_scheme
  vp_fallback :: int

definition default_vision :: vision_policy where
  "default_vision = \<lparr>vp_max_dimension = 2048, vp_max_patches = 2500, vp_patch_size = 32,
     vp_max_output = 10 * 1024 * 1024, vp_scheme = Patch32, vp_fallback = 2500\<rparr>"

definition effective_vision :: "vision_policy \<Rightarrow> vision_policy" where
  "effective_vision p =
     \<lparr>vp_max_dimension = (if vp_max_dimension p \<le> 0 then vp_max_dimension default_vision else vp_max_dimension p),
      vp_max_patches = (if vp_max_patches p \<le> 0 then vp_max_patches default_vision else vp_max_patches p),
      vp_patch_size = (if vp_patch_size p \<le> 0 then vp_patch_size default_vision else vp_patch_size p),
      vp_max_output = (if vp_max_output p \<le> 0 then vp_max_output default_vision else vp_max_output p),
      vp_scheme = (if vp_scheme p = SchemeNone then vp_scheme default_vision else vp_scheme p),
      vp_fallback = (if vp_fallback p \<le> 0 then vp_fallback default_vision else vp_fallback p)\<rparr>"

record compaction_policy =
  cp_soft :: int
  cp_medium :: int
  cp_aggressive :: int
  cp_emergency :: int
  cp_target :: int
  cp_recent :: int

definition ratios :: "int \<Rightarrow> int \<Rightarrow> int \<Rightarrow> int \<Rightarrow> int \<Rightarrow> compaction_policy" where
  "ratios s m a e t = \<lparr>cp_soft = s, cp_medium = m, cp_aggressive = a, cp_emergency = e, cp_target = t, cp_recent = 8\<rparr>"

definition tier_compaction :: "int \<Rightarrow> compaction_policy" where
  "tier_compaction tokens =
     (if tokens \<le> 0 then ratios 70 80 88 94 60
      else if tokens \<le> 128000 then ratios 68 78 87 94 56
      else if tokens \<le> 256000 then ratios 72 81 89 95 60
      else if tokens \<le> 512000 then ratios 76 84 90 95 62
      else if tokens \<le> 1000000 then ratios 80 87 92 96 65
      else ratios 82 88 93 97 68)"

definition overlay_compaction :: "compaction_policy \<Rightarrow> compaction_policy \<Rightarrow> compaction_policy" where
  "overlay_compaction d s =
     (let pick = (\<lambda>f. if 0 < f s then f s else f d) in
      \<lparr>cp_soft = pick cp_soft, cp_medium = pick cp_medium, cp_aggressive = pick cp_aggressive,
       cp_emergency = pick cp_emergency, cp_target = pick cp_target, cp_recent = pick cp_recent\<rparr>)"

definition effective_compaction :: "token_limits \<Rightarrow> compaction_policy \<Rightarrow> compaction_policy" where
  "effective_compaction l p =
     overlay_compaction (tier_compaction (if tl_input l \<le> 0 then tl_context l else tl_input l)) p"

datatype compaction_stage = CompactionNone | CompactionSoft | CompactionMedium | CompactionAggressive
  | CompactionEmergency

text \<open>\<open>PlanCompaction\<close>: the stage, and the target of tokens where there is one.\<close>

definition plan_compaction :: "budget_env \<Rightarrow> int \<Rightarrow> int \<Rightarrow> compaction_policy \<Rightarrow> compaction_stage \<times> int" where
  "plan_compaction env used budget p =
     (let at = (\<lambda>f. be_reaches env used budget (f p));
          stage = (if at cp_emergency then CompactionEmergency else if at cp_aggressive then CompactionAggressive
            else if at cp_medium then CompactionMedium else if at cp_soft then CompactionSoft else CompactionNone) in
      if used \<le> 0 \<or> budget \<le> 0 \<or> stage = CompactionNone then (CompactionNone, 0)
      else (stage, max 1 (be_scale env budget (cp_target p))))"

subsection \<open>Estimates\<close>

definition ceil_div :: "int \<Rightarrow> int \<Rightarrow> int" where
  "ceil_div v d = (if d \<le> 0 then 0 else (v + d - 1) div d)"

definition image_tokens :: "budget_env \<Rightarrow> vision_policy \<Rightarrow> string \<Rightarrow> int" where
  "image_tokens env vp data0 =
     (let p = effective_vision vp; data = trim_space data0 in
      case (if data = [] then None else be_image env data) of
        None \<Rightarrow> vp_fallback p
      | Some (w, h) \<Rightarrow>
          if w \<le> 0 \<or> h \<le> 0 then vp_fallback p
          else case vp_scheme p of
              AnthropicPixels \<Rightarrow> max 1 ((w * h + 749) div 750)
            | GeminiTiles \<Rightarrow>
                if w \<le> 384 \<and> h \<le> 384 then 258
                else let crop = max 1 (2 * min w h div 3) in max 258 (ceil_div w crop * ceil_div h crop * 258)
            | _ \<Rightarrow>
                let patch = max 1 (vp_patch_size p); patches = ceil_div w patch * ceil_div h patch in
                if patches < 1 then 1
                else if 0 < vp_max_patches p \<and> vp_max_patches p < patches then vp_max_patches p
                else patches)"

definition strip_image :: "content_part \<Rightarrow> content_part" where
  "strip_image p = (if part_type p = PartImage then p\<lparr>part_data := []\<rparr> else p)"

definition images_of :: "message list \<Rightarrow> content_part list" where
  "images_of ms = filter (\<lambda>p. part_type p = PartImage) (concat (map msg_parts ms))"

text \<open>The images by their dimensions, the rest by the length of its encoding, three bytes a token.\<close>

definition estimate_tokens :: "budget_env \<Rightarrow> vision_policy \<Rightarrow> model_request \<Rightarrow> int option" where
  "estimate_tokens env vp0 r =
     (let vp = effective_vision vp0;
          neutral = r\<lparr>rq_messages := map (\<lambda>m. m\<lparr>msg_parts := map strip_image (msg_parts m)\<rparr>) (rq_messages r)\<rparr> in
      map_option
        (\<lambda>n. (if 0 < n then (n + 2) div 3 else 0) +
          (\<Sum>p \<leftarrow> images_of (rq_messages r). image_tokens env vp (part_data p)))
        (be_size env neutral))"

subsection \<open>Budgets\<close>

text \<open>For a window of tokens that is there; Go's division is \<open>div\<close> on it.\<close>

definition output_reserve :: "int \<Rightarrow> int \<Rightarrow> int" where
  "output_reserve window requested =
     (if 0 < requested then (if window \<le> requested then window else requested)
      else let reserve = min (max (window div 8) 256) 8192 in
        if window \<le> reserve then window div 4 else reserve)"

definition limited_reserve :: "token_limits \<Rightarrow> int \<Rightarrow> int" where
  "limited_reserve l requested =
     (let reserve = output_reserve (tl_context l) requested in
      if requested = 0 \<and> 0 < tl_output l \<and> tl_output l < reserve then tl_output l else reserve)"

definition input_budget :: "token_limits \<Rightarrow> int \<Rightarrow> int" where
  "input_budget l requested =
     (if 0 < tl_context l then
        let context = max 0 (tl_context l - limited_reserve l requested) in
        if tl_input l \<le> 0 \<or> context < tl_input l then context else tl_input l
      else tl_input l)"

datatype budget_error = CannotEstimate | InputExceeded | OutputExceeded | ContextExceeded

definition validate_budget :: "budget_env \<Rightarrow> vision_policy \<Rightarrow> token_limits \<Rightarrow> model_request \<Rightarrow> budget_error option" where
  "validate_budget env vp l r =
     (if tl_context l \<le> 0 \<and> tl_input l \<le> 0 \<and> tl_output l \<le> 0 then None
      else case estimate_tokens env vp r of
          None \<Rightarrow> Some CannotEstimate
        | Some used \<Rightarrow>
            if 0 < tl_input l \<and> tl_input l < used then Some InputExceeded
            else if 0 < tl_output l \<and> tl_output l < rq_max_output r then Some OutputExceeded
            else if tl_context l \<le> 0 then None
            else if used + limited_reserve l (rq_max_output r) \<le> tl_context l then None
            else Some ContextExceeded)"

definition candidate_cost :: "budget_env \<Rightarrow> vision_policy \<Rightarrow> model_request \<Rightarrow> int \<Rightarrow> message list \<Rightarrow> int option" where
  "candidate_cost env vp r fixed ms =
     map_option (\<lambda>t. if t \<le> fixed then 0 else t - fixed) (estimate_tokens env vp (r\<lparr>rq_messages := ms\<rparr>))"

text \<open>\<open>compactRequestToModelBudget\<close>: nothing where an estimate fails; else the request and the stage.\<close>

definition compact_request :: "result_decoder \<Rightarrow> (nat \<Rightarrow> string) \<Rightarrow> nat \<Rightarrow> budget_env \<Rightarrow> vision_policy \<Rightarrow>
    token_limits \<Rightarrow> compaction_policy \<Rightarrow> model_request \<Rightarrow> (nat \<times> model_request \<times> compaction_stage) option" where
  "compact_request dec fresh k env vp l p r =
     (case estimate_tokens env vp r of
        None \<Rightarrow> None
      | Some used \<Rightarrow>
          (case plan_compaction env used (input_budget l (rq_max_output r)) p of
             (stage, target) \<Rightarrow>
               if stage = CompactionNone \<or> rq_messages r = [] then Some (k, r, stage)
               else case estimate_tokens env vp (r\<lparr>rq_messages := []\<rparr>) of
                   None \<Rightarrow> None
                 | Some fixed \<Rightarrow>
                     (case retain_by_cost dec fresh k (cp_recent p) 2048 (max 1 (target - fixed))
                         (Some (candidate_cost env vp r fixed)) (rq_messages r) of
                        Inl e \<Rightarrow> None
                      | Inr (k', ms) \<Rightarrow> Some (k', r\<lparr>rq_messages := ms\<rparr>, stage))))"

subsection \<open>Lemmas\<close>

lemma output_reserve_bounds:
  "0 < window \<Longrightarrow> 0 \<le> output_reserve window requested \<and> output_reserve window requested \<le> window"
  by (auto simp: output_reserve_def Let_def)

lemma limited_reserve_bounds:
  "0 < tl_context l \<Longrightarrow> 0 \<le> limited_reserve l requested \<and> limited_reserve l requested \<le> tl_context l"
  using output_reserve_bounds [of "tl_context l" requested] by (auto simp: limited_reserve_def Let_def)

lemma candidate_cost_within:
  "candidate_cost env vp r fixed ms = Some c \<Longrightarrow> c \<le> max 1 (target - fixed) \<Longrightarrow>
   \<exists>t. estimate_tokens env vp (r\<lparr>rq_messages := ms\<rparr>) = Some t \<and> t \<le> max target (fixed + 1)"
  by (auto simp: candidate_cost_def split: if_splits)

subsection \<open>Properties\<close>


definition sample_be :: budget_env where
  "sample_be = \<lparr>be_size = (\<lambda>r. Some (300 * int (length (rq_messages r)))), be_image = (\<lambda>s. None),
     be_reaches = (\<lambda>a b n. n * b \<le> 100 * a), be_scale = (\<lambda>b n. b * n div 100)\<rparr>"

definition sample_limits :: token_limits where
  "sample_limits = \<lparr>tl_context = 500, tl_input = 0, tl_output = 100\<rparr>"

definition sample_model_request :: model_request where
  "sample_model_request = \<lparr>rq_messages = [plain_message RoleUser ''u'', plain_message RoleAssistant ''v'', plain_message RoleUser ''w'',
       plain_message RoleAssistant ''x''],
     rq_tools = [], rq_max_output = 0, rq_choice = ChoiceAuto, rq_effort = EffortDefault\<rparr>"




end
