(* ===== verification/Turn_Stream.thy ===== *)
theory Turn_Stream
  imports Turn_Guards Chat_Message Context_Budget Tool_Call
begin

text \<open>
  One response of the model: \<open>internal/engine/turn/model_stream.go\<close>, with the events of a stream of
  \<open>proton-sdk/domain/stream.go\<close>, and \<open>emit\<close> and the event buffer of \<open>loop.go\<close> and
  \<open>runtime_context.go\<close>. Everything outside the loop is in a record of functions over the state
  \<open>'w\<close> of the world: the model, the tools, the sink of events, contexts and their deadlines,
  fresh message ids. The stream of a round is the list of what its \<open>Next\<close> returns.
\<close>

subsection \<open>The events of a stream\<close>

datatype stream_event = TextStart | TextDelta string | TextEnd | ReasoningDelta string
  | ToolCallStart string string | ToolCallDelta string string | ToolCallEnd string
  | ToolCallWhole model_call | UsageReport int int int int | RawData string
  | StreamFinish string | UnknownEvent string

definition valid_finish :: "string \<Rightarrow> bool" where
  "valid_finish s \<longleftrightarrow> s \<in> {''stop'', ''length'', ''tool_calls'', ''error'', ''other''}"

text \<open>Whether \<open>Event.Validate\<close> accepts it.\<close>

definition event_valid :: "(string \<Rightarrow> bool) \<Rightarrow> stream_event \<Rightarrow> bool" where
  "event_valid json e =
     (case e of
        ReasoningDelta s \<Rightarrow> s \<noteq> []
      | ToolCallStart i n \<Rightarrow> trim_space i \<noteq> [] \<and> trim_space n \<noteq> []
      | ToolCallDelta i s \<Rightarrow> trim_space i \<noteq> []
      | ToolCallEnd i \<Rightarrow> trim_space i \<noteq> []
      | ToolCallWhole c \<Rightarrow> tool_call_validate json c = None
      | UsageReport i out all cached \<Rightarrow> 0 \<le> i \<and> 0 \<le> out \<and> 0 \<le> all \<and> 0 \<le> cached
      | RawData s \<Rightarrow> s \<noteq> []
      | StreamFinish r \<Rightarrow> valid_finish r
      | UnknownEvent k \<Rightarrow> False
      | _ \<Rightarrow> True)"

text \<open>What \<open>Next\<close> returns, and \<open>Stream\<close>; the end of the list is \<open>io.EOF\<close>.\<close>

datatype stream_item = StreamFailure | StreamItem stream_event

datatype stream_open = OpenRefused | OpenNil | Opened "stream_item list"

subsection \<open>The world of a turn\<close>

datatype loop_error = ErrDone error_code | ErrSink | ErrOpen | ErrNilStream | ErrRead
  | ErrEvent | ErrEmptyResponse | ErrIncompleteStream | ErrDuplicateToolCall string
  | ErrNoPublishedTools | ErrTranslate call_error | ErrArguments | ErrObserve
  | ErrToolDispatchUnavailable | ErrUnsupportedCapability | ErrUnresolvedToolCall
  | ErrGroundingUnavailable | ErrRuntimeContext | ErrContextBudget | ErrAliasCollision string
  | ErrPrepare | ErrImages | ErrCompaction | ErrRequest message_error | ErrEncoding

datatype scope = TurnScope | RoundScope | DetachedScope

datatype turn_event = EvText int string | EvReasoning int string | EvCall int tool_call
  | EvResult int executed_call | EvCompleted int message | EvFailed int loop_error

datatype protection = CallSuppressed | PermissionSuppressed | RetryBudgetSuppressed
  | SafetyBudgetProtection exhausted_reason | LoopDetected | NoProgressSynthesis | TurnDeadline

text \<open>
  \<open>tw_err\<close> is \<open>ctx.Err()\<close>, \<open>tw_sink\<close> says whether the sink accepted the event, \<open>tw_call\<close> is
  \<open>Service.Call\<close> with the failure its error converts to, \<open>tw_order\<close> the order in which the workers
  of a concurrent round take the calls, \<open>tw_ids\<close> the fresh message ids to come and \<open>tw_take\<close> that
  some were taken, \<open>tw_drain\<close> and \<open>tw_await\<close> the runtime context.
\<close>

record 'w turn_world =
  tw_err :: "scope \<Rightarrow> 'w \<Rightarrow> error_code option"
  tw_sink :: "turn_event \<Rightarrow> 'w \<Rightarrow> 'w \<times> bool"
  tw_stream :: "model_request \<Rightarrow> 'w \<Rightarrow> 'w \<times> stream_open"
  tw_call :: "tool_call \<Rightarrow> 'w \<Rightarrow> 'w \<times> tool_result \<times> failure option"
  tw_definitions :: "'w \<Rightarrow> tool_definition list"
  tw_always :: "'w \<Rightarrow> bool"
  tw_observe :: "protection \<Rightarrow> int \<Rightarrow> 'w \<Rightarrow> 'w"
  tw_order :: "tool_call list \<Rightarrow> 'w \<Rightarrow> nat list"
  tw_ids :: "'w \<Rightarrow> nat \<Rightarrow> string"
  tw_take :: "nat \<Rightarrow> 'w \<Rightarrow> 'w"
  tw_drain :: "'w \<Rightarrow> 'w \<times> message list option"
  tw_await :: "'w \<Rightarrow> 'w \<times> message list option"
  tw_active :: "'w \<Rightarrow> bool"
  tw_pending :: "'w \<Rightarrow> bool"
  tw_finalize :: "'w \<Rightarrow> 'w"
  tw_prepare :: "model_request \<Rightarrow> 'w \<Rightarrow> 'w \<times> model_request option"

subsection \<open>Events\<close>

definition emit :: "'w turn_world \<Rightarrow> scope \<Rightarrow> turn_event \<Rightarrow> 'w \<Rightarrow> 'w \<times> loop_error option" where
  "emit W sc e w =
     (case tw_err W sc w of
        Some c \<Rightarrow> (w, Some (ErrDone c))
      | None \<Rightarrow> (case tw_sink W e w of (w', accepted) \<Rightarrow> (w', if accepted then None else Some ErrSink)))"

text \<open>Events of a round go to the sink, or to a buffer while asynchronous work is active.\<close>

type_synonym 'w round_state = "'w \<times> turn_event list option"

fun round_emit :: "'w turn_world \<Rightarrow> scope \<Rightarrow> turn_event \<Rightarrow> 'w round_state \<Rightarrow> 'w round_state \<times> loop_error option" where
  "round_emit W sc e (w, None) = (case emit W sc e w of (w', err) \<Rightarrow> ((w', None), err))"
| "round_emit W sc e (w, Some buf) =
     (case tw_err W sc w of
        Some c \<Rightarrow> ((w, Some buf), Some (ErrDone c))
      | None \<Rightarrow> ((w, Some (buf @ [e])), None))"

fun flush_events :: "'w turn_world \<Rightarrow> turn_event list \<Rightarrow> 'w \<Rightarrow> 'w \<times> loop_error option" where
  "flush_events W [] w = (w, None)"
| "flush_events W (e # es) w =
     (case emit W TurnScope e w of
        (w', Some err) \<Rightarrow> (w', Some err)
      | (w', None) \<Rightarrow> flush_events W es w')"

definition flush :: "'w turn_world \<Rightarrow> 'w round_state \<Rightarrow> 'w \<times> loop_error option" where
  "flush W rs = (case snd rs of None \<Rightarrow> (fst rs, None) | Some buf \<Rightarrow> flush_events W buf (fst rs))"

subsection \<open>Reading a stream\<close>

definition fresh_id :: "'w turn_world \<Rightarrow> 'w round_state \<Rightarrow> 'w round_state \<times> string" where
  "fresh_id W rs = ((tw_take W 1 (fst rs), snd rs), tw_ids W (fst rs) 0)"

text \<open>\<open>consumeSDKStream\<close>, with what was read so far: the text, the reasoning, the calls.\<close>

fun consume_stream :: "'w turn_world \<Rightarrow> (string \<Rightarrow> bool) \<Rightarrow> int \<Rightarrow> stream_item list \<Rightarrow> string \<Rightarrow> string \<Rightarrow>
    model_call list \<Rightarrow> 'w round_state \<Rightarrow> 'w round_state \<times> (loop_error, message) result" where
  "consume_stream W json n [] text reasoning calls rs = (rs, Inl ErrIncompleteStream)"
| "consume_stream W json n (StreamFailure # items) text reasoning calls rs = (rs, Inl ErrRead)"
| "consume_stream W json n (StreamItem e # items) text reasoning calls rs =
     (if \<not> event_valid json e then (rs, Inl ErrEvent)
      else case e of
          ReasoningDelta s \<Rightarrow>
            (case round_emit W RoundScope (EvReasoning n s) rs of
               (rs', Some err) \<Rightarrow> (rs', Inl err)
             | (rs', None) \<Rightarrow> consume_stream W json n items text (reasoning @ s) calls rs')
        | TextDelta s \<Rightarrow>
            (case round_emit W RoundScope (EvText n s) rs of
               (rs', Some err) \<Rightarrow> (rs', Inl err)
             | (rs', None) \<Rightarrow> consume_stream W json n items (text @ s) reasoning calls rs')
        | ToolCallWhole c \<Rightarrow> consume_stream W json n items text reasoning (calls @ [c]) rs
        | StreamFinish r \<Rightarrow>
            if text = [] \<and> calls = [] then (rs, Inl ErrEmptyResponse)
            else (case fresh_id W rs of
                (rs', i) \<Rightarrow>
                  (rs', Inr ((plain_message RoleAssistant text)
                    \<lparr>msg_id := i, msg_reasoning := reasoning, msg_calls := calls\<rparr>)))
        | _ \<Rightarrow> consume_stream W json n items text reasoning calls rs)"

definition stream_round :: "'w turn_world \<Rightarrow> (string \<Rightarrow> bool) \<Rightarrow> int \<Rightarrow> model_request \<Rightarrow> 'w round_state \<Rightarrow>
    'w round_state \<times> (loop_error, message) result" where
  "stream_round W json n r rs =
     (case tw_stream W r (fst rs) of
        (w, OpenRefused) \<Rightarrow> ((w, snd rs), Inl ErrOpen)
      | (w, OpenNil) \<Rightarrow> ((w, snd rs), Inl ErrNilStream)
      | (w, Opened items) \<Rightarrow> consume_stream W json n items [] [] [] (w, snd rs))"

end
