(* ===== verification/Turn_Request.thy ===== *)
theory Turn_Request
  imports Turn_Stream Str_Search
begin

text \<open>
  The request of one round: \<open>internal/engine/turn/round_request.go\<close> and \<open>tool_dispatch.go\<close>, with
  \<open>ProviderSafeName\<close> of \<open>internal/core/tool/provider_name.go\<close>. What the loop was built with is in
  \<open>turn_config\<close>; the rendered system prompt, the section on skills and image preparation are
  functions there, as are JSON, base64 and hashing. Schemas of tools are not modelled.
\<close>

record turn_config =
  tc_max_calls :: int
  tc_stagnant :: int
  tc_emergency :: int
  tc_identical :: int
  tc_parallel :: int
  tc_round_bytes :: int
  tc_turn_bytes :: int
  tc_evidence :: evidence_kind
  tc_managed :: bool
  tc_goal :: string
  tc_prompt :: "tool_definition list \<Rightarrow> string list \<Rightarrow> bool \<Rightarrow> string"
  tc_skills :: string
  tc_image_note :: string
  tc_tools :: bool
  tc_vision :: bool
  tc_profile :: "(token_limits \<times> compaction_policy \<times> vision_policy) option"
  tc_choice :: bool
  tc_sees_images :: bool
  tc_effort :: "reasoning_effort option"
  tc_limits :: token_limits
  tc_runtime :: bool
  tc_json :: "string \<Rightarrow> bool"
  tc_base64 :: "string \<Rightarrow> bool"
  tc_digest :: "string \<Rightarrow> string"
  tc_images :: "message list \<Rightarrow> message list option"
  tc_encode :: "tool_result \<Rightarrow> string option"
  tc_image :: "tool_result \<Rightarrow> (string \<times> string) option"
  tc_env :: turn_env
  tc_plan :: "string \<Rightarrow> plan_output"
  tc_budget :: budget_env
  tc_decoder :: result_decoder

subsection \<open>Names of published tools\<close>

definition name_rune :: "nat \<Rightarrow> bool" where
  "name_rune r \<longleftrightarrow> (97 \<le> r \<and> r \<le> 122) \<or> (65 \<le> r \<and> r \<le> 90) \<or> (48 \<le> r \<and> r \<le> 57) \<or> r = 95 \<or> r = 45"

definition provider_name_safe :: "string \<Rightarrow> bool" where
  "provider_name_safe n \<longleftrightarrow> n \<noteq> [] \<and> length n \<le> 64 \<and> list_all name_rune (runes n)"

fun safe_runes :: "bool \<Rightarrow> nat list \<Rightarrow> string" where
  "safe_runes last_underscore [] = []"
| "safe_runes last_underscore (r # rs) =
     (if name_rune r then char_of r # safe_runes False rs
      else if last_underscore then safe_runes True rs
      else CHR ''_'' # safe_runes True rs)"

definition trim_underscores :: "string \<Rightarrow> string" where
  "trim_underscores s = rev (dropWhile (\<lambda>c. c = CHR ''_'') (rev (dropWhile (\<lambda>c. c = CHR ''_'') s)))"

text \<open>\<open>digest\<close> gives the first four bytes of the SHA-256 sum, in hexadecimal.\<close>

definition provider_safe_name :: "(string \<Rightarrow> string) \<Rightarrow> string \<Rightarrow> string" where
  "provider_safe_name digest n =
     (if provider_name_safe n then n
      else let base = trim_underscores (safe_runes False (runes n));
               ending = CHR ''_'' # digest n
        in take (64 - length ending) (if base = [] then ''tool'' else base) @ ending)"

subsection \<open>Dispatch\<close>

datatype dispatch_reason = DispatchEnabled | DisabledSafetyBudget | DisabledNoProgress
  | DisabledNoTools | DisabledModelTools

record dispatch_state =
  ds_reason :: dispatch_reason
  ds_remaining :: int
  ds_canonical :: "string \<rightharpoonup> string"
  ds_names :: "string set"

definition dispatch_enabled :: "dispatch_state \<Rightarrow> bool" where
  "dispatch_enabled d \<longleftrightarrow> ds_reason d = DispatchEnabled"

definition canonical_tool_name :: "dispatch_state \<Rightarrow> string \<Rightarrow> string" where
  "canonical_tool_name d n =
     (case ds_canonical d n of Some c \<Rightarrow> c | None \<Rightarrow> if n \<in> ds_names d then n else n)"

definition published_name :: "turn_config \<Rightarrow> tool_definition \<Rightarrow> string" where
  "published_name cfg d =
     (if def_kind d = KindMCP then provider_safe_name (tc_digest cfg) (def_name d) else def_name d)"

definition published :: "turn_config \<Rightarrow> tool_definition \<Rightarrow> published_tool" where
  "published cfg d = \<lparr>pt_name = published_name cfg d, pt_description = def_description d, pt_dynamic = (def_kind d = KindMCP)\<rparr>"

text \<open>The names a round publishes; two tools under one name are an error.\<close>

fun register_names :: "turn_config \<Rightarrow> (string \<rightharpoonup> string) \<Rightarrow> tool_definition list \<Rightarrow>
    (loop_error, string \<rightharpoonup> string) result" where
  "register_names cfg m [] = Inr m"
| "register_names cfg m (d # ds) =
     (if m (published_name cfg d) \<noteq> None \<and> m (published_name cfg d) \<noteq> Some (def_name d)
      then Inl (ErrAliasCollision (published_name cfg d))
      else register_names cfg (m(published_name cfg d \<mapsto> def_name d)) ds)"

subsection \<open>The input of a turn\<close>

definition managed_prompt :: "string \<Rightarrow> bool" where
  "managed_prompt text0 =
     (let t = trim_space text0 in
      has_prefix t ''<proton-system-prompt '' \<or>
      (has_prefix t ''<!-- proton:abi<='' \<and>
       (case find_sub ''-->'' t of None \<Rightarrow> False | Some i \<Rightarrow> trim_space (drop (i + 3) t) \<noteq> [])))"

definition skill_marker :: string where
  "skill_marker = ''<!-- proton:skill-catalog -->''"

definition inject_skills :: "string \<Rightarrow> message list \<Rightarrow> message list" where
  "inject_skills section history =
     (let head = skill_marker @ [newline] @ section in
      if section = [] then history
      else case history of
          [] \<Rightarrow> [plain_message RoleSystem head]
        | m # ms \<Rightarrow>
            if is_system m then
              let base = (case find_sub skill_marker (msg_content m) of
                  None \<Rightarrow> msg_content m | Some i \<Rightarrow> take i (msg_content m))
              in m\<lparr>msg_content := trim_space (base @ [newline, newline] @ head)\<rparr> # ms
            else plain_message RoleSystem head # history)"

text \<open>\<open>prepareTurnInput\<close>: the history, and the system messages that extend the managed prompt.\<close>

definition prepare_input :: "turn_config \<Rightarrow> message list \<Rightarrow> message list \<times> string list" where
  "prepare_input cfg history =
     (if tc_managed cfg then
        (filter (\<lambda>m. \<not> is_system m) history,
         filter (\<lambda>t. t \<noteq> [] \<and> \<not> managed_prompt t) (map (\<lambda>m. trim_space (msg_content m)) (filter is_system history)))
      else (inject_skills (tc_skills cfg) history, []))"

subsection \<open>The request of a round\<close>

definition has_image :: "message \<Rightarrow> bool" where
  "has_image m \<longleftrightarrow> list_ex (\<lambda>p. part_type p = PartImage) (msg_parts m)"

definition latest_user_image :: "message list \<Rightarrow> bool" where
  "latest_user_image ms = (case find (\<lambda>m. msg_role m = RoleUser) (rev ms) of None \<Rightarrow> False | Some m \<Rightarrow> has_image m)"

text \<open>Which tools are published, and why the others are not dispatched.\<close>

definition choose_tools :: "turn_config \<Rightarrow> tool_definition list \<Rightarrow> grounding \<Rightarrow> safety_budget \<Rightarrow> bool \<Rightarrow> bool \<Rightarrow>
    tool_definition list \<times> dispatch_state" where
  "choose_tools cfg ds g b no_progress safety =
     (let off = (\<lambda>r. \<lparr>ds_reason = r, ds_remaining = 0, ds_canonical = Map.empty, ds_names = {}\<rparr>);
          tools = filter_definitions g ds in
      if no_progress then ([], off DisabledNoProgress)
      else if safety \<or> exhausted b then ([], off DisabledSafetyBudget)
      else if tools \<noteq> [] \<and> \<not> tc_tools cfg then ([], off DisabledModelTools)
      else if tools = [] then ([], off DisabledNoTools)
      else (tools, (off DispatchEnabled)\<lparr>ds_remaining := remaining_hard_limit b\<rparr>))"

text \<open>The texts the program adds, of \<open>loop.go\<close>.\<close>

definition safety_budget_prompt :: string where
  "safety_budget_prompt =
     join [newline]
     [''CRITICAL - TOOL SAFETY BUDGET REACHED'',
      [],
      ''The runtime safety budget for this turn has been reached. Tools are disabled until next user input. '' @
       ''Respond with text only.'',
      [],
      ''STRICT REQUIREMENTS:'',
      ''1. Do NOT make any tool calls.'',
      ''2. Summarize concrete progress and evidence gathered so far.'',
      ''3. List only genuinely unfinished work or blockers.'',
      ''4. Do not claim unverified work is complete.'',
      [],
      ''Respond with text ONLY.'']"

definition soft_budget_prompt :: string where
  "soft_budget_prompt =
     join [newline]
     [''TOOL PROGRESS NOTICE'',
      [],
      ''Tool activity is consuming the no-progress safety window. Reassess whether the requested outcome is '' @
       ''already complete. Prioritize required implementation and verification, avoid status polling or '' @
       ''optional exploration, and change strategy if current calls are not producing new evidence or state.'']"

definition no_progress_prompt :: string where
  "no_progress_prompt =
     join [newline]
     [''CRITICAL - TOOL LOOP DETECTED'',
      [],
      ''Repeated tool calls produced the same result or retryable failure without making progress. Tools '' @
       ''are disabled until next user input. Respond with text only.'',
      [],
      ''STRICT REQUIREMENTS:'',
      ''1. Do NOT repeat the same tool call or make any other tool calls.'',
      ''2. Summarize what was learned from the existing tool results.'',
      ''3. Explain any blocker or missing capability that prevented progress.'',
      ''4. Provide the best final answer possible from the information already gathered.'',
      [],
      ''Respond with text ONLY.'']"

definition safety_budget_fallback :: string where
  "safety_budget_fallback =
     ''I stopped tool execution after the runtime safety budget was reached. The last tool request was not '' @
       ''executed. I preserved the completed work and evidence from earlier rounds.''"

definition no_progress_fallback :: string where
  "no_progress_fallback =
     ''I stopped a repeated tool loop because the same call kept producing the same result or failure '' @
       ''without progress. The last tool request was not executed.''"

definition round_messages :: "turn_config \<Rightarrow> message list \<Rightarrow> string list \<Rightarrow> tool_definition list \<Rightarrow> dispatch_reason \<Rightarrow>
    bool \<Rightarrow> message list" where
  "round_messages cfg history extras tools reason warn =
     (let note = (\<lambda>t. [plain_message RoleSystem t]);
          image = latest_user_image history;
          body = history @
            (if reason = DisabledNoProgress then note no_progress_prompt
             else if reason = DisabledSafetyBudget then note safety_budget_prompt else []) @
            (if warn then note soft_budget_prompt else []) in
      if tc_managed cfg then plain_message RoleSystem (tc_prompt cfg tools extras image) # body
      else if image then plain_message RoleSystem (tc_image_note cfg) # body
      else body)"

definition budget_failure :: "budget_error \<Rightarrow> loop_error" where
  "budget_failure e = (if e = CannotEstimate then ErrCompaction else ErrContextBudget)"

text \<open>The request after what prepares it from outside, with its images, and the options of the round.\<close>

definition prepared_request :: "'w turn_world \<Rightarrow> turn_config \<Rightarrow> grounding \<Rightarrow> dispatch_state \<Rightarrow> model_request \<Rightarrow> 'w \<Rightarrow>
    'w \<times> (loop_error, model_request) result" where
  "prepared_request W cfg g d r0 w0 =
     (case tw_prepare W r0 w0 of
        (w, None) \<Rightarrow> (w, Inl ErrPrepare)
      | (w, Some r1) \<Rightarrow>
          let sees = list_ex has_image (rq_messages r1);
              choice = (if grounding_pending g \<and> dispatch_enabled d \<and> rq_tools r0 \<noteq> [] \<and>
                tc_profile cfg \<noteq> None \<and> tc_choice cfg then ChoiceRequired else rq_choice r1) in
          if sees \<and> \<not> tc_vision cfg then (w, Inl ErrUnsupportedCapability)
          else case (if sees then tc_images cfg (rq_messages r1) else Some (rq_messages r1)) of
              None \<Rightarrow> (w, Inl ErrImages)
            | Some ms \<Rightarrow>
                (w, Inr (r1\<lparr>rq_messages := ms, rq_choice := choice,
                   rq_effort := (case tc_effort cfg of None \<Rightarrow> EffortDefault | Some e \<Rightarrow> e)\<rparr>)))"

text \<open>Compaction, validation and the check of the budget, by the profile of the model if it has one.\<close>

definition no_compaction_policy :: compaction_policy where
  "no_compaction_policy = \<lparr>cp_soft = 0, cp_medium = 0, cp_aggressive = 0, cp_emergency = 0, cp_target = 0, cp_recent = 0\<rparr>"

definition bounded_request :: "'w turn_world \<Rightarrow> turn_config \<Rightarrow> model_request \<Rightarrow> 'w \<Rightarrow> 'w \<times> (loop_error, model_request) result" where
  "bounded_request W cfg r w =
     (case (case tc_profile cfg of None \<Rightarrow> (tc_limits cfg, no_compaction_policy, default_vision) | Some p \<Rightarrow> p) of
        (limits, compaction, vision) \<Rightarrow>
          let vp = effective_vision vision in
          case compact_request (tc_decoder cfg) (tw_ids W w) 0 (tc_budget cfg) vp (tc_limits cfg)
              (effective_compaction limits compaction) r of
            None \<Rightarrow> (w, Inl ErrCompaction)
          | Some (k, r', stage) \<Rightarrow>
              (tw_take W k w,
               case model_request_validate (tc_base64 cfg) (tc_json cfg) r' of
                 Some e \<Rightarrow> Inl (ErrRequest e)
               | None \<Rightarrow>
                   (case validate_budget (tc_budget cfg) vp (tc_limits cfg) r' of
                      Some e \<Rightarrow> Inl (budget_failure e)
                    | None \<Rightarrow> Inr r')))"

definition finish_request :: "'w turn_world \<Rightarrow> turn_config \<Rightarrow> grounding \<Rightarrow> dispatch_state \<Rightarrow> model_request \<Rightarrow> 'w \<Rightarrow>
    'w \<times> (loop_error, model_request) result" where
  "finish_request W cfg g d r w =
     (case prepared_request W cfg g d r w of
        (w1, Inl e) \<Rightarrow> (w1, Inl e)
      | (w1, Inr r1) \<Rightarrow> bounded_request W cfg r1 w1)"

text \<open>
  \<open>prepareRoundRequest\<close>: the world, whether the model has been warned about stagnation, and the
  request with the dispatch state.
\<close>

definition prepare_round :: "'w turn_world \<Rightarrow> turn_config \<Rightarrow> message list \<Rightarrow> string list \<Rightarrow> grounding \<Rightarrow> safety_budget \<Rightarrow>
    bool \<Rightarrow> bool \<Rightarrow> bool \<Rightarrow> 'w \<Rightarrow> 'w \<times> bool \<times> (loop_error, model_request \<times> dispatch_state) result" where
  "prepare_round W cfg history extras g b no_progress safety warned w =
     (case choose_tools cfg (tw_definitions W w) g b no_progress safety of
        (tools, d) \<Rightarrow>
          let warn = should_warn b warned \<and> dispatch_enabled d;
              r = \<lparr>rq_messages = round_messages cfg history extras tools (ds_reason d) warn,
                   rq_tools = map (published cfg) tools, rq_max_output = 0, rq_choice = ChoiceAuto,
                   rq_effort = EffortDefault\<rparr> in
          case register_names cfg Map.empty tools of
            Inl e \<Rightarrow> (w, warned \<or> warn, Inl e)
          | Inr m \<Rightarrow>
              let d' = d\<lparr>ds_canonical := m, ds_names := def_name ` set tools\<rparr> in
              (case finish_request W cfg g d' r w of
                 (w', Inl e) \<Rightarrow> (w', warned \<or> warn, Inl e)
               | (w', Inr r') \<Rightarrow> (w', warned \<or> warn, Inr (r', d'))))"

end
