(* ===== verification/Turn_Round.thy ===== *)
theory Turn_Round
  imports Turn_Request
begin

text \<open>
  One round of a turn: \<open>internal/engine/turn/round_execution.go\<close> (\<open>runRound\<close>), \<open>tool_execution.go\<close>
  and \<open>round_result.go\<close>. The response of the model is read, its calls are translated, those the
  progress guard has seen fail or stall are answered without running, the others run one after
  the other or concurrently, and every result is cut to the budget and reported. The calls of a
  concurrent round, which only read, are taken to run one at a time, in an order of the world.
\<close>

subsection \<open>Running calls\<close>

definition executed :: "tool_call \<Rightarrow> tool_result \<Rightarrow> bool \<Rightarrow> executed_call" where
  "executed c r err = \<lparr>ex_call = c, ex_result = r, ex_error = err, ex_suppressed = False, ex_reason = NotSuppressed,
     ex_repeat = 0, ex_retryable = False\<rparr>"

definition canceled_call :: "tool_call \<Rightarrow> error_code \<Rightarrow> executed_call" where
  "canceled_call c code = executed c (failed_result c False (plain_failure code)) True"

definition execute_one :: "'w turn_world \<Rightarrow> tool_call \<Rightarrow> 'w \<Rightarrow> 'w \<times> executed_call" where
  "execute_one W c w =
     (case tw_call W c w of
        (w', r, None) \<Rightarrow> (w', executed c r False)
      | (w', r, Some f) \<Rightarrow>
          (w', executed c (if res_failure r = None then r\<lparr>res_failure := Some f\<rparr> else r) True))"

definition can_run_concurrently :: "'w turn_world \<Rightarrow> turn_config \<Rightarrow> tool_call list \<Rightarrow> 'w \<Rightarrow> bool" where
  "can_run_concurrently W cfg calls w \<longleftrightarrow>
     2 \<le> length calls \<and> 2 \<le> tc_parallel cfg \<and> tw_always W w \<and>
     list_all (\<lambda>c. case by_name (tw_definitions W w) (call_name c) of
         None \<Rightarrow> False
       | Some d \<Rightarrow> effective_mutability d = MutabilityReadOnly) calls"

text \<open>Numbered calls; with \<open>checks\<close> a call is not run once the context of the round is done.\<close>

fun run_jobs :: "'w turn_world \<Rightarrow> bool \<Rightarrow> (nat \<times> tool_call) list \<Rightarrow> 'w \<Rightarrow> 'w \<times> (nat \<times> executed_call) list" where
  "run_jobs W checks [] w = (w, [])"
| "run_jobs W checks ((i, c) # jobs) w =
     (case (case (if checks then tw_err W RoundScope w else None) of
              Some code \<Rightarrow> (w, canceled_call c code) | None \<Rightarrow> execute_one W c w) of
        (w1, x) \<Rightarrow> (case run_jobs W checks jobs w1 of (w2, xs) \<Rightarrow> (w2, (i, x) # xs)))"

definition numbered :: "tool_call list \<Rightarrow> (nat \<times> tool_call) list" where
  "numbered calls = zip [0..<length calls] calls"

text \<open>The jobs the workers took, in their order, and the ones that were left.\<close>

definition taken_jobs :: "nat list \<Rightarrow> (nat \<times> tool_call) list \<Rightarrow> (nat \<times> tool_call) list" where
  "taken_jobs order jobs = List.map_filter (\<lambda>i. map_option (\<lambda>c. (i, c)) (map_of jobs i)) (remdups order)"

definition left_jobs :: "nat list \<Rightarrow> (nat \<times> tool_call) list \<Rightarrow> (nat \<times> tool_call) list" where
  "left_jobs order jobs = filter (\<lambda>(i, c). i \<notin> set order) jobs"

definition execute_concurrent :: "'w turn_world \<Rightarrow> tool_call list \<Rightarrow> 'w \<Rightarrow> 'w \<times> executed_call list" where
  "execute_concurrent W calls w =
     (let order = tw_order W calls w; jobs = numbered calls in
      case run_jobs W False (taken_jobs order jobs) w of
        (w1, xs) \<Rightarrow>
          (case run_jobs W True (left_jobs order jobs) w1 of
             (w2, ys) \<Rightarrow>
               (w2, map (\<lambda>(i, c). case map_of (xs @ ys) i of Some x \<Rightarrow> x | None \<Rightarrow> executed c empty_result False) jobs)))"

definition execute_calls :: "'w turn_world \<Rightarrow> turn_config \<Rightarrow> tool_call list \<Rightarrow> 'w \<Rightarrow> 'w \<times> executed_call list" where
  "execute_calls W cfg calls w =
     (if can_run_concurrently W cfg calls w then execute_concurrent W calls w
      else case run_jobs W True (numbered calls) w of (w', xs) \<Rightarrow> (w', map snd xs))"

subsection \<open>Calls the progress guard answers\<close>

definition observe_suppression :: "'w turn_world \<Rightarrow> int \<Rightarrow> executed_call \<Rightarrow> 'w \<Rightarrow> 'w" where
  "observe_suppression W n x w =
     (let w1 = tw_observe W CallSuppressed n w in
      case ex_reason x of
        PermissionRetry \<Rightarrow> tw_observe W PermissionSuppressed n w1
      | RetryBudgetExhausted \<Rightarrow> tw_observe W RetryBudgetSuppressed n w1
      | _ \<Rightarrow> w1)"

text \<open>Each call with its answer, if it has one; nothing where arguments do not parse.\<close>

fun plan_calls :: "'w turn_world \<Rightarrow> turn_env \<Rightarrow> progress_guard \<Rightarrow> int \<Rightarrow> tool_call list \<Rightarrow> 'w \<Rightarrow>
    'w \<times> (tool_call \<times> executed_call option) list option" where
  "plan_calls W env g n [] w = (w, Some [])"
| "plan_calls W env g n (c # cs) w =
     (case suppress env g c of
        None \<Rightarrow> (w, None)
      | Some None \<Rightarrow> (case plan_calls W env g n cs w of (w', ps) \<Rightarrow> (w', map_option ((#) (c, None)) ps))
      | Some (Some x) \<Rightarrow>
          (case plan_calls W env g n cs (observe_suppression W n x w) of
             (w', ps) \<Rightarrow> (w', map_option ((#) (c, Some x)) ps)))"

definition pending_calls :: "(tool_call \<times> executed_call option) list \<Rightarrow> tool_call list" where
  "pending_calls ps = map fst (filter (\<lambda>p. snd p = None) ps)"

text \<open>The answers and the results of the other calls, in the order of the calls.\<close>

fun fill_calls :: "(tool_call \<times> executed_call option) list \<Rightarrow> executed_call list \<Rightarrow> executed_call list" where
  "fill_calls [] xs = []"
| "fill_calls ((c, Some x) # ps) xs = x # fill_calls ps xs"
| "fill_calls ((c, None) # ps) (x # xs) = x # fill_calls ps xs"
| "fill_calls ((c, None) # ps) [] = executed c empty_result False # fill_calls ps []"

subsection \<open>The round\<close>

fun duplicate_id :: "string list \<Rightarrow> model_call list \<Rightarrow> string option" where
  "duplicate_id seen [] = None"
| "duplicate_id seen (c # cs) = (if mc_id c \<in> set seen then Some (mc_id c) else duplicate_id (mc_id c # seen) cs)"

text \<open>The calls, reported one by one, and the name the model used for each id.\<close>

fun translate_calls :: "'w turn_world \<Rightarrow> turn_config \<Rightarrow> int \<Rightarrow> dispatch_state \<Rightarrow> model_call list \<Rightarrow>
    (string \<rightharpoonup> string) \<Rightarrow> 'w round_state \<Rightarrow> 'w round_state \<times> (loop_error, tool_call list \<times> (string \<rightharpoonup> string)) result" where
  "translate_calls W cfg n d [] names rs = (rs, Inr ([], names))"
| "translate_calls W cfg n d (m # ms) names rs =
     (case new_call (tc_json cfg) (mc_id m) (canonical_tool_name d (mc_name m)) (mc_arguments m) of
        Inl e \<Rightarrow> (rs, Inl (ErrTranslate e))
      | Inr c \<Rightarrow>
          (case round_emit W RoundScope (EvCall n c) rs of
             (rs1, Some e) \<Rightarrow> (rs1, Inl e)
           | (rs1, None) \<Rightarrow>
               (case translate_calls W cfg n d ms (names(call_id c \<mapsto> mc_name m)) rs1 of
                  (rs2, Inl e) \<Rightarrow> (rs2, Inl e)
                | (rs2, Inr (cs, names')) \<Rightarrow> (rs2, Inr (c # cs, names')))))"

fun emit_results :: "'w turn_world \<Rightarrow> scope \<Rightarrow> int \<Rightarrow> executed_call list \<Rightarrow> 'w round_state \<Rightarrow>
    'w round_state \<times> loop_error option" where
  "emit_results W sc n [] rs = (rs, None)"
| "emit_results W sc n (x # xs) rs =
     (case round_emit W sc (EvResult n x) rs of
        (rs', Some e) \<Rightarrow> (rs', Some e)
      | (rs', None) \<Rightarrow> emit_results W sc n xs rs')"

record round_outcome =
  oc_assistant :: message
  oc_executions :: "executed_call list"
  oc_dispatch :: dispatch_state
  oc_names :: "string \<rightharpoonup> string"

definition no_dispatch :: "message \<Rightarrow> dispatch_state \<Rightarrow> round_outcome" where
  "no_dispatch m d = \<lparr>oc_assistant = m, oc_executions = [], oc_dispatch = d, oc_names = Map.empty\<rparr>"

text \<open>From the translated calls to the reported results.\<close>

definition run_calls :: "'w turn_world \<Rightarrow> turn_config \<Rightarrow> int \<Rightarrow> progress_guard \<Rightarrow> result_budget \<Rightarrow> tool_call list \<Rightarrow>
    'w round_state \<Rightarrow> 'w round_state \<times> result_budget \<times> (loop_error, executed_call list) result" where
  "run_calls W cfg n g b calls rs =
     (case plan_calls W (tc_env cfg) g n calls (fst rs) of
        (w, None) \<Rightarrow> ((w, snd rs), b, Inl ErrArguments)
      | (w, Some planned) \<Rightarrow>
          (case execute_calls W cfg (pending_calls planned) w of
             (w1, results) \<Rightarrow>
               (case apply_round b (fill_calls planned results) of
                  (b', xs) \<Rightarrow>
                    (case tw_err W RoundScope w1 of
                       Some code \<Rightarrow>
                         (case emit_results W DetachedScope n xs (w1, snd rs) of
                            (rs', Some e) \<Rightarrow> (rs', b', Inl e)
                          | (rs', None) \<Rightarrow> (rs', b', Inl (ErrDone code)))
                     | None \<Rightarrow>
                         (case emit_results W RoundScope n xs (w1, snd rs) of
                            (rs', Some e) \<Rightarrow> (rs', b', Inl e)
                          | (rs', None) \<Rightarrow> (rs', b', Inr xs))))))"

definition run_round :: "'w turn_world \<Rightarrow> turn_config \<Rightarrow> int \<Rightarrow> model_request \<Rightarrow> dispatch_state \<Rightarrow> progress_guard \<Rightarrow>
    result_budget \<Rightarrow> 'w round_state \<Rightarrow> 'w round_state \<times> result_budget \<times> (loop_error, round_outcome) result" where
  "run_round W cfg n r d g b rs0 =
     (case stream_round W (tc_json cfg) n r rs0 of
        (rs, Inl e) \<Rightarrow> (rs, b, Inl e)
      | (rs, Inr m) \<Rightarrow>
          (case duplicate_id [] (msg_calls m) of
             Some i \<Rightarrow> (rs, b, Inl (ErrDuplicateToolCall i))
           | None \<Rightarrow>
               if msg_calls m = [] \<or> \<not> dispatch_enabled d then (rs, b, Inr (no_dispatch m d))
               else if 0 < ds_remaining d \<and> ds_remaining d < int (length (msg_calls m))
               then (rs, b, Inr (no_dispatch m
                 \<lparr>ds_reason = DisabledSafetyBudget, ds_remaining = 0, ds_canonical = Map.empty, ds_names = {}\<rparr>))
               else if rq_tools r = [] then (rs, b, Inl ErrNoPublishedTools)
               else case translate_calls W cfg n d (msg_calls m) Map.empty rs of
                   (rs1, Inl e) \<Rightarrow> (rs1, b, Inl e)
                 | (rs1, Inr (calls, names)) \<Rightarrow>
                     (case run_calls W cfg n g b calls rs1 of
                        (rs2, b', Inl e) \<Rightarrow> (rs2, b', Inl e)
                      | (rs2, b', Inr xs) \<Rightarrow>
                          (rs2, b', Inr \<lparr>oc_assistant = m, oc_executions = xs, oc_dispatch = d, oc_names = names\<rparr>))))"

subsection \<open>The messages of a round\<close>

text \<open>\<open>toolMessagesForExecutions\<close>; nothing where a result cannot be encoded.\<close>

definition tool_message :: "turn_config \<Rightarrow> (string \<rightharpoonup> string) \<Rightarrow> string \<Rightarrow> string \<Rightarrow> executed_call \<Rightarrow> message" where
  "tool_message cfg names i content x =
     (let c = ex_call x; r = ex_result x;
          name = (case names (call_id c) of Some m \<Rightarrow> if m = [] then call_name c else m | None \<Rightarrow> call_name c) in
      (plain_message RoleTool content)
        \<lparr>msg_id := i, msg_call_id := call_id c, msg_tool_name := name,
         msg_is_error := ex_error x \<or> res_denied r \<or> res_failure r \<noteq> None,
         msg_parts := (case tc_image cfg r of
             Some (mime, img) \<Rightarrow>
               if tc_sees_images cfg \<and> img \<noteq> []
               then [\<lparr>part_type = PartText, part_text = content, part_mime = [], part_data = []\<rparr>,
                     \<lparr>part_type = PartImage, part_text = [], part_mime = mime, part_data = img\<rparr>]
               else []
           | None \<Rightarrow> [])\<rparr>)"

fun tool_messages :: "'w turn_world \<Rightarrow> turn_config \<Rightarrow> (string \<rightharpoonup> string) \<Rightarrow> executed_call list \<Rightarrow> 'w \<Rightarrow>
    'w \<times> message list option" where
  "tool_messages W cfg names [] w = (w, Some [])"
| "tool_messages W cfg names (x # xs) w =
     (case tc_encode cfg (ex_result x) of
        None \<Rightarrow> (w, None)
      | Some content \<Rightarrow>
          (case tool_messages W cfg names xs (tw_take W 1 w) of
             (w', ms) \<Rightarrow> (w', map_option ((#) (tool_message cfg names (tw_ids W w 0) content x)) ms)))"

text \<open>\<open>finalizeDisabledToolCallResponse\<close>: the calls are taken off, and a notice is added and reported.\<close>

definition finalize_disabled :: "'w turn_world \<Rightarrow> int \<Rightarrow> message \<Rightarrow> string \<Rightarrow> 'w \<Rightarrow> 'w \<times> (loop_error, message) result" where
  "finalize_disabled W n m notice w =
     (let added = (if trim_space (msg_content m) \<noteq> [] then [newline, newline] @ notice else notice) in
      case emit W TurnScope (EvText n added) w of
        (w', Some e) \<Rightarrow> (w', Inl e)
      | (w', None) \<Rightarrow> (w', Inr (m\<lparr>msg_calls := [], msg_content := msg_content m @ added\<rparr>)))"

end
