(* ===== verification/Turn_Loop.thy ===== *)
theory Turn_Loop
  imports Turn_Round
begin

text \<open>
  The loop of a turn: \<open>Run\<close> of \<open>internal/engine/turn/loop.go\<close>, with \<open>failWithResult\<close> of
  \<open>loop_support.go\<close> and \<open>completionRuntimeContext\<close> of \<open>runtime_context.go\<close>. A round is one step on a
  record of the loop's variables; it ends the turn or leads to the next round. The loop runs on
  fuel, one unit a round. Logging, and which error a failure of the model or of the runtime
  context wraps, are not modelled.
\<close>

subsection \<open>Construction\<close>

text \<open>
  The options of \<open>loop_options.go\<close> that are limits, timeouts or requirements, and \<open>NewLoop\<close>. A
  configuration holds what comes from the model and from elsewhere; timeouts are in nanoseconds.
\<close>

datatype loop_option = WithMaxToolCalls int | WithMaxIdenticalResults int | WithTurnTimeout int | WithRoundTimeout int
  | WithToolTimeout int | WithRoundBytes int | WithTurnBytes int | WithMaxParallelReads int
  | WithGroundingEvidence evidence_kind | WithReasoningEffort reasoning_effort
  | WithExplicitReasoningEffort reasoning_effort | WithRuntimeContext

record loop_build =
  lb_config :: turn_config
  lb_turn_timeout :: int
  lb_round_timeout :: int
  lb_tool_timeout :: int
  lb_effort :: reasoning_effort
  lb_explicit :: bool

datatype build_error = StreamingRequired | NegativeOption | UnknownEvidence | UnknownReasoning | NoSafetyBound

definition set_config :: "(turn_config \<Rightarrow> turn_config) \<Rightarrow> loop_build \<Rightarrow> loop_build" where
  "set_config f b = b\<lparr>lb_config := f (lb_config b)\<rparr>"

definition apply_option :: "loop_option \<Rightarrow> loop_build \<Rightarrow> (build_error, loop_build) result" where
  "apply_option o1 b =
     (let at_least = (\<lambda>low n (b' :: loop_build). if n < (low :: int) then Inl NegativeOption else Inr b') in
      case o1 of
        WithMaxToolCalls n \<Rightarrow> at_least 0 n (set_config (\<lambda>c. c\<lparr>tc_max_calls := n\<rparr>) b)
      | WithMaxIdenticalResults n \<Rightarrow> at_least 0 n (set_config (\<lambda>c. c\<lparr>tc_identical := n\<rparr>) b)
      | WithTurnTimeout n \<Rightarrow> at_least 0 n (b\<lparr>lb_turn_timeout := n\<rparr>)
      | WithRoundTimeout n \<Rightarrow> at_least 0 n (b\<lparr>lb_round_timeout := n\<rparr>)
      | WithToolTimeout n \<Rightarrow> at_least 0 n (b\<lparr>lb_tool_timeout := n\<rparr>)
      | WithRoundBytes n \<Rightarrow> at_least 0 n (set_config (\<lambda>c. c\<lparr>tc_round_bytes := n\<rparr>) b)
      | WithTurnBytes n \<Rightarrow> at_least 0 n (set_config (\<lambda>c. c\<lparr>tc_turn_bytes := n\<rparr>) b)
      | WithMaxParallelReads n \<Rightarrow> at_least 1 n (set_config (\<lambda>c. c\<lparr>tc_parallel := n\<rparr>) b)
      | WithGroundingEvidence e \<Rightarrow>
          if e \<in> {EvidenceNone, EvidenceWorkspace, EvidenceExternal}
          then Inr (set_config (\<lambda>c. c\<lparr>tc_evidence := e\<rparr>) b) else Inl UnknownEvidence
      | WithReasoningEffort e \<Rightarrow> if valid_effort e then Inr (b\<lparr>lb_effort := e\<rparr>) else Inl UnknownReasoning
      | WithExplicitReasoningEffort e \<Rightarrow>
          if valid_effort e then Inr (b\<lparr>lb_effort := e, lb_explicit := True\<rparr>) else Inl UnknownReasoning
      | WithRuntimeContext \<Rightarrow> Inr (set_config (\<lambda>c. c\<lparr>tc_runtime := True\<rparr>) b))"

fun apply_options :: "loop_option list \<Rightarrow> loop_build \<Rightarrow> (build_error, loop_build) result" where
  "apply_options [] b = Inr b"
| "apply_options (o1 # os) b = (case apply_option o1 b of Inl e \<Rightarrow> Inl e | Inr b' \<Rightarrow> apply_options os b')"

definition new_loop :: "bool \<Rightarrow> turn_config \<Rightarrow> loop_option list \<Rightarrow> (build_error, loop_build) result" where
  "new_loop streaming base opts =
     (if \<not> streaming then Inl StreamingRequired
      else case apply_options opts
          \<lparr>lb_config = base\<lparr>tc_max_calls := 0, tc_stagnant := 24, tc_emergency := 512, tc_identical := 2, tc_parallel := 4,
             tc_round_bytes := 4 * 1024 * 1024, tc_turn_bytes := 12 * 1024 * 1024, tc_evidence := EvidenceNone,
             tc_runtime := False\<rparr>,
           lb_turn_timeout = 0, lb_round_timeout = 300000000000, lb_tool_timeout = 0,
           lb_effort = EffortDefault, lb_explicit = False\<rparr> of
        Inl e \<Rightarrow> Inl e
      | Inr b \<Rightarrow>
          let c = lb_config b in
          if tc_max_calls c = 0 \<and> lb_turn_timeout b = 0 \<and> tc_stagnant c = 0 \<and> tc_emergency c = 0
          then Inl NoSafetyBound else Inr b)"

subsection \<open>The state of the loop\<close>

definition hard_limit :: "turn_config \<Rightarrow> int" where
  "hard_limit cfg =
     (if 0 < tc_max_calls cfg \<and> (tc_emergency cfg = 0 \<or> tc_max_calls cfg < tc_emergency cfg)
      then tc_max_calls cfg else tc_emergency cfg)"

definition has_active_goal :: "turn_config \<Rightarrow> bool" where
  "has_active_goal cfg \<longleftrightarrow> tc_managed cfg \<and> trim_space (tc_goal cfg) \<noteq> []"

record loop_state =
  ls_history :: "message list"
  ls_turn :: "message list"
  ls_committed :: int
  ls_committed_verification :: verification_state
  ls_warned :: bool
  ls_budget :: safety_budget
  ls_progress :: progress_guard
  ls_results :: result_budget
  ls_verification :: verification_state
  ls_plan :: plan_progress
  ls_no_progress :: bool
  ls_safety :: bool
  ls_grounding :: grounding

record loop_result =
  lr_message :: "message option"
  lr_rounds :: int
  lr_verification :: verification_state
  lr_goal :: bool
  lr_replay_safe :: bool
  lr_messages :: "message list"

datatype round_end = NextRound loop_state | TurnEnd loop_result "loop_error option"

definition empty_turn :: loop_result where
  "empty_turn = \<lparr>lr_message = None, lr_rounds = 0, lr_verification = no_verification, lr_goal = False,
     lr_replay_safe = False, lr_messages = []\<rparr>"

definition turn_checkpoint :: "loop_state \<Rightarrow> loop_result" where
  "turn_checkpoint st = \<lparr>lr_message = None, lr_rounds = ls_committed st, lr_verification = ls_committed_verification st,
     lr_goal = False, lr_replay_safe = (ls_turn st \<noteq> []), lr_messages = ls_turn st\<rparr>"

text \<open>\<open>failWithResult\<close>: the error is reported, after cancellation too; an error of that is returned instead.\<close>

definition fail_turn :: "'w turn_world \<Rightarrow> int \<Rightarrow> loop_result \<Rightarrow> loop_error \<Rightarrow> 'w \<Rightarrow> 'w \<times> round_end" where
  "fail_turn W n res e w =
     (let w1 = (if e = ErrDone CodeDeadlineExceeded \<and> tw_err W TurnScope w = Some CodeDeadlineExceeded
            then tw_observe W TurnDeadline n w else w);
          sc = (if tw_err W TurnScope w1 = None then TurnScope else DetachedScope) in
      case emit W sc (EvFailed n e) w1 of
        (w2, Some e') \<Rightarrow> (w2, TurnEnd res (Some e'))
      | (w2, None) \<Rightarrow> (w2, TurnEnd res (Some e)))"

definition ensure_in :: "'w turn_world \<Rightarrow> message list \<Rightarrow> 'w \<Rightarrow> 'w \<times> message list" where
  "ensure_in W ms w = (case ensure_ids (tw_ids W w) 0 ms of (k, ms') \<Rightarrow> (tw_take W k w, ms'))"

text \<open>The runtime context that came in: it counts as progress.\<close>

definition take_context :: "message list \<Rightarrow> loop_state \<Rightarrow> loop_state" where
  "take_context ms st =
     (if ms = [] then st
      else st\<lparr>ls_progress := observe_external_progress (ls_progress st), ls_no_progress := False,
        ls_history := ls_history st @ ms\<rparr>)"

definition drain_context :: "'w turn_world \<Rightarrow> turn_config \<Rightarrow> loop_state \<Rightarrow> 'w \<Rightarrow> 'w \<times> loop_state option" where
  "drain_context W cfg st w =
     (if \<not> tc_runtime cfg then (w, Some st)
      else case tw_drain W w of
          (w1, None) \<Rightarrow> (w1, None)
        | (w1, Some ms) \<Rightarrow> (case ensure_in W ms w1 of (w2, ms') \<Rightarrow> (w2, Some (take_context ms' st))))"

text \<open>\<open>completionRuntimeContext\<close>: the messages, and whether the final answer is put off.\<close>

definition completion_context :: "'w turn_world \<Rightarrow> turn_config \<Rightarrow> 'w \<Rightarrow> 'w \<times> (message list \<times> bool) option" where
  "completion_context W cfg w =
     (if \<not> tc_runtime cfg then (w, Some ([], False))
      else case tw_drain W w of
          (w1, None) \<Rightarrow> (w1, None)
        | (w1, Some ms) \<Rightarrow>
            if ms \<noteq> [] then (case ensure_in W ms w1 of (w2, ms') \<Rightarrow> (w2, Some (ms', True)))
            else if \<not> tw_pending W w1 then (w1, Some ([], False))
            else case tw_await W w1 of
                (w2, None) \<Rightarrow> (w2, None)
              | (w2, Some ms) \<Rightarrow>
                  if ms \<noteq> [] then (case ensure_in W ms w2 of (w3, ms') \<Rightarrow> (w3, Some (ms', True)))
                  else (w2, Some ([], tw_pending W w2)))"

subsection \<open>After the response\<close>

text \<open>Calls that were not dispatched: a notice in their place, or an error.\<close>

definition resolve_disabled :: "'w turn_world \<Rightarrow> int \<Rightarrow> round_outcome \<Rightarrow> 'w \<Rightarrow> 'w \<times> (loop_error, message \<times> bool) result" where
  "resolve_disabled W n oc w =
     (let m = oc_assistant oc;
          notice = (\<lambda>s. case finalize_disabled W n m s w of
              (w', Inl e) \<Rightarrow> (w', Inl e) | (w', Inr m') \<Rightarrow> (w', Inr (m', True))) in
      if msg_calls m \<noteq> [] \<and> \<not> dispatch_enabled (oc_dispatch oc) then
        (case ds_reason (oc_dispatch oc) of
           DisabledSafetyBudget \<Rightarrow> notice safety_budget_fallback
         | DisabledNoProgress \<Rightarrow> notice no_progress_fallback
         | DisabledNoTools \<Rightarrow> (w, Inl ErrToolDispatchUnavailable)
         | DisabledModelTools \<Rightarrow> (w, Inl ErrUnsupportedCapability)
         | DispatchEnabled \<Rightarrow> (w, Inr (m, False)))
      else if msg_calls m \<noteq> [] \<and> oc_executions oc = [] then (w, Inl ErrUnresolvedToolCall)
      else (w, Inr (m, False)))"

definition decimal :: "int \<Rightarrow> string" where
  "decimal i = (if i < 0 then CHR ''-'' # digits_of (nat (- i)) else digits_of (nat i))"

definition goal_progress_prompt :: "plan_progress \<Rightarrow> verification_state \<Rightarrow> string" where
  "goal_progress_prompt p v =
     (if plan_incomplete p then
        ''ACTIVE GOAL PROGRESS'' @ [newline] @ ''The tracked task plan is not complete: '' @ decimal (pp_pending p) @
        '' pending, '' @ decimal (pp_in_progress p) @ '' in progress, '' @ decimal (pp_completed p) @ '' completed of '' @
        decimal (pp_total p) @ ''. Continue concrete work instead of finalizing the active goal.''
      else if plan_complete p \<and> vs_mutated v \<and> \<not> vs_verified v then
        ''ACTIVE GOAL VERIFICATION REQUIRED'' @ [newline] @
        ''The tracked task plan is complete, but successful workspace mutations have not been empirically '' @
        ''verified after the latest mutation. Run an appropriate verifier before finalizing the active goal.''
      else [])"

definition commit :: "int \<Rightarrow> message list \<Rightarrow> loop_state \<Rightarrow> loop_state" where
  "commit n ms st = st\<lparr>ls_history := ls_history st @ ms, ls_turn := ls_turn st @ ms, ls_committed := n,
     ls_committed_verification := ls_verification st\<rparr>"

text \<open>The three ways on: an answer without the evidence asked for, a final answer, results of calls.\<close>

definition commit_miss :: "'w turn_world \<Rightarrow> int \<Rightarrow> message \<Rightarrow> loop_state \<Rightarrow> 'w round_state \<Rightarrow> 'w \<times> round_end" where
  "commit_miss W n m st rs =
     (case flush W rs of
        (w, Some e) \<Rightarrow> fail_turn W n (turn_checkpoint st) e w
      | (w, None) \<Rightarrow>
          let st1 = commit n [m] st in
          (case record_miss (ls_grounding st1) of
             (g, missed) \<Rightarrow>
               if missed then fail_turn W n (turn_checkpoint st1) ErrGroundingUnavailable w
               else (w, NextRound (st1\<lparr>ls_grounding := g\<rparr>))))"

definition finish_answer :: "'w turn_world \<Rightarrow> turn_config \<Rightarrow> int \<Rightarrow> message \<Rightarrow> loop_state \<Rightarrow> 'w round_state \<Rightarrow>
    'w \<times> round_end" where
  "finish_answer W cfg n m st rs =
     (case completion_context W cfg (fst rs) of
        (w, None) \<Rightarrow> fail_turn W n (turn_checkpoint st) ErrRuntimeContext w
      | (w, Some (ms, True)) \<Rightarrow> (w, NextRound (take_context ms st))
      | (w, Some (ms, False)) \<Rightarrow>
          (case flush W (w, snd rs) of
             (w1, Some e) \<Rightarrow> fail_turn W n (turn_checkpoint st) e w1
           | (w1, None) \<Rightarrow>
               let res = \<lparr>lr_message = Some m, lr_rounds = n, lr_verification = ls_verification st,
                     lr_goal = has_active_goal cfg \<and> goal_completed (tc_goal cfg) (ls_plan st) (ls_verification st),
                     lr_replay_safe = True, lr_messages = ls_turn st @ [m]\<rparr> in
               (case emit W TurnScope (EvCompleted n m) w1 of (w2, err) \<Rightarrow> (w2, TurnEnd res err))))"

definition commit_calls :: "'w turn_world \<Rightarrow> turn_config \<Rightarrow> int \<Rightarrow> message \<Rightarrow> round_outcome \<Rightarrow> loop_state \<Rightarrow>
    'w round_state \<Rightarrow> 'w \<times> round_end" where
  "commit_calls W cfg n m oc st rs =
     (case flush W rs of
        (w, Some e) \<Rightarrow> fail_turn W n (turn_checkpoint st) e w
      | (w, None) \<Rightarrow>
          (case tool_messages W cfg (oc_names oc) (oc_executions oc) w of
             (w1, None) \<Rightarrow> fail_turn W n (turn_checkpoint st) ErrEncoding w1
           | (w1, Some tools) \<Rightarrow>
               let st1 = commit n (m # tools) st;
                   p = (if has_active_goal cfg then goal_progress_prompt (ls_plan st) (ls_verification st) else []) in
               (w1, NextRound (if p = [] then st1
                  else st1\<lparr>ls_history := ls_history st1 @ [plain_message RoleSystem p]\<rparr>))))"

text \<open>What the guards make of a round; nothing where the progress guard fails.\<close>

definition observe_state :: "'w turn_world \<Rightarrow> turn_config \<Rightarrow> tool_definition list \<Rightarrow> int \<Rightarrow> executed_call list \<Rightarrow>
    loop_state \<Rightarrow> 'w \<Rightarrow> 'w \<times> (loop_error, loop_state) result" where
  "observe_state W cfg ds n xs st w =
     (let (b, progressed) = observe_budget (tc_env cfg) (by_name ds) (ls_budget st) xs;
          g = fst (observe_grounding (tc_env cfg) ds (ls_grounding st) xs);
          st1 = st\<lparr>ls_budget := b, ls_grounding := g, ls_warned := (ls_warned st \<and> \<not> progressed)\<rparr> in
      if exhausted b \<and> grounding_pending g then (w, Inl ErrGroundingUnavailable)
      else let w1 = (if exhausted b then tw_observe W (SafetyBudgetProtection (budget_reason b)) n w else w) in
        case observe_round (tc_env cfg) (ls_progress st) xs of
          (p, None) \<Rightarrow> (w1, Inl ErrObserve)
        | (p, Some stalled) \<Rightarrow>
            ((if stalled then tw_observe W NoProgressSynthesis (n + 1) (tw_observe W LoopDetected n w1) else w1),
             Inr (st1\<lparr>ls_safety := (ls_safety st \<or> exhausted b), ls_progress := p,
               ls_verification := observe_verification (tc_env cfg) ds (ls_verification st) xs,
               ls_plan := observe_plan (tc_plan cfg) (ls_plan st) xs,
               ls_no_progress := (if stalled then \<not> grounding_pending g else ls_no_progress st)\<rparr>)))"

definition settle_round :: "'w turn_world \<Rightarrow> turn_config \<Rightarrow> tool_definition list \<Rightarrow> int \<Rightarrow> round_outcome \<Rightarrow> loop_state \<Rightarrow>
    'w round_state \<Rightarrow> 'w \<times> round_end" where
  "settle_round W cfg ds n oc st rs =
     (case resolve_disabled W n oc (fst rs) of
        (w, Inl e) \<Rightarrow> fail_turn W n (turn_checkpoint st) e w
      | (w, Inr (m, fallback)) \<Rightarrow>
          (case observe_state W cfg ds n (oc_executions oc) st w of
             (w1, Inl e) \<Rightarrow> fail_turn W n (turn_checkpoint st) e w1
           | (w1, Inr st1) \<Rightarrow>
               if oc_executions oc \<noteq> [] then commit_calls W cfg n m oc st1 (w1, snd rs)
               else if grounding_pending (ls_grounding st1) \<and> \<not> fallback then commit_miss W n m st1 (w1, snd rs)
               else finish_answer W cfg n m st1 (w1, snd rs)))"

subsection \<open>Rounds and turns\<close>

definition start_round :: "'w turn_world \<Rightarrow> turn_config \<Rightarrow> string list \<Rightarrow> loop_state \<Rightarrow> 'w \<Rightarrow>
    'w \<times> bool \<times> (loop_error, model_request \<times> dispatch_state) result" where
  "start_round W cfg extras st w =
     prepare_round W cfg (ls_history st) extras (ls_grounding st) (ls_budget st) (ls_no_progress st) (ls_safety st)
       (ls_warned st) w"

definition loop_step :: "'w turn_world \<Rightarrow> turn_config \<Rightarrow> tool_definition list \<Rightarrow> string list \<Rightarrow> int \<Rightarrow> loop_state \<Rightarrow> 'w \<Rightarrow>
    'w \<times> round_end" where
  "loop_step W cfg ds extras n st0 w0 =
     (case drain_context W cfg st0 w0 of
        (w, None) \<Rightarrow> fail_turn W n (turn_checkpoint st0) ErrRuntimeContext w
      | (w, Some st) \<Rightarrow>
          (case start_round W cfg extras st w of
             (w1, warned, Inl e) \<Rightarrow> fail_turn W n (turn_checkpoint st) e w1
           | (w1, warned, Inr (r, d)) \<Rightarrow>
               let buf = (if tc_runtime cfg \<and> tw_active W w1 then Some [] else None) in
               (case run_round W cfg n r d (ls_progress st) (ls_results st) (w1, buf) of
                  (rs, b, Inl e) \<Rightarrow>
                    (case flush W rs of
                       (w2, Some e') \<Rightarrow> fail_turn W n (turn_checkpoint st) e' w2
                     | (w2, None) \<Rightarrow> fail_turn W n (turn_checkpoint st) e w2)
                | (rs, b, Inr oc) \<Rightarrow> settle_round W cfg ds n oc (st\<lparr>ls_warned := warned, ls_results := b\<rparr>) rs)))"

primrec run_rounds :: "'w turn_world \<Rightarrow> turn_config \<Rightarrow> tool_definition list \<Rightarrow> string list \<Rightarrow> nat \<Rightarrow> int \<Rightarrow> loop_state \<Rightarrow>
    'w \<Rightarrow> 'w \<times> (loop_result \<times> loop_error option) option" where
  "run_rounds W cfg ds extras 0 n st w = (w, None)"
| "run_rounds W cfg ds extras (Suc fuel) n st w =
     (case loop_step W cfg ds extras n st w of
        (w', TurnEnd res err) \<Rightarrow> (w', Some (res, err))
      | (w', NextRound st') \<Rightarrow> run_rounds W cfg ds extras fuel (n + 1) st' w')"

text \<open>The plan of an active goal is read once, before the first round.\<close>

definition initial_plan :: "'w turn_world \<Rightarrow> turn_config \<Rightarrow> 'w \<Rightarrow> 'w \<times> plan_progress" where
  "initial_plan W cfg w =
     (let none = \<lparr>pp_observed = False, pp_total = 0, pp_pending = 0, pp_in_progress = 0, pp_completed = 0\<rparr> in
      if \<not> has_active_goal cfg then (w, none)
      else case new_call (tc_json cfg) ''init:todo-get'' ''todo'' (''{'' @ [quote] @ ''action'' @ [quote, CHR '':'', quote] @
            ''get'' @ [quote] @ ''}'') of
          Inl e \<Rightarrow> (w, none)
        | Inr c \<Rightarrow>
            (case tw_call W c w of
               (w', r, err) \<Rightarrow>
                 (w', if err = None \<and> res_failure r = None \<and> \<not> res_denied r \<and> res_structured r \<noteq> []
                      then observe_snapshot (tc_plan cfg (res_structured r)) none else none)))"

definition initial_state :: "turn_config \<Rightarrow> tool_definition list \<Rightarrow> message list \<Rightarrow> plan_progress \<Rightarrow> loop_state" where
  "initial_state cfg ds history plan =
     \<lparr>ls_history = history, ls_turn = [], ls_committed = 0, ls_committed_verification = no_verification,
      ls_warned = False, ls_budget = new_safety_budget (tc_stagnant cfg) (hard_limit cfg),
      ls_progress = new_progress_guard ds (tc_identical cfg),
      ls_results = new_result_budget (tc_round_bytes cfg) (tc_turn_bytes cfg),
      ls_verification = no_verification, ls_plan = plan, ls_no_progress = False, ls_safety = False,
      ls_grounding = new_grounding (tc_evidence cfg)\<rparr>"

definition end_of :: "'w \<times> round_end \<Rightarrow> 'w \<times> (loop_result \<times> loop_error option) option" where
  "end_of x = (case x of (w, TurnEnd res err) \<Rightarrow> (w, Some (res, err)) | (w, NextRound st) \<Rightarrow> (w, None))"

definition turn_body :: "'w turn_world \<Rightarrow> turn_config \<Rightarrow> nat \<Rightarrow> message list \<Rightarrow> 'w \<Rightarrow>
    'w \<times> (loop_result \<times> loop_error option) option" where
  "turn_body W cfg fuel messages w0 =
     (if \<not> tc_vision cfg \<and> list_ex has_image messages
      then end_of (fail_turn W 0 empty_turn ErrUnsupportedCapability w0)
      else case ensure_in W messages w0 of
        (w, history0) \<Rightarrow>
          (case prepare_input cfg history0 of
             (history, extras) \<Rightarrow>
               let ds = tw_definitions W w in
               (case initial_plan W cfg w of
                  (w1, plan) \<Rightarrow>
                    let st = initial_state cfg ds history plan; g = ls_grounding st in
                    if grounding_pending g \<and> \<not> tc_tools cfg
                    then end_of (fail_turn W 0 empty_turn ErrUnsupportedCapability w1)
                    else if grounding_pending g \<and> filter_definitions g ds = []
                    then end_of (fail_turn W 0 empty_turn ErrGroundingUnavailable w1)
                    else if tc_effort cfg = None
                    then end_of (fail_turn W 0 empty_turn ErrUnsupportedCapability w1)
                    else run_rounds W cfg ds extras fuel 1 st w1)))"

text \<open>\<open>Run\<close>. Nothing is returned where the fuel is used up.\<close>

definition run_turn :: "'w turn_world \<Rightarrow> turn_config \<Rightarrow> nat \<Rightarrow> message list \<Rightarrow> 'w \<Rightarrow>
    'w \<times> (loop_result \<times> loop_error option) option" where
  "run_turn W cfg fuel messages w =
     (case tw_err W TurnScope w of
        Some code \<Rightarrow> (w, Some (empty_turn, Some (ErrDone code)))
      | None \<Rightarrow>
          (case turn_body W cfg fuel messages w of
             (w', out) \<Rightarrow> (if tc_runtime cfg then tw_finalize W w' else w', out)))"

subsection \<open>A scripted world\<close>

text \<open>A model that gives the replies of a list, tools that answer \<open>ok\<close>, a log of events and calls.\<close>

record script =
  sc_replies :: "stream_item list list"
  sc_events :: "turn_event list"
  sc_calls :: "tool_call list"

definition scripted :: "bool \<Rightarrow> script turn_world" where
  "scripted active =
     \<lparr>tw_err = (\<lambda>sc s. None),
      tw_sink = (\<lambda>e s. (s\<lparr>sc_events := sc_events s @ [e]\<rparr>, True)),
      tw_stream = (\<lambda>r s. case sc_replies s of [] \<Rightarrow> (s, OpenRefused) | x # xs \<Rightarrow> (s\<lparr>sc_replies := xs\<rparr>, Opened x)),
      tw_call = (\<lambda>c s. (s\<lparr>sc_calls := sc_calls s @ [c]\<rparr>, empty_result\<lparr>res_output := ''ok''\<rparr>, None)),
      tw_definitions = (\<lambda>s. [(sample_tool_named ''read'' KindRead)\<lparr>def_evidence := EvidenceWorkspace\<rparr>,
        sample_tool_named ''edit'' KindEdit]),
      tw_always = (\<lambda>s. False), tw_observe = (\<lambda>p n s. s), tw_order = (\<lambda>cs s. []),
      tw_ids = (\<lambda>s k. ''msg_0''), tw_take = (\<lambda>k s. s), tw_drain = (\<lambda>s. (s, Some [])), tw_await = (\<lambda>s. (s, Some [])),
      tw_active = (\<lambda>s. active), tw_pending = (\<lambda>s. False), tw_finalize = (\<lambda>s. s), tw_prepare = (\<lambda>r s. (s, Some r))\<rparr>"

definition play :: "stream_event list list \<Rightarrow> script" where
  "play replies = \<lparr>sc_replies = map (map StreamItem) replies, sc_events = [], sc_calls = []\<rparr>"

definition ask :: "string \<Rightarrow> string \<Rightarrow> stream_event" where
  "ask i n = ToolCallWhole \<lparr>mc_id = i, mc_name = n, mc_arguments = []\<rparr>"

abbreviation stop :: stream_event where
  "stop \<equiv> StreamFinish ''stop''"

definition sample_cfg :: turn_config where
  "sample_cfg =
     \<lparr>tc_max_calls = 1, tc_stagnant = 24, tc_emergency = 512, tc_identical = 3, tc_parallel = 4, tc_round_bytes = 0,
      tc_turn_bytes = 0, tc_evidence = EvidenceNone, tc_managed = False, tc_goal = [], tc_prompt = (\<lambda>ds xs b. []),
      tc_skills = [], tc_image_note = [], tc_tools = True, tc_vision = False, tc_profile = None, tc_choice = False,
      tc_sees_images = False, tc_effort = Some EffortDefault,
      tc_limits = \<lparr>tl_context = 0, tl_input = 0, tl_output = 0\<rparr>, tc_runtime = False, tc_json = (\<lambda>s. True),
      tc_base64 = (\<lambda>s. True), tc_digest = (\<lambda>s. []), tc_images = Some, tc_encode = (\<lambda>r. Some (res_output r)),
      tc_image = (\<lambda>r. None), tc_env = sample_te, tc_plan = (\<lambda>s. PlanUnreadable), tc_budget = sample_be,
      tc_decoder = no_decoder\<rparr>"

end
