(* ===== verification/Turn_Trace.thy ===== *)
theory Turn_Trace
  imports Turn_Loop
begin

text \<open>
  What a turn does to the world, counted in calls of tools. The locale \<open>turn_trace\<close> states what a
  relation on worlds, with a number of calls, needs; a turn then stays within the relation, with
  as many calls as its hard limit allows. It is used on a world that counts the calls, here, and
  on the tool call service itself, in \<open>Turn_Service\<close>. The end of the loop is shown here too.
\<close>

subsection \<open>Lemmas: sizes\<close>

lemma length_numbered [simp]: "length (numbered calls) = length calls"
  by (simp add: numbered_def)

lemma map_fst_numbered [simp]: "map fst (numbered calls) = [0..<length calls]"
  by (simp add: numbered_def)

lemma length_run_jobs [simp]: "length (snd (run_jobs W checks jobs w)) = length jobs"
  by (induction W checks jobs w rule: run_jobs.induct) (auto split: prod.splits)

lemma fst_taken_jobs: "map fst (taken_jobs order jobs) = filter (\<lambda>i. map_of jobs i \<noteq> None) (remdups order)"
proof -
  have "map fst (List.map_filter (\<lambda>i. map_option (\<lambda>c. (i, c)) (map_of jobs i)) xs) =
      filter (\<lambda>i. map_of jobs i \<noteq> None) xs" for xs
    by (induction xs) (auto simp: List.map_filter_simps split: option.splits)
  then show ?thesis by (simp add: taken_jobs_def)
qed

text \<open>No call runs twice in a concurrent round.\<close>

lemma jobs_once: "length (taken_jobs order (numbered calls)) + length (left_jobs order (numbered calls)) \<le> length calls"
proof -
  let ?t = "map fst (taken_jobs order (numbered calls))" and ?l = "map fst (left_jobs order (numbered calls))"
  have l: "?l = filter (\<lambda>i. i \<notin> set order) [0..<length calls]"
    unfolding left_jobs_def map_fst_numbered [symmetric] filter_map by (simp add: o_def case_prod_unfold)
  have "set ?t \<subseteq> {..<length calls}"
    unfolding fst_taken_jobs by (auto simp: map_of_eq_None_iff numbered_def dest: set_zip_leftD)
  with l have "set (?t @ ?l) \<subseteq> {..<length calls}" by auto
  moreover have "distinct (?t @ ?l)" using l by (auto simp: fst_taken_jobs)
  ultimately have "length (?t @ ?l) \<le> length calls"
    using card_mono [of "{..<length calls}" "set (?t @ ?l)"] distinct_card [of "?t @ ?l"] by simp
  then show ?thesis by simp
qed

lemma length_execute_calls [simp]: "length (snd (execute_calls W cfg calls w)) = length calls"
  by (auto simp: execute_calls_def execute_concurrent_def Let_def split: prod.splits
      dest!: arg_cong [where f = snd and y = "(_, _)"] intro: length_run_jobs [of W True "numbered calls" w, simplified])

lemma length_plan_calls: "plan_calls W env g n cs w = (w', Some ps) \<Longrightarrow> map fst ps = cs"
  by (induction W env g n cs w arbitrary: w' ps rule: plan_calls.induct) (auto split: option.splits prod.splits)

lemma length_fill_calls [simp]: "length (fill_calls ps xs) = length ps"
  by (induction ps xs rule: fill_calls.induct) auto

lemma length_apply_calls: "apply_calls b used xs = (b', ys) \<Longrightarrow> length ys = length xs"
  by (induction b used xs arbitrary: b' ys rule: apply_calls.induct) (auto split: prod.splits)

lemma length_pending_calls: "length (pending_calls ps) \<le> length ps"
  by (simp add: pending_calls_def)

lemma length_translate_calls:
  "translate_calls W cfg n d ms names rs = (rs', Inr (cs, names')) \<Longrightarrow> length cs = length ms"
  by (induction W cfg n d ms names rs arbitrary: rs' cs names' rule: translate_calls.induct)
    (auto split: sum.splits prod.splits option.splits)

lemma run_calls_length: "run_calls W cfg n g b calls rs = (rs', b', Inr xs) \<Longrightarrow> length xs = length calls"
  by (auto simp: run_calls_def apply_round_def split: option.splits prod.splits
      dest!: length_plan_calls length_apply_calls)

subsection \<open>Lemmas: the budget in the loop\<close>

text \<open>The budget, with the limit \<open>h\<close>.\<close>

definition budget_in :: "int \<Rightarrow> safety_budget \<Rightarrow> bool" where
  "budget_in h b \<longleftrightarrow> 0 < h \<and> sb_emergency b = h \<and> 0 \<le> sb_total b \<and> sb_total b \<le> h"

lemma choose_tools_enabled:
  "choose_tools cfg ds g b np sf = (tools, d) \<Longrightarrow> dispatch_enabled d \<Longrightarrow>
   \<not> np \<and> \<not> sf \<and> \<not> exhausted b \<and> ds_remaining d = remaining_hard_limit b"
  by (auto simp: choose_tools_def Let_def dispatch_enabled_def split: if_splits)

lemma prepare_round_dispatch:
  assumes "prepare_round W cfg hs extras g b np sf wd w = (w', wd', Inr (r, d))"
  shows "\<exists>tools d0. choose_tools cfg (tw_definitions W w) g b np sf = (tools, d0) \<and> ds_reason d = ds_reason d0 \<and>
    ds_remaining d = ds_remaining d0"
  using assms by (auto simp: prepare_round_def Let_def split: prod.splits sum.splits)

lemma dispatch_remaining:
  assumes "prepare_round W cfg hs extras g b np sf wd w = (w', wd', Inr (r, d))" "dispatch_enabled d" "budget_in h b"
  shows "ds_remaining d = h - sb_total b \<and> 0 < ds_remaining d \<and> \<not> np \<and> \<not> sf"
proof -
  from prepare_round_dispatch [OF assms(1)] obtain tools d0 where
    d: "choose_tools cfg (tw_definitions W w) g b np sf = (tools, d0)" "ds_reason d = ds_reason d0"
    "ds_remaining d = ds_remaining d0" by blast
  with assms(2) have "dispatch_enabled d0" by (simp add: dispatch_enabled_def)
  with choose_tools_enabled [OF d(1)] d(3) assms(3) show ?thesis
    by (auto simp: budget_in_def exhausted_def remaining_hard_limit_def)
qed

lemma observe_budget_total:
  "sb_total (fst (observe_budget env defs b xs)) = sb_total b + int (length xs)"
  "sb_emergency (fst (observe_budget env defs b xs)) = sb_emergency b"
  by (auto simp: observe_budget_def Let_def)

lemma observe_state_budget:
  "observe_state W cfg ds n xs st w = (w', Inr st') \<Longrightarrow>
   ls_budget st' = fst (observe_budget (tc_env cfg) (by_name ds) (ls_budget st) xs)"
  by (auto simp: observe_state_def Let_def split: prod.splits if_splits option.splits)

lemma take_context_budget [simp]: "ls_budget (take_context ms st) = ls_budget st"
  by (simp add: take_context_def)

lemma drain_context_budget: "drain_context W cfg st w = (w', Some st') \<Longrightarrow> ls_budget st' = ls_budget st"
  by (auto simp: drain_context_def split: if_splits prod.splits option.splits)

lemma fail_turn_ends: "fail_turn W n res e w \<noteq> (w', NextRound st)"
  by (auto simp: fail_turn_def Let_def split: prod.splits option.splits)

lemma fail_turn_end: "fail_turn W n res e w = (w', x) \<Longrightarrow> \<exists>err. x = TurnEnd res (Some err)"
  by (auto simp: fail_turn_def Let_def split: prod.splits option.splits)

lemma fst_end_of [simp]: "fst (end_of x) = fst x"
  by (auto simp: end_of_def split: prod.splits round_end.splits)

lemma settle_round_budget:
  assumes "settle_round W cfg ds n oc st rs = (w', NextRound st')"
  shows "ls_budget st' = fst (observe_budget (tc_env cfg) (by_name ds) (ls_budget st) (oc_executions oc))"
proof -
  from assms obtain w m fb w1 st1 where r: "resolve_disabled W n oc (fst rs) = (w, Inr (m, fb))"
    "observe_state W cfg ds n (oc_executions oc) st w = (w1, Inr st1)"
    by (auto simp: settle_round_def fail_turn_ends split: prod.splits sum.splits)
  from assms r have "ls_budget st' = ls_budget st1"
    by (auto simp: settle_round_def commit_calls_def commit_miss_def finish_answer_def commit_def Let_def fail_turn_ends
        split: prod.splits option.splits if_splits bool.splits)
  with observe_state_budget [OF r(2)] show ?thesis by simp
qed

subsection \<open>A relation on worlds that a turn respects\<close>

locale turn_trace =
  fixes W :: "'w turn_world" and R :: "nat \<Rightarrow> 'w \<Rightarrow> 'w \<Rightarrow> bool"
  assumes none: "R 0 w w"
    and compose: "R m w w' \<Longrightarrow> R n w' w'' \<Longrightarrow> R (m + n) w w''"
    and weaken: "R m w w' \<Longrightarrow> m \<le> n \<Longrightarrow> R n w w'"
    and sink: "R 0 w (fst (tw_sink W e w))"
    and stream: "R 0 w (fst (tw_stream W r w))"
    and tool: "R 1 w (fst (tw_call W c w))"
    and observe: "R 0 w (tw_observe W p i w)"
    and take_ids: "R 0 w (tw_take W k w)"
    and drain: "R 0 w (fst (tw_drain W w))"
    and await: "R 0 w (fst (tw_await W w))"
    and finalize: "R 0 w (tw_finalize W w)"
    and prepare: "R 0 w (fst (tw_prepare W r w))"
begin

lemma silent_left: "R 0 w w' \<Longrightarrow> R n w' w'' \<Longrightarrow> R n w w''"
  using compose [of 0] by simp

lemma silent_right: "R n w w' \<Longrightarrow> R 0 w' w'' \<Longrightarrow> R n w w''"
  using compose [of n _ _ 0] by simp

lemma silent_chain: "R 0 w w1 \<Longrightarrow> R 0 w1 w2 \<Longrightarrow> R n w2 w' \<Longrightarrow> R n w w'"
  by (blast intro: silent_left)

lemma observes:
  "R 0 w (tw_observe W p i w)" "R 0 w (tw_observe W p i (tw_observe W q j w))"
  "R 0 w (tw_observe W p i (tw_observe W q j (tw_observe W r k w)))"
  by (blast intro: silent_left observe)+

text \<open>Each operation by the pair it returns.\<close>

lemma pair:
  "tw_sink W e w = (w1, b) \<Longrightarrow> R 0 w w1"
  "tw_stream W r w = (w1, s) \<Longrightarrow> R 0 w w1"
  "tw_call W c w = (w1, x) \<Longrightarrow> R 1 w w1"
  "tw_drain W w = (w1, o1) \<Longrightarrow> R 0 w w1"
  "tw_await W w = (w1, o1) \<Longrightarrow> R 0 w w1"
  "tw_prepare W r w = (w1, o2) \<Longrightarrow> R 0 w w1"
  by (metis fst_conv sink stream tool drain await prepare)+

lemma emit_silent: "emit W sc e w = (w', x) \<Longrightarrow> R 0 w w'"
  by (auto simp: emit_def none split: option.splits prod.splits dest: pair)

lemma round_emit_silent: "round_emit W sc e rs = (rs', x) \<Longrightarrow> R 0 (fst rs) (fst rs')"
  by (cases "(W, sc, e, rs)" rule: round_emit.cases)
    (auto simp: none split: option.splits prod.splits dest: emit_silent)

lemma flush_events_silent: "flush_events W es w = (w', x) \<Longrightarrow> R 0 w w'"
  by (induction es arbitrary: w)
    (auto simp: none split: option.splits prod.splits dest!: emit_silent intro: silent_left)

lemma flush_silent: "flush W rs = (w', x) \<Longrightarrow> R 0 (fst rs) w'"
  by (auto simp: flush_def none split: option.splits dest: flush_events_silent)

lemma consume_stream_silent:
  "consume_stream W json n items t r calls rs = (rs', x) \<Longrightarrow> R 0 (fst rs) (fst rs')"
proof (induction items arbitrary: t r calls rs)
  case (Cons item items)
  show ?case
  proof (cases item)
    case (StreamItem e)
    with Cons show ?thesis
      by (cases e) (auto simp: none fresh_id_def take_ids split: option.splits prod.splits if_splits
          dest!: round_emit_silent intro: silent_left)
  qed (use Cons in \<open>simp add: none\<close>)
qed (simp add: none)

lemma stream_round_silent: "stream_round W json n r rs = (rs', x) \<Longrightarrow> R 0 (fst rs) (fst rs')"
  by (auto simp: stream_round_def split: prod.splits stream_open.splits
      dest!: pair(2) consume_stream_silent intro: silent_left)

lemma translate_calls_silent:
  "translate_calls W cfg n d ms names rs = (rs', x) \<Longrightarrow> R 0 (fst rs) (fst rs')"
  by (induction ms arbitrary: names rs rs' x)
    (auto simp: none split: sum.splits prod.splits option.splits dest!: round_emit_silent, (blast intro: silent_left)+)

lemma emit_results_silent: "emit_results W sc n xs rs = (rs', x) \<Longrightarrow> R 0 (fst rs) (fst rs')"
  by (induction xs arbitrary: rs)
    (auto simp: none split: prod.splits option.splits dest!: round_emit_silent intro: silent_left)

lemma observe_suppression_silent: "R 0 w (observe_suppression W n x w)"
  by (auto simp: observe_suppression_def Let_def split: suppression.splits intro: silent_left observe)

lemma plan_calls_silent: "plan_calls W env g n cs w = (w', x) \<Longrightarrow> R 0 w w'"
  by (induction cs arbitrary: w w' x)
    (auto simp: none split: option.splits prod.splits, (blast intro: silent_left observe_suppression_silent)+)

lemma execute_one_counts: "execute_one W c w = (w', x) \<Longrightarrow> R 1 w w'"
  by (auto simp: execute_one_def split: prod.splits option.splits dest: pair)

lemma run_jobs_counts: "run_jobs W checks jobs w = (w', xs) \<Longrightarrow> R (length jobs) w w'"
proof (induction jobs arbitrary: w w' xs)
  case (Cons j jobs)
  obtain i c where j: "j = (i, c)" by fastforce
  obtain w1 x where x: "(case (if checks then tw_err W RoundScope w else None) of
      Some code \<Rightarrow> (w, canceled_call c code) | None \<Rightarrow> execute_one W c w) = (w1, x)" by fastforce
  then have "R 1 w w1"
    by (auto split: option.splits intro: weaken none execute_one_counts)
  moreover from Cons(2) j x obtain ys where "run_jobs W checks jobs w1 = (w', ys)"
    by (auto split: prod.splits)
  then have "R (length jobs) w1 w'" by (rule Cons(1))
  ultimately show ?case using compose [of 1] by fastforce
qed (simp add: none)

lemma execute_calls_counts: "execute_calls W cfg calls w = (w', xs) \<Longrightarrow> R (length calls) w w'"
proof (cases "can_run_concurrently W cfg calls w")
  case True
  let ?o = "tw_order W calls w"
  assume "execute_calls W cfg calls w = (w', xs)"
  with True obtain w1 xs1 xs2 where
    "run_jobs W False (taken_jobs ?o (numbered calls)) w = (w1, xs1)"
    "run_jobs W True (left_jobs ?o (numbered calls)) w1 = (w', xs2)"
    by (auto simp: execute_calls_def execute_concurrent_def Let_def split: prod.splits)
  then have "R (length (taken_jobs ?o (numbered calls)) + length (left_jobs ?o (numbered calls))) w w'"
    by (blast intro: compose run_jobs_counts)
  then show ?thesis using jobs_once by (rule weaken)
next
  case False
  assume "execute_calls W cfg calls w = (w', xs)"
  with False show ?thesis
    using run_jobs_counts [of True "numbered calls" w w'] by (auto simp: execute_calls_def split: prod.splits)
qed

lemma run_calls_counts:
  assumes "run_calls W cfg n g b calls rs = (rs', b', x)"
  shows "R (length calls) (fst rs) (fst rs')"
proof -
  obtain w planned where p: "plan_calls W (tc_env cfg) g n calls (fst rs) = (w, planned)" by fastforce
  note s = plan_calls_silent [OF p]
  show ?thesis
  proof (cases planned)
    case None
    with assms p s show ?thesis by (auto simp: run_calls_def intro: weaken)
  next
    case (Some ps)
    obtain w1 results where e: "execute_calls W cfg (pending_calls ps) w = (w1, results)" by fastforce
    have "length (pending_calls ps) \<le> length calls"
      using length_plan_calls [OF p [unfolded Some]] length_pending_calls [of ps] by (metis length_map)
    with execute_calls_counts [OF e] have "R (length calls) w w1" by (rule weaken)
    with s have c: "R (length calls) (fst rs) w1" by (rule silent_left)
    from assms p Some e have "R 0 w1 (fst rs')"
      by (auto simp: run_calls_def split: prod.splits option.splits dest!: emit_results_silent)
    with c show ?thesis by (rule silent_right)
  qed
qed

text \<open>A round makes as many calls as it reports; one that fails makes none where nothing is dispatched.\<close>

lemma run_round_counts:
  assumes "run_round W cfg n r d g b rs0 = (rs, b', x)"
  shows "case x of
      Inr oc \<Rightarrow> R (length (oc_executions oc)) (fst rs0) (fst rs) \<and> (oc_executions oc \<noteq> [] \<longrightarrow> dispatch_enabled d) \<and>
        (0 < ds_remaining d \<longrightarrow> int (length (oc_executions oc)) \<le> ds_remaining d)
    | Inl e \<Rightarrow>
        if dispatch_enabled d then 0 < ds_remaining d \<longrightarrow> R (nat (ds_remaining d)) (fst rs0) (fst rs)
        else R 0 (fst rs0) (fst rs)"
proof -
  obtain rs1 y where s: "stream_round W (tc_json cfg) n r rs0 = (rs1, y)" by fastforce
  note quiet = stream_round_silent [OF s]
  show ?thesis
  proof (cases "\<exists>m. y = Inr m \<and> duplicate_id [] (msg_calls m) = None \<and> msg_calls m \<noteq> [] \<and> dispatch_enabled d \<and>
      \<not> (0 < ds_remaining d \<and> ds_remaining d < int (length (msg_calls m))) \<and> rq_tools r \<noteq> []")
    case False
    with assms s quiet show ?thesis
      by (auto simp: run_round_def no_dispatch_def split: sum.splits option.splits if_splits intro: weaken)
  next
    case True
    then obtain m where m: "y = Inr m" "duplicate_id [] (msg_calls m) = None" "msg_calls m \<noteq> []" "dispatch_enabled d"
      "\<not> (0 < ds_remaining d \<and> ds_remaining d < int (length (msg_calls m)))" "rq_tools r \<noteq> []"
      by blast
    obtain rs2 z where t: "translate_calls W cfg n d (msg_calls m) Map.empty rs1 = (rs2, z)" by fastforce
    from silent_left [OF quiet translate_calls_silent [OF t]] have q: "R 0 (fst rs0) (fst rs2)" .
    show ?thesis
    proof (cases z)
      case (Inl e)
      with assms s m t q show ?thesis by (auto simp: run_round_def intro: weaken)
    next
      case (Inr c)
      obtain calls names where c: "c = (calls, names)" by fastforce
      obtain rs3 b3 v where v: "run_calls W cfg n g b calls rs2 = (rs3, b3, v)" by (metis prod_cases3)
      have l: "length calls = length (msg_calls m)"
        using t Inr c by (auto dest: length_translate_calls)
      with silent_left [OF q run_calls_counts [OF v]] have k: "R (length (msg_calls m)) (fst rs0) (fst rs3)" by simp
      have "rs = rs3" using assms s m t Inr c v by (auto simp: run_round_def split: sum.splits)
      show ?thesis
      proof (cases v)
        case (Inl e)
        with assms s m t Inr c v have "x = Inl e" by (auto simp: run_round_def)
        with m(4,5) k \<open>rs = rs3\<close> show ?thesis by (auto intro: weaken)
      next
        case ok: (Inr xs)
        with assms s m t Inr c v have "\<exists>oc. x = Inr oc \<and> oc_executions oc = xs" by (auto simp: run_round_def)
        moreover have "length xs = length (msg_calls m)"
          using v ok l by (auto dest: run_calls_length)
        ultimately show ?thesis using k m(4,5) \<open>rs = rs3\<close> by auto
      qed
    qed
  qed
qed

lemma tool_messages_silent: "tool_messages W cfg names xs w = (w', x) \<Longrightarrow> R 0 w w'"
  by (induction xs arbitrary: w w' x)
    (auto simp: none split: option.splits prod.splits, (blast intro: silent_left take_ids)+)

lemma finalize_disabled_silent: "finalize_disabled W n m s w = (w', x) \<Longrightarrow> R 0 w w'"
  by (auto simp: finalize_disabled_def Let_def split: prod.splits option.splits dest: emit_silent)

lemma fail_turn_silent: "fail_turn W n res e w = (w', x) \<Longrightarrow> R 0 w w'"
  by (auto simp: fail_turn_def Let_def split: prod.splits option.splits if_splits
      dest!: emit_silent intro: silent_left observe)

lemma ensure_in_silent: "ensure_in W ms w = (w', x) \<Longrightarrow> R 0 w w'"
  by (auto simp: ensure_in_def take_ids split: prod.splits)

lemma drain_context_silent: "drain_context W cfg st w = (w', x) \<Longrightarrow> R 0 w w'"
  by (auto simp: drain_context_def none split: if_splits prod.splits option.splits
      dest!: pair(4) ensure_in_silent intro: silent_left)

lemma completion_context_silent: "completion_context W cfg w = (w', x) \<Longrightarrow> R 0 w w'"
  by (auto simp: completion_context_def none split: if_splits prod.splits option.splits
      dest!: pair(4,5) ensure_in_silent intro: silent_left)

lemma resolve_disabled_silent: "resolve_disabled W n oc w = (w', x) \<Longrightarrow> R 0 w w'"
  by (auto simp: resolve_disabled_def Let_def none split: if_splits prod.splits sum.splits dispatch_reason.splits
      dest: finalize_disabled_silent)

lemma observe_state_silent: "observe_state W cfg ds n xs st w = (w', x) \<Longrightarrow> R 0 w w'"
  by (auto simp: observe_state_def Let_def none split: if_splits prod.splits option.splits
      intro: observes)

lemma commit_miss_silent: "commit_miss W n m st rs = (w', x) \<Longrightarrow> R 0 (fst rs) w'"
  by (auto simp: commit_miss_def Let_def split: if_splits prod.splits option.splits
      dest!: flush_silent fail_turn_silent intro: silent_left)

lemma finish_answer_silent: "finish_answer W cfg n m st rs = (w', x) \<Longrightarrow> R 0 (fst rs) w'"
  by (auto simp: finish_answer_def Let_def split: if_splits prod.splits option.splits bool.splits
      dest!: completion_context_silent flush_silent fail_turn_silent emit_silent intro: silent_left silent_chain)

lemma commit_calls_silent: "commit_calls W cfg n m oc st rs = (w', x) \<Longrightarrow> R 0 (fst rs) w'"
  by (auto simp: commit_calls_def Let_def split: if_splits prod.splits option.splits
      dest!: tool_messages_silent flush_silent fail_turn_silent intro: silent_left)

lemma settle_round_silent: "settle_round W cfg ds n oc st rs = (w', x) \<Longrightarrow> R 0 (fst rs) w'"
  by (auto simp: settle_round_def split: if_splits prod.splits sum.splits
      dest!: resolve_disabled_silent observe_state_silent fail_turn_silent commit_calls_silent commit_miss_silent
        finish_answer_silent intro: silent_left)

lemma prepared_request_silent: "prepared_request W cfg g d r w = (w', x) \<Longrightarrow> R 0 w w'"
  by (auto simp: prepared_request_def Let_def split: if_splits prod.splits option.splits dest: pair(6))

lemma bounded_request_silent: "bounded_request W cfg r w = (w', x) \<Longrightarrow> R 0 w w'"
  by (auto simp: bounded_request_def Let_def none take_ids split: prod.splits option.splits)

lemma finish_request_silent: "finish_request W cfg g d r w = (w', x) \<Longrightarrow> R 0 w w'"
  by (auto simp: finish_request_def split: prod.splits sum.splits
      dest!: prepared_request_silent bounded_request_silent intro: silent_left)

lemma prepare_round_silent: "prepare_round W cfg hs extras g b np sf wd w = (w', x) \<Longrightarrow> R 0 w w'"
  by (auto simp: prepare_round_def Let_def none split: if_splits prod.splits sum.splits dest: finish_request_silent)

text \<open>A step makes the calls it adds to the budget; the last one stays within what was left of it.\<close>

lemma loop_step_counts:
  assumes "loop_step W cfg ds extras n st w = (w', e)" "budget_in h (ls_budget st)"
  shows "case e of
      NextRound st' \<Rightarrow> budget_in h (ls_budget st') \<and> sb_total (ls_budget st) \<le> sb_total (ls_budget st') \<and>
        R (nat (sb_total (ls_budget st') - sb_total (ls_budget st))) w w'
    | TurnEnd res err \<Rightarrow> R (nat (h - sb_total (ls_budget st))) w w'"
proof -
  let ?b = "ls_budget st"
  have whole: "R (nat (h - sb_total ?b)) a b" if "R 0 a b" for a b
    using that by (rule weaken) simp
  obtain w1 o1 where d: "drain_context W cfg st w = (w1, o1)" by fastforce
  note q1 = drain_context_silent [OF d]
  show ?thesis
  proof (cases o1)
    case None
    with assms(1) d have "fail_turn W n (turn_checkpoint st) ErrRuntimeContext w1 = (w', e)" by (simp add: loop_step_def)
    from silent_left [OF q1 fail_turn_silent [OF this]] whole fail_turn_end [OF this] show ?thesis by auto
  next
    case (Some st1)
    with d have b1: "ls_budget st1 = ?b" by (auto dest: drain_context_budget)
    obtain w2 warned x where p: "start_round W cfg extras st1 w1 = (w2, warned, x)" by (metis prod_cases3)
    with q1 have q2: "R 0 w w2" unfolding start_round_def by (blast intro: silent_left prepare_round_silent)
    show ?thesis
    proof (cases x)
      case (Inl e1)
      with assms(1) d Some p have "fail_turn W n (turn_checkpoint st1) e1 w2 = (w', e)" by (simp add: loop_step_def)
      from silent_left [OF q2 fail_turn_silent [OF this]] whole fail_turn_end [OF this] show ?thesis by auto
    next
      case (Inr y)
      obtain r dd where y: "y = (r, dd)" by fastforce
      define buf where "buf = (if tc_runtime cfg \<and> tw_active W w2 then Some [] else (None :: turn_event list option))"
      obtain rs b' z where z: "run_round W cfg n r dd (ls_progress st1) (ls_results st1) (w2, buf) = (rs, b', z)"
        by (metis prod_cases3)
      note c = run_round_counts [OF z]
      have rem: "ds_remaining dd = h - sb_total ?b \<and> 0 < ds_remaining dd" if "dispatch_enabled dd"
        using dispatch_remaining [OF p [unfolded start_round_def Inr y] that, of h] assms(2) b1 by simp
      show ?thesis
      proof (cases z)
        case (Inl e1)
        with c rem have k: "R (nat (h - sb_total ?b)) w2 (fst rs)"
          by (cases "dispatch_enabled dd") (auto intro: whole)
        from assms(1) d Some p Inr y z Inl obtain w3 o3 e3 where f: "flush W rs = (w3, o3)"
          "fail_turn W n (turn_checkpoint st1) e3 w3 = (w', e)"
          by (auto simp: loop_step_def buf_def [symmetric] split: prod.splits option.splits)
        from silent_left [OF q2 silent_right [OF silent_right [OF k flush_silent [OF f(1)]] fail_turn_silent [OF f(2)]]]
        show ?thesis using fail_turn_end [OF f(2)] by auto
      next
        case ok: (Inr oc)
        let ?k = "length (oc_executions oc)"
        from assms(1) d Some p Inr y z ok have s: "settle_round W cfg ds n oc (st1\<lparr>ls_warned := warned, ls_results := b'\<rparr>) rs = (w', e)"
          by (simp add: loop_step_def buf_def [symmetric])
        from c ok have "R ?k w2 (fst rs)" by simp
        with q2 have k: "R ?k w w'" using settle_round_silent [OF s] by (blast intro: silent_left silent_right)
        have le: "int ?k \<le> h - sb_total ?b"
          using c ok rem assms(2) by (cases "oc_executions oc = []") (auto simp: budget_in_def)
        show ?thesis
        proof (cases e)
          case (TurnEnd res err)
          with k le show ?thesis by (auto intro: weaken)
        next
          case (NextRound st')
          with s b1 have "ls_budget st' = fst (observe_budget (tc_env cfg) (by_name ds) ?b (oc_executions oc))"
            by (auto dest: settle_round_budget)
          with NextRound k le assms(2) show ?thesis
            by (auto simp: observe_budget_total budget_in_def)
        qed
      qed
    qed
  qed
qed

lemma run_rounds_counts:
  "run_rounds W cfg ds extras fuel n st w = (w', out) \<Longrightarrow> budget_in h (ls_budget st) \<Longrightarrow>
   R (nat (h - sb_total (ls_budget st))) w w'"
proof (induction fuel arbitrary: n st w)
  case (Suc fuel)
  obtain w1 e where s: "loop_step W cfg ds extras n st w = (w1, e)" by fastforce
  note c = loop_step_counts [OF s Suc(3)]
  show ?case
  proof (cases e)
    case (NextRound st')
    with Suc(1) [of "n + 1" st' w1] Suc(2) s c have "R (nat (h - sb_total (ls_budget st'))) w1 w'" by simp
    with c NextRound have "R (nat (sb_total (ls_budget st') - sb_total (ls_budget st)) +
        nat (h - sb_total (ls_budget st'))) w w'" by (auto intro: compose)
    with c NextRound show ?thesis by (auto simp: budget_in_def nat_add_distrib [symmetric])
  qed (use Suc(2) s c in simp)
qed (auto intro: weaken none)

lemma initial_plan_counts: "initial_plan W cfg w = (w', p) \<Longrightarrow> R (if has_active_goal cfg then 1 else 0) w w'"
  by (auto simp: initial_plan_def Let_def none split: if_splits sum.splits prod.splits intro: weaken none dest: pair)

text \<open>The whole turn: the calls its hard limit allows, and the one that reads the plan.\<close>

lemma run_turn_counts:
  assumes "run_turn W cfg fuel messages w = (w', out)" "0 < hard_limit cfg"
  shows "R (nat (hard_limit cfg) + (if has_active_goal cfg then 1 else 0)) w w'"
proof -
  let ?N = "nat (hard_limit cfg) + (if has_active_goal cfg then 1 else 0)"
  have all: "R ?N a b" if "R 0 a b" for a b
    using that by (rule weaken) simp
  have fails: "R 0 a (fst (fail_turn W 0 empty_turn e a))" for e a
    by (metis fail_turn_silent prod.collapse)
  have body: "R ?N w (fst (turn_body W cfg fuel messages w))"
  proof (cases "\<not> tc_vision cfg \<and> list_ex has_image messages")
    case True
    with all [OF fails] show ?thesis by (simp add: turn_body_def)
  next
    case False
    obtain w1 h0 where e: "ensure_in W messages w = (w1, h0)" by fastforce
    obtain history extras where i: "prepare_input cfg h0 = (history, extras)" by fastforce
    obtain w2 plan where p: "initial_plan W cfg w1 = (w2, plan)" by fastforce
    define st where "st = initial_state cfg (tw_definitions W w1) history plan"
    have b: "budget_in (hard_limit cfg) (ls_budget st)" "sb_total (ls_budget st) = 0"
      using assms(2) by (auto simp: st_def initial_state_def new_safety_budget_def budget_in_def)
    from silent_left [OF ensure_in_silent [OF e] initial_plan_counts [OF p]]
    have q: "R (if has_active_goal cfg then 1 else 0) w w2" .
    obtain w3 o3 where r: "run_rounds W cfg (tw_definitions W w1) extras fuel 1 st w2 = (w3, o3)" by fastforce
    from run_rounds_counts [OF r b(1)] b(2) have "R (nat (hard_limit cfg)) w2 w3" by simp
    from compose [OF q this] have k: "R ?N w w3" by (simp add: add.commute)
    have f: "R ?N w (fst (end_of (fail_turn W 0 empty_turn e1 w2)))" for e1
      using weaken [OF silent_right [OF q fails]] by simp
    from False have nv: "(\<not> tc_vision cfg \<and> list_ex has_image messages) = False" by simp
    from k f r show ?thesis
      unfolding turn_body_def nv if_False e prod.case i Let_def p st_def [symmetric] by (simp split: if_split)
  qed
  show ?thesis
    using assms(1) all [OF none [of w]] body silent_right [OF body finalize]
    by (auto simp: run_turn_def split: option.splits prod.splits)
qed

end

subsection \<open>A world that counts the calls\<close>

definition lift :: "('w \<Rightarrow> 'w \<times> 'a) \<Rightarrow> 'w \<times> nat \<Rightarrow> ('w \<times> nat) \<times> 'a" where
  "lift f x = (case f (fst x) of (w, a) \<Rightarrow> ((w, snd x), a))"

definition counted :: "'w turn_world \<Rightarrow> ('w \<times> nat) turn_world" where
  "counted W =
     \<lparr>tw_err = (\<lambda>sc x. tw_err W sc (fst x)), tw_sink = (\<lambda>e. lift (tw_sink W e)), tw_stream = (\<lambda>r. lift (tw_stream W r)),
      tw_call = (\<lambda>c x. case tw_call W c (fst x) of (w, a) \<Rightarrow> ((w, Suc (snd x)), a)),
      tw_definitions = (\<lambda>x. tw_definitions W (fst x)), tw_always = (\<lambda>x. tw_always W (fst x)),
      tw_observe = (\<lambda>p n x. (tw_observe W p n (fst x), snd x)), tw_order = (\<lambda>cs x. tw_order W cs (fst x)),
      tw_ids = (\<lambda>x. tw_ids W (fst x)), tw_take = (\<lambda>k x. (tw_take W k (fst x), snd x)),
      tw_drain = lift (tw_drain W), tw_await = lift (tw_await W), tw_active = (\<lambda>x. tw_active W (fst x)),
      tw_pending = (\<lambda>x. tw_pending W (fst x)), tw_finalize = (\<lambda>x. (tw_finalize W (fst x), snd x)),
      tw_prepare = (\<lambda>r. lift (tw_prepare W r))\<rparr>"

interpretation counting: turn_trace "counted W" "\<lambda>n x y. snd y \<le> snd x + n" for W
  by unfold_locales (auto simp: counted_def lift_def split: prod.splits)

text \<open>Any relation at all, for what does not depend on it.\<close>

interpretation anything: turn_trace W "\<lambda>n x y. True" for W
  by unfold_locales auto

subsection \<open>Lemmas: the end of the loop\<close>

text \<open>What is left to do: calls, and an answer without the evidence asked for.\<close>

definition rank :: "int \<Rightarrow> loop_state \<Rightarrow> nat" where
  "rank h st = nat (h - sb_total (ls_budget st)) +
     (if grounding_pending (ls_grounding st) then nat (1 - gr_misses (ls_grounding st)) else 0)"

lemma observe_grounding_cases:
  "fst (observe_grounding env ds g xs) = g \<or> \<not> grounding_pending (fst (observe_grounding env ds g xs))"
  by (auto simp: observe_grounding_def grounding_pending_def)

lemma observe_state_grounding:
  "observe_state W cfg ds n xs st w = (w', Inr st') \<Longrightarrow>
   ls_grounding st' = fst (observe_grounding (tc_env cfg) ds (ls_grounding st) xs)"
  by (auto simp: observe_state_def Let_def split: prod.splits if_splits option.splits)

lemma commit_calls_next:
  "commit_calls W cfg n m oc st rs = (w', NextRound st') \<Longrightarrow>
   ls_budget st' = ls_budget st \<and> ls_grounding st' = ls_grounding st"
  by (auto simp: commit_calls_def commit_def Let_def fail_turn_ends split: prod.splits option.splits if_splits)

lemma commit_miss_next:
  "commit_miss W n m st rs = (w', NextRound st') \<Longrightarrow> grounding_pending (ls_grounding st) \<Longrightarrow>
   ls_budget st' = ls_budget st \<and> gr_misses (ls_grounding st) \<le> 0 \<and>
   ls_grounding st' = (ls_grounding st)\<lparr>gr_misses := gr_misses (ls_grounding st) + 1\<rparr>"
  by (auto simp: commit_miss_def commit_def record_miss_def Let_def fail_turn_ends split: prod.splits option.splits if_splits)

lemma finish_answer_ends: "\<not> tc_runtime cfg \<Longrightarrow> finish_answer W cfg n m st rs \<noteq> (w', NextRound st')"
  by (auto simp: finish_answer_def completion_context_def Let_def fail_turn_ends split: prod.splits option.splits)

lemma settle_round_rank:
  assumes "settle_round W cfg ds n oc st rs = (w', NextRound st')" "\<not> tc_runtime cfg"
    and "sb_total (ls_budget st') \<le> h"
  shows "rank h st' < rank h st"
proof -
  let ?xs = "oc_executions oc" and ?g = "ls_grounding st"
  from assms(1) obtain w m fb w1 st1 where r: "resolve_disabled W n oc (fst rs) = (w, Inr (m, fb))"
    "observe_state W cfg ds n ?xs st w = (w1, Inr st1)"
    by (auto simp: settle_round_def fail_turn_ends split: prod.splits sum.splits)
  have b: "ls_budget st1 = fst (observe_budget (tc_env cfg) (by_name ds) (ls_budget st) ?xs)"
    using r(2) by (rule observe_state_budget)
  have g: "ls_grounding st1 = ?g \<or> \<not> grounding_pending (ls_grounding st1)"
    using observe_state_grounding [OF r(2)] observe_grounding_cases by metis
  show ?thesis
  proof (cases "?xs = []")
    case False
    with assms(1) r have "commit_calls W cfg n m oc st1 (w1, snd rs) = (w', NextRound st')"
      by (simp add: settle_round_def)
    then have n: "ls_budget st' = ls_budget st1" "ls_grounding st' = ls_grounding st1"
      by (auto dest: commit_calls_next)
    then have "sb_total (ls_budget st') = sb_total (ls_budget st) + int (length ?xs)" "0 < int (length ?xs)"
      using b False by (simp_all add: observe_budget_total)
    with assms(3) have "nat (h - sb_total (ls_budget st')) < nat (h - sb_total (ls_budget st))" by linarith
    with n(2) g show ?thesis by (auto simp: rank_def)
  next
    case True
    then have same: "ls_budget st1 = ls_budget st" "ls_grounding st1 = ?g"
      using b observe_state_grounding [OF r(2)] by (auto simp: observe_budget_def observe_grounding_def)
    have p: "grounding_pending ?g" "commit_miss W n m st1 (w1, snd rs) = (w', NextRound st')"
      using assms(1) r True same by (auto simp: settle_round_def finish_answer_ends [OF assms(2)] split: if_splits)
    from commit_miss_next [OF p(2)] p(1) same show ?thesis
      by (auto simp: rank_def grounding_pending_def)
  qed
qed

lemma loop_step_rank:
  assumes "loop_step W cfg ds extras n st w = (w', NextRound st')" "\<not> tc_runtime cfg" "budget_in h (ls_budget st)"
  shows "rank h st' < rank h st \<and> budget_in h (ls_budget st')"
proof -
  from anything.loop_step_counts [OF assms(1,3)] have b: "budget_in h (ls_budget st')" by simp
  from assms obtain w1 warned r d rs b' oc where s:
    "start_round W cfg extras st w = (w1, warned, Inr (r, d))"
    "settle_round W cfg ds n oc (st\<lparr>ls_warned := warned, ls_results := b'\<rparr>) rs = (w', NextRound st')"
    by (auto simp: loop_step_def drain_context_def fail_turn_ends split: prod.splits sum.splits option.splits)
  have "rank h (st\<lparr>ls_warned := warned, ls_results := b'\<rparr>) = rank h st" by (simp add: rank_def)
  with settle_round_rank [OF s(2) assms(2), of h] b show ?thesis by (simp add: budget_in_def)
qed

lemma run_rounds_returns:
  "\<not> tc_runtime cfg \<Longrightarrow> budget_in h (ls_budget st) \<Longrightarrow> rank h st < fuel \<Longrightarrow>
   \<exists>res err. snd (run_rounds W cfg ds extras fuel n st w) = Some (res, err)"
proof (induction fuel arbitrary: n st w)
  case (Suc fuel)
  obtain w' e where s: "loop_step W cfg ds extras n st w = (w', e)" by fastforce
  show ?case
  proof (cases e)
    case (NextRound st')
    with loop_step_rank [OF s [unfolded NextRound] Suc(2,3)] Suc(1) [OF Suc(2), of st'] Suc(4) s show ?thesis by simp
  qed (use s in simp)
qed simp

lemma end_of_fail [simp]: "snd (end_of (fail_turn W n res0 e w)) = None \<longleftrightarrow> False"
  by (cases "fail_turn W n res0 e w") (auto simp: end_of_def dest: fail_turn_end)

lemma turn_body_returns:
  assumes "\<not> tc_runtime cfg" "0 < hard_limit cfg" "nat (hard_limit cfg) + 2 \<le> fuel"
  shows "\<not> snd (turn_body W cfg fuel messages w) = None"
proof -
  have "snd (run_rounds W cfg ds extras fuel 1 (initial_state cfg ds h plan) a) = None \<longleftrightarrow> False" for ds extras h plan a
    using run_rounds_returns [OF assms(1), of "hard_limit cfg" "initial_state cfg ds h plan" fuel W ds extras 1 a] assms
    by (auto simp: initial_state_def new_safety_budget_def budget_in_def rank_def new_grounding_def)
  then show ?thesis
    by (simp add: turn_body_def Let_def del: not_None_eq split: prod.split)
qed

text \<open>A loop has a hard limit on calls, at most the emergency ceiling.\<close>

lemma apply_option_limits:
  "apply_option o1 b = Inr b' \<Longrightarrow> 0 \<le> tc_max_calls (lb_config b) \<Longrightarrow>
   0 \<le> tc_max_calls (lb_config b') \<and> tc_emergency (lb_config b') = tc_emergency (lb_config b)"
  by (cases o1) (auto simp: apply_option_def set_config_def Let_def split: if_splits)

lemma apply_options_limits:
  "apply_options os b = Inr b' \<Longrightarrow> 0 \<le> tc_max_calls (lb_config b) \<Longrightarrow>
   0 \<le> tc_max_calls (lb_config b') \<and> tc_emergency (lb_config b') = tc_emergency (lb_config b)"
  by (induction os arbitrary: b) (auto split: sum.splits dest!: apply_option_limits)

lemma new_loop_limit:
  assumes "new_loop streaming base opts = Inr b"
  shows "0 < hard_limit (lb_config b) \<and> hard_limit (lb_config b) \<le> 512"
proof -
  from assms obtain b0 where o1: "apply_options opts b0 = Inr b" "tc_max_calls (lb_config b0) = 0"
    "tc_emergency (lb_config b0) = 512"
    by (auto simp: new_loop_def Let_def split: if_splits sum.splits)
  from apply_options_limits [OF o1(1)] o1(2,3) show ?thesis by (auto simp: hard_limit_def)
qed

lemma run_turn_returns:
  assumes "\<not> tc_runtime cfg" "0 < hard_limit cfg" "nat (hard_limit cfg) + 2 \<le> fuel"
  shows "\<exists>res err. snd (run_turn W cfg fuel messages w) = Some (res, err)"
  using turn_body_returns [OF assms, of W messages w] by (auto simp: run_turn_def split: option.splits prod.splits)

subsection \<open>Properties\<close>

text \<open>
  C10: A turn ends. A loop that \<open>NewLoop\<close> made, with any options but a runtime context, which may keep
  adding messages, returns a result or an error within two rounds more than its hard limit on
  calls, and that limit is at most 512: whatever the model answers, whatever the tools do and
  whatever fails.
\<close>

theorem turn_returns:
  assumes "new_loop streaming base opts = Inr b" "\<not> tc_runtime (lb_config b)"
    and "nat (hard_limit (lb_config b)) + 2 \<le> fuel"
  shows "hard_limit (lb_config b) \<le> 512 \<and>
    (\<exists>res err. snd (run_turn W (lb_config b) fuel messages w) = Some (res, err))"
  using run_turn_returns [OF assms(2) _ assms(3), of W messages w] new_loop_limit [OF assms(1)] by simp

definition sample_build :: loop_build where
  "sample_build = (case new_loop True sample_cfg [WithMaxToolCalls 1] of Inr b \<Rightarrow> b)"

theorem turn_returns_witness:
  "\<exists>res err. snd (run_turn (scripted False) (lb_config sample_build) 3 [plain_message RoleUser ''u'']
      (play [[ask ''1'' ''read'', stop], [TextDelta ''done'', stop]])) = Some (res, err)"
proof -
  have n: "new_loop True sample_cfg [WithMaxToolCalls 1] = Inr sample_build"
    by (simp add: sample_build_def new_loop_def apply_option_def Let_def set_config_def)
  have "\<not> tc_runtime (lb_config sample_build)" "nat (hard_limit (lb_config sample_build)) + 2 \<le> 3"
    by (simp_all add: sample_build_def new_loop_def apply_option_def Let_def set_config_def hard_limit_def)
  from turn_returns [OF n this, of "scripted False" "[plain_message RoleUser ''u'']"
      "play [[ask ''1'' ''read'', stop], [TextDelta ''done'', stop]]"] show ?thesis by blast
qed

text \<open>
  C9: A turn makes no more tool calls than its hard limit allows, counted where the calls arrive,
  on every path: rounds that fail half way, concurrent rounds and canceled ones included. The
  one call that reads the plan of an active goal is not counted against the limit.
\<close>

theorem turn_calls_bounded:
  assumes "0 < hard_limit cfg"
  shows "int (snd (fst (run_turn (counted W) cfg fuel messages (w, 0)))) \<le>
    hard_limit cfg + (if has_active_goal cfg then 1 else 0)"
proof -
  obtain x out where r: "run_turn (counted W) cfg fuel messages (w, 0) = (x, out)" by fastforce
  from counting.run_turn_counts [OF r assms] have "snd x \<le> nat (hard_limit cfg) + (if has_active_goal cfg then 1 else 0)"
    by simp
  with r assms show ?thesis by (auto split: if_splits)
qed

theorem turn_calls_bounded_witness:
  "int (snd (fst (run_turn (counted (scripted False)) sample_cfg 3 [plain_message RoleUser ''u'']
      (play [[ask ''1'' ''read'', stop], [TextDelta ''done'', stop]], 0)))) \<le> 1 \<and>
   snd (fst (run_turn (counted (scripted False)) sample_cfg 3 [plain_message RoleUser ''u'']
      (play [[ask ''1'' ''read'', stop], [TextDelta ''done'', stop]], 0))) = 1"
proof
  show "int (snd (fst (run_turn (counted (scripted False)) sample_cfg 3 [plain_message RoleUser ''u'']
      (play [[ask ''1'' ''read'', stop], [TextDelta ''done'', stop]], 0)))) \<le> 1"
    using turn_calls_bounded [of sample_cfg "scripted False" 3 "[plain_message RoleUser ''u'']"
      "play [[ask ''1'' ''read'', stop], [TextDelta ''done'', stop]]"]
    by (simp add: sample_cfg_def hard_limit_def has_active_goal_def)
  show "snd (fst (run_turn (counted (scripted False)) sample_cfg 3 [plain_message RoleUser ''u'']
      (play [[ask ''1'' ''read'', stop], [TextDelta ''done'', stop]], 0))) = 1"
    by code_simp
qed

end
