(* ===== verification/Turn_Protocol.thy ===== *)
theory Turn_Protocol
  imports Turn_Trace
begin

text \<open>
  The order of messages in a turn: a message that requests tools is followed by the results of its
  calls, in what a turn returns, failed or not, and in every request it sends to the model. The
  last part holds what the loop does otherwise than it should.
\<close>

subsection \<open>Lemmas: order by shape\<close>

definition shape :: "message \<Rightarrow> bool \<times> bool \<times> string \<times> string list" where
  "shape m = (is_tool m, requests_tools m, msg_call_id m, map mc_id (msg_calls m))"

lemma shape_takeWhile: "map shape ms = map shape ms' \<Longrightarrow> map shape (takeWhile is_tool ms) = map shape (takeWhile is_tool ms')"
proof (induction ms arbitrary: ms')
  case (Cons m ms)
  from Cons(2) obtain m' ns where n: "ms' = m' # ns" "shape m = shape m'" "map shape ms = map shape ns"
    by (cases ms') auto
  from n(2) have "is_tool m = is_tool m'" "requests_tools m = requests_tools m'" by (simp_all add: shape_def)
  with Cons(1) [OF n(3)] show ?case unfolding n(1) using n(2,3) by simp
qed simp

lemma shape_dropWhile: "map shape ms = map shape ms' \<Longrightarrow> map shape (dropWhile is_tool ms) = map shape (dropWhile is_tool ms')"
proof (induction ms arbitrary: ms')
  case (Cons m ms)
  from Cons(2) obtain m' ns where n: "ms' = m' # ns" "shape m = shape m'" "map shape ms = map shape ns"
    by (cases ms') auto
  from n(2) have "is_tool m = is_tool m'" "requests_tools m = requests_tools m'" by (simp_all add: shape_def)
  with Cons(1) [OF n(3)] show ?case unfolding n(1) using n(2,3) by simp
qed simp

lemma shape_call_ids: "map shape ms = map shape ms' \<Longrightarrow> map msg_call_id ms = map msg_call_id ms'"
proof -
  have "map msg_call_id xs = map (fst \<circ> snd \<circ> snd) (map shape xs)" for xs by (simp add: shape_def)
  then show "map shape ms = map shape ms' \<Longrightarrow> ?thesis" by metis
qed

lemma protocol_shape: "map shape ms = map shape ms' \<Longrightarrow> protocol_ok ms = protocol_ok ms'"
proof (induction ms arbitrary: ms' rule: protocol_ok.induct)
  case (2 m ms)
  from 2(3) obtain m' ns where n: "ms' = m' # ns" "shape m = shape m'" "map shape ms = map shape ns"
    by (cases ms') auto
  from n(2) have s: "is_tool m = is_tool m'" "requests_tools m = requests_tools m'"
    "map mc_id (msg_calls m) = map mc_id (msg_calls m')" by (auto simp: shape_def)
  have t: "map msg_call_id (takeWhile is_tool ms) = map msg_call_id (takeWhile is_tool ns)"
    by (rule shape_call_ids [OF shape_takeWhile [OF n(3)]])
  show ?case
  proof (cases "requests_tools m")
    case True
    with 2(1) [OF True shape_dropWhile [OF n(3)]] n(1) s t show ?thesis by simp
  next
    case False
    with 2(2) [OF False n(3)] n(1) s show ?thesis by simp
  qed
qed simp

lemma shape_ensure_ids: "ensure_ids fresh k ms = (k', ms') \<Longrightarrow> map shape ms' = map shape ms"
  by (induction fresh k ms arbitrary: k' ms' rule: ensure_ids.induct)
    (auto simp: shape_def requests_tools_def split: if_splits prod.splits)

lemma ensure_in_shape: "ensure_in W ms w = (w', ms') \<Longrightarrow> map shape ms' = map shape ms"
  by (auto simp: ensure_in_def split: prod.splits dest: shape_ensure_ids)

lemma flat_shape: "map shape ms = map shape ms' \<Longrightarrow> flat ms = flat ms'"
proof (induction ms arbitrary: ms')
  case (Cons m ms)
  from Cons(2) obtain m' ns where n: "ms' = m' # ns" "shape m = shape m'" "map shape ms = map shape ns"
    by (cases ms') auto
  from n(2) have "is_tool m = is_tool m'" "requests_tools m = requests_tools m'" by (simp_all add: shape_def)
  with Cons(1) [OF n(3)] show ?case unfolding n(1) using n(2,3) by simp
qed simp

lemma flat_protocol: "flat ms \<Longrightarrow> protocol_ok ms"
  unfolding flat_def by (rule protocol_plain)

lemma protocol_snoc: "protocol_ok as \<Longrightarrow> protocol_ok bs \<Longrightarrow> protocol_ok (as @ bs)"
  by (simp add: protocol_append protocol_front)

lemma protocol_without_systems: "protocol_ok ms \<Longrightarrow> protocol_ok (filter (\<lambda>m. \<not> is_system m) ms)"
proof (induction ms rule: protocol_ok.induct)
  case (2 m ms)
  show ?case
  proof (cases "requests_tools m")
    case True
    then have "\<not> is_system m" by (simp add: requests_tools_def)
    moreover have "takeWhile is_tool (filter (\<lambda>m. \<not> is_system m) ms) = takeWhile is_tool ms \<and>
        dropWhile is_tool (filter (\<lambda>m. \<not> is_system m) ms) = filter (\<lambda>m. \<not> is_system m) (dropWhile is_tool ms)"
      if "protocol_ok (dropWhile is_tool ms)"
    proof -
      have f: "filter (\<lambda>m. \<not> is_system m) (takeWhile is_tool ms) = takeWhile is_tool ms"
        by (rule filter_True) (auto dest: set_takeWhileD)
      have fr: "front_ok (filter (\<lambda>m. \<not> is_system m) (dropWhile is_tool ms))"
        using 2(1) [OF True] that by (intro protocol_front) simp
      have eq: "filter (\<lambda>m. \<not> is_system m) ms =
          takeWhile is_tool ms @ filter (\<lambda>m. \<not> is_system m) (dropWhile is_tool ms)"
        by (metis f filter_append takeWhile_dropWhile_id)
      have "dropWhile is_tool (takeWhile is_tool ms) = []" by (auto simp: dropWhile_eq_Nil_conv dest: set_takeWhileD)
      moreover have "takeWhile is_tool (takeWhile is_tool ms) = takeWhile is_tool ms"
        by (auto simp: takeWhile_eq_all_conv dest: set_takeWhileD)
      ultimately show ?thesis
        unfolding eq front_takeWhile [OF fr] front_dropWhile [OF fr] by (simp only: append_Nil simp_thms)
    qed
    ultimately show ?thesis using 2(1) [OF True] 2(3) True by simp
  next
    case False
    with 2(2) [OF False] 2(3) show ?thesis by simp
  qed
qed simp

subsection \<open>Lemmas: the calls of a round\<close>

text \<open>The model gives its calls ids without spaces around them.\<close>

definition neat_stream :: "'w turn_world \<Rightarrow> bool" where
  "neat_stream W \<longleftrightarrow>
     (\<forall>r w items c. snd (tw_stream W r w) = Opened items \<longrightarrow> StreamItem (ToolCallWhole c) \<in> set items \<longrightarrow>
        trim_space (mc_id c) = mc_id c)"

lemma consume_stream_message:
  "consume_stream W json n items t r calls rs = (rs', Inr m) \<Longrightarrow>
   msg_role m = RoleAssistant \<and> (\<forall>c \<in> set (msg_calls m). c \<in> set calls \<or> StreamItem (ToolCallWhole c) \<in> set items)"
proof (induction items arbitrary: t r calls rs)
  case (Cons item items)
  show ?case
  proof (cases item)
    case (StreamItem e)
    with Cons(2) show ?thesis
      by (cases e) (auto simp: plain_message_def fresh_id_def split: if_splits prod.splits option.splits
          dest!: Cons(1))
  qed (use Cons(2) in simp)
qed simp

lemma stream_round_message:
  assumes "stream_round W json n r rs = (rs', Inr m)" "neat_stream W"
  shows "msg_role m = RoleAssistant \<and> map (\<lambda>c. trim_space (mc_id c)) (msg_calls m) = map mc_id (msg_calls m)"
proof -
  from assms(1) obtain w items where s: "tw_stream W r (fst rs) = (w, Opened items)"
    "consume_stream W json n items [] [] [] (w, snd rs) = (rs', Inr m)"
    by (auto simp: stream_round_def split: prod.splits stream_open.splits)
  from consume_stream_message [OF s(2)] assms(2) s(1) show ?thesis
    unfolding neat_stream_def by (metis (mono_tags, lifting) empty_iff list.set(1) map_eq_conv snd_conv)
qed

lemma translate_calls_ids:
  "translate_calls W cfg n d ms names rs = (rs', Inr (cs, names')) \<Longrightarrow>
   map call_id cs = map (\<lambda>m. trim_space (mc_id m)) ms"
  by (induction ms arbitrary: names rs rs' cs names')
    (auto simp: new_call_def Let_def split: sum.splits prod.splits option.splits if_splits)

lemma suppress_call: "suppress env g c = Some (Some x) \<Longrightarrow> ex_call x = c"
  by (auto simp: suppress_def suppressed_call_def Let_def split: if_splits option.splits)

lemma plan_calls_answers:
  "plan_calls W env g n cs w = (w', Some ps) \<Longrightarrow> \<forall>p \<in> set ps. \<forall>x. snd p = Some x \<longrightarrow> ex_call x = fst p"
  by (induction cs arbitrary: w w' ps) (auto split: option.splits prod.splits dest: suppress_call)

lemma ex_call_executed [simp]: "ex_call (executed c r b) = c" "ex_call (canceled_call c code) = c"
  by (auto simp: executed_def canceled_call_def)

lemma execute_one_call: "execute_one W c w = (w', x) \<Longrightarrow> ex_call x = c"
  by (auto simp: execute_one_def split: prod.splits option.splits)

lemma run_jobs_calls: "run_jobs W checks jobs w = (w', xs) \<Longrightarrow> map (\<lambda>(i, x). (i, ex_call x)) xs = jobs"
proof (induction jobs arbitrary: w w' xs)
  case (Cons j jobs)
  obtain i c where j: "j = (i, c)" by fastforce
  obtain w1 x where x: "(case (if checks then tw_err W RoundScope w else None) of
      Some code \<Rightarrow> (w, canceled_call c code) | None \<Rightarrow> execute_one W c w) = (w1, x)" by fastforce
  then have "ex_call x = c" using execute_one_call [of W c w w1 x] by (auto split: option.splits)
  moreover from Cons(2) j x obtain ys where "run_jobs W checks jobs w1 = (w', ys)" "xs = (i, x) # ys"
    by (auto split: prod.splits)
  ultimately show ?case using Cons(1) [of w1 w' ys] j by simp
qed simp

lemma map_of_numbered: "(i, c) \<in> set (numbered calls) \<Longrightarrow> i < length calls \<and> calls ! i = c"
  by (auto simp: numbered_def in_set_zip)

lemma taken_jobs_subset: "set (taken_jobs order jobs) \<subseteq> set jobs"
  by (auto simp: taken_jobs_def List.map_filter_def dest: map_of_SomeD)

lemma execute_calls_calls: "execute_calls W cfg calls w = (w', xs) \<Longrightarrow> map ex_call xs = calls"
proof (cases "can_run_concurrently W cfg calls w")
  case False
  assume "execute_calls W cfg calls w = (w', xs)"
  with False obtain ys where y: "run_jobs W True (numbered calls) w = (w', ys)" "xs = map snd ys"
    by (auto simp: execute_calls_def split: prod.splits)
  from run_jobs_calls [OF y(1)] have "map snd (map (\<lambda>(i, x). (i, ex_call x)) ys) = calls" by (simp add: numbered_def)
  with y(2) show ?thesis by (simp add: o_def case_prod_beta)
next
  case True
  let ?o = "tw_order W calls w"
  assume "execute_calls W cfg calls w = (w', xs)"
  with True obtain w1 xs1 xs2 where r: "run_jobs W False (taken_jobs ?o (numbered calls)) w = (w1, xs1)"
    "run_jobs W True (left_jobs ?o (numbered calls)) w1 = (w', xs2)"
    "xs = map (\<lambda>(i, c). case map_of (xs1 @ xs2) i of Some x \<Rightarrow> x | None \<Rightarrow> executed c empty_result False) (numbered calls)"
    by (auto simp: execute_calls_def execute_concurrent_def Let_def split: prod.splits)
  have "ex_call x = calls ! i \<and> i < length calls" if "(i, x) \<in> set (xs1 @ xs2)" for i x
  proof -
    from that have "(i, ex_call x) \<in> set (map (\<lambda>(i, x). (i, ex_call x)) xs1) \<union> set (map (\<lambda>(i, x). (i, ex_call x)) xs2)"
      by force
    then have "(i, ex_call x) \<in> set (numbered calls)"
      unfolding run_jobs_calls [OF r(1)] run_jobs_calls [OF r(2)]
      using taken_jobs_subset [of ?o "numbered calls"] by (auto simp: left_jobs_def)
    then show ?thesis by (auto dest: map_of_numbered)
  qed
  then have "map ex_call xs = map snd (numbered calls)"
    unfolding r(3) by (auto split: option.splits dest!: map_of_SomeD map_of_numbered)
  then show ?thesis by (simp add: numbered_def)
qed

lemma fill_calls_calls:
  "\<forall>p \<in> set ps. \<forall>x. snd p = Some x \<longrightarrow> ex_call x = fst p \<Longrightarrow> map ex_call xs = pending_calls ps \<Longrightarrow>
   map ex_call (fill_calls ps xs) = map fst ps"
  by (induction ps xs rule: fill_calls.induct) (auto simp: pending_calls_def)

lemma apply_calls_calls: "apply_calls b used xs = (b', ys) \<Longrightarrow> map ex_call ys = map ex_call xs"
  by (induction b used xs arbitrary: b' ys rule: apply_calls.induct)
    (auto simp: apply_call_def Let_def split: prod.splits if_splits)

lemma run_calls_calls: "run_calls W cfg n g b calls rs = (rs', b', Inr xs) \<Longrightarrow> map ex_call xs = calls"
proof -
  assume "run_calls W cfg n g b calls rs = (rs', b', Inr xs)"
  then obtain w ps w1 results b1 where p: "plan_calls W (tc_env cfg) g n calls (fst rs) = (w, Some ps)"
    "execute_calls W cfg (pending_calls ps) w = (w1, results)" "apply_calls b 0 (fill_calls ps results) = (b1, xs)"
    by (auto simp: run_calls_def apply_round_def split: prod.splits option.splits)
  from fill_calls_calls [OF plan_calls_answers [OF p(1)] execute_calls_calls [OF p(2)]] apply_calls_calls [OF p(3)]
    length_plan_calls [OF p(1)] show ?thesis by simp
qed

text \<open>What a round reports has a result for each call of the message, in order, or none at all.\<close>

lemma run_round_ids:
  assumes "run_round W cfg n r d g b rs0 = (rs, b', Inr oc)" "neat_stream W"
  shows "msg_role (oc_assistant oc) = RoleAssistant \<and>
    (oc_executions oc \<noteq> [] \<longrightarrow> dispatch_enabled (oc_dispatch oc) \<and>
       map (\<lambda>x. call_id (ex_call x)) (oc_executions oc) = map mc_id (msg_calls (oc_assistant oc)))"
proof -
  from assms(1) obtain rs1 m where s: "stream_round W (tc_json cfg) n r rs0 = (rs1, Inr m)"
    by (auto simp: run_round_def split: prod.splits sum.splits)
  note m = stream_round_message [OF s assms(2)]
  show ?thesis
  proof (cases "oc_executions oc = []")
    case True
    with assms(1) s m show ?thesis
      by (auto simp: run_round_def no_dispatch_def split: prod.splits sum.splits option.splits if_splits)
  next
    case False
    with assms(1) s obtain rs2 calls names rs3 b3 xs where t:
      "translate_calls W cfg n d (msg_calls m) Map.empty rs1 = (rs2, Inr (calls, names))"
      "run_calls W cfg n g b calls rs2 = (rs3, b3, Inr xs)" "dispatch_enabled d"
      "oc = \<lparr>oc_assistant = m, oc_executions = xs, oc_dispatch = d, oc_names = names\<rparr>"
      by (auto simp: run_round_def no_dispatch_def split: prod.splits sum.splits option.splits if_splits)
    have "map (call_id \<circ> ex_call) xs = map call_id calls"
      using run_calls_calls [OF t(2)] by (metis map_map)
    with translate_calls_ids [OF t(1)] m t(3,4) show ?thesis by (simp add: o_def)
  qed
qed

lemma tool_messages_ids:
  "tool_messages W cfg names xs w = (w', Some ms) \<Longrightarrow>
   list_all is_tool ms \<and> map msg_call_id ms = map (\<lambda>x. call_id (ex_call x)) xs"
  by (induction xs arbitrary: w w' ms)
    (auto simp: tool_message_def plain_message_def Let_def split: option.splits prod.splits)

subsection \<open>Lemmas: the messages of a turn\<close>

text \<open>The runtime context brings neither results nor requests of tools.\<close>

definition flat_context :: "'w turn_world \<Rightarrow> bool" where
  "flat_context W \<longleftrightarrow> (\<forall>w ms. snd (tw_drain W w) = Some ms \<or> snd (tw_await W w) = Some ms \<longrightarrow> flat ms)"

text \<open>The messages of the turn are in order, and with \<open>b\<close> the whole history.\<close>

definition state_ok :: "bool \<Rightarrow> loop_state \<Rightarrow> bool" where
  "state_ok b st \<longleftrightarrow> protocol_ok (ls_turn st) \<and> (b \<longrightarrow> protocol_ok (ls_history st))"

definition end_ok :: "bool \<Rightarrow> round_end \<Rightarrow> bool" where
  "end_ok b e = (case e of NextRound st \<Rightarrow> state_ok b st | TurnEnd res err \<Rightarrow> protocol_ok (lr_messages res))"

definition outcome_ok :: "round_outcome \<Rightarrow> bool" where
  "outcome_ok oc \<longleftrightarrow> msg_role (oc_assistant oc) = RoleAssistant \<and>
    (oc_executions oc \<noteq> [] \<longrightarrow> dispatch_enabled (oc_dispatch oc) \<and>
       map (\<lambda>x. call_id (ex_call x)) (oc_executions oc) = map mc_id (msg_calls (oc_assistant oc)))"

lemma fail_turn_ok: "fail_turn W n (turn_checkpoint st) e w = (w', x) \<Longrightarrow> state_ok b st \<Longrightarrow> end_ok b x"
  by (auto simp: end_ok_def state_ok_def turn_checkpoint_def dest!: fail_turn_end)

lemma take_context_ok: "state_ok b st \<Longrightarrow> (b \<Longrightarrow> flat ms) \<Longrightarrow> state_ok b (take_context ms st)"
  by (auto simp: state_ok_def take_context_def intro: protocol_snoc flat_protocol)

lemma commit_ok: "state_ok b st \<Longrightarrow> protocol_ok ms \<Longrightarrow> state_ok b (commit n ms st)"
  by (auto simp: state_ok_def commit_def intro: protocol_snoc)

lemma resolve_disabled_message:
  assumes "resolve_disabled W n oc w = (w', Inr (m, fb))" "outcome_ok oc"
  shows "if oc_executions oc = [] then protocol_ok [m] else m = oc_assistant oc"
  using assms
  by (auto simp: resolve_disabled_def outcome_ok_def finalize_disabled_def Let_def requests_tools_def dispatch_enabled_def
      split: if_splits prod.splits sum.splits option.splits dispatch_reason.splits)

lemma state_ok_grounding [simp]: "state_ok b (st\<lparr>ls_grounding := g\<rparr>) = state_ok b st"
  by (simp add: state_ok_def)

lemma commit_miss_ok:
  "commit_miss W n m st rs = (w', x) \<Longrightarrow> state_ok b st \<Longrightarrow> protocol_ok [m] \<Longrightarrow> end_ok b x"
  using commit_ok [of b st "[m]" n]
  by (auto simp: commit_miss_def Let_def split: prod.splits option.splits if_splits dest!: fail_turn_ok)
    (auto simp: end_ok_def)

lemma context_flat:
  "flat_context W \<Longrightarrow> tw_drain W w = (w', Some ms) \<Longrightarrow> flat ms"
  "flat_context W \<Longrightarrow> tw_await W w = (w', Some ms) \<Longrightarrow> flat ms"
  unfolding flat_context_def by (metis snd_conv)+

lemma ensure_in_flat: "ensure_in W ms w = (w', ms') \<Longrightarrow> flat ms \<Longrightarrow> flat ms'"
  by (simp add: flat_shape [OF ensure_in_shape])

lemma completion_context_flat:
  assumes "completion_context W cfg w = (w', Some (ms, b))" "flat_context W"
  shows "flat ms"
proof -
  from assms(1) consider "ms = []"
    | v a xs where "tw_drain W v = (a, Some xs)" "ensure_in W xs a = (w', ms)"
    | v a xs where "tw_await W v = (a, Some xs)" "ensure_in W xs a = (w', ms)"
    unfolding completion_context_def by (auto split: if_splits prod.splits option.splits)
  then show ?thesis
    by cases (auto dest: context_flat [OF assms(2)] ensure_in_flat)
qed

lemma drain_context_ok:
  assumes "drain_context W cfg st w = (w', Some st')" "state_ok b st" "b \<longrightarrow> flat_context W"
  shows "state_ok b st'"
proof (cases "tc_runtime cfg")
  case True
  with assms(1) obtain w1 ms ms' where d: "tw_drain W w = (w1, Some ms)" "ensure_in W ms w1 = (w', ms')"
    "st' = take_context ms' st"
    by (auto simp: drain_context_def split: prod.splits option.splits)
  from take_context_ok [OF assms(2)] ensure_in_flat [OF d(2)] context_flat(1) [OF _ d(1)] d(3) assms(3) show ?thesis by blast
qed (use assms in \<open>simp add: drain_context_def\<close>)

lemma finish_answer_ok:
  assumes "finish_answer W cfg n m st rs = (w', x)" "state_ok b st" "protocol_ok [m]" "b \<longrightarrow> flat_context W"
  shows "end_ok b x"
proof -
  obtain w c where c: "completion_context W cfg (fst rs) = (w, c)" by fastforce
  show ?thesis
  proof (cases c)
    case None
    with assms c show ?thesis by (auto simp: finish_answer_def dest: fail_turn_ok)
  next
    case (Some y)
    obtain ms later where y: "y = (ms, later)" by fastforce
    note fl = completion_context_flat [OF c [unfolded Some y]]
    show ?thesis
    proof (cases later)
      case True
      with assms c Some y take_context_ok [OF assms(2)] fl assms(4) show ?thesis by (auto simp: finish_answer_def end_ok_def)
    next
      case False
      have "protocol_ok (ls_turn st @ [m])" using assms(2,3) by (intro protocol_snoc) (auto simp: state_ok_def)
      with assms c Some y False show ?thesis
        by (auto simp: finish_answer_def Let_def split: prod.splits option.splits dest!: fail_turn_ok)
          (auto simp: end_ok_def)
    qed
  qed
qed

lemma commit_calls_ok:
  assumes "commit_calls W cfg n m oc st rs = (w', x)" "state_ok b st" "outcome_ok oc" "m = oc_assistant oc"
    and "oc_executions oc \<noteq> []"
  shows "end_ok b x"
proof -
  have g: "protocol_ok (m # tools)" if "tool_messages W cfg (oc_names oc) (oc_executions oc) w = (w1, Some tools)" for w w1 tools
    using tool_messages_ids [OF that] assms(3-5)
    by (intro protocol_group) (auto simp: outcome_ok_def requests_tools_def)
  have p: "protocol_ok (xs @ [plain_message RoleSystem p])" if "protocol_ok xs" for xs p
    using that by (intro protocol_snoc) (auto simp: plain_message_def requests_tools_def)
  from assms(1,2) show ?thesis
    by (auto simp: commit_calls_def Let_def end_ok_def split: prod.splits option.splits if_splits
        dest!: fail_turn_ok [unfolded end_ok_def] g commit_ok [OF assms(2)])
      (auto simp: state_ok_def p)
qed

lemma settle_round_ok:
  assumes "settle_round W cfg ds n oc st rs = (w', x)" "state_ok b st" "outcome_ok oc" "b \<longrightarrow> flat_context W"
  shows "end_ok b x"
proof -
  obtain w y where r: "resolve_disabled W n oc (fst rs) = (w, y)" by fastforce
  show ?thesis
  proof (cases y)
    case (Inl e)
    with assms r show ?thesis by (auto simp: settle_round_def dest: fail_turn_ok)
  next
    case (Inr z)
    obtain m fb where z: "z = (m, fb)" by fastforce
    note m = resolve_disabled_message [OF r [unfolded Inr z] assms(3)]
    obtain w1 o1 where o1: "observe_state W cfg ds n (oc_executions oc) st w = (w1, o1)" by fastforce
    show ?thesis
    proof (cases o1)
      case (Inl e)
      with assms r Inr z o1 show ?thesis by (auto simp: settle_round_def dest: fail_turn_ok)
    next
      case ok: (Inr st1)
      with o1 have "ls_turn st1 = ls_turn st \<and> ls_history st1 = ls_history st"
        by (auto simp: observe_state_def Let_def split: prod.splits if_splits option.splits)
      with assms(2) have s: "state_ok b st1" by (simp add: state_ok_def)
      show ?thesis
        using assms(1,3,4) r Inr z o1 ok m s
        by (auto simp: settle_round_def split: if_splits
            intro: commit_calls_ok commit_miss_ok finish_answer_ok)
    qed
  qed
qed

lemma loop_step_ok:
  assumes "loop_step W cfg ds extras n st w = (w', x)" "state_ok b st" "neat_stream W" "b \<longrightarrow> flat_context W"
  shows "end_ok b x"
proof -
  obtain w1 o1 where d: "drain_context W cfg st w = (w1, o1)" by fastforce
  show ?thesis
  proof (cases o1)
    case None
    with assms d show ?thesis by (auto simp: loop_step_def dest: fail_turn_ok)
  next
    case (Some st1)
    from drain_context_ok [OF d [unfolded Some] assms(2,4)] have s: "state_ok b st1" .
    have s': "state_ok b (st1\<lparr>ls_warned := b1, ls_results := b2\<rparr>)" for b1 b2 using s by (simp add: state_ok_def)
    from assms(1) d Some show ?thesis
      by (auto simp: loop_step_def outcome_ok_def split: prod.splits sum.splits option.splits
          dest!: settle_round_ok [OF _ s' _ assms(4)] run_round_ids [OF _ assms(3)] dest: fail_turn_ok [OF _ s])
  qed
qed

lemma run_rounds_ok:
  "run_rounds W cfg ds extras fuel n st w = (w', Some (res, err)) \<Longrightarrow> state_ok b st \<Longrightarrow> neat_stream W \<Longrightarrow>
   (b \<longrightarrow> flat_context W) \<Longrightarrow> protocol_ok (lr_messages res)"
proof (induction fuel arbitrary: n st w)
  case (Suc fuel)
  obtain w1 x where s: "loop_step W cfg ds extras n st w = (w1, x)" by fastforce
  from loop_step_ok [OF s Suc(3,4,5)] Suc s show ?case by (auto simp: end_ok_def split: round_end.splits)
qed simp

subsection \<open>Lemmas: requests\<close>

text \<open>The states at the start of a round, with what the turn keeps for all its rounds.\<close>

inductive turn_round :: "'w turn_world \<Rightarrow> turn_config \<Rightarrow> message list \<Rightarrow> tool_definition list \<Rightarrow> string list \<Rightarrow> int \<Rightarrow>
    loop_state \<Rightarrow> 'w \<Rightarrow> bool" for W cfg messages where
  first_round: "ensure_in W messages w = (w1, history0) \<Longrightarrow> prepare_input cfg history0 = (history, extras) \<Longrightarrow>
    initial_plan W cfg w1 = (w2, plan) \<Longrightarrow>
    turn_round W cfg messages (tw_definitions W w1) extras 1
      (initial_state cfg (tw_definitions W w1) history plan) w2"
| next_round: "turn_round W cfg messages ds extras n st w \<Longrightarrow>
    loop_step W cfg ds extras n st w = (w', NextRound st') \<Longrightarrow> turn_round W cfg messages ds extras (n + 1) st' w'"

text \<open>
  What prepares a request from outside, memories and images, keeps the order: images are changed
  within their messages, and what is added stands in a message of its own.
\<close>

definition preparation_in_order :: "'w turn_world \<Rightarrow> turn_config \<Rightarrow> bool" where
  "preparation_in_order W cfg \<longleftrightarrow>
     (\<forall>r w w' r'. tw_prepare W r w = (w', Some r') \<longrightarrow> protocol_ok (rq_messages r) \<longrightarrow> protocol_ok (rq_messages r')) \<and>
     (\<forall>ms ms'. tc_images cfg ms = Some ms' \<longrightarrow> protocol_ok ms \<longrightarrow> protocol_ok ms')"

lemma system_simps [simp]:
  "\<not> is_tool (plain_message RoleSystem t)" "\<not> requests_tools (plain_message RoleSystem t)"
  "msg_calls (plain_message RoleSystem t) = []"
  by (simp_all add: plain_message_def requests_tools_def)

lemma plain_system [simp]: "protocol_ok (plain_message RoleSystem t # ms) = protocol_ok ms"
  by (simp add: plain_message_def requests_tools_def)

lemma inject_skills_ok: "protocol_ok ms \<Longrightarrow> protocol_ok (inject_skills section ms)"
  by (auto simp: inject_skills_def Let_def requests_tools_def split: list.splits option.splits)

lemma prepare_input_ok: "prepare_input cfg h = (h', extras) \<Longrightarrow> protocol_ok h \<Longrightarrow> protocol_ok h'"
  by (auto simp: prepare_input_def intro: protocol_without_systems inject_skills_ok split: if_splits)

lemma turn_round_ok:
  assumes "turn_round W cfg messages ds extras n st w" "protocol_ok messages" "neat_stream W" "flat_context W"
  shows "state_ok True st"
  using assms(1)
proof (induction rule: turn_round.induct)
  case (first_round w w1 history0 history extras w2 plan)
  have "protocol_ok history0"
    using protocol_shape [OF ensure_in_shape [OF first_round(1)]] assms(2) by simp
  with first_round(2) have "protocol_ok history" by (rule prepare_input_ok)
  then show ?case by (simp add: state_ok_def initial_state_def)
next
  case (next_round ds extras n st w w' st')
  from loop_step_ok [OF next_round(2,3) assms(3)] assms(4) show ?case by (simp add: end_ok_def)
qed

lemma round_messages_ok: "protocol_ok history \<Longrightarrow> protocol_ok (round_messages cfg history extras tools reason warn)"
  by (auto simp: round_messages_def Let_def intro!: protocol_snoc)

lemma compact_request_ok:
  "compact_request dec fresh k env vp l p r = Some (k', r', stage) \<Longrightarrow> protocol_ok (rq_messages r) \<Longrightarrow>
   protocol_ok (rq_messages r')"
  by (auto simp: compact_request_def split: option.splits prod.splits if_splits sum.splits
      dest: retain_by_cost_protocol)

lemma prepared_request_ok:
  assumes "prepared_request W cfg g d r w = (w', Inr r')" "preparation_in_order W cfg" "protocol_ok (rq_messages r)"
  shows "protocol_ok (rq_messages r')"
proof -
  from assms(1) obtain w1 r1 where f: "tw_prepare W r w = (w1, Some r1)"
    "rq_messages r' = rq_messages r1 \<or> tc_images cfg (rq_messages r1) = Some (rq_messages r')"
    by (fastforce simp: prepared_request_def Let_def split: prod.splits option.splits if_splits)
  with assms(2,3) show ?thesis unfolding preparation_in_order_def by metis
qed

lemma bounded_request_ok:
  "bounded_request W cfg r w = (w', Inr r') \<Longrightarrow> protocol_ok (rq_messages r) \<Longrightarrow> protocol_ok (rq_messages r')"
  by (auto simp: bounded_request_def Let_def split: prod.splits option.splits dest: compact_request_ok)

lemma finish_request_ok:
  assumes "finish_request W cfg g d r w = (w', Inr r')" "preparation_in_order W cfg" "protocol_ok (rq_messages r)"
  shows "protocol_ok (rq_messages r')"
  using assms prepared_request_ok [OF _ assms(2,3)]
  by (auto simp: finish_request_def split: prod.splits sum.splits dest: bounded_request_ok)

lemma start_round_ok:
  assumes "start_round W cfg extras st w = (w', warned, Inr (r, d))" "preparation_in_order W cfg"
    and "protocol_ok (ls_history st)"
  shows "protocol_ok (rq_messages r)"
  using assms round_messages_ok [OF assms(3)]
  by (auto simp: start_round_def prepare_round_def Let_def split: prod.splits sum.splits
      dest!: finish_request_ok [OF _ assms(2)])

subsection \<open>Properties\<close>

text \<open>A model of one call and one answer: it gives the call an id without spaces.\<close>

definition neat_world :: "script turn_world" where
  "neat_world = (scripted False)\<lparr>tw_stream := (\<lambda>r s. (s,
     Opened [StreamItem (if list_ex is_tool (rq_messages r) then TextDelta ''done'' else ask ''1'' ''read''),
       StreamItem stop]))\<rparr>"

lemma neat_world_neat: "neat_stream neat_world"
proof -
  have "trim_space ''1'' = ''1''" by code_simp
  then show ?thesis by (auto simp: neat_stream_def neat_world_def ask_def split: if_splits)
qed

text \<open>
  C8: What a turn returns is in order, when it fails as well: in the messages of every result, of a
  turn that ends, fails in the middle of a round or is canceled, each message that requests tools
  is followed by exactly one result for each of its calls. Nothing is asked of the tools, the
  sink or the errors; the model is taken to give its calls ids without spaces around them.
\<close>

theorem turn_messages_in_order:
  assumes "neat_stream W" "run_turn W cfg fuel messages w = (w', Some (res, err))"
  shows "protocol_ok (lr_messages res)"
proof -
  have fail: "protocol_ok (lr_messages r1)" if "end_of (fail_turn W n empty_turn e a) = (b, Some (r1, e1))" for n e a b r1 e1
    using that by (auto simp: end_of_def empty_turn_def split: prod.splits round_end.splits dest!: fail_turn_end)
  have rounds: "protocol_ok (lr_messages r1)"
    if "run_rounds W cfg ds extras fuel 1 (initial_state cfg ds h plan) a = (b, Some (r1, e1))" for ds extras h plan a b r1 e1
  by (rule run_rounds_ok [OF that, of False]) (simp_all add: assms(1) initial_state_def state_ok_def)
  show ?thesis
  proof (cases "tw_err W TurnScope w")
    case None
    with assms(2) show ?thesis
      by (auto simp: run_turn_def turn_body_def Let_def split: prod.splits if_splits dest: fail rounds)
  next
    case (Some code)
    with assms(2) have "res = empty_turn" by (simp add: run_turn_def)
    then show ?thesis by (simp add: empty_turn_def)
  qed
qed

theorem turn_messages_in_order_witness:
  "\<exists>res. snd (run_turn neat_world sample_cfg 3 [plain_message RoleUser ''u''] (play [])) = Some (res, None) \<and>
     map msg_role (lr_messages res) = [RoleAssistant, RoleTool, RoleAssistant] \<and> protocol_ok (lr_messages res)"
proof -
  obtain w out where r: "run_turn neat_world sample_cfg 3 [plain_message RoleUser ''u''] (play []) = (w, out)" by fastforce
  have "(case snd (run_turn neat_world sample_cfg 3 [plain_message RoleUser ''u''] (play [])) of
      None \<Rightarrow> False
    | Some (res, err) \<Rightarrow> err = None \<and> map msg_role (lr_messages res) = [RoleAssistant, RoleTool, RoleAssistant])"
    by code_simp
  with r obtain res where o1: "out = Some (res, None)"
    "map msg_role (lr_messages res) = [RoleAssistant, RoleTool, RoleAssistant]"
    by (auto split: option.splits)
  with r turn_messages_in_order [OF neat_world_neat, of sample_cfg 3 "[plain_message RoleUser ''u'']" "play []" w res None]
  show ?thesis by auto
qed


text \<open>The request of the first round, if there is one.\<close>

definition first_request :: "'w turn_world \<Rightarrow> turn_config \<Rightarrow> message list \<Rightarrow> 'w \<Rightarrow> model_request option" where
  "first_request W cfg messages w =
     (case ensure_in W messages w of
        (w1, h0) \<Rightarrow>
          (case prepare_input cfg h0 of
             (h, extras) \<Rightarrow>
               (case initial_plan W cfg w1 of
                  (w2, plan) \<Rightarrow>
                    (case drain_context W cfg (initial_state cfg (tw_definitions W w1) h plan) w2 of
                       (w3, None) \<Rightarrow> None
                     | (w3, Some st) \<Rightarrow>
                         (case start_round W cfg extras st w3 of
                            (w4, warned, Inr (r, d)) \<Rightarrow> Some r
                          | (w4, warned, Inl e) \<Rightarrow> None)))))"


text \<open>
  The evidence a turn asks for does not come first. Only the tools that give it are published, but a
  call of another tool is dispatched all the same: the model asks for \<open>edit\<close> in the first round,
  where only \<open>read\<close> is published, and it runs.
\<close>

theorem broader_tool_before_evidence:
  "map call_name (sc_calls (fst (run_turn (scripted False) (sample_cfg\<lparr>tc_evidence := EvidenceWorkspace\<rparr>) 1
     [plain_message RoleUser ''u''] (play [[ask ''1'' ''edit'', stop]])))) = [''edit'']"
  by code_simp

text \<open>
  Duplicate ids are looked for before they are trimmed: two calls whose ids differ in a space are
  both run under one id, and what the turn returns is out of order.
\<close>

theorem spaced_ids_out_of_order:
  "case run_turn (scripted False) (sample_cfg\<lparr>tc_max_calls := 2\<rparr>) 4 [plain_message RoleUser ''u'']
      (play [[ask ''1'' ''read'', ask '' 1'' ''edit'', stop], [TextDelta ''done'', stop]]) of
     (s, Some (res, None)) \<Rightarrow> map call_id (sc_calls s) = [''1'', ''1''] \<and> \<not> protocol_ok (lr_messages res)
   | _ \<Rightarrow> False"
  by code_simp

text \<open>
  The notice that replaces calls over the limit goes to the sink at once, while the text it follows
  may still be in the buffer of the round: the user reads them in the wrong order.
\<close>

theorem notice_before_text:
  "case run_turn (scripted True) (sample_cfg\<lparr>tc_runtime := True\<rparr>) 1 [plain_message RoleUser ''u'']
      (play [[TextDelta ''text'', ask ''1'' ''read'', ask ''2'' ''read'', stop]]) of
     (s, Some (res, None)) \<Rightarrow>
       take 2 (sc_events s) = [EvText 1 ([newline, newline] @ safety_budget_fallback), EvText 1 ''text''] \<and>
       map_option msg_content (lr_message res) = Some (''text'' @ [newline, newline] @ safety_budget_fallback)
   | _ \<Rightarrow> False"
  by code_simp

end
