(* ===== verification/Turn_Service.thy ===== *)
theory Turn_Service
  imports Turn_Trace
begin

text \<open>
  A turn over the tool call service: the calls of the loop (\<open>internal/engine/turn\<close>) go to
  \<open>Service.Call\<close> (\<open>internal/engine/toolcall\<close>) with its policy, mode, grants and history. The rest
  of the world is arbitrary. What holds of one call of the service then holds of the whole turn.
\<close>

definition lift_rest :: "('x \<Rightarrow> 'x \<times> 'a) \<Rightarrow> ('s \<times> 'x) \<Rightarrow> ('s \<times> 'x) \<times> 'a" where
  "lift_rest f y = (case f (snd y) of (x, a) \<Rightarrow> ((fst y, x), a))"

text \<open>The mode is the service's own; the list of its definitions is taken from the rest of the world.\<close>

definition service_world :: "environment \<Rightarrow> 'x turn_world \<Rightarrow> ((service \<times> history) \<times> 'x) turn_world" where
  "service_world env W =
     \<lparr>tw_err = (\<lambda>sc y. tw_err W sc (snd y)), tw_sink = (\<lambda>e. lift_rest (tw_sink W e)),
      tw_stream = (\<lambda>r. lift_rest (tw_stream W r)),
      tw_call = (\<lambda>c y. case call env (fst (fst y)) (snd (fst y)) c of
          (s, h, r, e) \<Rightarrow> (((s, h), snd y), r, map_option error_failure e)),
      tw_definitions = (\<lambda>y. tw_definitions W (snd y)), tw_always = (\<lambda>y. svc_mode (fst (fst y)) = ModeAlwaysApprove),
      tw_observe = (\<lambda>p n y. (fst y, tw_observe W p n (snd y))), tw_order = (\<lambda>cs y. tw_order W cs (snd y)),
      tw_ids = (\<lambda>y. tw_ids W (snd y)), tw_take = (\<lambda>k y. (fst y, tw_take W k (snd y))),
      tw_drain = lift_rest (tw_drain W), tw_await = lift_rest (tw_await W), tw_active = (\<lambda>y. tw_active W (snd y)),
      tw_pending = (\<lambda>y. tw_pending W (snd y)), tw_finalize = (\<lambda>y. (fst y, tw_finalize W (snd y))),
      tw_prepare = (\<lambda>r. lift_rest (tw_prepare W r))\<rparr>"

text \<open>From one state of the service to a later one: grants added as they were given, runs as permitted.\<close>

definition permitted_on :: "environment \<Rightarrow> service \<times> history \<Rightarrow> service \<times> history \<Rightarrow> bool" where
  "permitted_on env a b \<longleftrightarrow>
     svc_keeps env (fst a) (fst b) (snd b) \<and> grows (restartable (fst a)) [] (snd a) (snd b)"

lemma permitted_on_trans:
  assumes "permitted_on env a b" "permitted_on env b c"
  shows "permitted_on env a c"
proof -
  have "svc_registry (fst b) = svc_registry (fst a)"
    using assms(1) svc_keeps_simps(1) unfolding permitted_on_def by blast
  then have "restartable (fst b) = restartable (fst a)" by (rule restartable_cong)
  moreover have "set (snd b) \<subseteq> set (snd c)" using assms(2) by (auto simp: permitted_on_def grows_def)
  ultimately show ?thesis
    using assms svc_keeps_trans [of env "fst a" "fst b" "snd b" "fst c" "snd c"]
      grows_trans [of "restartable (fst a)" "[]" "snd a" "snd b" "snd c"]
    unfolding permitted_on_def by metis
qed

lemma call_permitted: "call env s h c = (s', h', r, e) \<Longrightarrow> permitted_on env (s, h) (s', h')"
  using call_ok by (simp add: permitted_on_def)

interpretation service: turn_trace "service_world env W" "\<lambda>n a b. permitted_on env (fst a) (fst b)" for env W
proof
  show "permitted_on env (fst a) (fst c)" if "permitted_on env (fst a) (fst b)" "permitted_on env (fst b) (fst c)" for a b c :: "_ \<times> 'c"
    using that by (rule permitted_on_trans)
  show "permitted_on env (fst a) (fst (fst (tw_call (service_world env W) c a)))" for a c
    by (cases a) (auto simp: service_world_def split: prod.splits intro: call_permitted)
qed (auto simp: service_world_def lift_rest_def permitted_on_def split: prod.splits)

subsection \<open>Properties\<close>

text \<open>
  C2: Nothing runs unpermitted in a whole turn. Whatever the model asks for, round after round, each
  run of a handler in the history comes after a permission for the same tool with the same
  arguments, but for restarts of a tool that is read only by its definition; the policy, the mode
  and the registry stay as they were, and every grant that was added was given by a permission of
  the turn in session scope.
\<close>

theorem turn_runs_permitted:
  assumes "0 < hard_limit cfg"
    and "run_turn (service_world env W) cfg fuel messages ((s, h), x) = (((s', h'), x'), out)"
  shows "(\<exists>evs. h' = h @ evs \<and> runs_permitted (restartable s) [] evs) \<and>
    svc_policy s' = svc_policy s \<and> svc_mode s' = svc_mode s \<and> svc_registry s' = svc_registry s \<and>
    (\<forall>k \<in> svc_grants s' - svc_grants s. granted env h' k)"
proof -
  from service.run_turn_counts [OF assms(2,1)] have "svc_keeps env s s' h'" "grows (restartable s) [] h h'"
    by (simp_all add: permitted_on_def)
  with svc_keeps_simps [OF this(1)] show ?thesis by (auto simp: grows_def svc_keeps_def)
qed

definition ran_tool :: "string \<Rightarrow> history \<Rightarrow> bool" where
  "ran_tool tool h = list_ex (\<lambda>e. case e of EvRun n a \<Rightarrow> n = tool | _ \<Rightarrow> False) h"

theorem turn_runs_permitted_witness:
  "case run_turn (service_world sample_env (scripted False)) sample_cfg 3 [plain_message RoleUser ''u'']
      ((sample_service, []), play [[ask ''1'' ''read'', stop], [TextDelta ''done'', stop]]) of
     (((s, h), x), out) \<Rightarrow> ran_tool ''read'' h \<and> runs_permitted (restartable sample_service) [] h \<and>
       (\<forall>k \<in> svc_grants s - svc_grants sample_service. granted sample_env h k)"
proof -
  obtain s h x out where r: "run_turn (service_world sample_env (scripted False)) sample_cfg 3 [plain_message RoleUser ''u'']
      ((sample_service, []), play [[ask ''1'' ''read'', stop], [TextDelta ''done'', stop]]) = (((s, h), x), out)"
    by (metis prod.collapse)
  have "ran_tool ''read'' (snd (fst (fst (run_turn (service_world sample_env (scripted False)) sample_cfg 3 [plain_message RoleUser ''u'']
      ((sample_service, []), play [[ask ''1'' ''read'', stop], [TextDelta ''done'', stop]])))))"
    by code_simp
  with r have "ran_tool ''read'' h" by simp
  moreover have "0 < hard_limit sample_cfg" by (simp add: sample_cfg_def hard_limit_def)
  ultimately show ?thesis using turn_runs_permitted [OF _ r] r by auto
qed

end
