(* ===== verification/Spec2Isabelle.thy ===== *)
theory Spec2Isabelle
  imports Tool_Call Agent_Coordinator Workspace_Gate Todo_File Turn_Guards Workspace_Guard Edit_Tools Historical_Text Turn_Protocol Turn_Service
begin

text \<open>
  A development for protonman, a coding agent that runs in a terminal: a language model
  proposes tool calls, the program decides which of them run, keeps the plan of the task, and
  delegates work to further agents. The theories model the parts of the Go program that decide:
  which commands are harmless, which calls are permitted, how a call is executed and repaired,
  how the plan and the files are edited, how delegated agents are admitted, canceled, resumed and
  recovered, and how a turn goes on between the model and the tools until it ends.

  The parts and how they interact. A tool call reaches \<open>Service.call\<close>
  (\<open>internal/engine/toolcall\<close>), which classifies it (\<open>internal/core/tool\<close>), asks a guard, the
  static policy (\<open>internal/core/permission\<close>, with the wildcards of \<open>internal/base/glob\<close>), the
  session's grants and, in the end, the user, and then executes the handler, perhaps a second
  time after a failure. The plan (\<open>internal/core/todo\<close>, \<open>internal/feature/todo\<close>) is changed by
  patches against a revision. Delegated agents (\<open>internal/feature/agent\<close>) have a status derived
  from a journal of events, in a registry with limits. A turn (\<open>internal/engine/turn\<close>) sends the
  conversation, cut to the budget of the model, reads the answer from a stream, runs the calls it
  asks for through \<open>Service.call\<close>, and adds their results to the conversation, round after round.

  The theories.

  Go_Prelude holds strings as the program sees them (lists of bytes), trimming, splitting, folding
  of case, results. Str_Util is \<open>internal/base/strutil\<close>, Glob_Match \<open>internal/base/glob\<close>:
  \<open>glob_match\<close> is sound for the meaning of a pattern, and exact for values without a star.
  Path_Clean is what the program uses of the standard library's paths.

  Tool_Domain is the vocabulary of \<open>internal/core/tool\<close> (\<open>tool.go\<close>, \<open>semantics.go\<close>, \<open>error.go\<close>).
  Bash_Parser and Bash_Analysis are \<open>bash_analysis_parser.go\<close>, \<open>bash_analysis.go\<close> and
  \<open>bash_analysis_git.go\<close>: \<open>analyze_command\<close> is at least as bad as each segment of the command,
  reads only when each of them does, and fails closed. Tool_Semantics is
  \<open>EffectiveCallSemantics\<close>, where a shell command's analysis becomes the semantics of a call.

  Permission_Policy is \<open>permission.go\<close>: \<open>new_policy\<close> and \<open>add_rule\<close> keep the policy valid,
  \<open>evaluate\<close> puts denial before asking before allowing, and a rule made from a request allows that
  request. Call_Authorize is \<open>authorize.go\<close>, the state of the service (mode, policy, prompt, guard,
  grants) and its setters; Tool_Call is \<open>Service.call\<close> with \<open>recovery.go\<close>. A run of the service is
  a history of permissions and executions; an invariant over every reachable history says that
  what is executed was permitted, up to the repairs of a failed call.

  Todo_Plan is the plan: validation, patches, the store with its revision, and \<open>ReconcileStatus\<close>.
  The store's contract towards reconciliation is the locale \<open>patch_repository\<close>, interpreted on
  the store in memory and on the one in a file. Str_Search is what the program uses of the
  standard library's searches in strings. Todo_Markdown is \<open>markdown_format.go\<close>: a plan, its
  revision and its goal are read back from any document they were written into. Todo_File is
  \<open>markdown_store.go\<close>, one operation at a time under the lock of the file, with what the file
  system does as outcomes the caller chooses; it refines the store in memory.

  Agent_Lifecycle is \<open>transition.go\<close> and \<open>domain_event.go\<close>: a status is what a log of events
  without a gap makes of the empty status. Agent_Coordinator is the registry: \<open>spawn\<close>,
  \<open>cancel\<close> and its group variants, \<open>resume\<close>, \<open>recover_lifecycle\<close>, retention and queries. Each
  operation is what runs under the registry's lock; \<open>co_step\<close> lets them interleave, and the
  limit on live agents is an invariant of it.

  Workspace_Gate is \<open>scheduler.go\<close>: agents that change a workspace take all tokens of a gate,
  agents that read take one. A step is one channel operation of one caller, the callers interleave
  freely, a caller may give up between any two; nobody shares with a writer, and whoever asks is
  served while the others let go.

  Turn_Guards is \<open>internal/engine/turn\<close> around the loop: the guard that suppresses calls that make
  no progress, the safety budget, the budget of result texts, whether the last change was verified,
  grounding, and whether a goal is complete.

  Workspace_Paths is \<open>internal/core/workspace\<close> and \<open>internal/base/pathutil\<close>: which paths tools may
  name. The file system is a record of functions (does a path exist, where do its links lead, what
  is found below a directory that is already open); resolved paths are confined for every such
  file system. Workspace_Guard is \<open>mutation_guard.go\<close> and \<open>managed_file.go\<close>: no file with changes
  from before the session is overwritten.

  The edit tools (\<open>internal/adapter/out/tool/builtin\<close>). Line_Text is what they use of lines and
  line endings. Patch_Text is the format of patches in \<open>apply_patch.go\<close>: what is written is read
  back, and \<open>derive_patched\<close> answers exactly when the chunks can be made, one after the other.
  Edit_Files is \<open>file_helpers.go\<close>, steps on a disk whose outcomes the caller chooses; Checkpoints is
  \<open>internal/platform/checkpoint\<close>: what was captured is put back by a restore, and retention keeps
  the newest. Edit_Patch is the plan and the execution of a patch, with \<open>mutation_safety.go\<close>;
  Edit_Replace is \<open>search_replace_match.go\<close>, three tiers of which the first two compute
  \<open>strings.ReplaceAll\<close>, as it is and up to line endings, and all of which keep what they do not
  match. Edit_Tools is the tool itself: writing with a digest, replacing, restoring, and the
  detail that permission rules see; whatever an edit did, the restore of its checkpoint undoes.

  The conversation. Chat_Message is \<open>proton-sdk/domain\<close> (\<open>message.go\<close>, \<open>request.go\<close>): messages,
  requests and their validation; \<open>protocol_ok\<close> says that each message that requests tools is
  followed by exactly one result for each call. Historical_Text and Conversation are
  \<open>internal/core/conversation\<close>: old exchanges with tools become texts, the oldest spans of messages
  are dropped until a limit holds; the order of requests and results is kept, and no more is
  dropped than needed. Context_Budget is \<open>context_budget.go\<close> with the policies of
  \<open>internal/core/modelprofile\<close>: what compaction aims at is what the final check asks for.

  The turn. Turn_Stream is \<open>model_stream.go\<close>, Turn_Request \<open>round_request.go\<close> and \<open>tool_dispatch.go\<close>,
  Turn_Round \<open>round_execution.go\<close>, \<open>tool_execution.go\<close> and \<open>round_result.go\<close>, Turn_Loop
  \<open>loop.go\<close>, \<open>loop_options.go\<close> and what it uses of \<open>loop_support.go\<close> and \<open>runtime_context.go\<close>.
  What surrounds the loop is the record \<open>turn_world\<close> of functions on a state of its own: the model's
  streams, the sink, the service of calls, the contexts and their errors, fresh message ids, the
  runtime context; what the loop was built with is \<open>turn_config\<close>. A stream is the list of what its
  \<open>Next\<close> gives. The calls of a concurrent round, which only read, run one at a time in an order the
  world chooses, and may be left out when the context ends. \<open>run_turn\<close> takes one unit of fuel a
  round, and \<open>turn_returns\<close> shows that two more than the hard limit on calls are enough.
  Turn_Trace holds the locale \<open>turn_trace\<close>: a relation between states of the world that every
  operation of the world keeps is kept by a whole turn. Turn_Trace interprets it on counted calls,
  Turn_Service on the model of \<open>Service.call\<close>, which carries its permissions over to turns.
  Turn_Protocol is the order of messages in what a turn sends and returns.

  How it is modelled. Errors are values of a sum type; a Go map is a map or an association list
  with distinct keys; machine words are kept where they can wrap (revisions, event versions,
  sequence numbers are \<open>64 word\<close>); times are natural numbers, 0 the zero time. Loops are
  structural or have a termination proof; \<open>Service.call\<close> calls itself at most once, through
  recovery, and takes the depth as its argument as the program does, so no fuel is needed.
  Code outside the repository is a parameter: handlers, prompts, guards, schema validators, JSON
  decoding, SHA-256, URL hosts, the appends of the journal.

  Properties marked as showing a defect are closed statements: an input and what the program
  does with it.

  Not modelled: user interfaces, providers and their retries, file and process I/O, telemetry; the
  instants of deadlines (that a context has ended is a value); the goroutine that runs an agent,
  its results and the waiting for them; rendering of the system prompt, discovery of skills,
  preparation of images, schemas of tools, encoding and decoding of JSON (functions of the
  environment where the program decides by them); products with ratios in floating point, which
  are a function of the environment; errors that wrap other errors; messages of errors; memory,
  sessions and the tables of models.
\<close>

end
